(* ===== verification/Prelude.thy ===== *)
theory Prelude
  imports Main "HOL-Library.AList" "HOL-Library.Word" "HOL-Library.Multiset"
begin

text \<open>
  The vocabulary shared by the component theories: the types of instants, durations, packet
  identifiers and byte strings; the saturating and wrapping operations of Rust's \<open>usize\<close>/\<open>u64\<close>;
  hash maps as association lists with distinct keys, with the facts about sizes and sums over
  them; and the locale \<open>machine\<close> of a state type with operations that keep an invariant, which
  every component interprets.
\<close>

section \<open>Types\<close>

text \<open>Instants and durations count nanoseconds from an arbitrary origin, as \<open>std::time\<close> does.\<close>

type_synonym instant = nat

type_synonym duration = nat

type_synonym packet_id = "32 word"

type_synonym bytes = "8 word list"

text \<open>A hash map is an association list; the order of the list stands for the iteration order.\<close>

type_synonym ('k, 'v) hash_map = "('k \<times> 'v) list"

named_theorems model_defs \<open>definitions of operations, unfolded by the component proofs\<close>

section \<open>Durations\<close>

definition from_secs :: "nat \<Rightarrow> duration" where
  "from_secs n = n * 1000000000"

definition from_millis :: "nat \<Rightarrow> duration" where
  "from_millis n = n * 1000000"

text \<open>\<open>Duration::MAX\<close>: 2^64 - 1 seconds and 999999999 nanoseconds.\<close>

definition duration_max :: duration where
  "duration_max = 2 ^ 64 * 1000000000 - 1"

definition duration_saturating_add :: "duration \<Rightarrow> duration \<Rightarrow> duration" where
  "duration_saturating_add d e = min (d + e) duration_max"

definition duration_saturating_mul :: "duration \<Rightarrow> nat \<Rightarrow> duration" where
  "duration_saturating_mul d n = min (d * n) duration_max"

section \<open>Machine integers\<close>

text \<open>\<open>usize::MAX\<close> and \<open>u64::MAX\<close> on a 64-bit target, and the saturating operations.\<close>

definition u64_max :: nat where
  "u64_max = 2 ^ 64 - 1"

definition u32_max :: nat where
  "u32_max = 2 ^ 32 - 1"

definition sat_add64 :: "nat \<Rightarrow> nat \<Rightarrow> nat" where
  "sat_add64 a b = min (a + b) u64_max"

definition sat_mul64 :: "nat \<Rightarrow> nat \<Rightarrow> nat" where
  "sat_mul64 a b = min (a * b) u64_max"

definition sat_add32 :: "nat \<Rightarrow> nat \<Rightarrow> nat" where
  "sat_add32 a b = min (a + b) u32_max"

text \<open>\<open>fetch_add\<close> on an \<open>AtomicU64\<close>/\<open>AtomicUsize\<close> wraps around.\<close>

definition wrap_add64 :: "nat \<Rightarrow> nat \<Rightarrow> nat" where
  "wrap_add64 a b = (a + b) mod 2 ^ 64"

text \<open>\<open>usize::div_ceil\<close>.\<close>

definition div_ceil :: "nat \<Rightarrow> nat \<Rightarrow> nat" where
  "div_ceil a b = (if a mod b = 0 then a div b else a div b + 1)"

lemma sat_add64_le: "sat_add64 a b \<le> u64_max"
  by (simp add: sat_add64_def)

lemma sat_add32_le: "sat_add32 a b \<le> u32_max"
  by (simp add: sat_add32_def)

lemma wrap_add64_small: "a + b < 2 ^ 64 \<Longrightarrow> wrap_add64 a b = a + b"
  by (simp add: wrap_add64_def)

lemma div_ceil_0 [simp]: "div_ceil 0 b = 0"
  by (simp add: div_ceil_def)

lemma div_ceil_mult_ge:
  assumes "0 < b"
  shows "a \<le> div_ceil a b * b"
proof -
  have eq: "a div b * b + a mod b = a" by (rule div_mult_mod_eq)
  have lt: "a mod b < b" using assms by simp
  show ?thesis
  proof (cases "a mod b = 0")
    case True
    then have "a div b * b = a" using eq by linarith
    then show ?thesis using True by (simp add: div_ceil_def)
  next
    case False
    have "a \<le> (a div b + 1) * b" using eq lt by (simp only: add_mult_distrib mult_1)
    then show ?thesis using False by (simp add: div_ceil_def)
  qed
qed

lemma div_ceil_mult_less:
  assumes "0 < b" "0 < a"
  shows "(div_ceil a b - 1) * b < a"
proof -
  have eq: "a div b * b + a mod b = a" by (rule div_mult_mod_eq)
  show ?thesis
  proof (cases "a mod b = 0")
    case True
    then have full: "a div b * b = a" using eq by linarith
    then have "0 < a div b" using assms(2) by (cases "a div b") auto
    then have "(a div b - 1) * b < a div b * b" using assms(1) by simp
    then show ?thesis using True full by (simp add: div_ceil_def)
  next
    case False
    then have "a div b * b < a" using eq by linarith
    then show ?thesis using False by (simp only: div_ceil_def if_False add_diff_cancel_right')
  qed
qed

lemma div_ceil_pos: "0 < b \<Longrightarrow> 0 < a \<Longrightarrow> 0 < div_ceil a b"
  using div_ceil_mult_ge[of b a] by (cases "div_ceil a b") auto

section \<open>Hash maps\<close>

definition keys :: "('k, 'v) hash_map \<Rightarrow> 'k set" where
  "keys m = fst ` set m"

definition map_ok :: "('k, 'v) hash_map \<Rightarrow> bool" where
  "map_ok m \<longleftrightarrow> distinct (map fst m)"

definition contains_key :: "('k, 'v) hash_map \<Rightarrow> 'k \<Rightarrow> bool" where
  "contains_key m k \<longleftrightarrow> map_of m k \<noteq> None"

text \<open>The sum of a measure of the values of a map.\<close>

definition value_sum :: "('v \<Rightarrow> nat) \<Rightarrow> ('k, 'v) hash_map \<Rightarrow> nat" where
  "value_sum f m = sum_list (map (f \<circ> snd) m)"

lemma contains_key_iff: "contains_key m k \<longleftrightarrow> k \<in> keys m"
  by (force simp: contains_key_def keys_def map_of_eq_None_iff)

lemma map_of_keys: "map_of m k = None \<longleftrightarrow> k \<notin> keys m"
  by (simp add: keys_def map_of_eq_None_iff)

lemma keys_Nil [simp]: "keys [] = {}"
  by (simp add: keys_def)

lemma keys_Cons [simp]: "keys (p # m) = insert (fst p) (keys m)"
  by (simp add: keys_def)

lemma keys_append [simp]: "keys (m @ n) = keys m \<union> keys n"
  by (simp add: keys_def image_Un)

lemma finite_keys [simp]: "finite (keys m)"
  by (simp add: keys_def)

lemma keys_update [simp]: "keys (AList.update k v m) = insert k (keys m)"
  by (simp add: keys_def dom_update)

lemma keys_delete [simp]: "keys (AList.delete k m) = keys m - {k}"
  by (induction m) auto

lemma map_ok_Nil [simp]: "map_ok []"
  by (simp add: map_ok_def)

lemma map_ok_Cons [simp]: "map_ok (p # m) \<longleftrightarrow> fst p \<notin> keys m \<and> map_ok m"
  by (simp add: map_ok_def keys_def)

lemma map_ok_update [simp]: "map_ok m \<Longrightarrow> map_ok (AList.update k v m)"
  by (simp add: map_ok_def distinct_update)

lemma map_ok_delete [simp]: "map_ok m \<Longrightarrow> map_ok (AList.delete k m)"
  by (simp add: map_ok_def distinct_delete)

lemma map_ok_filter [simp]: "map_ok m \<Longrightarrow> map_ok (filter P m)"
  by (simp add: map_ok_def distinct_map_filter)

lemma map_of_update [simp]: "map_of (AList.update k v m) = (map_of m)(k \<mapsto> v)"
  by (rule update_conv')

lemma map_of_delete [simp]: "map_of (AList.delete k m) = (map_of m)(k := None)"
  by (rule delete_conv')

lemma map_of_filter: "map_ok m \<Longrightarrow>
    map_of (filter (\<lambda>(k, v). P k v) m) k =
      (case map_of m k of None \<Rightarrow> None | Some v \<Rightarrow> if P k v then Some v else None)"
  by (induction m) (auto simp: keys_def split: option.splits dest: map_of_SomeD intro: rev_image_eqI)

lemma length_map_ok: "map_ok m \<Longrightarrow> length m = card (keys m)"
  unfolding map_ok_def keys_def by (metis distinct_card length_map list.set_map)

lemma delete_notin [simp]: "k \<notin> keys m \<Longrightarrow> AList.delete k m = m"
  by (simp add: keys_def delete_idem)

lemma update_notin: "k \<notin> keys m \<Longrightarrow> AList.update k v m = m @ [(k, v)]"
  by (induction m) auto

lemma delete_update_same [simp]: "AList.delete k (AList.update k v m) = AList.delete k m"
  by (induction m) auto

lemma length_delete: "map_ok m \<Longrightarrow>
    length (AList.delete k m) = (if k \<in> keys m then length m - 1 else length m)"
  by (simp add: length_map_ok)

lemma length_update: "map_ok m \<Longrightarrow>
    length (AList.update k v m) = (if k \<in> keys m then length m else length m + 1)"
  by (simp add: length_map_ok insert_absorb)

lemma value_sum_Nil [simp]: "value_sum f [] = 0"
  by (simp add: value_sum_def)

lemma value_sum_Cons [simp]: "value_sum f (p # m) = f (snd p) + value_sum f m"
  by (simp add: value_sum_def)

lemma value_sum_append [simp]: "value_sum f (m @ n) = value_sum f m + value_sum f n"
  by (simp add: value_sum_def)

lemma value_sum_delete: "map_ok m \<Longrightarrow> map_of m k = Some v \<Longrightarrow>
    value_sum f m = f v + value_sum f (AList.delete k m)"
  by (induction m) (auto split: if_splits)

lemma value_sum_update_new: "k \<notin> keys m \<Longrightarrow> value_sum f (AList.update k v m) = value_sum f m + f v"
  by (simp add: update_notin)

lemma value_sum_update_same: "map_ok m \<Longrightarrow> map_of m k = Some w \<Longrightarrow> f v = f w \<Longrightarrow>
    value_sum f (AList.update k v m) = value_sum f m"
  by (induction m) (auto split: if_splits)

lemma value_sum_ge: "map_of m k = Some v \<Longrightarrow> f v \<le> value_sum f m"
  by (induction m) (auto split: if_splits)

section \<open>Machines that keep an invariant\<close>

text \<open>
  A component is a state type with operations; \<open>step e s\<close> runs the operation \<open>e\<close>. The law is that
  every admissible operation keeps the invariant, and the consequence is that any sequence of them
  does, from any state in which it holds.
\<close>

locale machine =
  fixes step :: "'e \<Rightarrow> 's \<Rightarrow> 's"
    and ok :: "'e \<Rightarrow> bool"
    and inv :: "'s \<Rightarrow> bool"
  assumes step_inv: "ok e \<Longrightarrow> inv s \<Longrightarrow> inv (step e s)"
begin

lemma fold_inv: "list_all ok es \<Longrightarrow> inv s \<Longrightarrow> inv (fold step es s)"
  by (induction es arbitrary: s) (auto intro: step_inv)

end

text \<open>
  A component that reads a clock: each operation comes with the instant at which it runs, the
  invariant may mention the current instant, and time passing alone does not break it. A sequence of
  operations with non-decreasing instants then keeps the invariant at its last instant.
\<close>

locale timed_machine =
  fixes step :: "instant \<times> 'e \<Rightarrow> 's \<Rightarrow> 's"
    and inv :: "instant \<Rightarrow> 's \<Rightarrow> bool"
  assumes inv_mono: "inv t s \<Longrightarrow> t \<le> t' \<Longrightarrow> inv t' s"
    and step_inv: "inv now s \<Longrightarrow> inv now (step (now, e) s)"
begin

lemma timed_fold_inv: "sorted (map fst es) \<Longrightarrow> \<forall>e \<in> set es. t0 \<le> fst e \<Longrightarrow> inv t0 s \<Longrightarrow>
    inv (if es = [] then t0 else fst (last es)) (fold step es s)"
proof (induction es arbitrary: t0 s)
  case (Cons e es)
  have "inv (fst e) (step e s)"
    using step_inv[of "fst e" s "snd e"] inv_mono[of t0 s "fst e"] Cons.prems by simp
  then show ?case using Cons.IH[of "fst e" "step e s"] Cons.prems by auto
qed simp

lemma timed_run: "sorted (map fst es) \<Longrightarrow> inv 0 s \<Longrightarrow> \<exists>t. inv t (fold step es s)"
  using timed_fold_inv[of es 0 s] by auto

end

text \<open>
  A component that implements a specification: each operation keeps the invariant and does to the abstract
  view of the state what the specification says. Then so does any sequence of operations.
\<close>

locale functional_refinement =
  fixes step :: "'e \<Rightarrow> 's \<Rightarrow> 's"
    and spec :: "'e \<Rightarrow> 'a \<Rightarrow> 'a"
    and view :: "'s \<Rightarrow> 'a"
    and inv :: "'s \<Rightarrow> bool"
  assumes keeps_inv: "inv s \<Longrightarrow> inv (step e s)"
    and step_view: "inv s \<Longrightarrow> view (step e s) = spec e (view s)"
begin

lemma run_view: "inv s \<Longrightarrow> view (fold step es s) = fold spec es (view s)"
  by (induction es arbitrary: s) (auto simp: keeps_inv step_view)

end

sublocale functional_refinement \<subseteq> mach: machine step "\<lambda>_. True" inv
  by unfold_locales (rule keeps_inv)

end
