(* ===== verification/Float64.thy ===== *)
theory Float64
  imports Prelude Complex_Main "HOL-Library.Log_Nat"
begin

text \<open>
  Rust's \<open>f64\<close> on finite values, as exact rationals rounded to IEEE 754 binary64 with ties to even:
  every arithmetic operation is the exact operation followed by \<open>f64_rnd\<close>. Subnormals are
  included; overflow to an infinity and NaN are outside the model (the arguments in this program
  stay below 2^64 and are never zero denominators; each use says so). The second half is the
  conversions between \<open>Duration\<close> and \<open>f64\<close> the program uses.
\<close>

section \<open>Rounding\<close>

text \<open>Round to the nearest integer, ties to the even one.\<close>

definition round_even :: "rat \<Rightarrow> int" where
  "round_even x =
    (let f = \<lfloor>x\<rfloor>; r = x - of_int f
     in if r < 1 / 2 then f else if 1 / 2 < r then f + 1 else if even f then f else f + 1)"

definition pow2 :: "int \<Rightarrow> rat" where
  "pow2 e = (if 0 \<le> e then 2 ^ nat e else 1 / 2 ^ nat (- e))"

text \<open>The binary exponent of a non-zero value: \<open>pow2 (rexp x) \<le> \<bar>x\<bar> < pow2 (rexp x + 1)\<close>.\<close>

definition rexp :: "rat \<Rightarrow> int" where
  "rexp x =
    (let (a, b) = quotient_of \<bar>x\<bar>;
         e = bitlen a - bitlen b
     in if \<bar>x\<bar> < pow2 e then e - 1 else e)"

text \<open>The distance of adjacent binary64 values around \<open>x\<close>; at least 2^-1074.\<close>

definition ulp :: "rat \<Rightarrow> rat" where
  "ulp x = pow2 (max (rexp x) (- 1022) - 52)"

definition f64_rnd :: "rat \<Rightarrow> rat" where
  "f64_rnd x = (if x = 0 then 0 else of_int (round_even (x / ulp x)) * ulp x)"

definition fadd :: "rat \<Rightarrow> rat \<Rightarrow> rat" where
  "fadd x y = f64_rnd (x + y)"

definition fsub :: "rat \<Rightarrow> rat \<Rightarrow> rat" where
  "fsub x y = f64_rnd (x - y)"

definition fmul :: "rat \<Rightarrow> rat \<Rightarrow> rat" where
  "fmul x y = f64_rnd (x * y)"

definition fdiv :: "rat \<Rightarrow> rat \<Rightarrow> rat" where
  "fdiv x y = f64_rnd (x / y)"

text \<open>\<open>n as f64\<close> for an unsigned integer.\<close>

definition nat_f64 :: "nat \<Rightarrow> rat" where
  "nat_f64 n = f64_rnd (of_nat n)"

text \<open>The values binary64 represents.\<close>

definition is_f64 :: "rat \<Rightarrow> bool" where
  "is_f64 x \<longleftrightarrow> f64_rnd x = x"

section \<open>Durations as seconds\<close>

text \<open>\<open>Duration::as_secs_f64\<close>: the whole seconds plus the nanoseconds over 10^9.\<close>

definition as_secs_f64 :: "duration \<Rightarrow> rat" where
  "as_secs_f64 d =
    fadd (nat_f64 (d div 1000000000)) (fdiv (nat_f64 (d mod 1000000000)) 1000000000)"

text \<open>\<open>Duration::from_secs_f64\<close> on a non-negative value: the nearest nanosecond, ties to even.\<close>

definition from_secs_f64 :: "rat \<Rightarrow> duration" where
  "from_secs_f64 x = nat (round_even (x * 1000000000))"

text \<open>\<open>Duration::mul_f64\<close>.\<close>

definition mul_f64 :: "duration \<Rightarrow> rat \<Rightarrow> duration" where
  "mul_f64 d q = from_secs_f64 (fmul q (as_secs_f64 d))"

section \<open>Rounding to integers\<close>

lemma round_even_of_int [simp]: "round_even (of_int n) = n"
  by (simp add: round_even_def)

lemma round_even_of_nat [simp]: "round_even (of_nat n) = int n"
  using round_even_of_int[of "int n"] by simp

lemma round_even_error: "\<bar>of_int (round_even x) - x\<bar> \<le> 1 / 2"
proof -
  define r where "r = x - of_int \<lfloor>x\<rfloor>"
  have r: "0 \<le> r" "r < 1" unfolding r_def by linarith+
  have "of_int (round_even x) - x = (if r < 1 / 2 then - r else if 1 / 2 < r then 1 - r
      else if even \<lfloor>x\<rfloor> then - r else 1 - r)"
    by (simp add: round_even_def Let_def r_def)
  then show ?thesis using r by (simp split: if_splits)
qed

lemma round_even_bounds: "of_int (round_even x) \<le> x + 1 / 2" "x - 1 / 2 \<le> of_int (round_even x)"
  using round_even_error[of x] by linarith+

lemma round_even_mono:
  assumes "x \<le> y"
  shows "round_even x \<le> round_even y"
proof (cases "\<lfloor>x\<rfloor> = \<lfloor>y\<rfloor>")
  case True
  then show ?thesis using assms by (auto simp: round_even_def Let_def)
next
  case False
  then have "\<lfloor>x\<rfloor> + 1 \<le> \<lfloor>y\<rfloor>" using floor_mono[OF assms] by linarith
  moreover have "round_even x \<le> \<lfloor>x\<rfloor> + 1" "\<lfloor>y\<rfloor> \<le> round_even y"
    by (auto simp: round_even_def Let_def)
  ultimately show ?thesis by linarith
qed

lemma round_even_minus: "round_even (- x) = - round_even x"
proof (cases "x = of_int \<lfloor>x\<rfloor>")
  case True
  have "round_even (of_int (- \<lfloor>x\<rfloor>)) = - round_even (of_int \<lfloor>x\<rfloor>)"
    by (simp only: round_even_of_int)
  then show ?thesis using True by simp
next
  case False
  then have lt: "of_int \<lfloor>x\<rfloor> < x" using of_int_floor_le[of x] by linarith
  have fl: "\<lfloor>- x\<rfloor> = - \<lfloor>x\<rfloor> - 1"
  proof (rule floor_unique)
    show "of_int (- \<lfloor>x\<rfloor> - 1) \<le> - x" by simp linarith
    show "- x < of_int (- \<lfloor>x\<rfloor> - 1) + 1" using lt by simp
  qed
  define r where "r = x - of_int \<lfloor>x\<rfloor>"
  have "- x - of_int (- \<lfloor>x\<rfloor> - 1) = 1 - r" by (simp add: r_def)
  then have "round_even (- x) = (if 1 - r < 1 / 2 then - \<lfloor>x\<rfloor> - 1 else if 1 / 2 < 1 - r then - \<lfloor>x\<rfloor>
      else if even (- \<lfloor>x\<rfloor> - 1) then - \<lfloor>x\<rfloor> - 1 else - \<lfloor>x\<rfloor>)"
    by (simp only: round_even_def Let_def fl) simp
  moreover have "round_even x = (if r < 1 / 2 then \<lfloor>x\<rfloor> else if 1 / 2 < r then \<lfloor>x\<rfloor> + 1
      else if even \<lfloor>x\<rfloor> then \<lfloor>x\<rfloor> else \<lfloor>x\<rfloor> + 1)"
    by (simp only: round_even_def Let_def r_def)
  ultimately show ?thesis by (auto split: if_splits)
qed

section \<open>Powers of two and exponents\<close>

lemma pow2_powi: "pow2 e = 2 powi e"
  by (simp add: pow2_def power_int_def field_simps)

lemma pow2_pos [simp]: "0 < pow2 e"
  by (simp add: pow2_def)

lemma pow2_nonneg [simp]: "0 \<le> pow2 e"
  by (simp add: pow2_def)

lemma pow2_neq_0 [simp]: "pow2 e \<noteq> 0"
  by (simp add: pow2_def)

lemma pow2_add: "pow2 (a + b) = pow2 a * pow2 b"
  by (simp add: pow2_powi power_int_add)

lemma pow2_diff: "pow2 (a - b) = pow2 a / pow2 b"
  by (simp add: pow2_powi power_int_diff)

lemma pow2_mono: "a \<le> b \<Longrightarrow> pow2 a \<le> pow2 b"
  by (simp add: pow2_powi power_int_increasing)

lemma pow2_strict: "pow2 a < pow2 b \<longleftrightarrow> a < b"
proof (cases "a < b")
  case True
  then have "(2::rat) powi a < 2 powi b" by (intro power_int_strict_increasing) auto
  then show ?thesis using True by (simp add: pow2_powi)
next
  case False
  then show ?thesis using pow2_mono[of b a] by simp
qed

lemma pow2_nat: "pow2 (int n) = 2 ^ n"
  by (simp add: pow2_def)

lemma pow2_le_of_nat: "2 ^ (k - 1) \<le> m \<Longrightarrow> 0 < k \<Longrightarrow> pow2 (int k - 1) \<le> of_nat m"
proof -
  assume k: "0 < k" and "2 ^ (k - 1) \<le> m"
  have "int k - 1 = int (k - 1)" using k by simp
  then have "pow2 (int k - 1) = 2 ^ (k - 1)" by (simp only: pow2_nat)
  also have "\<dots> = of_nat (2 ^ (k - 1))" by (simp only: of_nat_power of_nat_numeral)
  also have "\<dots> \<le> of_nat m" using \<open>2 ^ (k - 1) \<le> m\<close> by (simp only: of_nat_le_iff)
  finally show ?thesis .
qed

lemma of_nat_less_pow2: "m < 2 ^ k \<Longrightarrow> of_nat m < pow2 (int k)"
proof -
  assume "m < 2 ^ k"
  then have "of_nat m < (of_nat (2 ^ k) :: rat)" by (simp only: of_nat_less_iff)
  then show ?thesis by (simp add: pow2_nat)
qed

lemma floorlog2_bounds:
  assumes "0 < m"
  shows "0 < floorlog 2 m" "2 ^ (floorlog 2 m - 1) \<le> m" "m < 2 ^ floorlog 2 m"
proof -
  have b: "1 < (2 :: nat)" by simp
  show "0 < floorlog 2 m" using assms floorlog_eq_zero_iff[of 2 m] by linarith
  show "2 ^ (floorlog 2 m - 1) \<le> m" "m < 2 ^ floorlog 2 m"
    using floorlog_bounds[OF assms b] by blast+
qed

lemma rexp_bounds:
  assumes "x \<noteq> 0"
  shows "pow2 (rexp x) \<le> \<bar>x\<bar>" "\<bar>x\<bar> < pow2 (rexp x + 1)"
proof -
  obtain a b where q: "quotient_of \<bar>x\<bar> = (a, b)" by fastforce
  have b: "0 < b" using quotient_of_denom_pos[OF q] .
  have eq: "\<bar>x\<bar> = of_int a / of_int b" using quotient_of_div[OF q] .
  have "0 < (of_int a :: rat) / of_int b" using eq assms by simp
  then have a: "0 < a" using b by (simp add: zero_less_divide_iff)
  define m n where "m = nat a" and "n = nat b"
  have mn: "0 < m" "0 < n" "\<bar>x\<bar> = of_nat m / of_nat n" using a b eq by (auto simp: m_def n_def)
  define i j where "i = floorlog 2 m" and "j = floorlog 2 n"
  note bounds = floorlog2_bounds[OF mn(1), folded i_def] floorlog2_bounds[OF mn(2), folded j_def]
  have mi: "pow2 (int i - 1) \<le> of_nat m" "of_nat m < pow2 (int i)"
    and nj: "pow2 (int j - 1) \<le> of_nat n" "of_nat n < pow2 (int j)"
    using bounds by (blast intro: pow2_le_of_nat of_nat_less_pow2)+
  have up: "\<bar>x\<bar> < pow2 (int i - int j + 1)"
  proof -
    have "\<bar>x\<bar> * pow2 (int j - 1) \<le> of_nat m"
      using mn nj(1) mult_left_mono[OF nj(1), of "\<bar>x\<bar>"] by simp
    also have "\<dots> < pow2 (int i - int j + 1) * pow2 (int j - 1)"
      using mi(2) by (simp flip: pow2_add)
    finally show ?thesis by simp
  qed
  have lo: "pow2 (int i - int j - 1) \<le> \<bar>x\<bar>"
  proof -
    have "pow2 (int i - int j - 1) * of_nat n \<le> pow2 (int i - int j - 1) * pow2 (int j)"
      using nj(2) by (intro mult_left_mono) auto
    also have "\<dots> \<le> of_nat m" using mi(1) by (simp flip: pow2_add)
    finally show ?thesis using mn by (simp add: le_divide_eq)
  qed
  have r: "rexp x = (if \<bar>x\<bar> < pow2 (int i - int j) then int i - int j - 1 else int i - int j)"
    by (simp add: rexp_def q m_def n_def i_def j_def bitlen_def)
  show "pow2 (rexp x) \<le> \<bar>x\<bar>" using lo r by (auto split: if_splits)
  show "\<bar>x\<bar> < pow2 (rexp x + 1)" using up r by (auto split: if_splits)
qed


lemma rexp_minus [simp]: "rexp (- x) = rexp x"
  by (simp add: rexp_def)

section \<open>Rounding to binary64\<close>

lemma ulp_pos [simp]: "0 < ulp x" "0 \<le> ulp x" "ulp x \<noteq> 0"
  by (simp_all add: ulp_def)

lemma f64_rnd_0 [simp]: "f64_rnd 0 = 0"
  by (simp add: f64_rnd_def)

lemma f64_rnd_minus: "f64_rnd (- x) = - f64_rnd x"
  by (simp add: f64_rnd_def ulp_def round_even_minus)

lemma f64_rnd_error: "\<bar>f64_rnd x - x\<bar> \<le> ulp x / 2"
proof (cases "x = 0")
  case False
  have "f64_rnd x - x = (of_int (round_even (x / ulp x)) - x / ulp x) * ulp x"
    using False by (simp add: f64_rnd_def left_diff_distrib)
  then have "\<bar>f64_rnd x - x\<bar> = \<bar>of_int (round_even (x / ulp x)) - x / ulp x\<bar> * ulp x"
    by (simp add: abs_mult abs_of_pos)
  also have "\<dots> \<le> 1 / 2 * ulp x"
    using round_even_error[of "x / ulp x"] by (intro mult_right_mono) auto
  finally show ?thesis by simp
qed (simp add: ulp_def)

text \<open>A non-negative value rounds within the binade of its (clamped) exponent.\<close>

lemma ulp_scaled:
  "of_int (2 ^ 53) * ulp x = pow2 (max (rexp x) (- 1022) + 1)"
  "of_int (2 ^ 52) * ulp x = pow2 (max (rexp x) (- 1022))"
  using pow2_add[of 53 "max (rexp x) (- 1022) - 52"] pow2_add[of 52 "max (rexp x) (- 1022) - 52"]
    pow2_nat[of 53] pow2_nat[of 52]
  by (simp_all add: ulp_def add.commute)

lemma f64_rnd_upper:
  assumes "0 < x"
  shows "f64_rnd x \<le> pow2 (max (rexp x) (- 1022) + 1)"
proof -
  let ?e = "max (rexp x) (- 1022)"
  have "x < pow2 (rexp x + 1)" using rexp_bounds[of x] assms by simp
  also have "\<dots> \<le> pow2 (?e + 1)" by (intro pow2_mono) simp
  finally have "x / ulp x \<le> of_int (2 ^ 53)" unfolding ulp_scaled(1)[symmetric]
    by (simp only: divide_le_eq ulp_pos if_True less_imp_le)
  then have "round_even (x / ulp x) \<le> 2 ^ 53" using round_even_mono round_even_of_int by metis
  then have "of_int (round_even (x / ulp x)) \<le> (of_int (2 ^ 53) :: rat)" by (simp only: of_int_le_iff)
  then have "of_int (round_even (x / ulp x)) * ulp x \<le> of_int (2 ^ 53) * ulp x"
    by (intro mult_right_mono ulp_pos)
  then show ?thesis using assms by (simp add: f64_rnd_def ulp_scaled(1)[simplified])
qed

lemma f64_rnd_lower:
  assumes "0 < x" "- 1022 \<le> rexp x"
  shows "pow2 (rexp x) \<le> f64_rnd x"
proof -
  have u: "of_int (2 ^ 52) * ulp x = pow2 (rexp x)" using assms(2) by (simp only: ulp_scaled max_absorb1)
  have "pow2 (rexp x) \<le> x" using rexp_bounds[of x] assms by simp
  then have "of_int (2 ^ 52) \<le> x / ulp x" unfolding u[symmetric]
    by (simp only: le_divide_eq ulp_pos if_True)
  then have "2 ^ 52 \<le> round_even (x / ulp x)" using round_even_mono round_even_of_int by metis
  then have "(of_int (2 ^ 52) :: rat) \<le> of_int (round_even (x / ulp x))" by (simp only: of_int_le_iff)
  then have "of_int (2 ^ 52) * ulp x \<le> of_int (round_even (x / ulp x)) * ulp x"
    by (intro mult_right_mono ulp_pos)
  then show ?thesis using assms unfolding u by (simp add: f64_rnd_def)
qed

lemma rexp_mono:
  assumes "0 < x" "x \<le> y"
  shows "rexp x \<le> rexp y"
proof -
  have "pow2 (rexp x) < pow2 (rexp y + 1)" using rexp_bounds[of x] rexp_bounds[of y] assms by simp
  then show ?thesis by (simp add: pow2_strict)
qed

lemma f64_rnd_mono_pos:
  assumes "0 < x" "x \<le> y"
  shows "f64_rnd x \<le> f64_rnd y"
proof (cases "max (rexp x) (- 1022) = max (rexp y) (- 1022)")
  case True
  then have u: "ulp x = ulp y" by (simp add: ulp_def)
  have "round_even (x / ulp y) \<le> round_even (y / ulp y)"
    using assms by (intro round_even_mono divide_right_mono) (auto simp: less_imp_le)
  then show ?thesis using assms u by (simp add: f64_rnd_def)
next
  case False
  then have e: "max (rexp x) (- 1022) + 1 \<le> rexp y" "- 1022 \<le> rexp y"
    using rexp_mono[OF assms] by linarith+
  have "f64_rnd x \<le> pow2 (max (rexp x) (- 1022) + 1)" using assms(1) by (rule f64_rnd_upper)
  also have "\<dots> \<le> pow2 (rexp y)" using e(1) by (rule pow2_mono)
  also have "\<dots> \<le> f64_rnd y" using assms e(2) by (intro f64_rnd_lower) auto
  finally show ?thesis .
qed

lemma f64_rnd_nonneg: "0 \<le> x \<Longrightarrow> 0 \<le> f64_rnd x"
proof (cases "x = 0")
  case False
  assume "0 \<le> x"
  then have "0 \<le> round_even (x / ulp x)"
    using round_even_mono[of 0 "x / ulp x"] round_even_of_int[of 0] by (simp add: less_imp_le)
  then show ?thesis by (simp add: f64_rnd_def less_imp_le)
qed simp

lemma f64_rnd_mono:
  assumes "x \<le> y"
  shows "f64_rnd x \<le> f64_rnd y"
proof -
  consider "0 < x" | "x \<le> 0" "0 \<le> y" | "y < 0" by linarith
  then show ?thesis
  proof cases
    case 1
    then show ?thesis using assms by (rule f64_rnd_mono_pos)
  next
    case 2
    then show ?thesis using f64_rnd_nonneg[of y] f64_rnd_nonneg[of "- x"] by (simp add: f64_rnd_minus)
  next
    case 3
    then show ?thesis using f64_rnd_mono_pos[of "- y" "- x"] assms by (simp add: f64_rnd_minus)
  qed
qed

text \<open>A rounding computed by hand: the exponent and the nearest multiple of the unit.\<close>

lemma rexp_eqI: "pow2 e \<le> \<bar>x\<bar> \<Longrightarrow> \<bar>x\<bar> < pow2 (e + 1) \<Longrightarrow> rexp x = e"
proof -
  assume e: "pow2 e \<le> \<bar>x\<bar>" "\<bar>x\<bar> < pow2 (e + 1)"
  then have "x \<noteq> 0" by (metis abs_zero pow2_pos leD)
  from rexp_bounds[OF this] e have "pow2 (rexp x) < pow2 (e + 1)" "pow2 e < pow2 (rexp x + 1)" by linarith+
  then show ?thesis by (simp add: pow2_strict)
qed

lemma round_even_eqI: "\<bar>y - of_int n\<bar> < 1 / 2 \<Longrightarrow> round_even y = n"
  using round_even_error[of y] by linarith

lemma f64_rnd_eqI:
  assumes "pow2 e \<le> x" "x < pow2 (e + 1)" "- 1022 \<le> e" "\<bar>x / pow2 (e - 52) - of_int n\<bar> < 1 / 2"
  shows "f64_rnd x = of_int n * pow2 (e - 52)"
proof -
  have x: "0 < x" using assms(1) pow2_pos[of e] by linarith
  then have "rexp x = e" using assms by (intro rexp_eqI) auto
  then have "ulp x = pow2 (e - 52)" using assms(3) by (simp add: ulp_def)
  then show ?thesis using x round_even_eqI[OF assms(4)] by (simp add: f64_rnd_def)
qed

section \<open>Representable values\<close>

lemma f64_rnd_multiple: "x = of_int n * ulp x \<Longrightarrow> f64_rnd x = x"
  by (metis f64_rnd_def nonzero_mult_div_cancel_right round_even_of_int ulp_pos(3))

lemma pow2_nonneg_int: "0 \<le> e \<Longrightarrow> pow2 e = of_int (2 ^ nat e)"
  by (simp add: pow2_def)

text \<open>An integer of at most 53 bits times a power of two is not changed by rounding.\<close>

lemma is_f64_scaled:
  assumes m: "\<bar>m\<bar> \<le> 2 ^ 53" and k: "- 1074 \<le> k"
  shows "is_f64 (of_int m * pow2 k)"
proof (cases "m = 0")
  case False
  let ?x = "of_int m * pow2 k"
  let ?u = "max (rexp ?x) (- 1022) - 52"
  have x: "?x \<noteq> 0" using False by simp
  have "\<bar>?x\<bar> = of_int \<bar>m\<bar> * pow2 k" by (simp add: abs_mult)
  also have "\<dots> \<le> of_int (2 ^ 53) * pow2 k" using m by (intro mult_right_mono) (simp_all only: of_int_le_iff pow2_nonneg)
  also have "\<dots> = pow2 (53 + k)" using pow2_add[of 53 k] pow2_nat[of 53] by simp
  finally have le: "\<bar>?x\<bar> \<le> pow2 (53 + k)" .
  then have "pow2 (rexp ?x) \<le> pow2 (53 + k)" using rexp_bounds(1)[OF x] by linarith
  then have e: "rexp ?x \<le> 53 + k" using pow2_strict[of "53 + k" "rexp ?x"] by linarith
  show ?thesis
  proof (cases "?u \<le> k")
    case True
    have "?x = of_int (m * 2 ^ nat (k - ?u)) * pow2 ?u"
      using True pow2_add[of "k - ?u" ?u] pow2_nonneg_int[of "k - ?u"] by simp
    then show ?thesis unfolding is_f64_def ulp_def[symmetric] by (rule f64_rnd_multiple)
  next
    case False
    then have top: "rexp ?x = 53 + k" "?u = k + 1" using k e by linarith+
    have "?x = of_int (sgn m * \<bar>m\<bar>) * pow2 k" by (simp only: sgn_mult_abs)
    also have "\<dots> = of_int (sgn m) * \<bar>?x\<bar>" by (simp add: abs_mult)
    also have "\<bar>?x\<bar> = pow2 (53 + k)" using rexp_bounds(1)[OF x] le top(1) by simp
    also have "\<dots> = of_int (2 ^ 52) * pow2 (k + 1)"
      using pow2_add[of 52 "k + 1"] pow2_nat[of 52] by simp
    finally have "?x = of_int (sgn m * 2 ^ 52) * pow2 (k + 1)" by simp
    then have "?x = of_int (sgn m * 2 ^ 52) * ulp ?x" unfolding ulp_def top(2) .
    then show ?thesis unfolding is_f64_def by (rule f64_rnd_multiple)
  qed
qed (simp add: is_f64_def)

lemma is_f64_of_nat: "n \<le> 2 ^ 53 \<Longrightarrow> is_f64 (of_nat n)"
  using is_f64_scaled[of "int n" 0] by (simp add: pow2_def)

lemma nat_f64_exact: "n \<le> 2 ^ 53 \<Longrightarrow> nat_f64 n = of_nat n"
  using is_f64_of_nat by (simp add: nat_f64_def is_f64_def)

lemma f64_rnd_le: "x \<le> c \<Longrightarrow> is_f64 c \<Longrightarrow> f64_rnd x \<le> c"
  using f64_rnd_mono[of x c] by (simp add: is_f64_def)

lemma f64_rnd_ge: "c \<le> x \<Longrightarrow> is_f64 c \<Longrightarrow> c \<le> f64_rnd x"
  using f64_rnd_mono[of c x] by (simp add: is_f64_def)

lemma is_f64_0_1 [simp]: "is_f64 0" "is_f64 1"
  using is_f64_of_nat[of 0] is_f64_of_nat[of 1] by simp_all

lemma f64_rnd_numeral: "f64_rnd 1 = 1" "(numeral n :: nat) \<le> 2 ^ 53 \<Longrightarrow> f64_rnd (numeral n) = numeral n"
  using is_f64_of_nat[of "numeral n"] is_f64_0_1(2) by (simp_all add: is_f64_def)

lemma is_f64_rnd [simp]: "is_f64 (f64_rnd x)"
proof -
  have pos: "is_f64 (f64_rnd x)" if "0 < x" for x
  proof -
    let ?n = "round_even (x / ulp x)"
    have "of_int ?n * ulp x \<le> of_int (2 ^ 53) * ulp x"
      using f64_rnd_upper[OF that] that unfolding ulp_scaled by (simp add: f64_rnd_def)
    then have "?n \<le> 2 ^ 53" by (simp only: mult_le_cancel_right_pos ulp_pos of_int_le_iff)
    moreover have "0 \<le> ?n" using round_even_mono[of 0 "x / ulp x"] round_even_of_int[of 0] that
      by (simp add: less_imp_le)
    ultimately have "is_f64 (of_int ?n * ulp x)"
      unfolding ulp_def by (intro is_f64_scaled) auto
    then show ?thesis using that by (simp add: f64_rnd_def)
  qed
  consider "0 < x" | "x = 0" | "0 < - x" by linarith
  then show ?thesis
  proof cases
    case 3
    then show ?thesis using pos[OF 3] by (simp add: f64_rnd_minus is_f64_def)
  qed (use pos in auto)
qed

lemma f64_rnd_idem [simp]: "f64_rnd (f64_rnd x) = f64_rnd x"
  using is_f64_rnd[of x] unfolding is_f64_def .

lemma nat_f64_mono: "m \<le> n \<Longrightarrow> nat_f64 m \<le> nat_f64 n"
  unfolding nat_f64_def by (intro f64_rnd_mono) simp

lemma nat_f64_nonneg [simp]: "0 \<le> nat_f64 n"
  unfolding nat_f64_def by (intro f64_rnd_nonneg) simp

lemma nat_f64_0 [simp]: "nat_f64 0 = 0"
  by (simp add: nat_f64_def)

lemma is_f64_nat_f64 [simp]: "is_f64 (nat_f64 n)"
  by (simp add: nat_f64_def)

lemma fops_nonneg:
  "0 \<le> x \<Longrightarrow> 0 \<le> y \<Longrightarrow> 0 \<le> fadd x y"
  "0 \<le> x \<Longrightarrow> 0 \<le> y \<Longrightarrow> 0 \<le> fmul x y"
  "0 \<le> x \<Longrightarrow> 0 \<le> y \<Longrightarrow> 0 \<le> fdiv x y"
  by (simp_all add: fadd_def fmul_def fdiv_def f64_rnd_nonneg)

lemma as_secs_f64_nonneg [simp]: "0 \<le> as_secs_f64 d"
  by (simp add: as_secs_f64_def fops_nonneg)

lemma is_f64_half [simp]: "is_f64 (1 / 2)"
  using is_f64_scaled[of 1 "- 1"] by (simp add: pow2_def)

lemma is_f64_minus: "is_f64 (- x) \<longleftrightarrow> is_f64 x"
  by (simp add: is_f64_def f64_rnd_minus)

text \<open>Doubles are integers of 53 bits, scaled.\<close>

lemma is_f64_form:
  assumes "is_f64 x"
  obtains m k where "x = of_int m * pow2 k" "\<bar>m\<bar> \<le> 2 ^ 53" "- 1074 \<le> k"
proof (cases "x = 0")
  case True
  then show ?thesis by (intro that[of 0 0]) simp_all
next
  case False
  let ?k = "max (rexp x) (- 1022) - 52"
  let ?m = "round_even (x / ulp x)"
  have x: "x = of_int ?m * pow2 ?k" using assms False by (simp add: is_f64_def f64_rnd_def ulp_def)
  have "\<bar>x\<bar> < pow2 (max (rexp x) (- 1022) + 1)"
    using rexp_bounds(2)[OF False] pow2_mono[of "rexp x + 1" "max (rexp x) (- 1022) + 1"] by simp
  also have "\<dots> = 2 ^ 53 * pow2 ?k" using pow2_add[of 53 ?k] pow2_nat[of 53] by (simp add: add.commute)
  finally have "of_int \<bar>?m\<bar> * pow2 ?k < of_int (2 ^ 53) * pow2 ?k"
    using arg_cong[OF x, of abs] by (simp add: abs_mult)
  then have "\<bar>?m\<bar> < 2 ^ 53" using pow2_pos[of ?k] by (simp only: mult_less_cancel_right_pos of_int_less_iff)
  then show ?thesis using x by (intro that[of ?m ?k]) simp_all
qed

lemma is_f64_frac:
  assumes "is_f64 x" "0 \<le> x"
  shows "is_f64 (x - of_int \<lfloor>x\<rfloor>)"
proof -
  obtain m k where x: "x = of_int m * pow2 k" "\<bar>m\<bar> \<le> 2 ^ 53" "- 1074 \<le> k" by (rule is_f64_form[OF assms(1)])
  show ?thesis
  proof (cases "0 \<le> k")
    case True
    then have "x = of_int (m * 2 ^ nat k)" by (simp add: x(1) pow2_def)
    then show ?thesis by simp
  next
    case False
    let ?q = "2 ^ nat (- k) :: int"
    have p: "pow2 k = 1 / of_int ?q" using False by (simp add: pow2_def)
    have m: "0 \<le> m" using assms(2) pow2_pos[of k] by (simp add: x(1) zero_le_mult_iff)
    have "\<lfloor>x\<rfloor> = m div ?q" using floor_divide_of_int_eq[of m ?q, where 'a = rat] by (simp add: x(1) p)
    moreover have "of_int (m div ?q) * of_int ?q + of_int (m mod ?q) = (of_int m :: rat)"
      by (simp only: of_int_mult[symmetric] of_int_add[symmetric] div_mult_mod_eq)
    ultimately have "x - of_int \<lfloor>x\<rfloor> = of_int (m mod ?q) * pow2 k"
      by (simp add: x(1) p field_simps)
    moreover have "\<bar>m mod ?q\<bar> \<le> 2 ^ 53" using m x(2) zmod_le_nonneg_dividend[of m ?q] by simp
    ultimately show ?thesis using is_f64_scaled[OF _ x(3), of "m mod ?q"] by simp
  qed
qed

end
