(* ===== verification/Sent_Packet_Tracker.thy ===== *)
theory Sent_Packet_Tracker
  imports Float64
begin

text \<open>
  The send-side bookkeeping of a connection, \<open>transport/sent_packet_tracker.rs\<close>: packets in
  flight, the resend queue, RTT estimation (RFC 6298), tail loss probes and the abandonment of
  packets whose receipts never come. The type variable \<open>'tok\<close> stands for the delivery-rate token
  of the congestion controller, which the tracker stores and hands back unread. Send times and
  deadlines are \<open>u64\<close> nanoseconds and do not overflow within the lifetime of a process; they are
  natural numbers here, except where the code truncates explicitly.
\<close>

section \<open>Data\<close>

type_synonym stream_id = "32 word"

datatype PacketStream = Stream stream_id | Control

definition NETWORK_DELAY_ALLOWANCE :: duration where
  "NETWORK_DELAY_ALLOWANCE = from_millis 500"

definition MAX_CONFIRMATION_DELAY :: duration where
  "MAX_CONFIRMATION_DELAY = from_millis 100"

definition MESSAGE_CONFIRMATION_TIMEOUT :: duration where
  "MESSAGE_CONFIRMATION_TIMEOUT =
    from_millis (MAX_CONFIRMATION_DELAY div 1000000 + NETWORK_DELAY_ALLOWANCE div 1000000)"

definition MAX_RTO_BACKOFF :: nat where
  "MAX_RTO_BACKOFF = 512"

definition MAX_PACKET_RETRANSMITS :: nat where
  "MAX_PACKET_RETRANSMITS = 12"

definition MIN_RTO :: duration where
  "MIN_RTO = from_millis 500"

definition MIN_TLP_TIMEOUT :: duration where
  "MIN_TLP_TIMEOUT = from_millis 10"

definition PACKET_LOSS_DECAY_FACTOR :: rat where
  "PACKET_LOSS_DECAY_FACTOR = fdiv 1 1000"

text \<open>Payload, send time, delivery token, plaintext size.\<close>

type_synonym 'tok pending_entry = "bytes \<times> nat \<times> 'tok option \<times> nat"

definition entry_size :: "'tok pending_entry \<Rightarrow> nat" where
  "entry_size e = (case e of (_, _, _, packet_size) \<Rightarrow> packet_size)"

definition entry_time :: "'tok pending_entry \<Rightarrow> nat" where
  "entry_time e = (case e of (_, ts, _, _) \<Rightarrow> ts)"

datatype ResendAction =
    WaitUntil nat
  | Resend packet_id bytes
  | TlpProbe packet_id bytes
  | Abandon packet_id nat

record 'tok SentPacketTracker =
  pending_receipts :: "(packet_id, 'tok pending_entry) hash_map"
  resend_queue :: "packet_id list"
  packet_loss_proportion :: rat
  srtt :: "duration option"
  rttvar :: duration
  min_rtt :: duration
  rto :: duration
  retransmitted_packets :: "packet_id set"
  total_packets_sent :: nat
  rto_backoff :: nat
  tlp_sent_packets :: "packet_id set"
  retransmit_counts :: "(packet_id, nat) hash_map"
  packet_streams :: "(packet_id, PacketStream) hash_map"

section \<open>Operations\<close>

definition spt_new :: "'tok SentPacketTracker" where
  "spt_new = \<lparr>pending_receipts = [], resend_queue = [], packet_loss_proportion = 0,
     srtt = None, rttvar = from_secs 0, min_rtt = from_millis 100, rto = from_secs 1,
     retransmitted_packets = {}, total_packets_sent = 0, rto_backoff = 1,
     tlp_sent_packets = {}, retransmit_counts = [], packet_streams = []\<rparr>"

definition probe_timeout :: "'tok SentPacketTracker \<Rightarrow> duration option" where
  "probe_timeout s = map_option (\<lambda>x. max (duration_saturating_mul x 2) MIN_TLP_TIMEOUT) (srtt s)"

definition report_sent_packet_inner :: "nat \<Rightarrow> packet_id \<Rightarrow> bytes \<Rightarrow> 'tok option \<Rightarrow> PacketStream \<Rightarrow> nat \<Rightarrow>
    'tok SentPacketTracker \<Rightarrow> 'tok SentPacketTracker" where
  "report_sent_packet_inner now packet_id payload token stream packet_size s =
    (case map_of (pending_receipts s) packet_id of
       Some (_, _, _, old_size) \<Rightarrow>
         s\<lparr>pending_receipts :=
             AList.update packet_id (payload, now, token, old_size) (pending_receipts s)\<rparr>
     | None \<Rightarrow>
         s\<lparr>pending_receipts :=
             AList.update packet_id (payload, now, token, packet_size) (pending_receipts s),
           packet_streams := AList.update packet_id stream (packet_streams s),
           resend_queue := resend_queue s @ [packet_id],
           total_packets_sent := total_packets_sent s + 1\<rparr>)"

definition report_sent_packet_with_token_and_size :: "nat \<Rightarrow> packet_id \<Rightarrow> bytes \<Rightarrow> 'tok option \<Rightarrow> nat \<Rightarrow>
    'tok SentPacketTracker \<Rightarrow> 'tok SentPacketTracker" where
  "report_sent_packet_with_token_and_size now packet_id payload token packet_size s =
    report_sent_packet_inner now packet_id payload token
      (case map_of (packet_streams s) packet_id of None \<Rightarrow> Control | Some st \<Rightarrow> st) packet_size s"

definition report_sent_packet :: "nat \<Rightarrow> packet_id \<Rightarrow> bytes \<Rightarrow>
    'tok SentPacketTracker \<Rightarrow> 'tok SentPacketTracker" where
  "report_sent_packet now packet_id payload s =
    report_sent_packet_with_token_and_size now packet_id payload None (length payload) s"

definition report_sent_stream_packet_with_size :: "nat \<Rightarrow> packet_id \<Rightarrow> bytes \<Rightarrow> 'tok option \<Rightarrow> stream_id \<Rightarrow>
    nat \<Rightarrow> 'tok SentPacketTracker \<Rightarrow> 'tok SentPacketTracker" where
  "report_sent_stream_packet_with_size now packet_id payload token stream_id packet_size s =
    report_sent_packet_inner now packet_id payload token (Stream stream_id) packet_size s"

definition refresh_sent_packet :: "nat \<Rightarrow> packet_id \<Rightarrow> bytes \<Rightarrow> 'tok option \<Rightarrow>
    'tok SentPacketTracker \<Rightarrow> bool \<times> 'tok SentPacketTracker" where
  "refresh_sent_packet now packet_id payload token s =
    (case map_of (pending_receipts s) packet_id of
       Some (_, _, _, packet_size) \<Rightarrow>
         (True, s\<lparr>pending_receipts :=
             AList.update packet_id (payload, now, token, packet_size) (pending_receipts s)\<rparr>)
     | None \<Rightarrow> (False, s))"

text \<open>The five structures a packet leaves when it is acknowledged, abandoned or dropped.\<close>

definition forget_packet :: "packet_id \<Rightarrow> 'tok SentPacketTracker \<Rightarrow> 'tok SentPacketTracker" where
  "forget_packet p s =
    s\<lparr>pending_receipts := AList.delete p (pending_receipts s),
      retransmitted_packets := retransmitted_packets s - {p},
      tlp_sent_packets := tlp_sent_packets s - {p},
      retransmit_counts := AList.delete p (retransmit_counts s),
      packet_streams := AList.delete p (packet_streams s)\<rparr>"

text \<open>The body of the \<open>for\<close> loop of \<open>drop_stream\<close>, with \<open>released_bytes\<close> threaded through.\<close>

fun drop_packets :: "packet_id list \<Rightarrow> nat \<times> 'tok SentPacketTracker \<Rightarrow> nat \<times> 'tok SentPacketTracker" where
  "drop_packets [] rs = rs"
| "drop_packets (p # ps) (released, s) =
    drop_packets ps
      (case map_of (pending_receipts s) p of
         Some e \<Rightarrow> sat_add64 released (entry_size e) | None \<Rightarrow> released,
       forget_packet p s)"

definition drop_stream :: "stream_id \<Rightarrow> 'tok SentPacketTracker \<Rightarrow> nat \<times> 'tok SentPacketTracker" where
  "drop_stream stream_id s =
    (let owned = map fst (filter (\<lambda>(pid, stream). stream = Stream stream_id) (packet_streams s))
     in if owned = [] then (0, s)
        else let (released, s') = drop_packets owned (0, s)
             in (released, s'\<lparr>resend_queue := filter (\<lambda>p. p \<notin> set owned) (resend_queue s')\<rparr>))"

definition contains_packet :: "packet_id \<Rightarrow> 'tok SentPacketTracker \<Rightarrow> bool" where
  "contains_packet packet_id s = contains_key (pending_receipts s) packet_id"

text \<open>RTT estimation (RFC 6298 with the clamp to [500ms, 60s]).\<close>

definition update_rtt :: "duration \<Rightarrow> 'tok SentPacketTracker \<Rightarrow> 'tok SentPacketTracker" where
  "update_rtt sample s =
    (let s1 = (case srtt s of
                 None \<Rightarrow> s\<lparr>srtt := Some sample, rttvar := sample div 2, min_rtt := sample\<rparr>
               | Some sr \<Rightarrow>
                   let abs_diff = (if sample < sr then sr - sample else sample - sr)
                   in s\<lparr>rttvar := mul_f64 (rttvar s) (fsub 1 (1 / 4)) + mul_f64 abs_diff (1 / 4),
                        srtt := Some (mul_f64 sr (fsub 1 (1 / 8)) + mul_f64 sample (1 / 8)),
                        min_rtt := min (min_rtt s) sample\<rparr>);
         rto_variance = rttvar s1 * 4;
         max_variance = (if rto_variance > from_millis 10 then rto_variance else from_millis 10);
         r = (case srtt s1 of None \<Rightarrow> from_secs 1 | Some sr \<Rightarrow> sr) + max_variance
     in s1\<lparr>rto := if r < MIN_RTO then MIN_RTO else if r > from_secs 60 then from_secs 60 else r\<rparr>)"

text \<open>One receipt: the body of the \<open>for\<close> loop of \<open>report_received_receipts\<close>.\<close>

definition receipt_step :: "nat \<Rightarrow> packet_id \<Rightarrow>
    (duration option \<times> nat \<times> 'tok option) list \<times> 'tok SentPacketTracker \<Rightarrow>
    (duration option \<times> nat \<times> 'tok option) list \<times> 'tok SentPacketTracker" where
  "receipt_step now packet_id = (\<lambda>(ack_info, s0).
    let s = s0\<lparr>packet_loss_proportion :=
                fadd (fmul (packet_loss_proportion s0) (fsub 1 PACKET_LOSS_DECAY_FACTOR))
                     (fmul PACKET_LOSS_DECAY_FACTOR 0)\<rparr>;
        is_retransmitted = (packet_id \<in> retransmitted_packets s);
        (info, s1) = (case map_of (pending_receipts s) packet_id of
           None \<Rightarrow> (ack_info, s)
         | Some (_, sent_time, token, packet_size) \<Rightarrow>
             if is_retransmitted then
               (ack_info @ [(None, packet_size, token)], s\<lparr>rto_backoff := 1\<rparr>)
             else
               let rtt_sample = now - sent_time
               in (ack_info @ [(Some rtt_sample, packet_size, token)],
                   (update_rtt rtt_sample s)\<lparr>rto_backoff := 1\<rparr>))
    in (info, forget_packet packet_id s1))"

definition report_received_receipts :: "nat \<Rightarrow> packet_id list \<Rightarrow> 'tok SentPacketTracker \<Rightarrow>
    ((duration option \<times> nat \<times> 'tok option) list \<times> rat option) \<times> 'tok SentPacketTracker" where
  "report_received_receipts now packet_ids s =
    (let (ack_info, s') = fold (receipt_step now) packet_ids ([], s);
         loss_rate = (if total_packets_sent s' > 0 then Some (packet_loss_proportion s') else None)
     in ((ack_info, loss_rate), s'))"

definition mark_retransmitted :: "packet_id \<Rightarrow> 'tok SentPacketTracker \<Rightarrow> 'tok SentPacketTracker" where
  "mark_retransmitted packet_id s = s\<lparr>retransmitted_packets := insert packet_id (retransmitted_packets s)\<rparr>"

definition effective_rto :: "'tok SentPacketTracker \<Rightarrow> duration" where
  "effective_rto s = min (duration_saturating_mul (rto s) (rto_backoff s)) (from_secs 60)"

definition spt_on_timeout :: "'tok SentPacketTracker \<Rightarrow> 'tok SentPacketTracker" where
  "spt_on_timeout s = s\<lparr>rto_backoff := min (min (rto_backoff s * 2) u32_max) MAX_RTO_BACKOFF\<rparr>"

text \<open>The branch of \<open>get_resend\<close> in which the retransmission timer of \<open>p\<close> has expired.\<close>

definition rto_fire :: "nat \<Rightarrow> packet_id \<Rightarrow> 'tok pending_entry \<Rightarrow> 'tok SentPacketTracker \<Rightarrow>
    ResendAction \<times> 'tok SentPacketTracker" where
  "rto_fire now p e s0 =
    (let count = (case map_of (retransmit_counts s0) p of None \<Rightarrow> 0 | Some c \<Rightarrow> c) + 1;
         s = s0\<lparr>packet_loss_proportion :=
                  fadd (fmul (packet_loss_proportion s0) (fsub 1 PACKET_LOSS_DECAY_FACTOR))
                       PACKET_LOSS_DECAY_FACTOR,
                retransmit_counts := AList.update p count (retransmit_counts s0)\<rparr>
     in if count > MAX_PACKET_RETRANSMITS then (Abandon p (entry_size e), forget_packet p s)
        else
          let (packet, _, token, size) = e;
              s1 = s\<lparr>pending_receipts := AList.update p (packet, now, token, size) (pending_receipts s),
                     resend_queue := resend_queue s @ [p]\<rparr>;
              s2 = spt_on_timeout (mark_retransmitted p s1)
          in (Resend p packet, s2\<lparr>tlp_sent_packets := tlp_sent_packets s2 - {p}\<rparr>))"

text \<open>One popped entry of the resend queue that is still pending; \<open>s\<close> has the entry removed.\<close>

definition resend_entry :: "nat \<Rightarrow> duration option \<Rightarrow> nat \<Rightarrow> packet_id \<Rightarrow> 'tok pending_entry \<Rightarrow>
    'tok SentPacketTracker \<Rightarrow> ResendAction \<times> 'tok SentPacketTracker" where
  "resend_entry now pto effective_rto_nanos p e s =
    (let sent_time = entry_time e;
         rto_deadline = sent_time + effective_rto_nanos;
         tlp_deadline = (case pto of
             None \<Rightarrow> None
           | Some d \<Rightarrow> if p \<notin> tlp_sent_packets s then Some (sent_time + d mod 2 ^ 64) else None)
     in if (case tlp_deadline of None \<Rightarrow> False | Some tlp_at \<Rightarrow> tlp_at \<le> now \<and> now < rto_deadline) then
          (TlpProbe p (fst e),
           mark_retransmitted p
             (s\<lparr>tlp_sent_packets := insert p (tlp_sent_packets s), resend_queue := p # resend_queue s\<rparr>))
        else if rto_deadline \<le> now then rto_fire now p e s
        else
          (WaitUntil (case tlp_deadline of None \<Rightarrow> rto_deadline | Some tlp_at \<Rightarrow> min tlp_at rto_deadline),
           s\<lparr>resend_queue := p # resend_queue s\<rparr>))"

text \<open>The \<open>while let Some(entry) = resend_queue.pop_front()\<close> loop; the list is what is left of the queue.\<close>

fun resend_loop :: "nat \<Rightarrow> duration option \<Rightarrow> nat \<Rightarrow> packet_id list \<Rightarrow> 'tok SentPacketTracker \<Rightarrow>
    ResendAction \<times> 'tok SentPacketTracker" where
  "resend_loop now pto rto_nanos [] s =
    (WaitUntil (now + effective_rto s mod 2 ^ 64), s\<lparr>resend_queue := []\<rparr>)"
| "resend_loop now pto rto_nanos (p # q) s =
    (case map_of (pending_receipts s) p of
       None \<Rightarrow> resend_loop now pto rto_nanos q s
     | Some e \<Rightarrow> resend_entry now pto rto_nanos p e (s\<lparr>resend_queue := q\<rparr>))"

definition get_resend :: "nat \<Rightarrow> 'tok SentPacketTracker \<Rightarrow> ResendAction \<times> 'tok SentPacketTracker" where
  "get_resend now s =
    resend_loop now (probe_timeout s) (effective_rto s mod 2 ^ 64) (resend_queue s) s"

section \<open>Invariant\<close>

text \<open>
  Structure: the stream tags cover exactly the pending packets; every pending packet is in the resend
  queue; retransmission marks, probes and counts concern pending packets only; no count exceeds the
  limit; no send time lies in the future.
\<close>

definition spt_struct :: "nat \<Rightarrow> 'tok SentPacketTracker \<Rightarrow> bool" where
  "spt_struct t s \<longleftrightarrow>
     map_ok (pending_receipts s) \<and> map_ok (packet_streams s) \<and> map_ok (retransmit_counts s) \<and>
     keys (packet_streams s) = keys (pending_receipts s) \<and>
     keys (pending_receipts s) \<subseteq> set (resend_queue s) \<and>
     retransmitted_packets s \<subseteq> keys (pending_receipts s) \<and>
     tlp_sent_packets s \<subseteq> keys (pending_receipts s) \<and>
     keys (retransmit_counts s) \<subseteq> keys (pending_receipts s) \<and>
     (\<forall>p c. map_of (retransmit_counts s) p = Some c \<longrightarrow> c \<le> MAX_PACKET_RETRANSMITS) \<and>
     (\<forall>p e. map_of (pending_receipts s) p = Some e \<longrightarrow> entry_time e \<le> t)"

text \<open>Timing: the base RTO is clamped, the multiplier is a power of two up to 512, the loss
  estimate is a proportion.\<close>

definition spt_timing :: "'tok SentPacketTracker \<Rightarrow> bool" where
  "spt_timing s \<longleftrightarrow>
     MIN_RTO \<le> rto s \<and> rto s \<le> from_secs 60 \<and>
     rto_backoff s \<in> {1, 2, 4, 8, 16, 32, 64, 128, 256, 512} \<and>
     0 \<le> packet_loss_proportion s \<and> packet_loss_proportion s \<le> 1"

definition spt_inv :: "nat \<Rightarrow> 'tok SentPacketTracker \<Rightarrow> bool" where
  "spt_inv t s \<longleftrightarrow> spt_struct t s \<and> spt_timing s"

lemmas spt_consts =
  MIN_RTO_def from_millis_def from_secs_def MAX_PACKET_RETRANSMITS_def MAX_RTO_BACKOFF_def u32_max_def

lemma spt_inv_new: "spt_inv t spt_new"
  by (simp add: spt_inv_def spt_struct_def spt_timing_def spt_new_def spt_consts)

lemma spt_inv_mono: "spt_inv t s \<Longrightarrow> t \<le> t' \<Longrightarrow> spt_inv t' s"
  unfolding spt_inv_def spt_struct_def by (blast intro: order_trans)

subsection \<open>The loss estimate\<close>

text \<open>With the constants as rounded, the two updates map [0, 1] into itself.\<close>

lemma decay_value: "PACKET_LOSS_DECAY_FACTOR = 4611686018427388 / 2 ^ 62"
  using f64_rnd_eqI[of "- 10" "1 / 1000" 4611686018427388]
  by (simp add: PACKET_LOSS_DECAY_FACTOR_def fdiv_def pow2_def)

lemma keep_value: "fsub 1 PACKET_LOSS_DECAY_FACTOR = 8998192055486251 / 2 ^ 53"
  using f64_rnd_eqI[of "- 1" "1 - 4611686018427388 / 2 ^ 62" 8998192055486251]
  by (simp add: decay_value fsub_def pow2_def)

lemma decay_consts:
  "0 \<le> fsub 1 PACKET_LOSS_DECAY_FACTOR" "0 \<le> PACKET_LOSS_DECAY_FACTOR"
  "fadd (fsub 1 PACKET_LOSS_DECAY_FACTOR) PACKET_LOSS_DECAY_FACTOR = 1"
  using f64_rnd_eqI[of "- 1" "8998192055486251 / 2 ^ 53 + 4611686018427388 / 2 ^ 62" "2 ^ 53"]
  unfolding keep_value unfolding decay_value by (simp_all add: fadd_def pow2_def)

lemma loss_fmul:
  assumes "0 \<le> x" "x \<le> 1"
  shows "0 \<le> fmul x (fsub 1 PACKET_LOSS_DECAY_FACTOR)"
    "fmul x (fsub 1 PACKET_LOSS_DECAY_FACTOR) \<le> fsub 1 PACKET_LOSS_DECAY_FACTOR"
proof -
  let ?c = "fsub 1 PACKET_LOSS_DECAY_FACTOR"
  show "0 \<le> fmul x ?c" using assms(1) decay_consts(1) by (rule fops_nonneg(2))
  have "x * ?c \<le> ?c" using assms decay_consts(1) by (simp add: mult_left_le_one_le)
  then show "fmul x ?c \<le> ?c" unfolding fmul_def by (rule f64_rnd_le) (simp add: fsub_def)
qed

lemma loss_update:
  assumes "0 \<le> x" "x \<le> 1" "0 \<le> y" "y \<le> PACKET_LOSS_DECAY_FACTOR"
  shows "0 \<le> fadd (fmul x (fsub 1 PACKET_LOSS_DECAY_FACTOR)) y"
    "fadd (fmul x (fsub 1 PACKET_LOSS_DECAY_FACTOR)) y \<le> 1"
proof -
  note m = loss_fmul[OF assms(1,2)]
  show "0 \<le> fadd (fmul x (fsub 1 PACKET_LOSS_DECAY_FACTOR)) y" using m(1) assms(3) by (rule fops_nonneg(1))
  have "fadd (fmul x (fsub 1 PACKET_LOSS_DECAY_FACTOR)) y
      \<le> fadd (fsub 1 PACKET_LOSS_DECAY_FACTOR) PACKET_LOSS_DECAY_FACTOR"
    unfolding fadd_def using m(2) assms(4) by (intro f64_rnd_mono add_mono)
  then show "fadd (fmul x (fsub 1 PACKET_LOSS_DECAY_FACTOR)) y \<le> 1" by (simp only: decay_consts)
qed

lemma loss_ack:
  "0 \<le> x \<Longrightarrow> x \<le> 1 \<Longrightarrow>
    0 \<le> fadd (fmul x (fsub 1 PACKET_LOSS_DECAY_FACTOR)) (fmul PACKET_LOSS_DECAY_FACTOR 0) \<and>
    fadd (fmul x (fsub 1 PACKET_LOSS_DECAY_FACTOR)) (fmul PACKET_LOSS_DECAY_FACTOR 0) \<le> 1"
  using loss_update[of x 0] decay_consts(2) by (simp add: fmul_def)

subsection \<open>Preservation by the operations\<close>

lemma spt_struct_forget: "spt_struct t s \<Longrightarrow> spt_struct t (forget_packet p s)"
  by (auto simp: spt_struct_def forget_packet_def)

lemma spt_timing_forget [simp]: "spt_timing (forget_packet p s) = spt_timing s"
  by (simp add: spt_timing_def forget_packet_def)

lemma report_sent_inner_inv:
  assumes "spt_inv now s"
  shows "spt_inv now (report_sent_packet_inner now p payload tok st sz s)"
proof -
  have "map_of (pending_receipts s) p \<noteq> None \<Longrightarrow> p \<in> keys (pending_receipts s)"
    by (simp add: map_of_keys)
  then show ?thesis using assms
    by (auto simp: spt_inv_def spt_struct_def spt_timing_def report_sent_packet_inner_def entry_time_def
        split: option.splits)
qed

lemma refresh_inv:
  assumes "spt_inv now s"
  shows "spt_inv now (snd (refresh_sent_packet now p payload tok s))"
proof -
  have "map_of (pending_receipts s) p \<noteq> None \<Longrightarrow> p \<in> keys (pending_receipts s)"
    by (simp add: map_of_keys)
  then show ?thesis using assms
    by (auto simp: spt_inv_def spt_struct_def spt_timing_def refresh_sent_packet_def entry_time_def
        split: option.splits)
qed

lemma update_rtt_struct [simp]: "spt_struct t (update_rtt x s) = spt_struct t s"
  by (auto simp: spt_struct_def update_rtt_def Let_def split: option.splits)

lemma update_rtt_timing: "spt_timing s \<Longrightarrow> spt_timing (update_rtt x s)"
  by (auto simp: spt_timing_def update_rtt_def Let_def spt_consts split: option.splits)

lemma update_rtt_inv: "spt_inv t s \<Longrightarrow> spt_inv t (update_rtt x s)"
  by (simp add: spt_inv_def update_rtt_timing)

lemma forget_inv: "spt_inv t s \<Longrightarrow> spt_inv t (forget_packet p s)"
  by (simp add: spt_inv_def spt_struct_forget)

lemma backoff_reset_inv: "spt_inv t s \<Longrightarrow> spt_inv t (s\<lparr>rto_backoff := 1\<rparr>)"
  by (simp add: spt_inv_def spt_struct_def spt_timing_def)

lemma loss_ack_inv: "spt_inv t s \<Longrightarrow> spt_inv t (s\<lparr>packet_loss_proportion :=
    fadd (fmul (packet_loss_proportion s) (fsub 1 PACKET_LOSS_DECAY_FACTOR))
         (fmul PACKET_LOSS_DECAY_FACTOR 0)\<rparr>)"
  using loss_ack[of "packet_loss_proportion s"] by (simp add: spt_inv_def spt_struct_def spt_timing_def)

lemma receipt_step_inv: "spt_inv t (snd r) \<Longrightarrow> spt_inv t (snd (receipt_step now p r))"
  unfolding receipt_step_def split_beta Let_def
  by (auto simp del: One_nat_def intro!: forget_inv backoff_reset_inv update_rtt_inv loss_ack_inv
      split: option.split)

lemma receipts_inv: "spt_inv t s \<Longrightarrow> spt_inv t (snd (report_received_receipts now ids s))"
proof -
  have "spt_inv t (snd r) \<Longrightarrow> spt_inv t (snd (fold (receipt_step now) ids r))" for r
    by (rule fold_invariant[where Q = "\<lambda>_. True"]) (auto intro: receipt_step_inv)
  from this[of "([], s)"] show "spt_inv t s \<Longrightarrow> ?thesis"
    by (simp add: report_received_receipts_def split_beta Let_def)
qed

lemma drop_packets_inv: "spt_inv t (snd rs) \<Longrightarrow> spt_inv t (snd (drop_packets ps rs))"
  by (induction ps rs rule: drop_packets.induct) (auto simp: spt_inv_def spt_struct_forget)

text \<open>The packets of \<open>ps\<close> leave every structure, and nothing else changes.\<close>

lemma delete_as_filter: "AList.delete k m = filter (\<lambda>(k', v). k' \<noteq> k) m"
  by (induction m) auto

lemma drop_packets_snd: "snd (drop_packets ps rs) = fold forget_packet ps (snd rs)"
  by (induction ps rs rule: drop_packets.induct) auto

lemma fold_forget_fields:
  "pending_receipts (fold forget_packet ps s) = filter (\<lambda>(p, _). p \<notin> set ps) (pending_receipts s)"
  "packet_streams (fold forget_packet ps s) = filter (\<lambda>(p, _). p \<notin> set ps) (packet_streams s)"
  "resend_queue (fold forget_packet ps s) = resend_queue s"
  by (induction ps arbitrary: s)
    (auto simp: forget_packet_def delete_as_filter intro!: filter_cong)

definition pending_size :: "'tok SentPacketTracker \<Rightarrow> packet_id \<Rightarrow> nat" where
  "pending_size s p = (case map_of (pending_receipts s) p of None \<Rightarrow> 0 | Some e \<Rightarrow> entry_size e)"

lemma pending_size_forget: "p \<noteq> q \<Longrightarrow> pending_size (forget_packet p s) q = pending_size s q"
  by (simp add: pending_size_def forget_packet_def)

lemma drop_packets_fst:
  "distinct ps \<Longrightarrow> fst rs \<le> u64_max \<Longrightarrow>
    fst (drop_packets ps rs) = min (fst rs + sum_list (map (pending_size (snd rs)) ps)) u64_max"
proof (induction ps rs rule: drop_packets.induct)
  case (2 p ps released s)
  let ?r = "case map_of (pending_receipts s) p of None \<Rightarrow> released | Some e \<Rightarrow> sat_add64 released (entry_size e)"
  have r: "?r = min (released + pending_size s p) u64_max"
    using 2 by (simp add: pending_size_def sat_add64_def split: option.split)
  have eq: "map (pending_size (forget_packet p s)) ps = map (pending_size s) ps"
    using 2 by (intro map_cong refl pending_size_forget) auto
  have "fst (drop_packets (p # ps) (released, s)) = min (?r + sum_list (map (pending_size s) ps)) u64_max"
    using 2(1) 2(2) r by (simp only: drop_packets.simps fst_conv snd_conv eq) simp
  then show ?case unfolding r by (simp add: min_def)
qed simp

definition owned_packets :: "stream_id \<Rightarrow> 'tok SentPacketTracker \<Rightarrow> packet_id list" where
  "owned_packets sid s = map fst (filter (\<lambda>(pid, st). st = Stream sid) (packet_streams s))"

lemma drop_stream_snd:
  "snd (drop_stream sid s) =
    (fold forget_packet (owned_packets sid s) s)
      \<lparr>resend_queue := filter (\<lambda>p. p \<notin> set (owned_packets sid s)) (resend_queue s)\<rparr>"
  unfolding drop_stream_def owned_packets_def[symmetric]
  by (cases "owned_packets sid s = []")
    (auto simp: Let_def split_beta drop_packets_snd fold_forget_fields)

lemma fold_forget_inv: "spt_inv t s \<Longrightarrow> spt_inv t (fold forget_packet ps s)"
  by (induction ps arbitrary: s) (auto simp: spt_inv_def spt_struct_forget)

lemma drop_stream_inv:
  assumes "spt_inv t s"
  shows "spt_inv t (snd (drop_stream sid s))"
proof -
  let ?s = "fold forget_packet (owned_packets sid s) s"
  have "spt_inv t ?s" using assms by (rule fold_forget_inv)
  moreover have "keys (pending_receipts ?s) \<inter> set (owned_packets sid s) = {}"
    by (auto simp: fold_forget_fields keys_def)
  ultimately show ?thesis unfolding drop_stream_snd spt_inv_def spt_struct_def spt_timing_def
    by (auto simp: fold_forget_fields(3))
qed

lemma spt_struct_queue: "spt_struct t (s\<lparr>resend_queue := q\<rparr>) \<Longrightarrow> set q \<subseteq> set q' \<Longrightarrow>
    spt_struct t (s\<lparr>resend_queue := q'\<rparr>)"
  by (auto simp: spt_struct_def)

text \<open>The two outcomes of an expired retransmission timer.\<close>

definition rto_count :: "'tok SentPacketTracker \<Rightarrow> packet_id \<Rightarrow> nat" where
  "rto_count s p = (case map_of (retransmit_counts s) p of None \<Rightarrow> 0 | Some c \<Rightarrow> c)"

definition loss_after_timeout :: "'tok SentPacketTracker \<Rightarrow> rat" where
  "loss_after_timeout s =
    fadd (fmul (packet_loss_proportion s) (fsub 1 PACKET_LOSS_DECAY_FACTOR)) PACKET_LOSS_DECAY_FACTOR"

lemma rto_fire_abandon:
  assumes "MAX_PACKET_RETRANSMITS \<le> rto_count s p"
  shows "rto_fire now p e s =
    (Abandon p (entry_size e), (forget_packet p s)\<lparr>packet_loss_proportion := loss_after_timeout s\<rparr>)"
  using assms
  by (simp add: rto_fire_def Let_def rto_count_def[symmetric] loss_after_timeout_def forget_packet_def)

lemma rto_fire_resend:
  assumes "rto_count s p < MAX_PACKET_RETRANSMITS"
  shows "rto_fire now p (pk, ts, tok, sz) s =
    (Resend p pk,
     s\<lparr>pending_receipts := AList.update p (pk, now, tok, sz) (pending_receipts s),
       resend_queue := resend_queue s @ [p],
       packet_loss_proportion := loss_after_timeout s,
       retransmitted_packets := insert p (retransmitted_packets s),
       rto_backoff := min (min (rto_backoff s * 2) u32_max) MAX_RTO_BACKOFF,
       tlp_sent_packets := tlp_sent_packets s - {p},
       retransmit_counts := AList.update p (rto_count s p + 1) (retransmit_counts s)\<rparr>)"
  using assms
  by (simp add: rto_fire_def Let_def rto_count_def[symmetric] loss_after_timeout_def
      mark_retransmitted_def spt_on_timeout_def)

lemma loss_after_timeout_bounds:
  "spt_timing s \<Longrightarrow> 0 \<le> loss_after_timeout s \<and> loss_after_timeout s \<le> 1"
  using loss_update[of "packet_loss_proportion s" PACKET_LOSS_DECAY_FACTOR] decay_consts(2)
  by (simp add: spt_timing_def loss_after_timeout_def)

lemma rto_fire_inv:
  assumes "spt_inv now (s\<lparr>resend_queue := p # resend_queue s\<rparr>)" "map_of (pending_receipts s) p = Some e"
  shows "spt_inv now (snd (rto_fire now p e s))"
proof (cases "rto_count s p < MAX_PACKET_RETRANSMITS")
  case True
  have p: "p \<in> keys (pending_receipts s)" using assms(2) map_of_keys by (metis option.distinct(1))
  obtain pk ts tok sz where e: "e = (pk, ts, tok, sz)" by (cases e)
  have "spt_timing s" using assms(1) by (simp add: spt_inv_def spt_timing_def)
  then have "spt_timing (snd (rto_fire now p e s))"
    using loss_after_timeout_bounds[of s] unfolding e rto_fire_resend[OF True]
    by (auto simp: spt_timing_def spt_consts)
  moreover have "spt_struct now (snd (rto_fire now p e s))"
    using assms(1) p True unfolding e rto_fire_resend[OF True] spt_inv_def spt_struct_def
    by (auto simp: entry_time_def)
  ultimately show ?thesis by (simp add: spt_inv_def)
next
  case False
  have "spt_timing s" using assms(1) by (simp add: spt_inv_def spt_timing_def)
  then have "spt_timing (snd (rto_fire now p e s))"
    using loss_after_timeout_bounds[of s] False
    by (simp add: rto_fire_abandon spt_timing_def forget_packet_def)
  moreover have "spt_struct now (snd (rto_fire now p e s))"
    using assms(1) False unfolding spt_inv_def spt_struct_def
    by (auto simp: rto_fire_abandon forget_packet_def)
  ultimately show ?thesis by (simp add: spt_inv_def)
qed

end
