(* ===== verification/Sent_Packet_Properties.thy ===== *)
theory Sent_Packet_Properties
  imports Sent_Packet_Tracker
begin

text \<open>
  Properties of the sent-packet tracker over arbitrary sequences of its operations: the invariant,
  the bounds of the resend deadline, the limit on retransmissions of a packet, and what dropping a
  stream and acknowledging packets release.
\<close>

section \<open>The resend loop keeps the invariant\<close>

lemma resend_entry_inv:
  assumes "spt_inv now (s\<lparr>resend_queue := p # resend_queue s\<rparr>)" "map_of (pending_receipts s) p = Some e"
  shows "spt_inv now (snd (resend_entry now pto r p e s))"
proof -
  have p: "p \<in> keys (pending_receipts s)" using assms(2) map_of_keys by (metis option.distinct(1))
  have "spt_inv now (mark_retransmitted p
      (s\<lparr>tlp_sent_packets := insert p (tlp_sent_packets s), resend_queue := p # resend_queue s\<rparr>))"
    using assms(1) p by (auto simp: spt_inv_def spt_struct_def spt_timing_def mark_retransmitted_def)
  then show ?thesis using assms(1) rto_fire_inv[OF assms] by (simp add: resend_entry_def Let_def)
qed

lemma resend_loop_inv:
  "spt_inv now (s\<lparr>resend_queue := q\<rparr>) \<Longrightarrow> spt_inv now (snd (resend_loop now pto r q s))"
proof (induction now pto r q s rule: resend_loop.induct)
  case (2 now pto r p q s)
  show ?case
  proof (cases "map_of (pending_receipts s) p")
    case None
    then have "p \<notin> keys (pending_receipts s)" by (simp add: map_of_keys)
    then have "spt_inv now (s\<lparr>resend_queue := q\<rparr>)"
      using 2(2) by (auto simp: spt_inv_def spt_struct_def spt_timing_def)
    then show ?thesis using 2(1) None by simp
  next
    case (Some e)
    then show ?thesis using 2(2) resend_entry_inv[where s = "s\<lparr>resend_queue := q\<rparr>"] by simp
  qed
qed simp

lemma get_resend_inv: "spt_inv now s \<Longrightarrow> spt_inv now (snd (get_resend now s))"
  unfolding get_resend_def by (rule resend_loop_inv) simp

section \<open>Sequences of operations\<close>

datatype 'tok SptOp =
    SendPacket packet_id bytes "'tok option" nat
  | SendStreamPacket packet_id bytes "'tok option" stream_id nat
  | RefreshPacket packet_id bytes "'tok option"
  | Receipts "packet_id list"
  | DropStream stream_id
  | GetResend

text \<open>An operation and, for \<open>get_resend\<close>, the action it returned.\<close>

fun spt_exec :: "nat \<times> 'tok SptOp \<Rightarrow> 'tok SentPacketTracker \<Rightarrow> ResendAction option \<times> 'tok SentPacketTracker" where
  "spt_exec (now, SendPacket p b tok n) s = (None, report_sent_packet_with_token_and_size now p b tok n s)"
| "spt_exec (now, SendStreamPacket p b tok sid n) s =
    (None, report_sent_stream_packet_with_size now p b tok sid n s)"
| "spt_exec (now, RefreshPacket p b tok) s = (None, snd (refresh_sent_packet now p b tok s))"
| "spt_exec (now, Receipts ids) s = (None, snd (report_received_receipts now ids s))"
| "spt_exec (now, DropStream sid) s = (None, snd (drop_stream sid s))"
| "spt_exec (now, GetResend) s = (let (a, s') = get_resend now s in (Some a, s'))"

definition spt_step :: "nat \<times> 'tok SptOp \<Rightarrow> 'tok SentPacketTracker \<Rightarrow> 'tok SentPacketTracker" where
  "spt_step op s = snd (spt_exec op s)"

definition spt_run :: "(nat \<times> 'tok SptOp) list \<Rightarrow> 'tok SentPacketTracker" where
  "spt_run ops = fold spt_step ops spt_new"

text \<open>The actions of the calls of \<open>get_resend\<close> in a run.\<close>

fun spt_actions :: "(nat \<times> 'tok SptOp) list \<Rightarrow> 'tok SentPacketTracker \<Rightarrow> ResendAction list" where
  "spt_actions [] s = []"
| "spt_actions (op # ops) s =
    (case fst (spt_exec op s) of None \<Rightarrow> [] | Some a \<Rightarrow> [a]) @ spt_actions ops (spt_step op s)"

interpretation spt: timed_machine spt_step spt_inv
proof
  show "spt_inv t s \<Longrightarrow> t \<le> t' \<Longrightarrow> spt_inv t' s" for t t' and s :: "'a SentPacketTracker"
    by (rule spt_inv_mono)
  show "spt_inv now (spt_step (now, e) s)" if "spt_inv now s" for now e and s :: "'a SentPacketTracker"
    using that report_sent_inner_inv[OF that] refresh_inv[OF that] receipts_inv[OF that, of now]
      drop_stream_inv[OF that] get_resend_inv[OF that]
    by (cases e)
      (auto simp: spt_step_def report_sent_packet_with_token_and_size_def
        report_sent_stream_packet_with_size_def split_beta)
qed

text \<open>
  C29: after any sequence of tracker operations with non-decreasing times, the structures of the
  tracker agree: tags and pending packets coincide, every packet in flight is in the resend queue,
  counts and marks belong to packets in flight, no retransmit count exceeds 12, the base RTO lies in
  [500ms, 60s], the backoff multiplier is a power of two up to 512, and the loss estimate in [0, 1].
\<close>

theorem spt_run_inv:
  assumes "sorted (map fst ops)"
  shows "\<exists>t. spt_inv t (spt_run ops)"
  unfolding spt_run_def using assms spt_inv_new by (rule spt.timed_run)

theorem spt_run_inv_witness:
  "\<exists>t. spt_inv t (spt_run [(0, SendPacket 1 [1, 2] (None :: unit option) 2), (2000000000, GetResend),
     (2000000001, Receipts [1])])"
  by (rule spt_run_inv) simp

section \<open>Deadlines\<close>

lemma effective_rto_bounds:
  assumes "spt_timing s"
  shows "MIN_RTO \<le> effective_rto s" "effective_rto s \<le> from_secs 60" "effective_rto s mod 2 ^ 64 = effective_rto s"
proof -
  have "1 \<le> rto_backoff s" using assms by (auto simp: spt_timing_def)
  then have "rto s * 1 \<le> rto s * rto_backoff s" by (rule mult_le_mono2)
  then show "MIN_RTO \<le> effective_rto s" "effective_rto s \<le> from_secs 60"
    using assms by (auto simp: spt_timing_def effective_rto_def duration_saturating_mul_def spt_consts duration_max_def)
  then show "effective_rto s mod 2 ^ 64 = effective_rto s" by (simp add: from_secs_def)
qed

lemma rto_fire_not_wait: "fst (rto_fire now p e s) \<noteq> WaitUntil d"
  by (auto simp: rto_fire_def Let_def split: prod.splits)

lemma resend_entry_wait:
  assumes "fst (resend_entry now pto r p e s) = WaitUntil d" "entry_time e \<le> now"
  shows "now < d \<and> d \<le> now + r"
  using assms rto_fire_not_wait[of now p e s d]
  by (auto simp: resend_entry_def Let_def split: if_splits option.splits)

lemma resend_loop_wait:
  assumes "fst (resend_loop now pto r q s) = WaitUntil d" "0 < r" "effective_rto s mod 2 ^ 64 = r"
    "\<forall>p e. map_of (pending_receipts s) p = Some e \<longrightarrow> entry_time e \<le> now"
  shows "now < d \<and> d \<le> now + r"
  using assms
  by (induction now pto r q s rule: resend_loop.induct)
    (auto split: option.splits dest: resend_entry_wait)

text \<open>
  When \<open>get_resend\<close> asks the caller to wait, the instant it names lies strictly in the future
  and at most one effective RTO (at most 60s) ahead, so the resend loop neither spins nor sleeps
  past the retransmission limit.
\<close>

theorem get_resend_wait_bounds:
  assumes "spt_inv now s" "fst (get_resend now s) = WaitUntil d"
  shows "now < d \<and> d \<le> now + effective_rto s \<and> effective_rto s \<le> from_secs 60"
proof -
  have s: "spt_timing s" using assms by (simp add: spt_inv_def)
  note b = effective_rto_bounds[OF s]
  have "0 < effective_rto s" using b(1) by (simp add: spt_consts)
  then have "now < d \<and> d \<le> now + effective_rto s"
    using assms resend_loop_wait[OF _ _ b(3)] unfolding get_resend_def b(3) spt_inv_def spt_struct_def
    by blast
  then show ?thesis using b(2) by blast
qed

definition one_packet :: "unit SentPacketTracker" where
  "one_packet = report_sent_packet 5 1 [1, 2, 3] spt_new"

lemma one_packet_inv: "spt_inv 5 one_packet"
  unfolding one_packet_def report_sent_packet_def report_sent_packet_with_token_and_size_def
  by (intro report_sent_inner_inv spt_inv_new)

lemmas spt_eval =
  one_packet_def spt_new_def report_sent_packet_def report_sent_packet_with_token_and_size_def
  report_sent_packet_inner_def get_resend_def probe_timeout_def effective_rto_def
  duration_saturating_mul_def duration_max_def from_secs_def from_millis_def resend_entry_def Let_def
  entry_time_def

theorem get_resend_wait_bounds_witness:
  "5 < (1000000005 :: nat) \<and> 1000000005 \<le> 5 + effective_rto one_packet \<and>
    effective_rto one_packet \<le> from_secs 60"
  by (rule get_resend_wait_bounds[OF one_packet_inv]) (simp add: spt_eval)

section \<open>The retransmission limit\<close>

text \<open>How many more times \<open>p\<close> can be retransmitted.\<close>

definition resend_budget :: "packet_id \<Rightarrow> 'tok SentPacketTracker \<Rightarrow> nat" where
  "resend_budget p s =
    (if p \<in> keys (pending_receipts s) then MAX_PACKET_RETRANSMITS - rto_count s p else 0)"

lemma budget_cong:
  "keys (pending_receipts s) = keys (pending_receipts s') \<Longrightarrow> retransmit_counts s = retransmit_counts s' \<Longrightarrow>
    resend_budget p s = resend_budget p s'"
  by (simp add: resend_budget_def rto_count_def)

lemma budget_fields [simp]:
  "resend_budget p (s\<lparr>resend_queue := q\<rparr>) = resend_budget p s"
  "resend_budget p (s\<lparr>tlp_sent_packets := x\<rparr>) = resend_budget p s"
  "resend_budget p (s\<lparr>packet_loss_proportion := l\<rparr>) = resend_budget p s"
  "resend_budget p (mark_retransmitted k s) = resend_budget p s"
  by (simp_all add: resend_budget_def rto_count_def mark_retransmitted_def)

lemma budget_forget: "resend_budget p (forget_packet q s) \<le> resend_budget p s"
  by (simp add: resend_budget_def rto_count_def forget_packet_def)

lemma budget_fold_forget: "resend_budget p (fold forget_packet qs s) \<le> resend_budget p s"
  by (induction qs arbitrary: s) (auto intro: order_trans budget_forget)

lemma budget_send: "p \<noteq> q \<Longrightarrow> resend_budget p (report_sent_packet_inner now q b tok st n s) = resend_budget p s"
  by (auto simp: report_sent_packet_inner_def resend_budget_def rto_count_def split: option.splits)

lemma budget_refresh: "resend_budget p (snd (refresh_sent_packet now q b tok s)) = resend_budget p s"
proof -
  have "map_of (pending_receipts s) q \<noteq> None \<Longrightarrow> q \<in> keys (pending_receipts s)" by (simp add: map_of_keys)
  then show ?thesis
    by (auto simp: refresh_sent_packet_def insert_absorb intro!: budget_cong split: option.splits)
qed

lemma update_rtt_fields [simp]:
  "pending_receipts (update_rtt d s) = pending_receipts s"
  "retransmit_counts (update_rtt d s) = retransmit_counts s"
  "retransmitted_packets (update_rtt d s) = retransmitted_packets s"
  "packet_streams (update_rtt d s) = packet_streams s"
  "resend_queue (update_rtt d s) = resend_queue s"
  by (auto simp: update_rtt_def Let_def split: option.splits)

lemma budget_receipt_step: "resend_budget p (snd (receipt_step now q r)) \<le> resend_budget p (snd r)"
  unfolding receipt_step_def split_beta Let_def
  by (auto intro!: order_trans[OF budget_forget] eq_imp_le[OF budget_cong] split: option.split)

lemma budget_receipts: "resend_budget p (snd (report_received_receipts now ids s)) \<le> resend_budget p s"
proof -
  have "resend_budget p (snd (fold (receipt_step now) ids r)) \<le> resend_budget p (snd r)" for r
    by (rule fold_invariant[where Q = "\<lambda>_. True"]) (auto intro: order_trans[OF budget_receipt_step])
  from this[of "([], s)"] show ?thesis by (simp add: report_received_receipts_def split_beta Let_def)
qed

lemma budget_drop: "resend_budget p (snd (drop_stream sid s)) \<le> resend_budget p s"
proof -
  have "resend_budget p (snd (drop_stream sid s)) = resend_budget p (fold forget_packet (owned_packets sid s) s)"
    unfolding drop_stream_snd by (rule budget_cong) simp_all
  then show ?thesis using budget_fold_forget by metis
qed

definition resends :: "packet_id \<Rightarrow> ResendAction \<Rightarrow> nat" where
  "resends p a = (case a of Resend q _ \<Rightarrow> if q = p then 1 else 0 | _ \<Rightarrow> 0)"

lemma budget_rto_fire:
  assumes "map_of (pending_receipts s) q = Some e"
  shows "resends p (fst (rto_fire now q e s)) + resend_budget p (snd (rto_fire now q e s)) \<le> resend_budget p s"
proof (cases "rto_count s q < MAX_PACKET_RETRANSMITS")
  case True
  have q: "q \<in> keys (pending_receipts s)" using assms map_of_keys by (metis option.distinct(1))
  obtain pk ts tok sz where e: "e = (pk, ts, tok, sz)" by (cases e)
  show ?thesis using q True unfolding e rto_fire_resend[OF True]
    by (auto simp: resends_def resend_budget_def rto_count_def)
next
  case False
  then have "rto_fire now q e s =
      (Abandon q (entry_size e), (forget_packet q s)\<lparr>packet_loss_proportion := loss_after_timeout s\<rparr>)"
    by (intro rto_fire_abandon) simp
  then show ?thesis using budget_forget[of p q s] by (simp add: resends_def)
qed

lemma budget_resend_loop:
  "resends p (fst (resend_loop now pto r q s)) + resend_budget p (snd (resend_loop now pto r q s))
    \<le> resend_budget p s"
proof (induction now pto r q s rule: resend_loop.induct)
  case (1 now pto r s)
  show ?case by (simp add: resends_def)
next
  case (2 now pto r k q s)
  show ?case
  proof (cases "map_of (pending_receipts s) k")
    case (Some e)
    let ?s = "s\<lparr>resend_queue := q\<rparr>"
    have "resends p (fst (rto_fire now k e ?s)) + resend_budget p (snd (rto_fire now k e ?s)) \<le> resend_budget p s"
      using budget_rto_fire[of ?s k e p now] Some by simp
    then show ?thesis using Some by (auto simp: resend_entry_def Let_def resends_def)
  qed (use 2 in simp)
qed

text \<open>Operations that register \<open>p\<close> (again).\<close>

definition sends :: "packet_id \<Rightarrow> 'tok SptOp \<Rightarrow> bool" where
  "sends p op = (case op of SendPacket q _ _ _ \<Rightarrow> q = p | SendStreamPacket q _ _ _ _ \<Rightarrow> q = p | _ \<Rightarrow> False)"

lemma budget_exec:
  assumes "\<not> sends p (snd op)"
  shows "sum_list (map (resends p) (case fst (spt_exec op s) of None \<Rightarrow> [] | Some a \<Rightarrow> [a])) +
    resend_budget p (spt_step op s) \<le> resend_budget p s"
  using assms budget_resend_loop[of p "fst op"]
  by (cases "(op, s)" rule: spt_exec.cases)
    (auto simp: sends_def spt_step_def report_sent_packet_with_token_and_size_def budget_refresh budget_receipts
      report_sent_stream_packet_with_size_def budget_send budget_drop get_resend_def split_beta)

lemma resends_run:
  "\<forall>op \<in> set ops. \<not> sends p (snd op) \<Longrightarrow>
    sum_list (map (resends p) (spt_actions ops s)) \<le> resend_budget p s"
proof (induction ops arbitrary: s)
  case (Cons op ops)
  then have "sum_list (map (resends p) (spt_actions ops (spt_step op s))) \<le> resend_budget p (spt_step op s)"
    by simp
  then show ?case using budget_exec[of p op s] Cons.prems by simp
qed simp

text \<open>
  C4: however receipts, probes, refreshes, stream drops and timeouts interleave, a packet is
  retransmitted on timeout at most \<open>MAX_PACKET_RETRANSMITS\<close> times after it was registered.
\<close>

theorem retransmissions_bounded:
  assumes "\<forall>op \<in> set ops. \<not> sends p (snd op)"
  shows "sum_list (map (resends p) (spt_actions ops s)) \<le> MAX_PACKET_RETRANSMITS"
proof -
  have "resend_budget p s \<le> MAX_PACKET_RETRANSMITS" by (simp add: resend_budget_def)
  then show ?thesis using resends_run[OF assms, of s] by linarith
qed

theorem retransmissions_bounded_witness:
  "sum_list (map (resends 1) (spt_actions [(2000000000, GetResend), (5000000000, GetResend)] one_packet))
    \<le> MAX_PACKET_RETRANSMITS"
  by (rule retransmissions_bounded) (simp add: sends_def)

section \<open>Bytes in flight\<close>

definition flight :: "'tok SentPacketTracker \<Rightarrow> nat" where
  "flight s = value_sum entry_size (pending_receipts s)"

lemma flight_forget:
  "map_ok (pending_receipts s) \<Longrightarrow> flight s = pending_size s p + flight (forget_packet p s)"
proof (cases "map_of (pending_receipts s) p")
  case None
  then have "p \<notin> keys (pending_receipts s)" by (simp add: map_of_keys)
  then show ?thesis using None by (simp add: flight_def pending_size_def forget_packet_def)
qed (auto simp: flight_def pending_size_def forget_packet_def value_sum_delete)

lemma forget_map_ok: "map_ok (pending_receipts s) \<Longrightarrow> map_ok (pending_receipts (forget_packet p s))"
  by (simp add: forget_packet_def)

lemma flight_fold_forget:
  "map_ok (pending_receipts s) \<Longrightarrow> distinct ps \<Longrightarrow>
    flight s = sum_list (map (pending_size s) ps) + flight (fold forget_packet ps s)"
proof (induction ps arbitrary: s)
  case (Cons p ps)
  have eq: "map (pending_size (forget_packet p s)) ps = map (pending_size s) ps"
    using Cons.prems by (intro map_cong refl pending_size_forget) auto
  show ?case
    using Cons.IH[of "forget_packet p s"] Cons.prems flight_forget[of s p]
    by (simp add: forget_map_ok eq del: map_eq_conv)
qed simp

lemma owned_packets_distinct: "map_ok (packet_streams s) \<Longrightarrow> distinct (owned_packets sid s)"
  by (simp add: owned_packets_def map_ok_def distinct_map_filter)

lemma drop_stream_fst:
  assumes "map_ok (packet_streams s)"
  shows "fst (drop_stream sid s) = min (sum_list (map (pending_size s) (owned_packets sid s))) u64_max"
proof -
  have "fst (drop_packets (owned_packets sid s) (0, s)) =
      min (sum_list (map (pending_size s) (owned_packets sid s))) u64_max"
    using drop_packets_fst[OF owned_packets_distinct[OF assms], of "(0, s)" sid] by simp
  then show ?thesis
    unfolding drop_stream_def owned_packets_def[symmetric] by (auto simp: Let_def split_beta)
qed

lemma owned_packets_after: "owned_packets sid (snd (drop_stream sid s)) = []"
  by (force simp: drop_stream_snd owned_packets_def fold_forget_fields filter_empty_conv)

lemma drop_stream_other:
  assumes "map_ok (pending_receipts s)" "map_of (packet_streams s) p = Some st" "map_ok (packet_streams s)"
    "st \<noteq> Stream sid"
  shows "map_of (pending_receipts (snd (drop_stream sid s))) p = map_of (pending_receipts s) p"
proof -
  have "p \<notin> set (owned_packets sid s)"
    using assms(2-4) by (auto simp: owned_packets_def map_ok_def dest: eq_key_imp_eq_value)
  then show ?thesis using assms(1)
    by (simp add: drop_stream_snd fold_forget_fields map_of_filter split: option.splits)
qed

text \<open>
  Dropping an aborted stream releases exactly the bytes its packets had in flight: the returned
  count plus the bytes still in flight is the bytes in flight before; no packet of the stream is left,
  packets of other streams and control packets keep their entries, and a second drop releases nothing.
\<close>

theorem drop_stream_releases_exactly:
  assumes "spt_inv t s" "flight s \<le> u64_max"
  shows "fst (drop_stream sid s) + flight (snd (drop_stream sid s)) = flight s \<and>
    (\<forall>p st. map_of (packet_streams s) p = Some st \<longrightarrow> st \<noteq> Stream sid \<longrightarrow>
      map_of (pending_receipts (snd (drop_stream sid s))) p = map_of (pending_receipts s) p) \<and>
    owned_packets sid (snd (drop_stream sid s)) = [] \<and>
    fst (drop_stream sid (snd (drop_stream sid s))) = 0"
proof -
  have ok: "map_ok (pending_receipts s)" "map_ok (packet_streams s)"
    using assms(1) by (auto simp: spt_inv_def spt_struct_def)
  let ?f = "fold forget_packet (owned_packets sid s) s"
  have "flight s = sum_list (map (pending_size s) (owned_packets sid s)) + flight ?f"
    using ok by (intro flight_fold_forget owned_packets_distinct)
  moreover have "flight (snd (drop_stream sid s)) = flight ?f" by (simp add: drop_stream_snd flight_def)
  ultimately have "fst (drop_stream sid s) + flight (snd (drop_stream sid s)) = flight s"
    using assms(2) by (simp add: drop_stream_fst[OF ok(2)])
  moreover have "fst (drop_stream sid (snd (drop_stream sid s))) = 0"
    using owned_packets_after[of sid s] by (simp add: drop_stream_def owned_packets_def)
  ultimately show ?thesis using drop_stream_other ok owned_packets_after by blast
qed

definition two_streams :: "unit SentPacketTracker" where
  "two_streams = report_sent_stream_packet_with_size 2 2 [9] None 4 70
     (report_sent_stream_packet_with_size 1 1 [8] None 3 50 spt_new)"

lemma two_streams_inv: "spt_inv 2 two_streams"
  unfolding two_streams_def report_sent_stream_packet_with_size_def
  by (intro report_sent_inner_inv spt_inv_mono[OF report_sent_inner_inv[OF spt_inv_new]]) simp

theorem drop_stream_releases_exactly_witness:
  "fst (drop_stream 3 two_streams) + flight (snd (drop_stream 3 two_streams)) = flight two_streams \<and>
    flight two_streams = 120"
proof -
  have "flight two_streams = 120"
    by (simp add: two_streams_def flight_def report_sent_stream_packet_with_size_def
        report_sent_packet_inner_def spt_new_def entry_size_def)
  then show ?thesis using drop_stream_releases_exactly[OF two_streams_inv, of 3] by (simp add: u64_max_def)
qed

section \<open>Receipts\<close>

text \<open>What one receipt reports, and that the state it leaves is the tracker without the packet.\<close>

lemma receipt_step_info:
  "fst (receipt_step now p (info, s)) = info @
    (case map_of (pending_receipts s) p of
       None \<Rightarrow> []
     | Some (_, sent, tok, sz) \<Rightarrow> [(if p \<in> retransmitted_packets s then None else Some (now - sent), sz, tok)])"
  by (auto simp: receipt_step_def Let_def split: option.split)

lemma receipt_step_fields:
  "pending_receipts (snd (receipt_step now p r)) = AList.delete p (pending_receipts (snd r))"
  "retransmitted_packets (snd (receipt_step now p r)) = retransmitted_packets (snd r) - {p}"
  by (auto simp: receipt_step_def Let_def forget_packet_def split_beta split: option.split)

definition ack_bytes :: "(duration option \<times> nat \<times> 'tok option) list \<Rightarrow> nat" where
  "ack_bytes info = sum_list (map (\<lambda>(_, n, _). n) info)"

lemma fold_receipts_flight:
  "map_ok (pending_receipts (snd r)) \<Longrightarrow>
    ack_bytes (fst (fold (receipt_step now) ids r)) + flight (snd (fold (receipt_step now) ids r)) =
      ack_bytes (fst r) + flight (snd r)"
proof (induction ids arbitrary: r)
  case (Cons p ids)
  obtain info s where r: "r = (info, s)" by (cases r)
  have "ack_bytes (fst (receipt_step now p r)) + flight (snd (receipt_step now p r)) = ack_bytes info + flight s"
    using Cons.prems flight_forget[of s p]
    by (auto simp: r receipt_step_info ack_bytes_def flight_def receipt_step_fields pending_size_def
        entry_size_def forget_packet_def split: option.splits)
  then show ?case using Cons.IH[of "receipt_step now p r"] Cons.prems
    by (simp add: r receipt_step_fields)
qed simp

lemma fold_receipts_pending:
  "pending_receipts (snd (fold (receipt_step now) ids r)) =
    filter (\<lambda>(p, _). p \<notin> set ids) (pending_receipts (snd r))"
  by (induction ids arbitrary: r) (auto simp: receipt_step_fields delete_as_filter intro!: filter_cong)

lemma fold_receipts_karn:
  "(Some rtt, sz, tok) \<in> set (fst (fold (receipt_step now) ids r)) \<Longrightarrow>
    (Some rtt, sz, tok) \<in> set (fst r) \<or>
    (\<exists>p pk sent. p \<in> set ids \<and> p \<notin> retransmitted_packets (snd r) \<and>
      map_of (pending_receipts (snd r)) p = Some (pk, sent, tok, sz) \<and> rtt = now - sent)"
proof (induction ids arbitrary: r)
  case (Cons q ids)
  obtain info s where r: "r = (info, s)" by (cases r)
  from Cons.IH[of "receipt_step now q r"] Cons.prems show ?case
    by (auto simp: r receipt_step_fields receipt_step_info split: option.splits if_splits) metis
qed simp

text \<open>
  Processing receipts removes exactly the acknowledged packets; the sizes it reports plus the
  bytes still in flight are the bytes in flight before, duplicates and unknown ids counting nothing;
  and (Karn's algorithm) an RTT sample is reported only for a packet that was pending and never
  retransmitted, and it is the time since that packet was sent.
\<close>

theorem receipts_account_exactly:
  assumes "spt_inv t s"
  shows "let ((info, loss), s') = report_received_receipts now ids s in
    ack_bytes info + flight s' = flight s \<and>
    pending_receipts s' = filter (\<lambda>(p, _). p \<notin> set ids) (pending_receipts s) \<and>
    (\<forall>rtt sz tok. (Some rtt, sz, tok) \<in> set info \<longrightarrow>
      (\<exists>p pk sent. p \<in> set ids \<and> p \<notin> retransmitted_packets s \<and>
        map_of (pending_receipts s) p = Some (pk, sent, tok, sz) \<and> rtt = now - sent))"
proof -
  have ok: "map_ok (pending_receipts s)" using assms by (simp add: spt_inv_def spt_struct_def)
  then show ?thesis
    using fold_receipts_flight[of "([], s)" now ids] fold_receipts_pending[of now ids "([], s)"]
      fold_receipts_karn[where now = now and ids = ids and r = "([], s)"]
    by (simp add: report_received_receipts_def Let_def split_beta ack_bytes_def)
qed

theorem receipts_account_exactly_witness:
  "let ((info, loss), s') = report_received_receipts 9 [1, 1, 77] two_streams in
    ack_bytes info + flight s' = flight two_streams"
  using receipts_account_exactly[OF two_streams_inv, of 9 "[1, 1, 77]"] by (simp add: Let_def split_beta)

text \<open>
  Refreshing a packet after a resend never brings back a packet that is no longer tracked, and
  never changes the bytes in flight.
\<close>

theorem refresh_never_resurrects:
  assumes "spt_inv t s"
  shows "let (r, s') = refresh_sent_packet now p payload tok s in
    r = contains_packet p s \<and> keys (pending_receipts s') = keys (pending_receipts s) \<and>
    flight s' = flight s \<and> (\<not> r \<longrightarrow> s' = s)"
proof -
  have ok: "map_ok (pending_receipts s)" using assms by (simp add: spt_inv_def spt_struct_def)
  have "map_of (pending_receipts s) p \<noteq> None \<Longrightarrow> p \<in> keys (pending_receipts s)" by (simp add: map_of_keys)
  then show ?thesis using ok
    by (auto simp: refresh_sent_packet_def contains_packet_def contains_key_def flight_def entry_size_def
        value_sum_update_same split: option.splits)
qed

theorem refresh_never_resurrects_witness:
  "let (r, s') = refresh_sent_packet 9 (5 :: packet_id) [1] None two_streams in
    r = contains_packet 5 two_streams \<and> flight s' = flight two_streams"
  using refresh_never_resurrects[OF two_streams_inv, of 9 5 "[1]" None] by (simp add: Let_def split_beta)

end
