(* ===== verification/Received_Packet_Tracker.thy ===== *)
theory Received_Packet_Tracker
  imports Prelude
begin

text \<open>
  The receive-side bookkeeping of a connection: \<open>transport/received_packet_tracker.rs\<close>. The state
  holds the receipts not yet sent, the queue of accepted packets in order of arrival, and the hash
  map of the same packets used for duplicate detection. The time source is the argument \<open>now\<close>.
  The lemmas show that queue and map agree, that a packet is accepted a second time only after the
  retention period, and that every accepted packet is acknowledged exactly once and in order.
\<close>

section \<open>Data\<close>

definition RETAIN_TIME :: duration where
  "RETAIN_TIME = from_secs 60"

definition MAX_PENDING_RECEIPTS :: nat where
  "MAX_PENDING_RECEIPTS = 20"

datatype ReportResult = ReportOk | AlreadyReceived | QueueFull

record ReceivedPacketTracker =
  rx_pending_receipts :: "packet_id list"
  rx_packet_id_time :: "(packet_id \<times> instant) list"
  rx_time_by_packet_id :: "(packet_id, instant) hash_map"

section \<open>Operations\<close>

definition rx_new :: ReceivedPacketTracker where
  "rx_new = \<lparr>rx_pending_receipts = [], rx_packet_id_time = [], rx_time_by_packet_id = []\<rparr>"

text \<open>The \<open>while\<close> loop of \<open>cleanup\<close>: pop the front of the queue while it is older than the bound.\<close>

fun rx_cleanup_loop :: "instant \<Rightarrow> (packet_id \<times> instant) list \<Rightarrow> (packet_id, instant) hash_map \<Rightarrow>
    (packet_id \<times> instant) list \<times> (packet_id, instant) hash_map" where
  "rx_cleanup_loop remove_before [] m = ([], m)"
| "rx_cleanup_loop remove_before ((packet_id, time) # q) m =
    (if time < remove_before then rx_cleanup_loop remove_before q (AList.delete packet_id m)
     else ((packet_id, time) # q, m))"

definition rx_cleanup :: "instant \<Rightarrow> ReceivedPacketTracker \<Rightarrow> ReceivedPacketTracker" where
  "rx_cleanup now s =
    (let (q, m) = rx_cleanup_loop (now - RETAIN_TIME) (rx_packet_id_time s) (rx_time_by_packet_id s)
     in s\<lparr>rx_packet_id_time := q, rx_time_by_packet_id := m\<rparr>)"

definition report_received_packet ::
    "instant \<Rightarrow> packet_id \<Rightarrow> ReceivedPacketTracker \<Rightarrow> ReportResult \<times> ReceivedPacketTracker" where
  "report_received_packet now packet_id s0 =
    (let s = rx_cleanup now s0 in
     if contains_key (rx_time_by_packet_id s) packet_id then (AlreadyReceived, s)
     else
       let s' = s\<lparr>rx_time_by_packet_id := AList.update packet_id now (rx_time_by_packet_id s),
                  rx_packet_id_time := rx_packet_id_time s @ [(packet_id, now)],
                  rx_pending_receipts := rx_pending_receipts s @ [packet_id]\<rparr>
       in (if length (rx_pending_receipts s') < MAX_PENDING_RECEIPTS then ReportOk else QueueFull, s'))"

definition get_receipts :: "instant \<Rightarrow> ReceivedPacketTracker \<Rightarrow> packet_id list \<times> ReceivedPacketTracker" where
  "get_receipts now s0 =
    (let s = rx_cleanup now s0
     in (rx_pending_receipts s, s\<lparr>rx_pending_receipts := []\<rparr>))"

section \<open>Invariant\<close>

text \<open>
  At time \<open>t\<close>: no packet occurs twice in the queue, the queue is in order of arrival, no entry is
  from the future, and the map holds exactly the packets of the queue with their times.
\<close>

definition rx_inv :: "instant \<Rightarrow> ReceivedPacketTracker \<Rightarrow> bool" where
  "rx_inv t s \<longleftrightarrow>
     distinct (map fst (rx_packet_id_time s)) \<and>
     sorted (map snd (rx_packet_id_time s)) \<and>
     (\<forall>p \<in> set (rx_packet_id_time s). snd p \<le> t) \<and>
     map_of (rx_time_by_packet_id s) = map_of (rx_packet_id_time s)"

lemma rx_inv_new: "rx_inv t rx_new"
  by (simp add: rx_inv_def rx_new_def)

lemma rx_inv_mono: "rx_inv t s \<Longrightarrow> t \<le> t' \<Longrightarrow> rx_inv t' s"
  by (auto simp: rx_inv_def intro: order_trans)

text \<open>On a queue in order of arrival the loop removes exactly the entries older than the bound.\<close>

lemma rx_cleanup_loop_queue:
  "sorted (map snd q) \<Longrightarrow> fst (rx_cleanup_loop b q m) = filter (\<lambda>p. b \<le> snd p) q"
  by (induction b q m rule: rx_cleanup_loop.induct)
    (auto intro!: filter_True[symmetric] dest: order_trans)

lemma rx_cleanup_loop_map:
  assumes "sorted (map snd q)" "distinct (map fst q)" "map_of m = map_of q"
  shows "map_of (snd (rx_cleanup_loop b q m)) = map_of (filter (\<lambda>p. b \<le> snd p) q)"
  using assms
proof (induction b q m rule: rx_cleanup_loop.induct)
  case (2 b p t q m)
  have nin: "map_of q p = None" using 2 by (auto simp: map_of_eq_None_iff)
  show ?case
  proof (cases "t < b")
    case True
    have "map_of (AList.delete p m) = map_of q" using 2 nin by (auto simp: fun_eq_iff)
    then show ?thesis using 2 True by simp
  next
    case False
    then have "filter (\<lambda>p. b \<le> snd p) q = q" using 2 by (auto simp: filter_id_conv)
    then show ?thesis using 2 False by simp
  qed
qed simp

lemma rx_cleanup_fields:
  "rx_pending_receipts (rx_cleanup now s) = rx_pending_receipts s"
  "rx_inv t s \<Longrightarrow>
    rx_packet_id_time (rx_cleanup now s) =
      filter (\<lambda>p. now - RETAIN_TIME \<le> snd p) (rx_packet_id_time s)"
  by (auto simp: rx_cleanup_def rx_inv_def split_beta rx_cleanup_loop_queue)

lemma rx_cleanup_inv: "rx_inv t s \<Longrightarrow> rx_inv t (rx_cleanup now s)"
  unfolding rx_inv_def
  by (auto simp: rx_cleanup_def split_beta rx_cleanup_loop_queue rx_cleanup_loop_map
      distinct_map_filter sorted_filter)

lemma rx_report_inv:
  assumes "rx_inv now s"
  shows "rx_inv now (snd (report_received_packet now p s))"
proof -
  let ?s = "rx_cleanup now s"
  have inv: "rx_inv now ?s" using assms by (rule rx_cleanup_inv)
  show ?thesis
  proof (cases "contains_key (rx_time_by_packet_id ?s) p")
    case True
    then show ?thesis using inv by (simp add: report_received_packet_def Let_def)
  next
    case False
    then have "p \<notin> fst ` set (rx_packet_id_time ?s)" 
      using inv by (metis contains_key_def rx_inv_def map_of_eq_None_iff)
    then show ?thesis using inv False
      by (auto simp: report_received_packet_def Let_def rx_inv_def sorted_append fun_eq_iff
          map_add_def map_of_eq_None_iff[symmetric] split: option.splits)
  qed
qed

lemma rx_receipts_inv: "rx_inv t s \<Longrightarrow> rx_inv t (snd (get_receipts now s))"
  using rx_cleanup_inv[of t s now] by (simp add: get_receipts_def Let_def rx_inv_def)

section \<open>Functional behaviour\<close>

text \<open>The branch a report takes depends only on whether the packet was accepted within the window.\<close>

lemma rx_report_result:
  assumes "rx_inv now s"
  shows "fst (report_received_packet now p s) =
    (if \<exists>t. (p, t) \<in> set (rx_packet_id_time s) \<and> now \<le> t + RETAIN_TIME then AlreadyReceived
     else if length (rx_pending_receipts s) + 1 < MAX_PENDING_RECEIPTS then ReportOk else QueueFull)"
proof -
  let ?s = "rx_cleanup now s"
  have "contains_key (rx_time_by_packet_id ?s) p \<longleftrightarrow>
      (\<exists>t. (p, t) \<in> set (rx_packet_id_time s) \<and> now \<le> t + RETAIN_TIME)"
    using rx_cleanup_inv[OF assms, of now] assms
    by (force simp: contains_key_def rx_inv_def map_of_eq_None_iff rx_cleanup_fields(2)[OF assms])
  then show ?thesis by (simp add: report_received_packet_def Let_def rx_cleanup_fields)
qed

section \<open>Traces\<close>

text \<open>
  A trace of the calls a connection makes, with the time of each. The log records what the tracker
  accepted (with the time) and what it handed out as receipts.
\<close>

datatype RxCall = Report packet_id | GetReceipts

record RxLog =
  accepted :: "(packet_id \<times> instant) list"
  acked :: "packet_id list"

fun rx_call :: "instant \<times> RxCall \<Rightarrow> ReceivedPacketTracker \<times> RxLog \<Rightarrow> ReceivedPacketTracker \<times> RxLog" where
  "rx_call (now, Report p) (s, l) =
    (let (r, s') = report_received_packet now p s
     in (s', if r = AlreadyReceived then l else l\<lparr>accepted := accepted l @ [(p, now)]\<rparr>))"
| "rx_call (now, GetReceipts) (s, l) =
    (let (ids, s') = get_receipts now s in (s', l\<lparr>acked := acked l @ ids\<rparr>))"

definition rx_run :: "(instant \<times> RxCall) list \<Rightarrow> ReceivedPacketTracker \<times> RxLog" where
  "rx_run cs = fold rx_call cs (rx_new, \<lparr>accepted = [], acked = []\<rparr>)"

text \<open>Two acceptances of one packet are further apart than the retention period.\<close>

definition spaced :: "(packet_id \<times> instant) list \<Rightarrow> bool" where
  "spaced xs \<longleftrightarrow> (\<forall>i j. i < j \<longrightarrow> j < length xs \<longrightarrow> fst (xs ! i) = fst (xs ! j) \<longrightarrow>
     snd (xs ! i) + RETAIN_TIME < snd (xs ! j))"

lemma spaced_snoc: "spaced xs \<Longrightarrow>
    (\<And>t'. (p, t') \<in> set xs \<Longrightarrow> t' + RETAIN_TIME < t) \<Longrightarrow> spaced (xs @ [(p, t)])"
  unfolding spaced_def
  by (auto simp: nth_append less_Suc_eq)

definition rx_log_inv :: "instant \<Rightarrow> ReceivedPacketTracker \<times> RxLog \<Rightarrow> bool" where
  "rx_log_inv t = (\<lambda>(s, l). rx_inv t s \<and> spaced (accepted l) \<and>
     map fst (accepted l) = acked l @ rx_pending_receipts s \<and>
     (\<forall>(p, t') \<in> set (accepted l). t' \<le> t \<and> (t \<le> t' + RETAIN_TIME \<longrightarrow>
        (p, t') \<in> set (rx_packet_id_time s))))"

lemma rx_log_inv_mono: "rx_log_inv t sl \<Longrightarrow> t \<le> t' \<Longrightarrow> rx_log_inv t' sl"
  by (fastforce simp: rx_log_inv_def intro: rx_inv_mono)

lemma rx_call_inv:
  assumes "rx_log_inv now sl"
  shows "rx_log_inv now (rx_call (now, c) sl)"
proof -
  obtain s l where sl: "sl = (s, l)" by (cases sl)
  have inv: "rx_inv now s" using assms by (simp add: rx_log_inv_def sl)
  note q = rx_cleanup_fields(2)[OF inv]
  show ?thesis
  proof (cases c)
    case (Report p)
    show ?thesis
    proof (cases "fst (report_received_packet now p s) = AlreadyReceived")
      case True
      then have "snd (report_received_packet now p s) = rx_cleanup now s"
        by (auto simp: report_received_packet_def Let_def split: if_splits)
      then show ?thesis using assms True rx_report_inv[OF inv, of p]
        by (fastforce simp: rx_log_inv_def sl Report split_beta Let_def rx_cleanup_fields(1) q)
    next
      case False
      then have far: "\<And>t'. (p, t') \<in> set (accepted l) \<Longrightarrow> t' + RETAIN_TIME < now"
        using assms rx_report_result[OF inv, of p]
        by (force simp: rx_log_inv_def sl split: if_splits)
      show ?thesis using assms False far rx_report_inv[OF inv, of p] rx_cleanup_fields(1)[of now s] q
        by (fastforce simp: rx_log_inv_def sl Report split_beta Let_def report_received_packet_def
            intro: spaced_snoc split: if_splits)
    qed
  next
    case GetReceipts
    then show ?thesis using assms rx_receipts_inv[OF inv, of now]
      by (fastforce simp: rx_log_inv_def sl get_receipts_def Let_def rx_cleanup_fields(1) q)
  qed
qed

interpretation rx: timed_machine rx_call rx_log_inv
  by unfold_locales (auto intro: rx_log_inv_mono rx_call_inv)

lemma rx_log_inv_new: "rx_log_inv 0 (rx_new, \<lparr>accepted = [], acked = []\<rparr>)"
  by (simp add: rx_log_inv_def rx_inv_new spaced_def) (simp add: rx_new_def)

text \<open>
  C3: over any sequence of calls with non-decreasing times, a packet id is accepted again only more
  than \<open>RETAIN_TIME\<close> after its previous acceptance, and the receipts handed out followed by the
  receipts still pending are exactly the accepted packets, each once and in order of arrival.
\<close>

theorem receipts_exactly_once:
  assumes "sorted (map fst cs)"
  shows "spaced (accepted (snd (rx_run cs))) \<and>
    acked (snd (rx_run cs)) @ rx_pending_receipts (fst (rx_run cs)) =
      map fst (accepted (snd (rx_run cs)))"
  using rx.timed_run[OF assms rx_log_inv_new]
  by (auto simp: rx_run_def rx_log_inv_def split_beta)

theorem receipts_exactly_once_witness:
  "spaced (accepted (snd (rx_run [(0, Report 7), (5, Report 7), (6, GetReceipts), (70000000000, Report 7)])))"
  using receipts_exactly_once[of "[(0, Report 7), (5, Report 7), (6, GetReceipts), (70000000000, Report 7)]"]
  by simp

end
