(* ===== verification/Fixed_Rate.thy ===== *)
theory Fixed_Rate
  imports Prelude
begin

text \<open>
  The default congestion controller, \<open>transport/fixed_rate/controller.rs\<close>, and the dispatch of
  \<open>transport/congestion_control.rs\<close> to it. The atomics are fields of a record: every method makes
  one atomic update per field. The locale \<open>flight_controller\<close> states what the connection relies on
  (each call changes the bytes in flight by what it says); the controller interprets it.
\<close>

section \<open>Data\<close>

definition MAX_PACKET_SIZE :: nat where
  "MAX_PACKET_SIZE = 1200"

definition DEFAULT_RATE_BYTES_PER_SEC :: nat where
  "DEFAULT_RATE_BYTES_PER_SEC = 1250000"

definition LOSS_PAUSE_MARGIN :: nat where
  "LOSS_PAUSE_MARGIN = 50 * MAX_PACKET_SIZE"

record FixedRateConfig =
  rate_bytes_per_sec :: nat

definition fixed_rate_default :: FixedRateConfig where
  "fixed_rate_default = \<lparr>rate_bytes_per_sec = DEFAULT_RATE_BYTES_PER_SEC\<rparr>"

definition fixed_rate_config_new :: "nat \<Rightarrow> FixedRateConfig" where
  "fixed_rate_config_new r = \<lparr>rate_bytes_per_sec = r\<rparr>"

definition from_mbps :: "nat \<Rightarrow> FixedRateConfig" where
  "from_mbps mbps = \<lparr>rate_bytes_per_sec = mbps * 1000000 div 8\<rparr>"

record FixedRateController =
  fr_rate :: nat
  fr_flightsize :: nat
  loss_pause_cwnd :: nat

section \<open>Operations\<close>

definition fr_new :: "FixedRateConfig \<Rightarrow> FixedRateController" where
  "fr_new config = \<lparr>fr_rate = rate_bytes_per_sec config, fr_flightsize = 0, loss_pause_cwnd = 0\<rparr>"

text \<open>\<open>fetch_add\<close> wraps around.\<close>

definition fr_on_send :: "nat \<Rightarrow> FixedRateController \<Rightarrow> FixedRateController" where
  "fr_on_send bytes c = c\<lparr>fr_flightsize := wrap_add64 (fr_flightsize c) bytes\<rparr>"

text \<open>Subtraction of naturals is \<open>saturating_sub\<close>.\<close>

definition fr_on_ack_without_rtt :: "nat \<Rightarrow> FixedRateController \<Rightarrow> FixedRateController" where
  "fr_on_ack_without_rtt bytes_acked c =
    c\<lparr>loss_pause_cwnd := 0, fr_flightsize := fr_flightsize c - bytes_acked\<rparr>"

definition fr_on_ack :: "duration \<Rightarrow> nat \<Rightarrow> FixedRateController \<Rightarrow> FixedRateController" where
  "fr_on_ack rtt_sample bytes_acked c = fr_on_ack_without_rtt bytes_acked c"

definition fr_on_loss :: "FixedRateController \<Rightarrow> FixedRateController" where
  "fr_on_loss c = c\<lparr>loss_pause_cwnd := max (fr_flightsize c) 1\<rparr>"

definition fr_on_timeout :: "FixedRateController \<Rightarrow> FixedRateController" where
  "fr_on_timeout c = c\<lparr>loss_pause_cwnd := max (fr_flightsize c) 1\<rparr>"

definition fr_release_flightsize :: "nat \<Rightarrow> FixedRateController \<Rightarrow> FixedRateController" where
  "fr_release_flightsize bytes c = c\<lparr>fr_flightsize := fr_flightsize c - bytes\<rparr>"

text \<open>The sum wraps only if the bytes in flight approach \<open>usize::MAX\<close>.\<close>

definition fr_current_cwnd :: "FixedRateController \<Rightarrow> nat" where
  "fr_current_cwnd c =
    (if loss_pause_cwnd c > 0 then wrap_add64 (loss_pause_cwnd c) LOSS_PAUSE_MARGIN
     else u64_max div 2)"

definition fr_current_rate :: "duration \<Rightarrow> FixedRateController \<Rightarrow> nat" where
  "fr_current_rate rtt c = fr_rate c"

text \<open>\<open>on_send_with_token\<close> and \<open>on_ack_with_token\<close> for the fixed-rate algorithm: no token.\<close>

definition on_send_with_token :: "nat \<Rightarrow> FixedRateController \<Rightarrow> 'tok option \<times> FixedRateController" where
  "on_send_with_token bytes c = (None, fr_on_send bytes c)"

definition on_ack_with_token :: "duration \<Rightarrow> nat \<Rightarrow> 'tok option \<Rightarrow> FixedRateController \<Rightarrow> FixedRateController" where
  "on_ack_with_token rtt_sample bytes_acked token c = fr_on_ack rtt_sample bytes_acked c"

section \<open>The contract of a controller\<close>

text \<open>One entry of the result of \<open>report_received_receipts\<close>, as the connection feeds it on.\<close>

fun feed_ack :: "(duration \<Rightarrow> nat \<Rightarrow> 'tok option \<Rightarrow> 'c \<Rightarrow> 'c) \<Rightarrow> (nat \<Rightarrow> 'c \<Rightarrow> 'c) \<Rightarrow>
    duration option \<times> nat \<times> 'tok option \<Rightarrow> 'c \<Rightarrow> 'c" where
  "feed_ack ack ack_without_rtt (Some rtt_sample, packet_size, token) c = ack rtt_sample packet_size token c"
| "feed_ack ack ack_without_rtt (None, packet_size, token) c = ack_without_rtt packet_size c"

text \<open>
  The bytes in flight as a function of the calls: sending adds (while the count fits in \<open>usize\<close>),
  acknowledging and releasing subtract, timeouts change nothing.
\<close>

locale flight_controller =
  fixes inflight :: "'c \<Rightarrow> nat"
    and send :: "nat \<Rightarrow> 'c \<Rightarrow> 'c"
    and ack :: "duration \<Rightarrow> nat \<Rightarrow> 'tok option \<Rightarrow> 'c \<Rightarrow> 'c"
    and ack_without_rtt :: "nat \<Rightarrow> 'c \<Rightarrow> 'c"
    and timeout :: "'c \<Rightarrow> 'c"
    and release :: "nat \<Rightarrow> 'c \<Rightarrow> 'c"
  assumes send_law: "inflight c + n < 2 ^ 64 \<Longrightarrow> inflight (send n c) = inflight c + n"
    and ack_law: "inflight (ack d n tok c) = inflight c - n"
    and ack_without_rtt_law: "inflight (ack_without_rtt n c) = inflight c - n"
    and timeout_law: "inflight (timeout c) = inflight c"
    and release_law: "inflight (release n c) = inflight c - n"
begin

lemma feed_ack_inflight: "inflight (feed_ack ack ack_without_rtt info c) = inflight c - fst (snd info)"
  by (cases "(ack, ack_without_rtt, info, c)" rule: feed_ack.cases) (auto simp: ack_law ack_without_rtt_law)

lemma fold_feed_inflight:
  "inflight (fold (feed_ack ack ack_without_rtt) infos c) = inflight c - sum_list (map (fst \<circ> snd) infos)"
  by (induction infos arbitrary: c) (auto simp: feed_ack_inflight)

end

interpretation fr: flight_controller fr_flightsize fr_on_send on_ack_with_token fr_on_ack_without_rtt
  fr_on_timeout fr_release_flightsize
  by unfold_locales
    (auto simp: fr_on_send_def on_ack_with_token_def fr_on_ack_def fr_on_ack_without_rtt_def
      fr_on_timeout_def fr_release_flightsize_def wrap_add64_small)

section \<open>The loss pause\<close>

text \<open>
  After a loss or timeout the congestion window is the bytes in flight at that moment plus the
  margin of 50 packets, and sending up to that margin never moves it; any acknowledgement lifts it.
  Hence at least one packet can be sent right after a timeout, and the window of an unpaused
  controller never blocks.
\<close>

theorem loss_pause_window:
  assumes "fr_flightsize c + n < 2 ^ 63" "n \<le> LOSS_PAUSE_MARGIN"
  shows "fr_flightsize (fr_on_send n (fr_on_timeout c)) \<le> fr_current_cwnd (fr_on_send n (fr_on_timeout c)) \<and>
    fr_current_cwnd (fr_on_send n (fr_on_timeout c)) = max (fr_flightsize c) 1 + LOSS_PAUSE_MARGIN \<and>
    fr_current_cwnd (fr_on_ack_without_rtt m (fr_on_send n (fr_on_timeout c))) = u64_max div 2"
  using assms
  by (auto simp: fr_on_send_def fr_on_timeout_def fr_current_cwnd_def fr_on_ack_without_rtt_def
      wrap_add64_def LOSS_PAUSE_MARGIN_def MAX_PACKET_SIZE_def max_def)

theorem loss_pause_window_witness:
  "fr_current_cwnd (fr_on_send 1200 (fr_on_timeout (fr_on_send 5000 (fr_new fixed_rate_default)))) = 65000"
proof -
  let ?c = "fr_on_send 5000 (fr_new fixed_rate_default)"
  have "fr_flightsize ?c = 5000" by (simp add: fr_on_send_def fr_new_def wrap_add64_def)
  then show ?thesis using loss_pause_window[of ?c 1200]
    by (simp add: LOSS_PAUSE_MARGIN_def MAX_PACKET_SIZE_def)
qed

end
