(* ===== verification/Peer_Connection.thy ===== *)
theory Peer_Connection
  imports Sent_Packet_Properties Received_Packet_Tracker Fixed_Rate
begin

text \<open>
  The parts of \<open>transport/peer_connection.rs\<close> that tie the trackers and the congestion controller
  together, with the message type of \<open>transport/symmetric_message.rs\<close>: sending a packet (one or
  several datagrams), the acknowledgement \<open>noop\<close>, the handling of an inbound packet, the resend
  burst and the release of an aborted stream.

  Two things are parameters. The codec is bincode and AES-GCM: \<open>serialized_size\<close> of a message and
  the sealed datagram \<open>seal\<close>. The socket is the predicate \<open>sock\<close> telling whether \<open>send_to\<close>
  succeeds for a datagram.
\<close>

section \<open>Messages\<close>

type_synonym socket_addr = string

datatype SymmetricMessagePayload =
    AckConnection "string + (bytes \<times> socket_addr)"
  | ShortMessage bytes
  | StreamFragment stream_id nat nat bytes "bytes option"
  | NoOp
  | Ping nat
  | Pong nat

record SymmetricMessage =
  sm_packet_id :: packet_id
  sm_confirm_receipt :: "packet_id list"
  sm_payload :: SymmetricMessagePayload

record codec =
  serialized_size :: "SymmetricMessage \<Rightarrow> nat"
  seal :: "SymmetricMessage \<Rightarrow> bytes"

definition PACKET_TYPE_SIZE :: nat where
  "PACKET_TYPE_SIZE = 1"

definition NONCE_SIZE :: nat where
  "NONCE_SIZE = 12"

definition TAG_SIZE :: nat where
  "TAG_SIZE = 16"

definition MAX_DATA_SIZE :: nat where
  "MAX_DATA_SIZE = MAX_PACKET_SIZE - PACKET_TYPE_SIZE - NONCE_SIZE - TAG_SIZE"

definition noop_message_overhead :: "codec \<Rightarrow> nat" where
  "noop_message_overhead cd =
    serialized_size cd \<lparr>sm_packet_id = - 1, sm_confirm_receipt = [], sm_payload = NoOp\<rparr>"

definition max_num_of_confirm_receipts_of_noop_message :: "codec \<Rightarrow> nat" where
  "max_num_of_confirm_receipts_of_noop_message cd = (MAX_DATA_SIZE - noop_message_overhead cd) div 4"

text \<open>\<open>Left\<close> of the sealed datagram if it fits, else \<open>Right\<close> of the payload and receipts.\<close>

definition try_serialize_msg_to_packet_data :: "codec \<Rightarrow> packet_id \<Rightarrow> SymmetricMessagePayload \<Rightarrow> packet_id list \<Rightarrow>
    bytes + (SymmetricMessagePayload \<times> packet_id list)" where
  "try_serialize_msg_to_packet_data cd packet_id payload confirm_receipt =
    (let msg = \<lparr>sm_packet_id = packet_id, sm_confirm_receipt = confirm_receipt, sm_payload = payload\<rparr>
     in if serialized_size cd msg \<le> MAX_DATA_SIZE then Inl (seal cd msg)
        else Inr (payload, confirm_receipt))"

definition to_packet_data :: "codec \<Rightarrow> SymmetricMessage \<Rightarrow> bytes option" where
  "to_packet_data cd msg = (if serialized_size cd msg > MAX_DATA_SIZE then None else Some (seal cd msg))"

definition serialize_msg_to_packet_data :: "codec \<Rightarrow> packet_id \<Rightarrow> SymmetricMessagePayload \<Rightarrow> packet_id list \<Rightarrow>
    bytes option" where
  "serialize_msg_to_packet_data cd packet_id payload confirm_receipt =
    to_packet_data cd \<lparr>sm_packet_id = packet_id, sm_confirm_receipt = confirm_receipt, sm_payload = payload\<rparr>"

section \<open>Sending a packet\<close>

datatype SendError = SendFailed | OutboundStreamFailed | SerializationError

definition report_sent_tagged :: "nat \<Rightarrow> packet_id \<Rightarrow> bytes \<Rightarrow> nat \<Rightarrow> 'tok option \<Rightarrow> PacketStream \<Rightarrow>
    'tok SentPacketTracker \<Rightarrow> 'tok SentPacketTracker" where
  "report_sent_tagged now packet_id payload packet_size delivery_token stream tracker =
    (case stream of
       Stream stream_id \<Rightarrow>
         report_sent_stream_packet_with_size now packet_id payload delivery_token stream_id packet_size tracker
     | Control \<Rightarrow>
         report_sent_packet_with_token_and_size now packet_id payload delivery_token packet_size tracker)"

text \<open>The macro \<open>send!\<close>: send the datagrams in order, registering each after its \<open>send_to\<close>.\<close>

fun send_datagrams :: "(bytes \<Rightarrow> bool) \<Rightarrow> nat \<Rightarrow> packet_id \<Rightarrow> nat \<Rightarrow> 'tok option \<Rightarrow> PacketStream \<Rightarrow> bytes list \<Rightarrow>
    'tok SentPacketTracker \<Rightarrow> SendError option \<times> 'tok SentPacketTracker" where
  "send_datagrams sock now pid packet_size token stream [] tracker = (None, tracker)"
| "send_datagrams sock now pid packet_size token stream (d # ds) tracker =
    (if sock d then
       send_datagrams sock now pid packet_size token stream ds
         (report_sent_tagged now pid d packet_size token stream tracker)
     else (Some SendFailed, tracker))"

text \<open>The receipts of the successive \<open>NoOp\<close> datagrams: \<open>split_off(max_num)\<close> takes the tail.\<close>

function receipt_chunks :: "nat \<Rightarrow> packet_id list \<Rightarrow> packet_id list list" where
  "receipt_chunks max_num confirm_receipt =
    (if confirm_receipt = [] then []
     else if length confirm_receipt \<le> max_num then [confirm_receipt]
     else drop max_num confirm_receipt # receipt_chunks max_num (take max_num confirm_receipt))"
  by pat_completeness auto

termination receipt_chunks
  by (relation "measure (\<lambda>(m, xs). length xs)") auto

declare receipt_chunks.simps [simp del]

text \<open>\<open>?\<close> on a list of results: the first error wins.\<close>

fun collect_results :: "'a option list \<Rightarrow> 'a list option" where
  "collect_results [] = Some []"
| "collect_results (None # xs) = None"
| "collect_results (Some x # xs) = map_option ((#) x) (collect_results xs)"

definition packet_sending :: "codec \<Rightarrow> (bytes \<Rightarrow> bool) \<Rightarrow> nat \<Rightarrow> packet_id \<Rightarrow> packet_id list \<Rightarrow>
    SymmetricMessagePayload \<Rightarrow> nat \<Rightarrow> 'tok option \<Rightarrow> PacketStream \<Rightarrow> 'tok SentPacketTracker \<Rightarrow>
    SendError option \<times> 'tok SentPacketTracker" where
  "packet_sending cd sock now packet_id confirm_receipt payload packet_size token stream tracker =
    (case try_serialize_msg_to_packet_data cd packet_id payload confirm_receipt of
       Inl packet_data \<Rightarrow>
         if sock packet_data then
           (None, report_sent_tagged now packet_id packet_data packet_size token stream tracker)
         else (Some SendFailed, tracker)
     | Inr (pl, receipts) \<Rightarrow>
         let max_num = max_num_of_confirm_receipts_of_noop_message cd;
             packet = serialize_msg_to_packet_data cd packet_id pl [];
             noops = (if max_num > length receipts
                      then [serialize_msg_to_packet_data cd packet_id NoOp receipts]
                      else map (serialize_msg_to_packet_data cd packet_id NoOp) (receipt_chunks max_num receipts))
         in case collect_results (packet # noops) of
              None \<Rightarrow> (Some SerializationError, tracker)
            | Some packets \<Rightarrow> send_datagrams sock now packet_id packet_size token stream packets tracker)"

section \<open>The connection\<close>

record 'tok PeerConn =
  sent_tracker :: "'tok SentPacketTracker"
  congestion_controller :: FixedRateController
  received_tracker :: ReceivedPacketTracker
  last_packet_id :: packet_id
  last_packet_report_time :: nat

text \<open>\<open>noop\<close>: an acknowledgement packet, counted as 50 bytes in flight.\<close>

definition noop :: "codec \<Rightarrow> (bytes \<Rightarrow> bool) \<Rightarrow> nat \<Rightarrow> packet_id list \<Rightarrow> 'tok PeerConn \<Rightarrow>
    SendError option \<times> 'tok PeerConn" where
  "noop cd sock now receipts c =
    (let (token, cc) = on_send_with_token 50 (congestion_controller c);
         (err, tr) = packet_sending cd sock now (last_packet_id c) receipts NoOp 50 token Control (sent_tracker c)
     in (err, c\<lparr>congestion_controller := cc, sent_tracker := tr, last_packet_id := last_packet_id c + 1\<rparr>))"

definition outbound_short_message :: "codec \<Rightarrow> (bytes \<Rightarrow> bool) \<Rightarrow> nat \<Rightarrow> bytes \<Rightarrow> 'tok PeerConn \<Rightarrow>
    SendError option \<times> 'tok PeerConn" where
  "outbound_short_message cd sock now data c =
    (let (receipts, rt) = get_receipts now (received_tracker c);
         packet_size = length data + 40;
         (token, cc) = on_send_with_token packet_size (congestion_controller c);
         (err, tr) = packet_sending cd sock now (last_packet_id c) receipts (ShortMessage data) packet_size
                       token Control (sent_tracker c)
     in (err, c\<lparr>received_tracker := rt, congestion_controller := cc, sent_tracker := tr,
               last_packet_id := last_packet_id c + 1\<rparr>))"

definition is_transient_send_failure :: "SendError \<Rightarrow> bool" where
  "is_transient_send_failure e = (case e of SendFailed \<Rightarrow> True | OutboundStreamFailed \<Rightarrow> True | _ \<Rightarrow> False)"

text \<open>The acknowledgements of an inbound packet, fed to tracker and controller.\<close>

definition process_receipts :: "nat \<Rightarrow> packet_id list \<Rightarrow> 'tok PeerConn \<Rightarrow> 'tok PeerConn" where
  "process_receipts now confirm_receipt c =
    (let ((ack_info, loss_rate), tr) = report_received_receipts now confirm_receipt (sent_tracker c)
     in c\<lparr>sent_tracker := tr,
          congestion_controller :=
            fold (feed_ack on_ack_with_token fr_on_ack_without_rtt) ack_info (congestion_controller c)\<rparr>)"

text \<open>Send the pending receipts if there are any; a transient failure is only logged.\<close>

definition flush_receipts :: "codec \<Rightarrow> (bytes \<Rightarrow> bool) \<Rightarrow> nat \<Rightarrow> 'tok PeerConn \<Rightarrow> SendError option \<times> 'tok PeerConn" where
  "flush_receipts cd sock now c =
    (let (receipts, rt) = get_receipts now (received_tracker c);
         c1 = c\<lparr>received_tracker := rt\<rparr>
     in if receipts = [] then (None, c1)
        else case noop cd sock now receipts c1 of
               (None, c2) \<Rightarrow> (None, c2)
             | (Some e, c2) \<Rightarrow> if is_transient_send_failure e then (None, c2) else (Some e, c2))"

text \<open>What the receive loop does with an inbound packet: hand the payload to \<open>process_inbound\<close>,
  skip it (\<open>continue\<close>), or leave with an error.\<close>

datatype InboundOutcome = ProcessInbound | SkipPacket | RecvError SendError

definition handle_inbound :: "codec \<Rightarrow> (bytes \<Rightarrow> bool) \<Rightarrow> nat \<Rightarrow> packet_id \<Rightarrow> packet_id list \<Rightarrow> 'tok PeerConn \<Rightarrow>
    InboundOutcome \<times> 'tok PeerConn" where
  "handle_inbound cd sock now packet_id confirm_receipt c =
    (let should_send_receipts = (now > last_packet_report_time c + MESSAGE_CONFIRMATION_TIMEOUT);
         c1 = (if should_send_receipts then c\<lparr>last_packet_report_time := now\<rparr> else c);
         c2 = process_receipts now confirm_receipt c1;
         (report_result, rt) = report_received_packet now packet_id (received_tracker c2);
         c3 = c2\<lparr>received_tracker := rt\<rparr>
     in if report_result = QueueFull \<or> should_send_receipts then
          (case flush_receipts cd sock now c3 of
             (None, c4) \<Rightarrow> (ProcessInbound, c4)
           | (Some e, c4) \<Rightarrow> (RecvError e, c4))
        else if report_result = ReportOk then (ProcessInbound, c3)
        else (SkipPacket, c3))"

text \<open>The background acknowledgement timer.\<close>

definition ack_tick :: "codec \<Rightarrow> (bytes \<Rightarrow> bool) \<Rightarrow> nat \<Rightarrow> 'tok PeerConn \<Rightarrow> SendError option \<times> 'tok PeerConn" where
  "ack_tick cd sock now c = flush_receipts cd sock now c"

text \<open>The resend branch: at most \<open>MAX_RESENDS_PER_ITERATION\<close> actions. The result is the instant to
  wake up (\<open>None\<close> when the branch leaves without setting one, or yields), the datagrams sent, and the
  connection.\<close>

definition MAX_RESENDS_PER_ITERATION :: nat where
  "MAX_RESENDS_PER_ITERATION = 4"

fun resend_burst :: "(bytes \<Rightarrow> bool) \<Rightarrow> nat \<Rightarrow> nat \<Rightarrow> 'tok PeerConn \<Rightarrow>
    nat option \<times> bytes list \<times> 'tok PeerConn" where
  "resend_burst sock now 0 c = (None, [], c)"
| "resend_burst sock now (Suc n) c =
    (case get_resend now (sent_tracker c) of
       (WaitUntil deadline, tr) \<Rightarrow> (Some deadline, [], c\<lparr>sent_tracker := tr\<rparr>)
     | (Abandon p payload_len, tr) \<Rightarrow>
         resend_burst sock now n
           (c\<lparr>sent_tracker := tr,
              congestion_controller := fr_release_flightsize payload_len (congestion_controller c)\<rparr>)
     | (Resend p packet, tr) \<Rightarrow>
         let c1 = c\<lparr>sent_tracker := snd (refresh_sent_packet now p packet None tr),
                    congestion_controller := fr_on_timeout (congestion_controller c)\<rparr>
         in if sock packet then
              let (w, ds, c2) = resend_burst sock now n c1 in (w, packet # ds, c2)
            else (None, [], c1)
     | (TlpProbe p packet, tr) \<Rightarrow>
         let c1 = c\<lparr>sent_tracker := snd (refresh_sent_packet now p packet None tr)\<rparr>
         in if sock packet then
              let (w, ds, c2) = resend_burst sock now n c1 in (w, packet # ds, c2)
            else (None, [], c1))"

definition resend_check :: "(bytes \<Rightarrow> bool) \<Rightarrow> nat \<Rightarrow> 'tok PeerConn \<Rightarrow> nat option \<times> bytes list \<times> 'tok PeerConn" where
  "resend_check sock now c = resend_burst sock now MAX_RESENDS_PER_ITERATION c"

text \<open>\<open>outbound_stream.rs\<close>: release what an aborted stream still has in flight.\<close>

definition release_aborted_stream_flightsize :: "stream_id \<Rightarrow> 'tok PeerConn \<Rightarrow> 'tok PeerConn" where
  "release_aborted_stream_flightsize sid c =
    (let (released, tr) = drop_stream sid (sent_tracker c);
         c1 = c\<lparr>sent_tracker := tr\<rparr>
     in if released > 0
        then c1\<lparr>congestion_controller := fr_release_flightsize (min released u64_max) (congestion_controller c1)\<rparr>
        else c1)"

text \<open>The sending of one fragment in \<open>send_stream\<close>, with its failure path.\<close>

definition send_fragment :: "codec \<Rightarrow> (bytes \<Rightarrow> bool) \<Rightarrow> nat \<Rightarrow> stream_id \<Rightarrow> SymmetricMessagePayload \<Rightarrow> nat \<Rightarrow>
    'tok PeerConn \<Rightarrow> SendError option \<times> 'tok PeerConn" where
  "send_fragment cd sock now sid fragment packet_size c =
    (let (token, cc) = on_send_with_token packet_size (congestion_controller c);
         (err, tr) = packet_sending cd sock now (last_packet_id c) [] fragment packet_size token (Stream sid)
                       (sent_tracker c);
         c1 = c\<lparr>congestion_controller := cc, sent_tracker := tr, last_packet_id := last_packet_id c + 1\<rparr>
     in case err of
          None \<Rightarrow> (None, c1)
        | Some e \<Rightarrow>
            let c2 = release_aborted_stream_flightsize sid c1
            in (Some e, c2\<lparr>congestion_controller :=
                 fr_release_flightsize packet_size (congestion_controller c2)\<rparr>))"

end
