(* ===== verification/Flight_Accounting.thy ===== *)
theory Flight_Accounting
  imports Peer_Connection
begin

text \<open>
  The bytes in flight, across components and interleavings. The stream tasks and the receive loop
  of a connection run concurrently and lock the sent-packet tracker once per call; the congestion
  controller is updated by separate atomic operations. A step of \<open>acct_step\<close> is one such locked
  call or atomic update, so its paths are the interleavings. Ghost fields count the bytes of sends
  under way, of packets that left the tracker and are not yet subtracted, of sends the controller was
  told of and the tracker never got, and of packets the tracker got and the controller was not told of. The
  handshake packet is of the last kind (\<open>transport/connection_handler.rs\<close>), and because the first packet
  of a connection has the same id, that packet can be of the third.
\<close>

section \<open>Effect of tracker operations on the bytes in flight\<close>

lemma entry_size_simp [simp]: "entry_size (a, b, c, n) = n"
  by (simp add: entry_size_def)

definition maps_ok :: "'tok SentPacketTracker \<Rightarrow> bool" where
  "maps_ok s \<longleftrightarrow> map_ok (pending_receipts s) \<and> map_ok (packet_streams s)"

lemma inner_fresh:
  assumes "p \<notin> keys (pending_receipts s)"
  shows "flight (report_sent_packet_inner now p d tok st n s) = flight s + n"
proof -
  have "map_of (pending_receipts s) p = None" using assms by (simp add: map_of_keys)
  then show ?thesis using assms by (simp add: report_sent_packet_inner_def flight_def value_sum_update_new)
qed

lemma inner_again:
  assumes "p \<in> keys (pending_receipts s)" "maps_ok s"
  shows "flight (report_sent_packet_inner now p d tok st n s) = flight s"
proof -
  obtain e where "map_of (pending_receipts s) p = Some e" using assms(1) map_of_keys[of "pending_receipts s" p] by auto
  then show ?thesis using assms(2)
    by (cases e) (simp add: report_sent_packet_inner_def flight_def maps_ok_def value_sum_update_same)
qed

lemma inner_maps_ok: "maps_ok s \<Longrightarrow> maps_ok (report_sent_packet_inner now p d tok st n s)"
  by (auto simp: maps_ok_def report_sent_packet_inner_def split: option.splits)

lemma tagged_inner: "\<exists>st'. report_sent_tagged now p d n tok st s = report_sent_packet_inner now p d tok st' n s"
  by (auto simp: report_sent_tagged_def report_sent_stream_packet_with_size_def
      report_sent_packet_with_token_and_size_def split: PacketStream.split)

lemma tagged_keys: "keys (pending_receipts (report_sent_tagged now p d n tok st s)) = insert p (keys (pending_receipts s))"
proof -
  have "map_of (pending_receipts s) p \<noteq> None \<Longrightarrow> p \<in> keys (pending_receipts s)" by (simp add: map_of_keys)
  then show ?thesis using tagged_inner[of now p d n tok st s]
    by (auto simp: report_sent_packet_inner_def split: option.splits)
qed

lemma tagged_effect:
  assumes "maps_ok s"
  shows "flight (report_sent_tagged now p d n tok st s) =
      (if p \<in> keys (pending_receipts s) then flight s else flight s + n)"
    "maps_ok (report_sent_tagged now p d n tok st s)"
  using tagged_inner[of now p d n tok st s] inner_fresh[of p s] inner_again[of p s] inner_maps_ok assms
  by (metis (full_types))+

lemma rto_fire_flight:
  assumes "maps_ok s" "map_of (pending_receipts s) p = Some e"
  shows "flight s = (case fst (rto_fire now p e s) of Abandon _ n \<Rightarrow> n | _ \<Rightarrow> 0) + flight (snd (rto_fire now p e s))"
    "maps_ok (snd (rto_fire now p e s))"
proof -
  obtain pk ts tok sz where e: "e = (pk, ts, tok, sz)" by (cases e)
  consider "rto_count s p < MAX_PACKET_RETRANSMITS" | "MAX_PACKET_RETRANSMITS \<le> rto_count s p" by linarith
  then have "flight s = (case fst (rto_fire now p e s) of Abandon _ n \<Rightarrow> n | _ \<Rightarrow> 0) + flight (snd (rto_fire now p e s)) \<and>
      maps_ok (snd (rto_fire now p e s))"
  proof cases
    case 1
    then show ?thesis using assms unfolding e
      by (simp add: rto_fire_resend flight_def maps_ok_def value_sum_update_same)
  next
    case 2
    then show ?thesis using assms flight_forget[of s p]
      by (simp add: rto_fire_abandon maps_ok_def pending_size_def flight_def forget_packet_def)
  qed
  then show "flight s = (case fst (rto_fire now p e s) of Abandon _ n \<Rightarrow> n | _ \<Rightarrow> 0) + flight (snd (rto_fire now p e s))"
    "maps_ok (snd (rto_fire now p e s))" by blast+
qed

lemma flight_queue [simp]: "flight (s\<lparr>resend_queue := q\<rparr>) = flight s" "maps_ok (s\<lparr>resend_queue := q\<rparr>) = maps_ok s"
  by (simp_all add: flight_def maps_ok_def)

lemma resend_loop_flight:
  "maps_ok s \<Longrightarrow>
    flight s = (case fst (resend_loop now pto r q s) of Abandon _ n \<Rightarrow> n | _ \<Rightarrow> 0) +
      flight (snd (resend_loop now pto r q s)) \<and> maps_ok (snd (resend_loop now pto r q s))"
proof (induction now pto r q s rule: resend_loop.induct)
  case (2 now pto r p q s)
  show ?case
  proof (cases "map_of (pending_receipts s) p")
    case (Some e)
    let ?s = "s\<lparr>resend_queue := q\<rparr>"
    note fire = rto_fire_flight[of ?s p e now]
    show ?thesis using 2(2) Some fire
      by (auto simp: resend_entry_def Let_def mark_retransmitted_def flight_def maps_ok_def)
  qed (use 2 in simp)
qed simp

lemma get_resend_flight:
  assumes "maps_ok s" "get_resend now s = (a, s')"
  shows "flight s = (case a of Abandon _ n \<Rightarrow> n | _ \<Rightarrow> 0) + flight s'" "maps_ok s'"
  using resend_loop_flight[OF assms(1), of now "probe_timeout s" "effective_rto s mod 2 ^ 64" "resend_queue s"] assms(2)
  by (simp_all add: get_resend_def)

lemma refresh_flight:
  assumes "maps_ok s"
  shows "flight (snd (refresh_sent_packet now p d tok s)) = flight s"
    "maps_ok (snd (refresh_sent_packet now p d tok s))"
  using assms by (auto simp: refresh_sent_packet_def flight_def maps_ok_def value_sum_update_same split: option.splits)

lemma receipt_step_maps_ok: "maps_ok (snd r) \<Longrightarrow> maps_ok (snd (receipt_step now p r))"
  by (auto simp: maps_ok_def receipt_step_def Let_def forget_packet_def split_beta split: option.split)

lemma receipts_flight:
  assumes "maps_ok s" "report_received_receipts now ids s = ((info, l), s')"
  shows "flight s = ack_bytes info + flight s'" "maps_ok s'"
proof -
  have "maps_ok (snd (fold (receipt_step now) ids ([], s)))"
    by (rule fold_invariant[where Q = "\<lambda>_. True"]) (auto simp: assms(1) intro: receipt_step_maps_ok)
  then show "flight s = ack_bytes info + flight s'" "maps_ok s'"
    using assms fold_receipts_flight[of "([], s)" now ids]
    by (auto simp: report_received_receipts_def Let_def split_beta maps_ok_def ack_bytes_def)
qed

lemma fold_forget_maps_ok: "maps_ok s \<Longrightarrow> maps_ok (fold forget_packet ps s)"
  by (induction ps arbitrary: s) (auto simp: maps_ok_def forget_packet_def)

lemma drop_flight:
  assumes "maps_ok s" "flight s \<le> u64_max"
  shows "flight s = fst (drop_stream sid s) + flight (snd (drop_stream sid s))"
    "maps_ok (snd (drop_stream sid s))"
proof -
  have ok: "map_ok (pending_receipts s)" "map_ok (packet_streams s)" using assms by (auto simp: maps_ok_def)
  have "flight s = sum_list (map (pending_size s) (owned_packets sid s)) + flight (fold forget_packet (owned_packets sid s) s)"
    using ok by (intro flight_fold_forget owned_packets_distinct)
  then show "flight s = fst (drop_stream sid s) + flight (snd (drop_stream sid s))"
    using assms(2) by (simp add: drop_stream_fst[OF ok(2)] drop_stream_snd)
  show "maps_ok (snd (drop_stream sid s))" using assms(1) by (simp add: drop_stream_snd fold_forget_maps_ok)
qed

section \<open>Interleavings\<close>

record 'tok acct =
  tracker :: "'tok SentPacketTracker"
  cc :: FixedRateController
  sending :: nat
  releasing :: nat
  leaked :: nat
  uncounted :: nat

text \<open>Bytes that an action of \<open>get_resend\<close> obliges the caller to release.\<close>

definition abandoned_bytes :: "ResendAction \<Rightarrow> nat" where
  "abandoned_bytes a = (case a of Abandon _ n \<Rightarrow> n | _ \<Rightarrow> 0)"

text \<open>
  \<open>begin_send\<close> is \<open>on_send_with_token\<close>. The registrations are \<open>report_sent_tagged\<close> after a successful
  \<open>send_to\<close>, and \<open>report_sent_packet\<close> for the handshake packet: \<open>register_fresh\<close> completes a send under an id that is
  not tracked; \<open>register_over\<close> does so under an id that is still tracked, which keeps the size of the old entry;
  \<open>register_again\<close> is a further datagram of a message whose id is tracked; and \<open>register_uncounted\<close> is a packet of which
  the controller was not told: the handshake packet, or a further datagram of a message that has been acknowledged in
  between. \<open>fail_fragment\<close> and \<open>fail_control\<close> are a failed \<open>packet_sending\<close> in \<open>send_stream\<close> and in
  \<open>noop\<close>/\<open>outbound_short_message\<close>.
\<close>

inductive acct_step :: "'tok acct \<Rightarrow> 'tok acct \<Rightarrow> bool" where
  begin_send: "fr_flightsize (cc a) + uncounted a + n < 2 ^ 64 \<Longrightarrow>
    acct_step a (a\<lparr>cc := fr_on_send n (cc a), sending := sending a + n\<rparr>)"
| register_fresh: "p \<notin> keys (pending_receipts (tracker a)) \<Longrightarrow> n \<le> sending a \<Longrightarrow>
    acct_step a (a\<lparr>tracker := report_sent_tagged now p d n tok st (tracker a), sending := sending a - n\<rparr>)"
| register_over: "p \<in> keys (pending_receipts (tracker a)) \<Longrightarrow> n \<le> sending a \<Longrightarrow>
    acct_step a (a\<lparr>tracker := report_sent_tagged now p d n tok st (tracker a), sending := sending a - n,
      leaked := leaked a + n\<rparr>)"
| register_again: "p \<in> keys (pending_receipts (tracker a)) \<Longrightarrow>
    acct_step a (a\<lparr>tracker := report_sent_tagged now p d n tok st (tracker a)\<rparr>)"
| register_uncounted: "p \<notin> keys (pending_receipts (tracker a)) \<Longrightarrow> fr_flightsize (cc a) + uncounted a + n < 2 ^ 64 \<Longrightarrow>
    acct_step a (a\<lparr>tracker := report_sent_tagged now p d n tok st (tracker a), uncounted := uncounted a + n\<rparr>)"
| fail_fragment: "n \<le> sending a \<Longrightarrow>
    acct_step a (a\<lparr>sending := sending a - n, releasing := releasing a + n\<rparr>)"
| fail_control: "n \<le> sending a \<Longrightarrow>
    acct_step a (a\<lparr>sending := sending a - n, leaked := leaked a + n\<rparr>)"
| receipts: "report_received_receipts now ids (tracker a) = ((info, l), tr) \<Longrightarrow>
    acct_step a (a\<lparr>tracker := tr, releasing := releasing a + ack_bytes info\<rparr>)"
| ack: "n \<le> releasing a \<Longrightarrow>
    acct_step a (a\<lparr>cc := feed_ack on_ack_with_token fr_on_ack_without_rtt (rtt, n, tok :: 'tok option) (cc a),
      releasing := releasing a - n\<rparr>)"
| release: "n \<le> releasing a \<Longrightarrow>
    acct_step a (a\<lparr>cc := fr_release_flightsize n (cc a), releasing := releasing a - n\<rparr>)"
| resend: "get_resend now (tracker a) = (act, tr) \<Longrightarrow>
    acct_step a (a\<lparr>tracker := tr, releasing := releasing a + abandoned_bytes act\<rparr>)"
| timeout: "acct_step a (a\<lparr>cc := fr_on_timeout (cc a)\<rparr>)"
| refresh: "acct_step a (a\<lparr>tracker := snd (refresh_sent_packet now p d tok (tracker a))\<rparr>)"
| drop: "drop_stream sid (tracker a) = (n, tr) \<Longrightarrow>
    acct_step a (a\<lparr>tracker := tr, releasing := releasing a + n\<rparr>)"

inductive_cases acct_stepE: "acct_step a b"

definition in_flight :: "'tok acct \<Rightarrow> nat" where
  "in_flight a = flight (tracker a) + sending a + releasing a + leaked a"

definition acct_inv :: "'tok acct \<Rightarrow> bool" where
  "acct_inv a \<longleftrightarrow> maps_ok (tracker a) \<and> fr_flightsize (cc a) + uncounted a < 2 ^ 64 \<and>
     fr_flightsize (cc a) \<le> in_flight a \<and> in_flight a \<le> fr_flightsize (cc a) + uncounted a"

lemma acct_step_inv: "acct_step a b \<Longrightarrow> acct_inv a \<Longrightarrow> acct_inv b"
proof (induction rule: acct_step.induct)
  case (register_fresh p a n now d tok st)
  then show ?case using tagged_effect[of "tracker a" now p d n tok st] by (simp add: acct_inv_def in_flight_def)
next
  case (register_over p a n now d tok st)
  then show ?case using tagged_effect[of "tracker a" now p d n tok st] by (simp add: acct_inv_def in_flight_def)
next
  case (register_uncounted p a n now d tok st)
  then show ?case using tagged_effect[of "tracker a" now p d n tok st] by (simp add: acct_inv_def in_flight_def)
next
  case (register_again p a now d n tok st)
  then show ?case using tagged_effect[of "tracker a" now p d n tok st] by (simp add: acct_inv_def in_flight_def)
next
  case (receipts now ids a info l tr)
  then show ?case using receipts_flight[of "tracker a" now ids info l tr] by (simp add: acct_inv_def in_flight_def)
next
  case (resend now a act tr)
  then show ?case using get_resend_flight[of "tracker a" now act tr] by (simp add: acct_inv_def in_flight_def abandoned_bytes_def)
next
  case (refresh a now p d tok)
  then show ?case using refresh_flight[of "tracker a" now p d tok] by (simp add: acct_inv_def in_flight_def)
next
  case (drop sid a n tr)
  then show ?case using drop_flight[of "tracker a" sid] by (simp add: acct_inv_def in_flight_def u64_max_def)
qed (auto simp: acct_inv_def in_flight_def fr.send_law fr.feed_ack_inflight fr.release_law fr.timeout_law)

abbreviation acct_steps :: "'tok acct \<Rightarrow> 'tok acct \<Rightarrow> bool" where
  "acct_steps \<equiv> acct_step\<^sup>*\<^sup>*"

lemma acct_steps_inv: "acct_steps a b \<Longrightarrow> acct_inv a \<Longrightarrow> acct_inv b"
  by (induction rule: rtranclp_induct) (auto intro: acct_step_inv)

definition acct_new :: "FixedRateConfig \<Rightarrow> 'tok acct" where
  "acct_new config = \<lparr>tracker = spt_new, cc = fr_new config, sending = 0, releasing = 0, leaked = 0, uncounted = 0\<rparr>"

lemma acct_new_inv: "acct_inv (acct_new config)"
  by (simp add: acct_inv_def in_flight_def acct_new_def maps_ok_def spt_new_def fr_new_def flight_def)

text \<open>
  C1: in every interleaving of sends, registrations, acknowledgements, timeouts, abandonments,
  refreshes and stream drops in which the counter does not reach 2^64, the congestion controller's bytes in
  flight are the sizes of the packets in the tracker, plus the sends under way, the releases under way and the
  bytes the tracker never got (failed control sends, and packets sent under an id still tracked), up to the bytes
  of the packets registered without the controller being told (the handshake packet, a datagram that follows the
  acknowledgement of its own message). Without such packets the count is exact: no path releases a packet twice.
  Once nothing is pending or under way, the count is what the tracker never got, up to the same bytes.
\<close>

theorem flightsize_exact:
  assumes "acct_steps (acct_new config) (a :: 'tok acct)"
  shows "fr_flightsize (cc a) \<le> flight (tracker a) + sending a + releasing a + leaked a \<and>
    flight (tracker a) + sending a + releasing a + leaked a \<le> fr_flightsize (cc a) + uncounted a \<and>
    (uncounted a = 0 \<longrightarrow> fr_flightsize (cc a) = flight (tracker a) + sending a + releasing a + leaked a) \<and>
    (pending_receipts (tracker a) = [] \<and> sending a = 0 \<and> releasing a = 0 \<longrightarrow>
      fr_flightsize (cc a) \<le> leaked a \<and> leaked a \<le> fr_flightsize (cc a) + uncounted a)"
  using acct_steps_inv[OF assms acct_new_inv] by (auto simp: acct_inv_def in_flight_def flight_def)

text \<open>
  A connection: the handshake packet of 40 bytes is registered under id 0, the first message of 100 bytes is sent under
  the same id, and id 0 is acknowledged. The acknowledgement returns 40 bytes, and 60 stay for ever.
\<close>

definition handshake_tracker :: "unit SentPacketTracker" where
  "handshake_tracker = report_sent_tagged 1 0 [1] 40 None Control spt_new"

definition reused_tracker :: "unit SentPacketTracker" where
  "reused_tracker = report_sent_tagged 2 0 [2] 100 None Control handshake_tracker"

definition acked_tracker :: "unit SentPacketTracker" where
  "acked_tracker = snd (report_received_receipts 3 [0] reused_tracker)"

lemma reused_entry: "pending_receipts handshake_tracker = [(0, [1], 1, None, 40)]"
    "pending_receipts reused_tracker = [(0, [2], 2, None, 40)]" "retransmitted_packets reused_tracker = {}"
  by (simp_all add: reused_tracker_def handshake_tracker_def report_sent_tagged_def
      report_sent_packet_with_token_and_size_def report_sent_packet_inner_def spt_new_def)

lemma reused_acked: "\<exists>l. report_received_receipts 3 [0] reused_tracker = (([(Some 1, 40, None)], l), acked_tracker)"
    "pending_receipts acked_tracker = []"
  by (auto simp: acked_tracker_def report_received_receipts_def receipt_step_def Let_def reused_entry forget_packet_def
      update_rtt_def split: option.splits)

lemma handshake_run: "acct_steps (acct_new fixed_rate_default :: unit acct)
    \<lparr>tracker = acked_tracker, cc = on_ack_with_token 1 40 (None :: unit option) (fr_on_send 100 (fr_new fixed_rate_default)),
      sending = 0, releasing = 0, leaked = 100, uncounted = 40\<rparr>"
proof -
  let ?cc = "fr_new fixed_rate_default" and ?a = "\<lambda>tr c s r l u. \<lparr>tracker = tr, cc = c, sending = s, releasing = r, leaked = l, uncounted = u\<rparr>"
  have cc: "fr_flightsize ?cc = 0" by (simp add: fr_new_def)
  have "acct_step (acct_new fixed_rate_default) (?a handshake_tracker ?cc 0 0 0 40)"
    using register_uncounted[of 0 "acct_new fixed_rate_default" 40 1 "[1]" None Control] cc
    by (simp add: acct_new_def handshake_tracker_def spt_new_def)
  moreover have "acct_step (?a handshake_tracker ?cc 0 0 0 40) (?a handshake_tracker (fr_on_send 100 ?cc) 100 0 0 40)"
    using begin_send[of "?a handshake_tracker ?cc 0 0 0 40" 100] cc by simp
  moreover have "acct_step (?a handshake_tracker (fr_on_send 100 ?cc) 100 0 0 40) (?a reused_tracker (fr_on_send 100 ?cc) 0 0 100 40)"
    using register_over[of 0 "?a handshake_tracker (fr_on_send 100 ?cc) 100 0 0 40" 100 2 "[2]" None Control]
    by (simp add: reused_entry reused_tracker_def)
  moreover obtain l where l: "report_received_receipts 3 [0] reused_tracker = (([(Some 1, 40, None)], l), acked_tracker)"
    using reused_acked(1) by blast
  then have "acct_step (?a reused_tracker (fr_on_send 100 ?cc) 0 0 100 40) (?a acked_tracker (fr_on_send 100 ?cc) 0 40 100 40)"
    using receipts[of 3 "[0]" "?a reused_tracker (fr_on_send 100 ?cc) 0 0 100 40"] by (simp add: ack_bytes_def)
  moreover have "acct_step (?a acked_tracker (fr_on_send 100 ?cc) 0 40 100 40)
      (?a acked_tracker (on_ack_with_token 1 40 (None :: unit option) (fr_on_send 100 ?cc)) 0 0 100 40)"
    using ack[of 40 "?a acked_tracker (fr_on_send 100 ?cc) 0 40 100 40" "Some 1" None] by simp
  ultimately show ?thesis by (meson converse_rtranclp_into_rtranclp rtranclp.rtrancl_refl)
qed

theorem flightsize_exact_witness:
  "\<exists>a :: unit acct. acct_steps (acct_new fixed_rate_default) a \<and> pending_receipts (tracker a) = [] \<and> sending a = 0 \<and>
     releasing a = 0 \<and> fr_flightsize (cc a) = 60 \<and> leaked a = 100 \<and> leaked a \<le> fr_flightsize (cc a) + uncounted a"
proof -
  have "fr_flightsize (on_ack_with_token 1 40 (None :: unit option) (fr_on_send 100 (fr_new fixed_rate_default))) = 60"
    using fr.ack_law[of 1 40 "None :: unit option"] fr.send_law[of "fr_new fixed_rate_default" 100] by (simp add: fr_new_def fr.ack_law)
  with handshake_run flightsize_exact[OF handshake_run] reused_acked(2) show ?thesis
    by (intro exI conjI) (rule handshake_run, auto)
qed

end
