(* ===== verification/Connection_Properties.thy ===== *)
theory Connection_Properties
  imports Flight_Accounting
begin

text \<open>
  The handlers of \<open>Peer_Connection\<close> are paths of the accounting relation, so they keep the bytes in
  flight exact; the exceptions (a failed acknowledgement, several datagrams under one id, a duplicate
  that arrives when receipts are due) are stated as what the code does.
\<close>

section \<open>Handlers as paths\<close>

definition acct_of :: "nat \<Rightarrow> 'tok SentPacketTracker \<Rightarrow> FixedRateController \<Rightarrow> nat \<Rightarrow> nat \<Rightarrow> nat \<Rightarrow> 'tok acct" where
  "acct_of u tr c s r l = \<lparr>tracker = tr, cc = c, sending = s, releasing = r, leaked = l, uncounted = u\<rparr>"

lemma path_send: "fr_flightsize c + u + n < 2 ^ 64 \<Longrightarrow> acct_step (acct_of u tr c s r l) (acct_of u tr (fr_on_send n c) (s + n) r l)"
  using begin_send[of "acct_of u tr c s r l" n] by (simp add: acct_of_def)

lemma path_register: "acct_step (acct_of u tr c (s + n) r l)
    (acct_of u (report_sent_tagged now p d n tok st tr) c s r (if p \<in> keys (pending_receipts tr) then l + n else l))"
  using register_fresh[of p "acct_of u tr c (s + n) r l" n now d tok st]
    register_over[of p "acct_of u tr c (s + n) r l" n now d tok st] by (simp add: acct_of_def)

lemma path_register_again: "p \<in> keys (pending_receipts tr) \<Longrightarrow>
    acct_step (acct_of u tr c s r l) (acct_of u (report_sent_tagged now p d n tok st tr) c s r l)"
  using register_again[of p "acct_of u tr c s r l" now d n tok st] by (simp add: acct_of_def)

lemma path_fail_fragment: "acct_step (acct_of u tr c (s + n) r l) (acct_of u tr c s (r + n) l)"
  using fail_fragment[of n "acct_of u tr c (s + n) r l"] by (simp add: acct_of_def)

lemma path_fail_control: "acct_step (acct_of u tr c (s + n) r l) (acct_of u tr c s r (l + n))"
  using fail_control[of n "acct_of u tr c (s + n) r l"] by (simp add: acct_of_def)

lemma path_release: "acct_step (acct_of u tr c s (r + n) l) (acct_of u tr (fr_release_flightsize n c) s r l)"
  using release[of n "acct_of u tr c s (r + n) l"] by (simp add: acct_of_def)

lemma path_drop: "drop_stream sid tr = (n, tr') \<Longrightarrow> acct_step (acct_of u tr c s r l) (acct_of u tr' c s (r + n) l)"
  using drop[of sid "acct_of u tr c s r l" n tr'] by (simp add: acct_of_def)

lemma path_resend: "get_resend now tr = (act, tr') \<Longrightarrow>
    acct_step (acct_of u tr c s r l) (acct_of u tr' c s (r + abandoned_bytes act) l)"
  using resend[of now "acct_of u tr c s r l" act tr'] by (simp add: acct_of_def)

lemma path_refresh: "acct_step (acct_of u tr c s r l) (acct_of u (snd (refresh_sent_packet now p d tok tr)) c s r l)"
  using refresh[of "acct_of u tr c s r l" now p d tok] by (simp add: acct_of_def)

lemma path_timeout: "acct_step (acct_of u tr c s r l) (acct_of u tr (fr_on_timeout c) s r l)"
  using timeout[of "acct_of u tr c s r l"] by (simp add: acct_of_def)

lemma path_acks: "acct_steps (acct_of u (tr :: 'tok SentPacketTracker) c s
      (r + ack_bytes (infos :: (duration option \<times> nat \<times> 'tok option) list)) l)
    (acct_of u tr (fold (feed_ack on_ack_with_token fr_on_ack_without_rtt) infos c) s r l)"
proof (induction infos arbitrary: c)
  case (Cons i infos)
  obtain rtt n tok where i: "i = (rtt, n, tok)" by (cases i)
  have "acct_step (acct_of u tr c s (r + ack_bytes (i # infos)) l)
      (acct_of u tr (feed_ack on_ack_with_token fr_on_ack_without_rtt i c) s (r + ack_bytes infos) l)"
    using ack[of n "acct_of u tr c s (r + ack_bytes (i # infos)) l" rtt tok]
    by (simp add: acct_of_def i ack_bytes_def add.commute add.left_commute)
  then show ?case using Cons by (simp add: converse_rtranclp_into_rtranclp)
qed (simp add: ack_bytes_def)

lemma path_datagrams_again:
  "send_datagrams sock now p n tok st ds tr = (err, tr') \<Longrightarrow> p \<in> keys (pending_receipts tr) \<Longrightarrow>
    acct_steps (acct_of u tr c s r l) (acct_of u tr' c s r l)"
proof (induction ds arbitrary: tr)
  case (Cons d ds)
  show ?case
  proof (cases "sock d")
    case True
    let ?tr = "report_sent_tagged now p d n tok st tr"
    have "acct_steps (acct_of u ?tr c s r l) (acct_of u tr' c s r l)"
      using Cons True by (simp add: tagged_keys)
    then show ?thesis
      using path_register_again[OF Cons.prems(2), of u c s r l now d n tok st]
      by (rule converse_rtranclp_into_rtranclp[rotated])
  qed (use Cons.prems in auto)
qed simp

text \<open>
  A send that fails before its first registration leaves the tracker as it was. One under an id that is still
  tracked leaves its bytes with the controller only.
\<close>

lemma path_datagrams:
  assumes "send_datagrams sock now p n tok st (d # ds) tr = (err, tr')"
  shows "acct_steps (acct_of u tr c (s + n) r l) (acct_of u tr' c s r (if p \<in> keys (pending_receipts tr) then l + n else l)) \<or>
    (err = Some SendFailed \<and> tr' = tr)"
proof (cases "sock d")
  case True
  let ?tr = "report_sent_tagged now p d n tok st tr" and ?l = "if p \<in> keys (pending_receipts tr) then l + n else l"
  have "acct_steps (acct_of u ?tr c s r ?l) (acct_of u tr' c s r ?l)"
    using assms True by (intro path_datagrams_again[of sock now p n tok st ds _ err]) (auto simp: tagged_keys)
  then show ?thesis using path_register[of u tr c s n r l now p d tok st]
    by (meson converse_rtranclp_into_rtranclp)
qed (use assms in auto)

lemma path_packet_sending:
  assumes "packet_sending cd sock now p rs pl n tok st tr = (err, tr')"
  shows "acct_steps (acct_of u tr c (s + n) r l) (acct_of u tr' c s r (if p \<in> keys (pending_receipts tr) then l + n else l)) \<or>
    (err \<noteq> None \<and> tr' = tr)"
proof (cases "try_serialize_msg_to_packet_data cd p pl rs")
  case (Inl d)
  then show ?thesis using assms r_into_rtranclp[of acct_step, OF path_register[of u tr c s n r l now p d tok st]]
    by (auto simp: packet_sending_def split: if_splits)
next
  case (Inr x)
  obtain pl' rs' where x: "x = (pl', rs')" by (cases x)
  let ?noops = "if max_num_of_confirm_receipts_of_noop_message cd > length rs'
      then [serialize_msg_to_packet_data cd p NoOp rs']
      else map (serialize_msg_to_packet_data cd p NoOp) (receipt_chunks (max_num_of_confirm_receipts_of_noop_message cd) rs')"
  show ?thesis
  proof (cases "collect_results (serialize_msg_to_packet_data cd p pl' [] # ?noops)")
    case None
    then show ?thesis using assms(1) Inr x by (auto simp: packet_sending_def Let_def)
  next
    case (Some packets)
    then obtain d ds where "packets = d # ds" by (cases "serialize_msg_to_packet_data cd p pl' []") auto
    moreover have "send_datagrams sock now p n tok st packets tr = (err, tr')"
      using assms(1) Inr x Some by (simp add: packet_sending_def Let_def)
    ultimately show ?thesis using path_datagrams[of sock now p n tok st d ds tr err tr' u c s r l] by blast
  qed
qed

lemma path_process_receipts:
  "acct_steps (acct_of u (sent_tracker c) (congestion_controller c) s r l)
     (acct_of u (sent_tracker (process_receipts now ids c)) (congestion_controller (process_receipts now ids c)) s r l)"
proof -
  obtain info loss tr where rr: "report_received_receipts now ids (sent_tracker c) = ((info, loss), tr)"
    by (metis surj_pair)
  then have "acct_step (acct_of u (sent_tracker c) (congestion_controller c) s r l)
      (acct_of u tr (congestion_controller c) s (r + ack_bytes info) l)"
    using receipts[of now ids "acct_of u (sent_tracker c) (congestion_controller c) s r l"] by (simp add: acct_of_def)
  from converse_rtranclp_into_rtranclp[of acct_step, OF this path_acks] show ?thesis
    by (simp add: process_receipts_def rr)
qed

lemma path_release_aborted:
  assumes "maps_ok (sent_tracker c)"
  shows "acct_steps (acct_of u (sent_tracker c) (congestion_controller c) s r l)
     (acct_of u (sent_tracker (release_aborted_stream_flightsize sid c))
        (congestion_controller (release_aborted_stream_flightsize sid c)) s r l)"
proof -
  obtain n tr where d: "drop_stream sid (sent_tracker c) = (n, tr)" by (cases "drop_stream sid (sent_tracker c)")
  have le: "n \<le> u64_max" using drop_stream_fst[of "sent_tracker c" sid] assms d by (simp add: maps_ok_def)
  note step = path_drop[OF d, of u "congestion_controller c" s r l]
  show ?thesis
  proof (cases "n = 0")
    case True
    then show ?thesis using step by (simp add: release_aborted_stream_flightsize_def d)
  next
    case False
    from step path_release[of u tr "congestion_controller c" s r n l] False le show ?thesis
      by (simp add: release_aborted_stream_flightsize_def d)
  qed
qed

lemma path_send_fragment:
  assumes "send_fragment cd sock now sid pl n c = (err, c')" "maps_ok (sent_tracker c)"
    "fr_flightsize (congestion_controller c) + u + n < 2 ^ 64"
  shows "acct_steps (acct_of u (sent_tracker c) (congestion_controller c) s r l)
    (acct_of u (sent_tracker c') (congestion_controller c') s r
      (if err = None \<and> last_packet_id c \<in> keys (pending_receipts (sent_tracker c)) then l + n else l))"
proof -
  let ?tr = "sent_tracker c" and ?cc = "fr_on_send n (congestion_controller c)"
  obtain e tr' where ps: "packet_sending cd sock now (last_packet_id c) [] pl n None (Stream sid) ?tr = (e, tr')"
    by fastforce
  have start: "acct_steps (acct_of u ?tr (congestion_controller c) s r l) (acct_of u ?tr ?cc (s + n) r l)"
    using path_send[OF assms(3)] by blast
  have single: "e \<noteq> None \<Longrightarrow> tr' = ?tr"
    using ps by (auto simp: packet_sending_def try_serialize_msg_to_packet_data_def serialize_msg_to_packet_data_def
        to_packet_data_def Let_def split: if_splits)
  show ?thesis
  proof (cases e)
    case None
    then have "acct_steps (acct_of u ?tr ?cc (s + n) r l)
        (acct_of u tr' ?cc s r (if last_packet_id c \<in> keys (pending_receipts ?tr) then l + n else l))"
      using path_packet_sending[OF ps, of u ?cc s r l] by simp
    moreover have "sent_tracker c' = tr'" "congestion_controller c' = ?cc" "err = None"
      using assms(1) ps None by (auto simp: send_fragment_def on_send_with_token_def Let_def)
    ultimately show ?thesis using start by (simp split del: if_split)
  next
    case (Some x)
    let ?c1 = "c\<lparr>congestion_controller := ?cc, sent_tracker := ?tr, last_packet_id := last_packet_id c + 1\<rparr>"
    let ?c2 = "release_aborted_stream_flightsize sid ?c1"
    have c': "sent_tracker c' = sent_tracker ?c2"
      "congestion_controller c' = fr_release_flightsize n (congestion_controller ?c2)" "err \<noteq> None"
      using assms(1) ps Some single by (auto simp: send_fragment_def on_send_with_token_def Let_def)
    have "acct_step (acct_of u ?tr ?cc (s + n) r l) (acct_of u ?tr ?cc s (r + n) l)" by (rule path_fail_fragment)
    moreover have "acct_steps (acct_of u ?tr ?cc s (r + n) l)
        (acct_of u (sent_tracker ?c2) (congestion_controller ?c2) s (r + n) l)"
      using path_release_aborted[of ?c1 u s "r + n" l sid] assms(2) by simp
    moreover have "acct_step (acct_of u (sent_tracker ?c2) (congestion_controller ?c2) s (r + n) l)
        (acct_of u (sent_tracker c') (congestion_controller c') s r l)"
      unfolding c'(1,2) by (rule path_release)
    ultimately have "acct_steps (acct_of u ?tr (congestion_controller c) s r l)
        (acct_of u (sent_tracker c') (congestion_controller c') s r l)"
      using start by (meson rtranclp.rtrancl_into_rtrancl rtranclp_trans)
    then show ?thesis using c'(3) by auto
  qed
qed

lemma path_resend_burst:
  "resend_burst sock now k c = (w, ds, c') \<Longrightarrow>
    acct_steps (acct_of u (sent_tracker c) (congestion_controller c) s r l)
      (acct_of u (sent_tracker c') (congestion_controller c') s r l)"
proof (induction k arbitrary: c w ds)
  case (Suc k)
  obtain act tr where gr: "get_resend now (sent_tracker c) = (act, tr)" by (cases "get_resend now (sent_tracker c)")
  note step = path_resend[OF gr, of u "congestion_controller c" s r l]
  have resent: "acct_steps (acct_of u tr cc0 s r l) (acct_of u (sent_tracker c') (congestion_controller c') s r l)"
    if "c1 = c\<lparr>sent_tracker := snd (refresh_sent_packet now p packet None tr), congestion_controller := cc0\<rparr>"
      "c' = c1 \<or> (\<exists>w ds. resend_burst sock now k c1 = (w, ds, c'))" for c1 p packet cc0
    using that Suc.IH[of c1] path_refresh[of u tr cc0 s r l now p packet None]
    by (auto intro: converse_rtranclp_into_rtranclp)
  show ?case
  proof (cases act)
    case (WaitUntil d)
    then show ?thesis using Suc.prems step by (auto simp: gr abandoned_bytes_def)
  next
    case (Resend p packet)
    then have "acct_step (acct_of u (sent_tracker c) (congestion_controller c) s r l) (acct_of u tr (congestion_controller c) s r l)"
      using step by (simp add: abandoned_bytes_def)
    moreover note path_timeout[of u tr "congestion_controller c" s r l]
    moreover have "acct_steps (acct_of u tr (fr_on_timeout (congestion_controller c)) s r l)
        (acct_of u (sent_tracker c') (congestion_controller c') s r l)"
      using Suc.prems Resend by (intro resent[OF refl, where p = p and packet = packet]) (auto simp: gr Let_def split: if_splits prod.splits)
    ultimately show ?thesis by (meson converse_rtranclp_into_rtranclp)
  next
    case (TlpProbe p packet)
    then have "acct_step (acct_of u (sent_tracker c) (congestion_controller c) s r l) (acct_of u tr (congestion_controller c) s r l)"
      using step by (simp add: abandoned_bytes_def)
    moreover have "acct_steps (acct_of u tr (congestion_controller c) s r l)
        (acct_of u (sent_tracker c') (congestion_controller c') s r l)"
      using Suc.prems TlpProbe by (intro resent[OF refl, where p = p and packet = packet]) (auto simp: gr Let_def split: if_splits prod.splits)
    ultimately show ?thesis by (meson converse_rtranclp_into_rtranclp)
  next
    case (Abandon p n)
    let ?c1 = "c\<lparr>sent_tracker := tr, congestion_controller := fr_release_flightsize n (congestion_controller c)\<rparr>"
    have "acct_step (acct_of u (sent_tracker c) (congestion_controller c) s r l) (acct_of u tr (congestion_controller c) s (r + n) l)"
      using step Abandon by (simp add: abandoned_bytes_def)
    moreover note path_release[of u tr "congestion_controller c" s r n l]
    moreover have "acct_steps (acct_of u (sent_tracker ?c1) (congestion_controller ?c1) s r l)
        (acct_of u (sent_tracker c') (congestion_controller c') s r l)"
      using Suc.prems Abandon by (intro Suc.IH[of ?c1 w ds]) (simp add: gr)
    ultimately show ?thesis by (simp add: converse_rtranclp_into_rtranclp)
  qed
qed simp

section \<open>Balanced connections\<close>

text \<open>
  The controller's count is the bytes the tracker holds and \<open>l\<close> bytes the tracker never got, up to \<open>u\<close> bytes the
  controller was not told of.
\<close>

definition balanced :: "nat \<Rightarrow> nat \<Rightarrow> 'tok PeerConn \<Rightarrow> bool" where
  "balanced l u c \<longleftrightarrow> maps_ok (sent_tracker c) \<and> fr_flightsize (congestion_controller c) + u < 2 ^ 64 \<and>
     fr_flightsize (congestion_controller c) \<le> flight (sent_tracker c) + l \<and>
     flight (sent_tracker c) + l \<le> fr_flightsize (congestion_controller c) + u"

lemma balanced_path:
  "balanced l u c \<Longrightarrow> acct_steps (acct_of u (sent_tracker c) (congestion_controller c) 0 0 l)
    (acct_of u (sent_tracker c') (congestion_controller c') 0 0 l') \<Longrightarrow> balanced l' u c'"
  by (drule acct_steps_inv) (auto simp: balanced_def acct_inv_def in_flight_def acct_of_def)

text \<open>
  C28: the receipts of an inbound packet, a resend burst with its timeouts, probes and abandonments, and
  the abort of a stream keep the balance between the controller's bytes in flight and the bytes the tracker holds,
  whatever the two were off by before. So does the sending of a stream fragment that does not overflow the counter,
  whether or not it succeeds, with one exception: if the next packet id is still tracked (the first packet of a connection
  has the id of the handshake packet) and the send succeeds, the bytes of the fragment stay with the
  controller. In a connection that is exactly balanced (\<open>l\<close> and \<open>u\<close> zero) and uses a new id, all of them keep the count
  exact.
\<close>

theorem handlers_keep_balance:
  assumes "balanced l u c"
  shows "balanced l u (process_receipts now ids c) \<and>
    balanced l u (snd (snd (resend_check sock now c))) \<and>
    balanced l u (release_aborted_stream_flightsize sid c) \<and>
    (fr_flightsize (congestion_controller c) + u + n < 2 ^ 64 \<longrightarrow>
      (case send_fragment cd sock now sid pl n c of (err, c') \<Rightarrow>
         balanced (if err = None \<and> last_packet_id c \<in> keys (pending_receipts (sent_tracker c)) then l + n else l) u c'))"
proof -
  have ok: "maps_ok (sent_tracker c)" using assms by (simp add: balanced_def)
  have "balanced l u (process_receipts now ids c)"
    using assms path_process_receipts by (rule balanced_path)
  moreover have "balanced l u (snd (snd (resend_check sock now c)))"
    using assms unfolding resend_check_def
    by (cases "resend_burst sock now MAX_RESENDS_PER_ITERATION c")
      (auto intro: balanced_path path_resend_burst)
  moreover have "balanced l u (release_aborted_stream_flightsize sid c)"
    using assms path_release_aborted[OF ok] by (rule balanced_path)
  moreover have "balanced (if err = None \<and> last_packet_id c \<in> keys (pending_receipts (sent_tracker c)) then l + n else l) u c'"
    if "send_fragment cd sock now sid pl n c = (err, c')" "fr_flightsize (congestion_controller c) + u + n < 2 ^ 64" for err c'
    using assms path_send_fragment[OF that(1) ok that(2)] by (rule balanced_path)
  ultimately show ?thesis by (auto split: prod.splits)
qed

definition toy_codec :: codec where
  "toy_codec = \<lparr>serialized_size = (\<lambda>m. 20 + 4 * length (sm_confirm_receipt m) +
       (case sm_payload m of ShortMessage b \<Rightarrow> 8 + length b | _ \<Rightarrow> 0)),
     seal = (\<lambda>m. (case sm_payload m of ShortMessage b \<Rightarrow> 1 # b | _ \<Rightarrow> [0]))\<rparr>"

definition conn_new :: "FixedRateConfig \<Rightarrow> 'tok PeerConn" where
  "conn_new config = \<lparr>sent_tracker = spt_new, congestion_controller = fr_new config,
     received_tracker = rx_new, last_packet_id = 0, last_packet_report_time = 0\<rparr>"

lemma conn_new_balanced: "balanced 0 0 (conn_new config)"
  by (simp add: balanced_def conn_new_def maps_ok_def spt_new_def fr_new_def flight_def)

text \<open>A fragment that cannot be sent, and one that is sent under the id of the handshake packet of 40 bytes.\<close>

definition conn_shaken :: "unit PeerConn" where
  "conn_shaken = (conn_new fixed_rate_default)\<lparr>sent_tracker := handshake_tracker\<rparr>"

lemma conn_shaken_balanced: "balanced 0 40 conn_shaken"
  by (simp add: balanced_def conn_shaken_def conn_new_def maps_ok_def reused_entry(1) fr_new_def flight_def)
    (simp add: handshake_tracker_def report_sent_tagged_def report_sent_packet_with_token_and_size_def
      report_sent_packet_inner_def spt_new_def)

theorem handlers_keep_balance_witness:
  "balanced 0 0 (snd (send_fragment toy_codec (\<lambda>d. False) 3 7 NoOp 1100 (conn_new fixed_rate_default :: unit PeerConn))) \<and>
   balanced 1100 40 (snd (send_fragment toy_codec (\<lambda>d. True) 3 7 NoOp 1100 conn_shaken))"
proof
  let ?new = "conn_new fixed_rate_default :: unit PeerConn"
  have new: "keys (pending_receipts (sent_tracker ?new)) = {}" "fr_flightsize (congestion_controller ?new) = 0"
    by (simp_all add: conn_new_def spt_new_def fr_new_def)
  show "balanced 0 0 (snd (send_fragment toy_codec (\<lambda>d. False) 3 7 NoOp 1100 ?new))"
    using handlers_keep_balance[OF conn_new_balanced[of fixed_rate_default, where 'a = unit], where n = 1100 and cd = toy_codec
        and sock = "\<lambda>d. False" and now = 3 and sid = 7 and pl = NoOp and ids = "[]"] new
    by (simp add: split_beta)
  have shaken: "last_packet_id conn_shaken \<in> keys (pending_receipts (sent_tracker conn_shaken))"
      "fr_flightsize (congestion_controller conn_shaken) = 0"
    by (simp_all add: conn_shaken_def conn_new_def reused_entry(1) fr_new_def)
  have "fst (send_fragment toy_codec (\<lambda>d. True) 3 7 NoOp 1100 conn_shaken) = None"
    by (simp add: send_fragment_def on_send_with_token_def packet_sending_def try_serialize_msg_to_packet_data_def toy_codec_def
        MAX_DATA_SIZE_def MAX_PACKET_SIZE_def PACKET_TYPE_SIZE_def NONCE_SIZE_def TAG_SIZE_def Let_def)
  then show "balanced 1100 40 (snd (send_fragment toy_codec (\<lambda>d. True) 3 7 NoOp 1100 conn_shaken))"
    using handlers_keep_balance[OF conn_shaken_balanced, where n = 1100 and cd = toy_codec
        and sock = "\<lambda>d. True" and now = 3 and sid = 7 and pl = NoOp and ids = "[]"] shaken
    by (simp add: split_beta)
qed

section \<open>Acknowledgements that cannot be sent\<close>

lemma noop_send_fails:
  assumes "\<And>d. \<not> sock d" "noop cd sock now rs c = (err, c')"
  shows "err \<noteq> None" "sent_tracker c' = sent_tracker c" "received_tracker c' = received_tracker c"
    "congestion_controller c' = fr_on_send 50 (congestion_controller c)"
proof -
  have none: "ds \<noteq> [] \<Longrightarrow> send_datagrams sock now p n tok st ds tr = (Some SendFailed, tr)" for p n tok st ds and tr :: "'a SentPacketTracker"
    using assms(1) by (cases ds) auto
  have "packet_sending cd sock now p rs pl n tok st tr \<in> {(Some SendFailed, tr), (Some SerializationError, tr)}" for p pl n tok st and tr :: "'a SentPacketTracker"
    using assms(1) none
    by (auto simp: packet_sending_def Let_def split: sum.splits option.splits prod.splits)
      (metis collect_results.simps(2,3) list.distinct(1) map_option_eq_Some not_None_eq option.sel)+
  from this[of "last_packet_id c" NoOp 50 None Control "sent_tracker c"]
  show "err \<noteq> None" "sent_tracker c' = sent_tracker c" "received_tracker c' = received_tracker c"
    "congestion_controller c' = fr_on_send 50 (congestion_controller c)"
    using assms(2) by (auto simp: noop_def on_send_with_token_def Let_def split: prod.splits)
qed

lemma rx_cleanup_keeps:
  assumes "rx_inv now s" "(p, t) \<in> set (rx_packet_id_time s)" "now \<le> t + RETAIN_TIME"
  shows "(p, t) \<in> set (rx_packet_id_time (rx_cleanup now s))"
  using assms by (simp add: rx_cleanup_fields(2)[OF assms(1)])

text \<open>
  C38: when the socket refuses the datagram of the background acknowledgement, the receipts are gone:
  the tick reports no error, no receipt is pending afterwards, nothing is registered for a retry, and
  the 50 bytes of the unsent packet stay in the controller's bytes in flight. A retransmission of any
  packet accepted before then finds it already received and queues no receipt for as long as the packet
  is retained, so the sender's retransmissions go unacknowledged.
\<close>

theorem failed_ack_loses_receipts:
  assumes "rx_inv now (received_tracker c)" "rx_pending_receipts (received_tracker c) \<noteq> []"
    "\<And>d. \<not> sock d"
    "serialized_size cd \<lparr>sm_packet_id = last_packet_id c,
        sm_confirm_receipt = rx_pending_receipts (received_tracker c), sm_payload = NoOp\<rparr> \<le> MAX_DATA_SIZE"
    "fr_flightsize (congestion_controller c) + 50 < 2 ^ 64"
  shows "let (err, c') = ack_tick cd sock now c in
    err = None \<and> rx_pending_receipts (received_tracker c') = [] \<and> sent_tracker c' = sent_tracker c \<and>
    fr_flightsize (congestion_controller c') = fr_flightsize (congestion_controller c) + 50 \<and>
    (\<forall>p t later. (p, t) \<in> set (rx_packet_id_time (received_tracker c)) \<longrightarrow> now \<le> later \<longrightarrow>
       later \<le> t + RETAIN_TIME \<longrightarrow>
       fst (report_received_packet later p (received_tracker c')) = AlreadyReceived \<and>
       rx_pending_receipts (snd (report_received_packet later p (received_tracker c'))) = [])"
proof -
  let ?rs = "rx_pending_receipts (received_tracker c)"
  let ?c1 = "c\<lparr>received_tracker := snd (get_receipts now (received_tracker c))\<rparr>"
  have rs: "fst (get_receipts now (received_tracker c)) = ?rs"
    by (simp add: get_receipts_def Let_def rx_cleanup_fields(1))
  obtain err c' where n: "noop cd sock now ?rs ?c1 = (err, c')" by (cases "noop cd sock now ?rs ?c1")
  note f = noop_send_fails[OF assms(3) n]
  have "err = Some SendFailed" using n assms(3,4)
    by (auto simp: noop_def packet_sending_def try_serialize_msg_to_packet_data_def on_send_with_token_def Let_def
        split: prod.splits)
  then have tick: "ack_tick cd sock now c = (None, c')"
    using n rs assms(2) by (simp add: ack_tick_def flush_receipts_def split_beta Let_def is_transient_send_failure_def)
  let ?rt = "received_tracker c'"
  have rt: "?rt = snd (get_receipts now (received_tracker c))" using f(3) by simp
  have inv: "rx_inv now ?rt" unfolding rt using assms(1) by (rule rx_receipts_inv)
  have pend: "rx_pending_receipts ?rt = []" unfolding rt by (simp add: get_receipts_def Let_def)
  have "fst (report_received_packet later p ?rt) = AlreadyReceived \<and>
      rx_pending_receipts (snd (report_received_packet later p ?rt)) = []"
    if p: "(p, t) \<in> set (rx_packet_id_time (received_tracker c))" "now \<le> later" "later \<le> t + RETAIN_TIME" for p t later
  proof -
    have "(p, t) \<in> set (rx_packet_id_time ?rt)"
      unfolding rt using rx_cleanup_keeps[OF assms(1) p(1)] p by (simp add: get_receipts_def Let_def)
    then have r: "fst (report_received_packet later p ?rt) = AlreadyReceived"
      using rx_report_result[OF rx_inv_mono[OF inv p(2)], of p] p(3) by auto
    then show ?thesis using pend
      by (auto simp: report_received_packet_def Let_def rx_cleanup_fields(1) split: if_splits)
  qed
  then show ?thesis using tick pend f(2) f(4) fr.send_law[of "congestion_controller c" 50] assms(5) by simp
qed

text \<open>A connection that has just accepted packet 7.\<close>

definition conn_one_received :: "unit PeerConn" where
  "conn_one_received = (conn_new fixed_rate_default)\<lparr>received_tracker := snd (report_received_packet 10 7 rx_new)\<rparr>"

lemma conn_one_received_rx: "received_tracker conn_one_received =
    \<lparr>rx_pending_receipts = [7], rx_packet_id_time = [(7, 10)], rx_time_by_packet_id = [(7, 10)]\<rparr>"
  by (simp add: conn_one_received_def report_received_packet_def rx_new_def rx_cleanup_def contains_key_def)

theorem failed_ack_loses_receipts_witness:
  "rx_pending_receipts (received_tracker (snd (ack_tick toy_codec (\<lambda>d. False) 20 conn_one_received))) = []"
  using failed_ack_loses_receipts[of 20 conn_one_received "\<lambda>d. False" toy_codec]
  by (simp add: conn_one_received_rx rx_inv_def toy_codec_def MAX_DATA_SIZE_def MAX_PACKET_SIZE_def
      PACKET_TYPE_SIZE_def NONCE_SIZE_def TAG_SIZE_def split_beta Let_def)
    (simp add: conn_one_received_def conn_new_def fr_new_def)

section \<open>Duplicates\<close>

text \<open>
  A packet that was already accepted within the retention period is skipped, unless more than
  \<open>MESSAGE_CONFIRMATION_TIMEOUT\<close> has passed since the last report: then it is handed to
  \<open>process_inbound\<close> a second time.
\<close>

theorem duplicate_processed_when_receipts_due:
  assumes "rx_inv now (received_tracker c)" "(p, t) \<in> set (rx_packet_id_time (received_tracker c))"
    "now \<le> t + RETAIN_TIME" "rx_pending_receipts (received_tracker c) = []"
  shows "fst (handle_inbound cd sock now p rs c) =
    (if now > last_packet_report_time c + MESSAGE_CONFIRMATION_TIMEOUT then ProcessInbound else SkipPacket)"
proof -
  have r: "fst (report_received_packet now p (received_tracker c)) = AlreadyReceived"
    using rx_report_result[OF assms(1), of p] assms(2,3) by auto
  then have empty: "rx_pending_receipts (snd (report_received_packet now p (received_tracker c))) = []"
    using assms(4) by (auto simp: report_received_packet_def Let_def rx_cleanup_fields(1) split: if_splits)
  have rt: "received_tracker (process_receipts now rs c) = received_tracker c" for c :: "'b PeerConn"
    by (simp add: process_receipts_def split_beta Let_def)
  show ?thesis using r empty
    by (simp add: handle_inbound_def rt split_beta Let_def flush_receipts_def get_receipts_def rx_cleanup_fields(1))
qed

theorem duplicate_processed_when_receipts_due_witness:
  "fst (handle_inbound toy_codec (\<lambda>d. True) 700000000 7 []
     (conn_one_received\<lparr>received_tracker := snd (get_receipts 11 (received_tracker conn_one_received))\<rparr>)) = ProcessInbound"
  using duplicate_processed_when_receipts_due[of 700000000
      "conn_one_received\<lparr>received_tracker := snd (get_receipts 11 (received_tracker conn_one_received))\<rparr>" 7 10
      toy_codec "\<lambda>d. True" "[]"]
  by (simp add: conn_one_received_rx get_receipts_def rx_cleanup_def Let_def rx_inv_def RETAIN_TIME_def
      from_secs_def from_millis_def MESSAGE_CONFIRMATION_TIMEOUT_def MAX_CONFIRMATION_DELAY_def
      NETWORK_DELAY_ALLOWANCE_def)
    (simp add: conn_one_received_def conn_new_def)

section \<open>Messages sent as several datagrams\<close>

lemma tagged_entry:
  "map_of (pending_receipts (report_sent_tagged now p d n tok st s)) p =
    Some (d, now, tok, case map_of (pending_receipts s) p of None \<Rightarrow> n | Some e \<Rightarrow> entry_size e)"
  using tagged_inner[of now p d n tok st s]
  by (auto simp: report_sent_packet_inner_def split: option.splits)

text \<open>
  A payload that does not fit together with the pending receipts goes out as two datagrams under
  one packet id, and the entry kept for retransmission is the second one, the \<open>NoOp\<close> with the receipts:
  the datagram with the payload is not tracked, so no retransmission of the packet carries the payload.
\<close>

theorem oversized_message_tracks_noop:
  assumes "serialized_size cd \<lparr>sm_packet_id = p, sm_confirm_receipt = rs, sm_payload = pl\<rparr> > MAX_DATA_SIZE"
    "serialized_size cd \<lparr>sm_packet_id = p, sm_confirm_receipt = [], sm_payload = pl\<rparr> \<le> MAX_DATA_SIZE"
    "serialized_size cd \<lparr>sm_packet_id = p, sm_confirm_receipt = rs, sm_payload = NoOp\<rparr> \<le> MAX_DATA_SIZE"
    "length rs < max_num_of_confirm_receipts_of_noop_message cd" "\<And>d. sock d"
    "p \<notin> keys (pending_receipts tr)"
  shows "let (err, tr') = packet_sending cd sock now p rs pl n tok st tr in
    err = None \<and> map_of (pending_receipts tr') p =
      Some (seal cd \<lparr>sm_packet_id = p, sm_confirm_receipt = rs, sm_payload = NoOp\<rparr>, now, tok, n)"
proof -
  have "map_of (pending_receipts tr) p = None" using assms(6) by (simp add: map_of_keys)
  then show ?thesis using assms(1-5)
    by (simp add: packet_sending_def try_serialize_msg_to_packet_data_def serialize_msg_to_packet_data_def
        to_packet_data_def tagged_entry)
qed

lemmas codec_eval = toy_codec_def MAX_DATA_SIZE_def MAX_PACKET_SIZE_def PACKET_TYPE_SIZE_def NONCE_SIZE_def
  TAG_SIZE_def max_num_of_confirm_receipts_of_noop_message_def noop_message_overhead_def

theorem oversized_message_tracks_noop_witness:
  "map_of (pending_receipts (snd (packet_sending toy_codec (\<lambda>d. True) 5 3 (replicate 10 1)
      (ShortMessage (replicate 1140 2)) 1180 None Control (spt_new :: unit SentPacketTracker)))) 3 =
    Some ([0], 5, None, 1180)"
  using oversized_message_tracks_noop[of toy_codec 3 "replicate 10 1" "ShortMessage (replicate 1140 2)"
      "\<lambda>d. True" "spt_new :: unit SentPacketTracker" 5 1180 None Control]
  by (simp add: codec_eval split_beta spt_new_def)

end
