(* ===== verification/Stream_Buffer.thy ===== *)
theory Stream_Buffer
  imports Peer_Connection
begin

text \<open>
  The lock-free reassembly buffer, \<open>transport/peer_connection/streaming_buffer.rs\<close>. A slot is an
  \<open>AtomicPtr\<close>, null or pointing to a fragment; here \<open>None\<close> or \<open>Some\<close> of its bytes. The operations
  are given twice: as functions (one caller), and as the atomic loads and compare-exchanges of
  concurrent inserters, whose interleavings are the paths of \<open>sb_step\<close>.
\<close>

section \<open>Data\<close>

definition FRAGMENT_PAYLOAD_SIZE :: nat where
  "FRAGMENT_PAYLOAD_SIZE = MAX_DATA_SIZE - 41"

lemma fragment_payload_size [simp]: "FRAGMENT_PAYLOAD_SIZE = 1130"
  by (simp add: FRAGMENT_PAYLOAD_SIZE_def MAX_DATA_SIZE_def MAX_PACKET_SIZE_def PACKET_TYPE_SIZE_def
      NONCE_SIZE_def TAG_SIZE_def)

record StreamBuffer =
  fragments :: "bytes option list"
  total_size :: nat
  total_fragments :: nat
  min_complete_fragments :: nat
  contiguous_fragments :: nat
  consumed_frontier :: nat

datatype InsertError = InvalidNumber nat nat | AlreadyConsumed nat

section \<open>Operations\<close>

definition base_fragment_count :: "nat \<Rightarrow> nat" where
  "base_fragment_count sz = (if sz = 0 then 0 else div_ceil sz FRAGMENT_PAYLOAD_SIZE)"

definition calculate_fragment_count :: "nat \<Rightarrow> nat" where
  "calculate_fragment_count sz =
    (let base = base_fragment_count sz in if base = 0 then 0 else base + 1)"

definition sb_new :: "nat \<Rightarrow> StreamBuffer" where
  "sb_new sz = \<lparr>fragments = replicate (calculate_fragment_count sz) None, total_size = sz,
     total_fragments = calculate_fragment_count sz mod 2 ^ 32,
     min_complete_fragments = base_fragment_count sz mod 2 ^ 32,
     contiguous_fragments = 0, consumed_frontier = 0\<rparr>"

text \<open>The loop of \<open>advance_frontier\<close> with nobody else running: the frontier it leaves.\<close>

function advance_loop :: "bytes option list \<Rightarrow> nat \<Rightarrow> nat \<Rightarrow> nat" where
  "advance_loop slots tot current =
    (if current + 1 > tot then current
     else if slots ! current = None then current
     else advance_loop slots tot (current + 1))"
  by pat_completeness auto

termination advance_loop
  by (relation "measure (\<lambda>(_, tot, current). tot - current)") auto

declare advance_loop.simps [simp del]

definition advance_frontier :: "StreamBuffer \<Rightarrow> StreamBuffer" where
  "advance_frontier b =
    b\<lparr>contiguous_fragments := advance_loop (fragments b) (total_fragments b) (contiguous_fragments b)\<rparr>"

definition sb_insert :: "nat \<Rightarrow> bytes \<Rightarrow> StreamBuffer \<Rightarrow> (InsertError + bool) \<times> StreamBuffer" where
  "sb_insert fragment_number data b =
    (if fragment_number = 0 \<or> fragment_number > total_fragments b then
       (Inl (InvalidNumber fragment_number (total_fragments b)), b)
     else if fragment_number \<le> consumed_frontier b then (Inl (AlreadyConsumed fragment_number), b)
     else if fragments b ! (fragment_number - 1) = None then
       (Inr True, advance_frontier (b\<lparr>fragments := (fragments b)[fragment_number - 1 := Some data]\<rparr>))
     else (Inr False, b))"

definition is_complete :: "StreamBuffer \<Rightarrow> bool" where
  "is_complete b \<longleftrightarrow> contiguous_fragments b \<ge> min_complete_fragments b"

definition inserted_count :: "StreamBuffer \<Rightarrow> nat" where
  "inserted_count b = length (filter (\<lambda>s. s \<noteq> None) (fragments b))"

definition sb_get :: "nat \<Rightarrow> StreamBuffer \<Rightarrow> bytes option" where
  "sb_get fragment_number b =
    (if fragment_number = 0 \<or> fragment_number > total_fragments b then None
     else fragments b ! (fragment_number - 1))"

definition sb_take :: "nat \<Rightarrow> StreamBuffer \<Rightarrow> bytes option \<times> StreamBuffer" where
  "sb_take fragment_number b =
    (if fragment_number = 0 \<or> fragment_number > total_fragments b then (None, b)
     else (fragments b ! (fragment_number - 1),
           b\<lparr>fragments := (fragments b)[fragment_number - 1 := None]\<rparr>))"

text \<open>\<open>mark_consumed\<close>: \<open>None\<close> is the panic of its assertion; otherwise the number of slots freed.\<close>

fun free_slots :: "nat \<Rightarrow> nat \<Rightarrow> bytes option list \<Rightarrow> nat \<times> bytes option list" where
  "free_slots idx 0 slots = (0, slots)"
| "free_slots idx (Suc n) slots =
    (let (freed, slots') = free_slots (idx + 1) n (slots[idx := None])
     in ((if slots ! idx = None then 0 else 1) + freed, slots'))"

definition mark_consumed :: "nat \<Rightarrow> StreamBuffer \<Rightarrow> (nat \<times> StreamBuffer) option" where
  "mark_consumed up_to b =
    (if up_to > total_fragments b then None
     else let (freed, slots) = free_slots (consumed_frontier b) (up_to - consumed_frontier b) (fragments b)
          in Some (freed, b\<lparr>fragments := slots, consumed_frontier := max (consumed_frontier b) up_to\<rparr>))"

text \<open>The loop of \<open>assemble\<close> over the slots.\<close>

fun assemble_loop :: "nat \<Rightarrow> bytes option list \<Rightarrow> bytes \<Rightarrow> bytes" where
  "assemble_loop target [] result = result"
| "assemble_loop target (None # slots) result = result"
| "assemble_loop target (Some data # slots) result =
    (let result' = result @ data
     in if length result' \<ge> target then result' else assemble_loop target slots result')"

definition sb_assemble :: "StreamBuffer \<Rightarrow> bytes option" where
  "sb_assemble b =
    (if \<not> is_complete b then None
     else if consumed_frontier b > 0 then None
     else let result = take (total_size b) (assemble_loop (total_size b) (fragments b) [])
          in if length result = total_size b then Some result else None)"

fun iter_contiguous :: "bytes option list \<Rightarrow> bytes list" where
  "iter_contiguous [] = []"
| "iter_contiguous (None # slots) = []"
| "iter_contiguous (Some d # slots) = d # iter_contiguous slots"

definition collect_contiguous :: "StreamBuffer \<Rightarrow> bytes" where
  "collect_contiguous b = concat (iter_contiguous (fragments b))"

section \<open>The sequential frontier\<close>

text \<open>The length of the filled prefix of the slots.\<close>

definition filled_prefix :: "bytes option list \<Rightarrow> nat" where
  "filled_prefix slots = length (takeWhile (\<lambda>s. s \<noteq> None) slots)"

lemma filled_prefix_le: "filled_prefix slots \<le> length slots"
  by (simp add: filled_prefix_def length_takeWhile_le)

lemma filled_prefix_all: "i < filled_prefix slots \<Longrightarrow> slots ! i \<noteq> None"
  unfolding filled_prefix_def
  by (induction slots arbitrary: i) (auto simp: nth_Cons split: nat.splits if_splits)

lemma filled_prefix_gap: "filled_prefix slots < length slots \<Longrightarrow> slots ! filled_prefix slots = None"
  unfolding filled_prefix_def by (induction slots) auto

lemma filled_prefix_eqI:
  assumes "c \<le> length slots" "\<And>i. i < c \<Longrightarrow> slots ! i \<noteq> None" "c < length slots \<Longrightarrow> slots ! c = None"
  shows "filled_prefix slots = c"
proof (rule linorder_cases[of "filled_prefix slots" c])
  assume "filled_prefix slots < c"
  then show ?thesis using assms filled_prefix_gap[of slots] by force
next
  assume "c < filled_prefix slots"
  then show ?thesis using assms filled_prefix_all[of c slots] filled_prefix_le[of slots] by force
qed

lemma advance_loop_prefix:
  assumes "c \<le> length slots" "\<And>i. i < c \<Longrightarrow> slots ! i \<noteq> None"
  shows "advance_loop slots (length slots) c = filled_prefix slots"
  using assms
proof (induction "length slots - c" arbitrary: c)
  case 0
  then have "c = length slots" by simp
  then show ?case using 0 filled_prefix_eqI[of c slots] by (simp add: advance_loop.simps)
next
  case (Suc n)
  then have c: "c < length slots" "\<not> c + 1 > length slots" by auto
  show ?case
  proof (cases "slots ! c = None")
    case True
    then have "filled_prefix slots = c" using Suc.prems by (intro filled_prefix_eqI) auto
    then show ?thesis using True c by (simp add: advance_loop.simps)
  next
    case False
    then have "advance_loop slots (length slots) (c + 1) = filled_prefix slots"
      using Suc c by (intro Suc.hyps(1)) (auto simp: less_Suc_eq)
    then show ?thesis using False c by (subst advance_loop.simps) auto
  qed
qed

section \<open>Invariant of a buffer without reclamation\<close>

definition sb_inv :: "StreamBuffer \<Rightarrow> bool" where
  "sb_inv b \<longleftrightarrow> total_fragments b = length (fragments b) \<and> consumed_frontier b = 0 \<and>
     contiguous_fragments b = filled_prefix (fragments b)"

lemma calculate_fragment_count_le: "calculate_fragment_count sz \<le> sz + 1"
proof (cases "sz = 0")
  case False
  have "(div_ceil sz 1130 - 1) * 1130 < sz" using False by (intro div_ceil_mult_less) auto
  then have "div_ceil sz 1130 \<le> sz" by (cases "div_ceil sz 1130") auto
  then show ?thesis using False by (simp add: calculate_fragment_count_def base_fragment_count_def Let_def)
qed (simp add: calculate_fragment_count_def base_fragment_count_def)

lemma sb_new_fields:
  assumes "sz < 2 ^ 32 - 1"
  shows "total_fragments (sb_new sz) = calculate_fragment_count sz"
    "min_complete_fragments (sb_new sz) = base_fragment_count sz"
  using assms calculate_fragment_count_le[of sz]
  by (auto simp: sb_new_def calculate_fragment_count_def Let_def split: if_splits)

lemma filled_prefix_empty: "filled_prefix (replicate n None) = 0"
  by (cases n) (simp_all add: filled_prefix_def)

lemma sb_inv_new: "sz < 2 ^ 32 - 1 \<Longrightarrow> sb_inv (sb_new sz)"
  by (simp add: sb_inv_def sb_new_fields) (simp add: sb_new_def filled_prefix_empty)

lemma sb_insert_inv: "sb_inv b \<Longrightarrow> sb_inv (snd (sb_insert n d b))"
  unfolding sb_inv_def sb_insert_def advance_frontier_def
  using advance_loop_prefix[of "contiguous_fragments b" "(fragments b)[n - 1 := Some d]"]
    filled_prefix_all[of _ "fragments b"] filled_prefix_le[of "fragments b"]
  by (auto simp: nth_list_update)

text \<open>What an insertion does to the slots, on every branch.\<close>

lemma sb_insert_slots:
  "sb_inv b \<Longrightarrow> fragments (snd (sb_insert n d b)) =
    (if 0 < n \<and> n \<le> length (fragments b) \<and> fragments b ! (n - 1) = None
     then (fragments b)[n - 1 := Some d] else fragments b)"
  "total_size (snd (sb_insert n d b)) = total_size b"
  "min_complete_fragments (snd (sb_insert n d b)) = min_complete_fragments b"
  by (auto simp: sb_inv_def sb_insert_def advance_frontier_def)

section \<open>Concurrent insertion\<close>

text \<open>
  A thread inside \<open>advance_frontier\<close> is about to load the frontier (\<open>None\<close>) or has loaded the value
  \<open>c\<close> (\<open>Some c\<close>). The steps are the compare-exchange that fills a slot and starts such a loop, the
  load, the two exits of the loop, and the compare-exchange that succeeds or fails.
\<close>

type_synonym sb_threads = "StreamBuffer \<times> nat option multiset"

inductive sb_step :: "sb_threads \<Rightarrow> sb_threads \<Rightarrow> bool" where
  fill: "0 < n \<Longrightarrow> n \<le> total_fragments b \<Longrightarrow> fragments b ! (n - 1) = None \<Longrightarrow>
    sb_step (b, ts) (b\<lparr>fragments := (fragments b)[n - 1 := Some d]\<rparr>, add_mset None ts)"
| load: "sb_step (b, add_mset None ts) (b, add_mset (Some (contiguous_fragments b)) ts)"
| exit_end: "c + 1 > total_fragments b \<Longrightarrow> sb_step (b, add_mset (Some c) ts) (b, ts)"
| exit_gap: "c + 1 \<le> total_fragments b \<Longrightarrow> fragments b ! c = None \<Longrightarrow> sb_step (b, add_mset (Some c) ts) (b, ts)"
| cas_ok: "c + 1 \<le> total_fragments b \<Longrightarrow> fragments b ! c \<noteq> None \<Longrightarrow> contiguous_fragments b = c \<Longrightarrow>
    sb_step (b, add_mset (Some c) ts) (b\<lparr>contiguous_fragments := c + 1\<rparr>, add_mset None ts)"
| cas_lost: "c + 1 \<le> total_fragments b \<Longrightarrow> fragments b ! c \<noteq> None \<Longrightarrow>
    sb_step (b, add_mset (Some c) ts) (b, add_mset None ts)"

inductive_cases sb_stepE: "sb_step s s'"

text \<open>Slots below the frontier are filled; loaded values are not ahead of it; and while the slot at the
  frontier is filled, some thread is still in its loop.\<close>

definition sb_conc_inv :: "sb_threads \<Rightarrow> bool" where
  "sb_conc_inv = (\<lambda>(b, ts). total_fragments b = length (fragments b) \<and>
     contiguous_fragments b \<le> length (fragments b) \<and>
     (\<forall>i < contiguous_fragments b. fragments b ! i \<noteq> None) \<and>
     (\<forall>c. Some c \<in># ts \<longrightarrow> c \<le> contiguous_fragments b) \<and>
     (contiguous_fragments b < length (fragments b) \<and> fragments b ! contiguous_fragments b \<noteq> None \<longrightarrow> ts \<noteq> {#}))"

lemma sb_step_inv: "sb_step s s' \<Longrightarrow> sb_conc_inv s \<Longrightarrow> sb_conc_inv s'"
proof (induction rule: sb_step.induct)
  case (exit_gap c b ts)
  then have "c \<le> contiguous_fragments b" "\<not> c < contiguous_fragments b" by (auto simp: sb_conc_inv_def)
  then show ?case using exit_gap by (auto simp: sb_conc_inv_def)
next
  case (exit_end c b ts)
  then have "c \<le> contiguous_fragments b" "length (fragments b) \<le> c" by (auto simp: sb_conc_inv_def)
  then show ?case using exit_end by (auto simp: sb_conc_inv_def)
next
  case (cas_ok c b ts)
  then show ?case by (auto simp: sb_conc_inv_def less_Suc_eq)
qed (auto simp: sb_conc_inv_def nth_list_update)

lemma sb_steps_inv: "sb_step\<^sup>*\<^sup>* s s' \<Longrightarrow> sb_conc_inv s \<Longrightarrow> sb_conc_inv s'"
  by (induction rule: rtranclp_induct) (auto intro: sb_step_inv)

text \<open>
  C30: when concurrent inserters of any fragments in any interleaving of their atomic operations have
  all returned, the contiguous frontier is exactly the length of the filled prefix of the slots: no
  advance is lost and no gap is skipped.
\<close>

theorem concurrent_frontier_exact:
  assumes "sz < 2 ^ 32 - 1" "sb_step\<^sup>*\<^sup>* (sb_new sz, {#}) (b, {#})"
  shows "contiguous_fragments b = filled_prefix (fragments b)"
proof -
  have "sb_conc_inv (sb_new sz, {#})"
    using sb_new_fields[OF assms(1)] by (simp add: sb_conc_inv_def) (simp add: sb_new_def)
  from sb_steps_inv[OF assms(2) this] show ?thesis
    by (intro filled_prefix_eqI[symmetric]) (auto simp: sb_conc_inv_def)
qed

text \<open>One inserter of fragment 1 of a stream of 2000 bytes, from its compare-exchange to its return.\<close>

lemma sb_new_2000: "sb_new 2000 = \<lparr>fragments = [None, None, None], total_size = 2000, total_fragments = 3,
    min_complete_fragments = 2, contiguous_fragments = 0, consumed_frontier = 0\<rparr>"
proof -
  have "calculate_fragment_count 2000 = 3" "base_fragment_count 2000 = 2"
    by (simp_all add: calculate_fragment_count_def base_fragment_count_def div_ceil_def)
  moreover have "replicate 3 None = [None, None, None]" by (simp add: numeral_3_eq_3)
  ultimately show ?thesis by (simp add: sb_new_def)
qed

lemma one_insert_path:
  "sb_step\<^sup>*\<^sup>* (sb_new 2000, {#})
    (\<lparr>fragments = [Some [7], None, None], total_size = 2000, total_fragments = 3,
      min_complete_fragments = 2, contiguous_fragments = 1, consumed_frontier = 0\<rparr>, {#})"
proof -
  let ?b = "\<lambda>c. \<lparr>fragments = [Some [7], None, None], total_size = 2000, total_fragments = 3,
      min_complete_fragments = 2, contiguous_fragments = c, consumed_frontier = 0\<rparr> :: StreamBuffer"
  have "sb_step (sb_new 2000, {#}) (?b 0, {#None#})"
    using fill[of 1 "sb_new 2000" "{#}" "[7]"] by (simp add: sb_new_2000)
  moreover have "sb_step (?b 0, {#None#}) (?b 0, {#Some 0#})" using load[of "?b 0" "{#}"] by simp
  moreover have "sb_step (?b 0, {#Some 0#}) (?b 1, {#None#})" using cas_ok[of 0 "?b 0" "{#}"] by simp
  moreover have "sb_step (?b 1, {#None#}) (?b 1, {#Some 1#})" using load[of "?b 1" "{#}"] by simp
  moreover have "sb_step (?b 1, {#Some 1#}) (?b 1, {#})" using exit_gap[of 1 "?b 1" "{#}"] by simp
  ultimately show ?thesis by (meson r_into_rtranclp rtranclp_trans)
qed

theorem concurrent_frontier_exact_witness:
  "filled_prefix [Some [7 :: 8 word], None, None] = 1"
  using concurrent_frontier_exact[OF _ one_insert_path] by simp

end
