(* ===== verification/Stream_Transfer.thy ===== *)
theory Stream_Transfer
  imports Stream_Buffer Connection_Properties "HOL-Library.Sublist"
begin

text \<open>
  Streams end to end: the fragmentation of \<open>send_stream\<close> and the forwarding rule of \<open>pipe_stream\<close>
  (\<open>transport/peer_connection/outbound_stream.rs\<close>), and the consumer side of
  \<open>transport/peer_connection/streaming.rs\<close>: the handle, whole-stream assembly with its inactivity
  timeout, and the incremental reader \<open>poll_next\<close>. The buffer of a handle is shared by its forks,
  so the operations take it as an argument next to the per-handle cancelled flag.
\<close>

section \<open>The sender\<close>

text \<open>\<open>MAX_DATA_SIZE\<close> of \<open>outbound_stream.rs\<close>.\<close>

definition STREAM_DATA_SIZE :: nat where
  "STREAM_DATA_SIZE = MAX_DATA_SIZE - 41"

lemma stream_data_size [simp]: "STREAM_DATA_SIZE = 1130"
  using fragment_payload_size unfolding STREAM_DATA_SIZE_def FRAGMENT_PAYLOAD_SIZE_def .

definition meta_overhead :: "bytes \<Rightarrow> nat" where
  "meta_overhead meta = 1 + 8 + length meta"

definition total_packets :: "bytes \<Rightarrow> bytes option \<Rightarrow> nat" where
  "total_packets stream_to_send metadata =
    (case metadata of
       Some meta \<Rightarrow>
         let first_frag_capacity = STREAM_DATA_SIZE - meta_overhead meta
         in if length stream_to_send \<le> first_frag_capacity then 1
            else 1 + div_ceil (length stream_to_send - first_frag_capacity) STREAM_DATA_SIZE
     | None \<Rightarrow> div_ceil (length stream_to_send) STREAM_DATA_SIZE)"

text \<open>Number, payload, embedded metadata, and the size counted in flight, of one fragment.\<close>

type_synonym fragment = "nat \<times> bytes \<times> bytes option \<times> nat"

text \<open>The loop of \<open>send_stream\<close>; the first argument is \<open>total_packets - sent_so_far\<close>.\<close>

fun fragment_loop :: "nat \<Rightarrow> nat \<Rightarrow> bytes \<Rightarrow> bytes option \<Rightarrow> fragment list" where
  "fragment_loop 0 next_fragment_number stream_to_send pending_metadata = []"
| "fragment_loop (Suc k) next_fragment_number stream_to_send pending_metadata =
    (let packet_size = min (length stream_to_send) STREAM_DATA_SIZE;
         metadata_bytes = (if next_fragment_number = 1 then pending_metadata else None);
         pending = (if next_fragment_number = 1 then None else pending_metadata);
         available_payload = (case metadata_bytes of
             Some meta \<Rightarrow> STREAM_DATA_SIZE - meta_overhead meta | None \<Rightarrow> STREAM_DATA_SIZE);
         (fragment, rest) = (if length stream_to_send > available_payload
             then (take available_payload stream_to_send, drop available_payload stream_to_send)
             else (stream_to_send, []))
     in (next_fragment_number, fragment, metadata_bytes, packet_size) #
        fragment_loop k (next_fragment_number + 1) rest pending)"

definition send_stream_fragments :: "bytes \<Rightarrow> bytes option \<Rightarrow> fragment list" where
  "send_stream_fragments stream_to_send metadata =
    fragment_loop (total_packets stream_to_send metadata) 1 stream_to_send metadata"

text \<open>The length announced in every fragment is truncated to 32 bits.\<close>

definition total_length_bytes :: "bytes \<Rightarrow> nat" where
  "total_length_bytes stream_to_send = length stream_to_send mod 2 ^ 32"

text \<open>The payload of the message that carries a fragment.\<close>

definition fragment_payload :: "stream_id \<Rightarrow> nat \<Rightarrow> fragment \<Rightarrow> SymmetricMessagePayload" where
  "fragment_payload sid total_length = (\<lambda>(n, payload, metadata_bytes, packet_size).
     StreamFragment sid total_length n payload metadata_bytes)"

text \<open>\<open>pipe_stream\<close>: whether the metadata is embedded in the first forwarded fragment.\<close>

definition pipe_metadata_bytes :: "nat \<Rightarrow> bytes \<Rightarrow> bytes option \<Rightarrow> bytes option" where
  "pipe_metadata_bytes fragment_number payload pending_metadata =
    (if fragment_number = 1 then
       (case pending_metadata of
          Some meta \<Rightarrow> if length payload + 41 + length meta \<le> MAX_DATA_SIZE then Some meta else None
        | None \<Rightarrow> None)
     else None)"

definition pipe_fragment :: "stream_id \<Rightarrow> nat \<Rightarrow> nat \<Rightarrow> bytes \<Rightarrow> bytes option \<Rightarrow> SymmetricMessagePayload" where
  "pipe_fragment sid total_bytes fragment_number payload pending_metadata =
    StreamFragment sid total_bytes fragment_number payload
      (pipe_metadata_bytes fragment_number payload pending_metadata)"

section \<open>The receiver\<close>

datatype StreamError = Cancelled | NotFound | InvalidFragment InsertError | InactivityTimeout

record StreamingInboundStream =
  next_fragment :: nat
  bytes_read :: nat
  auto_reclaim :: bool

definition push_fragment :: "nat \<Rightarrow> bytes \<Rightarrow> bool \<Rightarrow> StreamBuffer \<Rightarrow> (StreamError + bool) \<times> StreamBuffer" where
  "push_fragment fragment_number data cancelled b =
    (if cancelled then (Inl Cancelled, b)
     else case sb_insert fragment_number data b of
            (Inr inserted, b') \<Rightarrow> (Inr inserted, b')
          | (Inl e, b') \<Rightarrow> (Inl (InvalidFragment e), b'))"

text \<open>The loop of \<open>StreamHandle::assemble\<close>. One element per iteration: the flag and buffer it
  observes, how the wait ends, and the flag and buffer observed after a timeout. \<open>None\<close>: still waiting.\<close>

datatype Wake = Notified | TimedOut

fun assemble_async :: "(bool \<times> StreamBuffer \<times> Wake \<times> bool \<times> StreamBuffer) list \<Rightarrow>
    (StreamError + bytes) option" where
  "assemble_async [] = None"
| "assemble_async ((cancelled, b, wake, cancelled', b') # obs) =
    (if cancelled then Some (Inl Cancelled)
     else case (if is_complete b then sb_assemble b else None) of
            Some data \<Rightarrow> Some (Inr data)
          | None \<Rightarrow>
              (case wake of
                 Notified \<Rightarrow> assemble_async obs
               | TimedOut \<Rightarrow>
                   if cancelled' then Some (Inl Cancelled)
                   else case sb_assemble b' of
                          Some data \<Rightarrow> Some (Inr data)
                        | None \<Rightarrow> Some (Inl InactivityTimeout)))"

definition stream_reader :: "bool \<Rightarrow> StreamingInboundStream" where
  "stream_reader reclaim = \<lparr>next_fragment = 1, bytes_read = 0, auto_reclaim = reclaim\<rparr>"

datatype PollResult = Pending | ReadyEnd | ReadyErr StreamError | ReadyOk bytes

definition try_get_fragment :: "nat \<Rightarrow> StreamingInboundStream \<Rightarrow> StreamBuffer \<Rightarrow> bytes option \<times> StreamBuffer" where
  "try_get_fragment idx r b = (if auto_reclaim r then sb_take idx b else (sb_get idx b, b))"

text \<open>\<open>poll_next\<close> with the buffer unchanged while it runs: the re-checks after creating the listener
  then see what the first check saw, and the poll ends pending.\<close>

definition poll_next :: "bool \<Rightarrow> StreamingInboundStream \<Rightarrow> StreamBuffer \<Rightarrow>
    PollResult \<times> StreamingInboundStream \<times> StreamBuffer" where
  "poll_next cancelled r b =
    (let next_idx = next_fragment r
     in if cancelled then (ReadyErr Cancelled, r, b)
        else if next_idx > total_fragments b then (ReadyEnd, r, b)
        else if is_complete b \<and> sb_get next_idx b = None then (ReadyEnd, r, b)
        else case try_get_fragment next_idx r b of
               (Some data, b') \<Rightarrow>
                 (ReadyOk data, r\<lparr>next_fragment := next_idx + 1, bytes_read := bytes_read r + length data\<rparr>, b')
             | (None, b') \<Rightarrow> (Pending, r, b'))"

text \<open>Poll until the result is not a fragment, at most \<open>n\<close> times.\<close>

fun read_stream :: "nat \<Rightarrow> StreamingInboundStream \<Rightarrow> StreamBuffer \<Rightarrow>
    bytes list \<times> PollResult \<times> StreamingInboundStream \<times> StreamBuffer" where
  "read_stream 0 r b = ([], Pending, r, b)"
| "read_stream (Suc n) r b =
    (case poll_next False r b of
       (ReadyOk data, r', b') \<Rightarrow> (let (ds, res) = read_stream n r' b' in (data # ds, res))
     | (res, r', b') \<Rightarrow> ([], res, r', b'))"

section \<open>Fragmentation loses nothing\<close>

definition payloads :: "fragment list \<Rightarrow> bytes list" where
  "payloads fs = map (\<lambda>(n, payload, m, ps). payload) fs"

lemma payloads_simps [simp]: "payloads [] = []" "payloads ((n, p, m, ps) # fs) = p # payloads fs"
  "length (payloads fs) = length fs"
  by (simp_all add: payloads_def)

lemma fragment_loop_numbers: "map fst (fragment_loop k n d m) = [n..<n + k]"
  by (induction k n d m rule: fragment_loop.induct) (auto simp: Let_def upt_conv_Cons)

lemma fragment_loop_length [simp]: "length (fragment_loop k n d m) = k"
  using fragment_loop_numbers[of k n d m] by (metis length_map length_upt diff_add_inverse)

lemma fragment_loop_concat: "length d \<le> k * 1130 \<Longrightarrow> concat (payloads (fragment_loop k n d None)) = d"
  by (induction k n d "None :: bytes option" rule: fragment_loop.induct) (auto simp: Let_def)

lemma total_packets_bounds:
  "base_fragment_count (length d) \<le> total_packets d m"
  "d \<noteq> [] \<Longrightarrow> total_packets d m \<le> calculate_fragment_count (length d)"
proof -
  have mono: "div_ceil a 1130 \<le> div_ceil b 1130" if "a \<le> b" for a b
  proof (cases "a = 0")
    case False
    have "(div_ceil a 1130 - 1) * 1130 < a" using False by (intro div_ceil_mult_less) auto
    also have "a \<le> b" by (rule that)
    also have "b \<le> div_ceil b 1130 * 1130" by (rule div_ceil_mult_ge) simp
    finally show ?thesis by (cases "div_ceil a 1130") auto
  qed simp
  have step: "div_ceil a 1130 \<le> 1 + div_ceil (a - c) 1130" if "c \<le> 1130" for a c
  proof (cases "a = 0")
    case False
    have "(div_ceil a 1130 - 1) * 1130 < a" using False by (intro div_ceil_mult_less) auto
    moreover have "a - c \<le> div_ceil (a - c) 1130 * 1130" by (rule div_ceil_mult_ge) simp
    ultimately have "(div_ceil a 1130 - 1) * 1130 < (1 + div_ceil (a - c) 1130) * 1130" using that by simp
    then show ?thesis by (cases "div_ceil a 1130") auto
  qed simp
  have one: "0 < a \<Longrightarrow> a \<le> 1130 \<Longrightarrow> div_ceil a 1130 = 1" for a
    using step[of 1130 a] div_ceil_pos[of 1130 a] by (simp add: le_antisym)
  show "base_fragment_count (length d) \<le> total_packets d m"
  proof (cases m)
    case (Some meta)
    let ?c = "1130 - meta_overhead meta"
    show ?thesis using step[of ?c "length d"] one[of "length d"]
      by (auto simp: base_fragment_count_def total_packets_def Some Let_def)
  qed (simp add: base_fragment_count_def total_packets_def)
  assume "d \<noteq> []"
  then have "0 < div_ceil (length d) 1130" by (intro div_ceil_pos) auto
  then show "total_packets d m \<le> calculate_fragment_count (length d)"
    using mono[of "length d - (1130 - x)" "length d" for x] \<open>d \<noteq> []\<close>
    by (auto simp: total_packets_def calculate_fragment_count_def base_fragment_count_def Let_def
        split: option.split)
qed

lemma send_stream_concat: "concat (payloads (send_stream_fragments d m)) = d"
proof (cases m)
  case None
  have "length d \<le> total_packets d None * 1130"
    using div_ceil_mult_ge[of 1130 "length d"] by (simp add: total_packets_def)
  then show ?thesis by (simp add: send_stream_fragments_def None fragment_loop_concat)
next
  case (Some meta)
  let ?c = "1130 - meta_overhead meta"
  show ?thesis
  proof (cases "length d \<le> ?c")
    case True
    then show ?thesis by (simp add: send_stream_fragments_def Some total_packets_def)
  next
    case False
    let ?k = "div_ceil (length d - ?c) 1130"
    have "length (drop ?c d) \<le> ?k * 1130" using div_ceil_mult_ge[of 1130 "length d - ?c"] by simp
    then show ?thesis using False
      by (simp add: send_stream_fragments_def Some total_packets_def Let_def fragment_loop_concat)
  qed
qed

lemma send_stream_numbers:
  "map fst (send_stream_fragments d m) = [1..<1 + total_packets d m]"
  "length (send_stream_fragments d m) = total_packets d m"
  by (simp_all add: send_stream_fragments_def fragment_loop_numbers)

section \<open>Reassembly\<close>

text \<open>A buffer that holds only fragments of the payload list \<open>ps\<close>, each in its slot.\<close>

definition genuine :: "bytes list \<Rightarrow> StreamBuffer \<Rightarrow> bool" where
  "genuine ps b \<longleftrightarrow> sb_inv b \<and>
     (\<forall>i < length (fragments b). fragments b ! i \<noteq> None \<longrightarrow> i < length ps \<and> fragments b ! i = Some (ps ! i))"

lemma genuine_insert:
  assumes "genuine ps b" "0 < n" "n \<le> length ps"
  shows "genuine ps (snd (sb_insert n (ps ! (n - 1)) b))"
  using assms sb_insert_inv[of b n "ps ! (n - 1)"]
  by (auto simp: genuine_def sb_insert_slots nth_list_update split: if_splits)

lemma iter_contiguous_length: "length (iter_contiguous slots) = filled_prefix slots"
  by (induction slots rule: iter_contiguous.induct) (auto simp: filled_prefix_def)

lemma iter_contiguous_nth: "i < filled_prefix slots \<Longrightarrow> slots ! i = Some (iter_contiguous slots ! i)"
  by (induction slots arbitrary: i rule: iter_contiguous.induct)
    (auto simp: filled_prefix_def nth_Cons split: nat.splits)

lemma genuine_contiguous:
  assumes "genuine ps b"
  shows "iter_contiguous (fragments b) = take (filled_prefix (fragments b)) ps"
proof (rule nth_equalityI)
  have le: "filled_prefix (fragments b) \<le> length ps"
  proof (rule ccontr)
    assume "\<not> filled_prefix (fragments b) \<le> length ps"
    then have "fragments b ! length ps \<noteq> None" "length ps < length (fragments b)"
      using filled_prefix_all[of "length ps" "fragments b"] filled_prefix_le[of "fragments b"] by auto
    then show False using assms by (auto simp: genuine_def)
  qed
  then show "length (iter_contiguous (fragments b)) = length (take (filled_prefix (fragments b)) ps)"
    by (simp add: iter_contiguous_length)
  show "iter_contiguous (fragments b) ! i = take (filled_prefix (fragments b)) ps ! i"
    if "i < length (iter_contiguous (fragments b))" for i
  proof -
    have i: "i < filled_prefix (fragments b)" using that by (simp add: iter_contiguous_length)
    then have "fragments b ! i = Some (iter_contiguous (fragments b) ! i)" by (rule iter_contiguous_nth)
    moreover have "i < length (fragments b)" using i filled_prefix_le[of "fragments b"] by linarith
    ultimately have "fragments b ! i = Some (ps ! i)" using assms by (simp add: genuine_def)
    then show ?thesis using i \<open>fragments b ! i = Some (iter_contiguous (fragments b) ! i)\<close> by simp
  qed
qed

text \<open>The assembly loop returns a prefix of the contiguous data, and all of it or enough.\<close>

lemma assemble_loop_prefix: "prefix (assemble_loop t slots acc) (acc @ concat (iter_contiguous slots))"
  by (induction t slots acc rule: assemble_loop.induct) (auto simp: Let_def)

lemma assemble_loop_enough:
  "assemble_loop t slots acc = acc @ concat (iter_contiguous slots) \<or> t \<le> length (assemble_loop t slots acc)"
  by (induction t slots acc rule: assemble_loop.induct) (auto simp: Let_def)

lemma concat_take_prefix: "prefix (concat (take k xs)) (concat xs)"
  by (metis append_take_drop_id concat_append prefix_def)

lemma assemble_sound:
  assumes "genuine ps b" "total_size b = length (concat ps)" "sb_assemble b = Some x"
  shows "x = concat ps"
proof -
  let ?r = "assemble_loop (total_size b) (fragments b) []"
  have "prefix ?r (concat (take (filled_prefix (fragments b)) ps))"
    using assemble_loop_prefix[of "total_size b" "fragments b" "[]"]
    by (simp only: genuine_contiguous[OF assms(1)] append_Nil)
  from prefix_order.trans[OF this concat_take_prefix] have "prefix ?r (concat ps)" .
  then obtain ys where ys: "concat ps = ?r @ ys" by (auto simp: prefix_def)
  have x: "x = take (total_size b) ?r" "length x = total_size b"
    using assms(3) by (auto simp: sb_assemble_def Let_def split: if_splits)
  have "length (concat ps) = length ?r + length ys" unfolding ys by (rule length_append)
  moreover have "length x = min (length ?r) (total_size b)" unfolding x(1) by (rule length_take)
  then have "total_size b \<le> length ?r" using x(2) by linarith
  ultimately have "length ys = 0" "length ?r \<le> total_size b" using assms(2) by linarith+
  then show ?thesis using x(1) ys by (simp only: take_all length_0_conv append_Nil2)
qed

lemma assemble_complete:
  assumes "genuine ps b" "total_size b = length (concat ps)" "min_complete_fragments b \<le> length ps"
    "length ps \<le> filled_prefix (fragments b)"
  shows "sb_assemble b = Some (concat ps)"
proof -
  let ?r = "assemble_loop (total_size b) (fragments b) []"
  have c: "iter_contiguous (fragments b) = ps" using genuine_contiguous[OF assms(1)] assms(4) by simp
  have inv: "is_complete b" "consumed_frontier b = 0"
    using assms by (auto simp: genuine_def sb_inv_def is_complete_def)
  have "prefix ?r (concat ps)" "?r = concat ps \<or> length (concat ps) \<le> length ?r"
    using assemble_loop_prefix[of "total_size b" "fragments b" "[]"]
      assemble_loop_enough[of "total_size b" "fragments b" "[]"] assms(2) by (auto simp: c)
  then have "?r = concat ps" by (metis prefix_length_le prefix_order.antisym prefix_length_prefix prefix_order.refl)
  then show ?thesis using inv assms(2) unfolding sb_assemble_def Let_def by (simp only: take_all order_refl) simp
qed

text \<open>Arrivals in any order: the fragment numbers and payloads handed to the buffer.\<close>

definition receive :: "(nat \<times> bytes) list \<Rightarrow> StreamBuffer \<Rightarrow> StreamBuffer" where
  "receive arrivals b = fold (\<lambda>(n, d) b. snd (sb_insert n d b)) arrivals b"

definition on_wire :: "fragment list \<Rightarrow> (nat \<times> bytes) set" where
  "on_wire fs = (\<lambda>(n, payload, m, ps). (n, payload)) ` set fs"

lemma on_wire_payload:
  assumes "(n, d) \<in> on_wire (send_stream_fragments data m)"
  shows "0 < n \<and> n \<le> total_packets data m \<and> d = payloads (send_stream_fragments data m) ! (n - 1)"
proof -
  let ?fs = "send_stream_fragments data m"
  obtain i me ps where i: "i < length ?fs" "?fs ! i = (n, d, me, ps)"
    using assms by (auto simp: on_wire_def in_set_conv_nth)
  have "n = map fst ?fs ! i" using i by simp
  also have "\<dots> = i + 1" using i(1) unfolding send_stream_numbers by (simp del: upt_Suc)
  finally show ?thesis using i by (simp add: send_stream_numbers payloads_def)
qed

lemma receive_simps [simp]:
  "receive [] b = b" "receive (a # as) b = receive as (snd (sb_insert (fst a) (snd a) b))"
  by (simp_all add: receive_def split_beta)

lemma receive_genuine:
  "genuine (payloads (send_stream_fragments data m)) b \<Longrightarrow>
    set arrivals \<subseteq> on_wire (send_stream_fragments data m) \<Longrightarrow>
    genuine (payloads (send_stream_fragments data m)) (receive arrivals b)"
proof (induction arrivals arbitrary: b)
  case (Cons a as)
  have "(fst a, snd a) \<in> on_wire (send_stream_fragments data m)" using Cons.prems by simp
  note w = on_wire_payload[OF this]
  then have "genuine (payloads (send_stream_fragments data m)) (snd (sb_insert (fst a) (snd a) b))"
    using genuine_insert[OF Cons.prems(1), of "fst a"] by (simp add: send_stream_numbers)
  then show ?case using Cons by simp
qed simp

lemma receive_fields:
  "sb_inv b \<Longrightarrow> sb_inv (receive as b) \<and> length (fragments (receive as b)) = length (fragments b) \<and>
    total_size (receive as b) = total_size b \<and> min_complete_fragments (receive as b) = min_complete_fragments b"
  by (induction as arbitrary: b) (auto simp: sb_insert_slots sb_insert_inv)

lemma receive_filled:
  "sb_inv b \<Longrightarrow> i < length (fragments b) \<Longrightarrow>
    (fragments (receive as b) ! i \<noteq> None) = (fragments b ! i \<noteq> None \<or> i + 1 \<in> fst ` set as)"
proof (induction as arbitrary: b)
  case (Cons a as)
  let ?b = "snd (sb_insert (fst a) (snd a) b)"
  have "(fragments ?b ! i \<noteq> None) = (fragments b ! i \<noteq> None \<or> i + 1 = fst a)"
    using Cons.prems by (cases "fst a = i + 1") (auto simp: sb_insert_slots nth_list_update)
  moreover have "length (fragments ?b) = length (fragments b)" using Cons.prems by (simp add: sb_insert_slots)
  ultimately show ?case using Cons.IH[of ?b] Cons.prems sb_insert_inv[of b] by auto
qed simp

lemma genuine_new: "sz < 2 ^ 32 - 1 \<Longrightarrow> genuine ps (sb_new sz)"
  using sb_inv_new[of sz] by (simp add: genuine_def) (simp add: sb_new_def)

lemma receive_all_prefix:
  assumes "length data < 2 ^ 32 - 1" "data \<noteq> []" "fst ` set arrivals = {1..n}" "n \<le> calculate_fragment_count (length data)"
  shows "filled_prefix (fragments (receive arrivals (sb_new (length data)))) = n"
proof (rule filled_prefix_eqI)
  let ?b = "sb_new (length data)"
  have len: "length (fragments ?b) = calculate_fragment_count (length data)" by (simp add: sb_new_def)
  have empty: "i < length (fragments ?b) \<Longrightarrow> fragments ?b ! i = None" for i by (simp add: sb_new_def)
  have f: "i < length (fragments ?b) \<Longrightarrow> (fragments (receive arrivals ?b) ! i \<noteq> None) = (i + 1 \<in> {1..n})" for i
    using receive_filled[OF sb_inv_new[OF assms(1)], of i arrivals] empty[of i] assms(3) by simp
  have l: "length (fragments (receive arrivals ?b)) = length (fragments ?b)"
    using receive_fields[OF sb_inv_new[OF assms(1)]] by simp
  show "n \<le> length (fragments (receive arrivals ?b))" using l len assms(4) by simp
  show "fragments (receive arrivals ?b) ! i \<noteq> None" if "i < n" for i
    using f[of i] that len assms(4) by simp
  show "fragments (receive arrivals ?b) ! n = None" if "n < length (fragments (receive arrivals ?b))"
    using f[of n] that l by auto
qed

text \<open>
  C2: for any stream below 4 GiB, with or without embedded metadata, and any order of arrival with
  any duplicates, assembling the receiver's buffer yields the sent bytes or nothing, and yields them
  once every fragment has arrived.
\<close>

theorem reassembly_correct:
  assumes "length data < 2 ^ 32 - 1" "set arrivals \<subseteq> on_wire (send_stream_fragments data metadata)"
  shows "sb_assemble (receive arrivals (sb_new (total_length_bytes data))) \<in> {None, Some data} \<and>
    (fst ` set arrivals = {1..total_packets data metadata} \<longrightarrow>
      sb_assemble (receive arrivals (sb_new (total_length_bytes data))) = Some data)"
proof -
  let ?b = "sb_new (length data)" and ?ps = "payloads (send_stream_fragments data metadata)"
  have tl: "total_length_bytes data = length data" using assms(1) by (simp add: total_length_bytes_def)
  have g: "genuine ?ps (receive arrivals ?b)" using assms by (intro receive_genuine genuine_new)
  have cat: "concat ?ps = data" by (rule send_stream_concat)
  note fields = receive_fields[OF sb_inv_new[OF assms(1)], of arrivals] sb_new_fields[OF assms(1)]
  have ts: "total_size (receive arrivals ?b) = length (concat ?ps)" using fields cat by (simp add: sb_new_def)
  have "sb_assemble (receive arrivals ?b) \<in> {None, Some data}"
    using assemble_sound[OF g ts] cat by (cases "sb_assemble (receive arrivals ?b)") auto
  moreover have "sb_assemble (receive arrivals ?b) = Some data"
    if all: "fst ` set arrivals = {1..total_packets data metadata}"
  proof (cases "data = []")
    case True
    have "calculate_fragment_count (length data) = 0"
      using True by (simp add: calculate_fragment_count_def base_fragment_count_def)
    then have "fragments ?b = []" "min_complete_fragments ?b = 0" "consumed_frontier (receive arrivals ?b) = 0"
      using fields True by (auto simp: sb_new_def base_fragment_count_def sb_inv_def)
    then show ?thesis using fields ts cat True by (simp add: sb_assemble_def is_complete_def)
  next
    case False
    have "filled_prefix (fragments (receive arrivals ?b)) = total_packets data metadata"
      using assms(1) False all total_packets_bounds(2)[OF False] by (rule receive_all_prefix)
    then show ?thesis
      using assemble_complete[OF g ts] total_packets_bounds(1)[of data metadata] fields cat
      by (simp add: send_stream_numbers)
  qed
  ultimately show ?thesis unfolding tl by blast
qed

theorem reassembly_correct_witness:
  "sb_assemble (receive [(1, [1, 2, 3]), (1, [1, 2, 3])] (sb_new (total_length_bytes [1, 2, 3]))) = Some [1, 2, 3]"
proof -
  have tp: "total_packets [1, 2, 3] (Some [9]) = 1" by (simp add: total_packets_def meta_overhead_def)
  have "send_stream_fragments [1, 2, 3] (Some [9]) = [(1, [1, 2, 3], Some [9], 3)]"
    by (simp add: send_stream_fragments_def tp meta_overhead_def Let_def)
  then show ?thesis
    using reassembly_correct[of "[1, 2, 3]" "[(1, [1, 2, 3]), (1, [1, 2, 3])]" "Some [9]"]
    by (simp add: on_wire_def tp)
qed

section \<open>Incremental reading\<close>

text \<open>A reader at fragment \<open>k\<close> of a buffer whose filled slots are exactly the first \<open>n\<close>.\<close>

lemma read_stream_prefix:
  assumes "genuine ps b" "filled_prefix (fragments b) = n" "min_complete_fragments b \<le> n"
    "\<And>i. n \<le> i \<Longrightarrow> i < length (fragments b) \<Longrightarrow> fragments b ! i = None" "\<not> auto_reclaim r"
    "next_fragment r = k + 1" "k \<le> n" "bytes_read r = length (concat (take k ps))"
  shows "\<exists>r'. read_stream (n - k + 1) r b = (drop k (take n ps), ReadyEnd, r', b) \<and>
    bytes_read r' = length (concat (take n ps))"
  using assms(5-8)
proof (induction "n - k" arbitrary: k r)
  case 0
  have inv: "total_fragments b = length (fragments b)" "is_complete b"
    using assms(1-3) by (auto simp: genuine_def sb_inv_def is_complete_def)
  have "poll_next False r b = (ReadyEnd, r, b)"
    using 0 inv assms(4)[of k] by (auto simp: poll_next_def sb_get_def Let_def)
  then show ?case using 0 by simp
next
  case (Suc x)
  have inv: "total_fragments b = length (fragments b)" "n \<le> length (fragments b)"
    using assms(1,2) filled_prefix_le[of "fragments b"] by (auto simp: genuine_def sb_inv_def)
  have kn: "k < n" using Suc.hyps(2) by linarith
  have slot: "fragments b ! k = Some (ps ! k)" "k < length ps"
    using assms(1) filled_prefix_all[of k "fragments b"] kn inv assms(2) by (auto simp: genuine_def)
  let ?r = "r\<lparr>next_fragment := k + 1 + 1, bytes_read := bytes_read r + length (ps ! k)\<rparr>"
  have poll: "poll_next False r b = (ReadyOk (ps ! k), ?r, b)"
    using Suc.prems slot inv kn by (simp add: poll_next_def sb_get_def try_get_fragment_def Let_def)
  have br: "bytes_read ?r = length (concat (take (k + 1) ps))"
    using Suc.prems(4) slot(2) by (simp add: take_Suc_conv_app_nth)
  have x: "x = n - (k + 1)" using Suc.hyps(2) by linarith
  have "\<exists>r'. read_stream (n - (k + 1) + 1) ?r b = (drop (k + 1) (take n ps), ReadyEnd, r', b) \<and>
      bytes_read r' = length (concat (take n ps))"
    by (rule Suc.hyps(1)[OF x]) (use Suc.prems kn br in simp_all)
  then obtain r' where r': "read_stream (n - (k + 1) + 1) ?r b = (drop (k + 1) (take n ps), ReadyEnd, r', b)"
      "bytes_read r' = length (concat (take n ps))" by blast
  have "n - k + 1 = Suc (n - (k + 1) + 1)" using kn by simp
  moreover have "drop k (take n ps) = ps ! k # drop (k + 1) (take n ps)"
    using kn slot(2) by (simp add: Cons_nth_drop_Suc[symmetric])
  ultimately show ?case using poll r' by auto
qed

lemma receive_slots_beyond:
  assumes "length data < 2 ^ 32 - 1" "fst ` set arrivals = {1..n}" "n \<le> i"
    "i < length (fragments (receive arrivals (sb_new (length data))))"
  shows "fragments (receive arrivals (sb_new (length data))) ! i = None"
proof -
  have "i < length (fragments (sb_new (length data)))"
    using assms(4) receive_fields[OF sb_inv_new[OF assms(1)]] by simp
  then show ?thesis
    using receive_filled[OF sb_inv_new[OF assms(1)], of i arrivals] assms by (auto simp: sb_new_def)
qed

text \<open>Reading after the first \<open>n\<close> fragments have arrived, when they complete the buffer.\<close>

lemma read_after_arrivals:
  assumes "length data < 2 ^ 32 - 1" "data \<noteq> []" "set arrivals \<subseteq> on_wire (send_stream_fragments data metadata)"
    "fst ` set arrivals = {1..n}" "n \<le> total_packets data metadata" "base_fragment_count (length data) \<le> n"
  shows "\<exists>r'. read_stream (n + 1) (stream_reader False) (receive arrivals (sb_new (length data))) =
      (take n (payloads (send_stream_fragments data metadata)), ReadyEnd, r', receive arrivals (sb_new (length data))) \<and>
    bytes_read r' = length (concat (take n (payloads (send_stream_fragments data metadata))))"
proof -
  let ?b = "receive arrivals (sb_new (length data))" and ?ps = "payloads (send_stream_fragments data metadata)"
  have g: "genuine ?ps ?b" using assms(1,3) by (intro receive_genuine genuine_new)
  have fp: "filled_prefix (fragments ?b) = n"
    using assms total_packets_bounds(2)[of data metadata] by (intro receive_all_prefix) auto
  have mc: "min_complete_fragments ?b \<le> n"
    using receive_fields[OF sb_inv_new[OF assms(1)], of arrivals] sb_new_fields[OF assms(1)] assms(6) by simp
  show ?thesis
    using read_stream_prefix[OF g fp mc receive_slots_beyond[OF assms(1,4)], of "stream_reader False" 0]
    by (simp add: stream_reader_def)
qed

text \<open>
  Once every fragment has arrived, reading the stream fragment by fragment yields exactly the
  sent bytes in order and then ends.
\<close>

theorem read_complete_stream:
  assumes "length data < 2 ^ 32 - 1" "data \<noteq> []" "set arrivals \<subseteq> on_wire (send_stream_fragments data metadata)"
    "fst ` set arrivals = {1..total_packets data metadata}"
  shows "\<exists>ds r' b'. read_stream (total_packets data metadata + 1) (stream_reader False)
      (receive arrivals (sb_new (total_length_bytes data))) = (ds, ReadyEnd, r', b') \<and>
    concat ds = data \<and> bytes_read r' = length data"
proof -
  have tl: "total_length_bytes data = length data" using assms(1) by (simp add: total_length_bytes_def)
  have all: "take (total_packets data metadata) (payloads (send_stream_fragments data metadata)) =
      payloads (send_stream_fragments data metadata)" by (simp add: send_stream_numbers)
  show ?thesis unfolding tl
    using read_after_arrivals[OF assms order_refl total_packets_bounds(1)] send_stream_concat[of data metadata]
    by (auto simp: all)
qed

lemma tiny_stream:
  "total_packets [1, 2, 3] None = 1" "send_stream_fragments [1, 2, 3] None = [(1, [1, 2, 3], None, 3)]"
proof -
  show tp: "total_packets [1, 2, 3] None = 1" by (simp add: total_packets_def div_ceil_def)
  show "send_stream_fragments [1, 2, 3] None = [(1, [1, 2, 3], None, 3)]"
    by (simp add: send_stream_fragments_def tp Let_def)
qed

theorem read_complete_stream_witness:
  "\<exists>ds r' b'. read_stream (1 + 1) (stream_reader False)
      (receive [(1, [1, 2, 3])] (sb_new (total_length_bytes [1, 2, 3]))) = (ds, ReadyEnd, r', b') \<and>
    concat ds = [1, 2, 3] \<and> bytes_read r' = length [1, 2, 3 :: 8 word]"
  by (rule read_complete_stream[of "[1, 2, 3]" "[(1, [1, 2, 3])]" None, unfolded tiny_stream(1)])
    (auto simp: tiny_stream on_wire_def)

lemma fragment_loop_payload_le: "p \<in> set (payloads (fragment_loop k n d None)) \<Longrightarrow> length p \<le> 1130"
  by (induction k n d "None :: bytes option" rule: fragment_loop.induct) (auto simp: Let_def split: if_splits)

lemma concat_length_le: "\<forall>x \<in> set xs. length x \<le> c \<Longrightarrow> length (concat xs) \<le> length xs * c"
  by (induction xs) auto

lemma early_fragments_short:
  assumes "total_packets data (Some meta) = base_fragment_count (length data) + 1" "data \<noteq> []"
  shows "length (concat (take (base_fragment_count (length data)) (payloads (send_stream_fragments data (Some meta)))))
    < length data"
proof -
  let ?c = "1130 - meta_overhead meta" and ?n = "base_fragment_count (length data)"
  have pos: "0 < ?n" using assms(2) by (simp add: base_fragment_count_def div_ceil_pos)
  have long: "?c < length data" "div_ceil (length data - ?c) 1130 = ?n"
    using assms(1) pos by (auto simp: total_packets_def Let_def split: if_splits)
  define rest where "rest = payloads (fragment_loop ?n 2 (drop ?c data) None)"
  have ps: "payloads (send_stream_fragments data (Some meta)) = take ?c data # rest"
    using long assms(1) by (simp add: send_stream_fragments_def Let_def numeral_2_eq_2 rest_def)
  have "\<forall>x \<in> set (take (?n - 1) rest). length x \<le> 1130"
    using fragment_loop_payload_le in_set_takeD unfolding rest_def by metis
  from concat_length_le[OF this] have "length (concat (take (?n - 1) rest)) \<le> (?n - 1) * 1130"
    by (rule order_trans) simp
  moreover have "(?n - 1) * 1130 < length data - ?c"
    using div_ceil_mult_less[of 1130 "length data - ?c"] long by simp
  moreover have "take ?n (take ?c data # rest) = take ?c data # take (?n - 1) rest" using pos by (cases ?n) auto
  ultimately show ?thesis using long(1) by (simp add: ps)
qed

text \<open>
  C40: when embedded metadata makes the sender use the extra fragment and that fragment is the last to
  arrive, the incremental reader reports the end of the stream with bytes missing, although assembling
  the same buffer still waits for it. A relay that forwards the stream at that moment truncates it.
\<close>

theorem incremental_reader_ends_early:
  assumes "length data < 2 ^ 32 - 1" "data \<noteq> []"
    "total_packets data (Some meta) = base_fragment_count (length data) + 1"
    "set arrivals \<subseteq> on_wire (send_stream_fragments data (Some meta))"
    "fst ` set arrivals = {1..base_fragment_count (length data)}"
  shows "\<exists>ds r' b'. read_stream (base_fragment_count (length data) + 1) (stream_reader False)
      (receive arrivals (sb_new (total_length_bytes data))) = (ds, ReadyEnd, r', b') \<and>
    bytes_read r' < length data \<and> sb_assemble b' = None"
proof -
  let ?b = "receive arrivals (sb_new (length data))" and ?n = "base_fragment_count (length data)"
  let ?ps = "payloads (send_stream_fragments data (Some meta))"
  have tl: "total_length_bytes data = length data" using assms(1) by (simp add: total_length_bytes_def)
  obtain r' where r': "read_stream (?n + 1) (stream_reader False) ?b = (take ?n ?ps, ReadyEnd, r', ?b)"
      "bytes_read r' = length (concat (take ?n ?ps))"
    using read_after_arrivals[OF assms(1,2,4,5)] assms(3) by auto
  have short: "length (concat (take ?n ?ps)) < length data" using assms(3,2) by (rule early_fragments_short)
  have g: "genuine ?ps ?b" using assms(1,4) by (intro receive_genuine genuine_new)
  have fp: "filled_prefix (fragments ?b) = ?n"
    using assms total_packets_bounds(2)[of data "Some meta"] by (intro receive_all_prefix) auto
  have "length (assemble_loop (total_size ?b) (fragments ?b) []) < length data"
    using prefix_length_le[OF assemble_loop_prefix[of "total_size ?b" "fragments ?b" "[]"]] short
    by (simp add: genuine_contiguous[OF g] fp)
  then have "sb_assemble ?b = None"
    using receive_fields[OF sb_inv_new[OF assms(1)], of arrivals]
    by (auto simp: sb_assemble_def Let_def sb_new_def)
  then show ?thesis unfolding tl using r' short by auto
qed

theorem incremental_reader_ends_early_witness:
  "\<exists>ds r' b'. read_stream (1 + 1) (stream_reader False)
      (receive [(1, replicate 1121 0)] (sb_new (total_length_bytes (replicate 1130 0)))) = (ds, ReadyEnd, r', b') \<and>
    bytes_read r' < length (replicate 1130 (0 :: 8 word)) \<and> sb_assemble b' = None"
proof -
  have n: "base_fragment_count (length (replicate 1130 (0 :: 8 word))) = 1"
    "total_packets (replicate 1130 0) (Some []) = 2"
    by (simp_all add: base_fragment_count_def div_ceil_def total_packets_def meta_overhead_def)
  have "(1, replicate 1121 0) \<in> on_wire (send_stream_fragments (replicate 1130 0) (Some []))"
    by (simp add: send_stream_fragments_def n on_wire_def numeral_2_eq_2 Let_def meta_overhead_def)
  then show ?thesis
    by (intro incremental_reader_ends_early[of "replicate 1130 0" "[]" "[(1, replicate 1121 0)]", unfolded n(1)])
      (auto simp: n)
qed

section \<open>Fragments and datagrams\<close>

text \<open>
  How bincode sizes a message that carries a fragment: 41 bytes of fixed fields, the payload, and for
  embedded metadata an 8-byte length and its bytes (the tag of the option is among the 41).
\<close>

definition fragment_encoding :: "codec \<Rightarrow> bool" where
  "fragment_encoding cd \<longleftrightarrow> (\<forall>p sid total_len n payload m.
     serialized_size cd \<lparr>sm_packet_id = p, sm_confirm_receipt = [],
         sm_payload = StreamFragment sid total_len n payload m\<rparr> =
       41 + length payload + (case m of None \<Rightarrow> 0 | Some x \<Rightarrow> 8 + length x))"

definition fixint_codec :: codec where
  "fixint_codec = \<lparr>serialized_size = (\<lambda>m. 16 + 4 * length (sm_confirm_receipt m) +
       (case sm_payload m of
          StreamFragment sid t n payload md \<Rightarrow>
            25 + length payload + (case md of None \<Rightarrow> 0 | Some x \<Rightarrow> 8 + length x)
        | ShortMessage b \<Rightarrow> 8 + length b
        | _ \<Rightarrow> 0)),
     seal = (\<lambda>m. [])\<rparr>"

lemma fixint_codec_encoding: "fragment_encoding fixint_codec"
  by (simp add: fragment_encoding_def fixint_codec_def)

lemma max_data_size: "MAX_DATA_SIZE = 1171"
  by (simp add: codec_eval)

lemma fragment_loop_fits:
  "(i, payload, md, ps) \<in> set (fragment_loop k n d m) \<Longrightarrow>
    length payload \<le> (case md of None \<Rightarrow> 1130 | Some x \<Rightarrow> 1130 - meta_overhead x) \<and> (md = None \<or> md = m)"
  by (induction k n d m rule: fragment_loop.induct)
    (fastforce simp: Let_def split: if_splits option.splits)+

text \<open>
  Every fragment that \<open>send_stream\<close> produces, with embedded metadata of up to 1121 bytes, fits in
  one datagram, so it is sent as a single packet.
\<close>

theorem stream_fragments_fit:
  assumes "fragment_encoding cd" "f \<in> set (send_stream_fragments data metadata)"
    "\<And>meta. metadata = Some meta \<Longrightarrow> length meta \<le> 1121"
  shows "\<exists>d. try_serialize_msg_to_packet_data cd p (fragment_payload sid total_len f) [] = Inl d"
proof -
  obtain i payload md ps where f: "f = (i, payload, md, ps)" by (cases f)
  have "length payload \<le> (case md of None \<Rightarrow> 1130 | Some x \<Rightarrow> 1130 - meta_overhead x)" "md = None \<or> md = metadata"
    using fragment_loop_fits[of i payload md ps] assms(2) unfolding send_stream_fragments_def f by blast+
  then have "length payload + (case md of None \<Rightarrow> 0 | Some x \<Rightarrow> 8 + length x) \<le> 1130"
    using assms(3) by (cases md) (auto simp: meta_overhead_def)
  then show ?thesis using assms(1)
    by (simp add: try_serialize_msg_to_packet_data_def fragment_payload_def f fragment_encoding_def max_data_size Let_def)
qed

theorem stream_fragments_fit_witness:
  "\<exists>d. try_serialize_msg_to_packet_data fixint_codec 4 (fragment_payload 7 3 (1, [1, 2, 3], None, 3)) [] = Inl d"
  by (rule stream_fragments_fit[OF fixint_codec_encoding, of _ "[1, 2, 3]" None]) (auto simp: tiny_stream)

text \<open>
  The forwarding path embeds metadata when payload, 41 and metadata fit in a datagram, which leaves
  out the 8-byte length of the metadata: for the last 8 sizes it admits, the first forwarded fragment does
  not fit, nothing is sent, and the error is not a transient one.
\<close>

theorem piped_metadata_can_overflow:
  assumes "fragment_encoding cd" "MAX_DATA_SIZE - 8 < length payload + 41 + length meta"
    "length payload + 41 + length meta \<le> MAX_DATA_SIZE"
  shows "packet_sending cd sock now p [] (pipe_fragment sid total_len 1 payload (Some meta)) n tok st tr =
      (Some SerializationError, tr) \<and> \<not> is_transient_send_failure SerializationError"
  using assms
  by (simp add: packet_sending_def try_serialize_msg_to_packet_data_def serialize_msg_to_packet_data_def
      to_packet_data_def pipe_fragment_def pipe_metadata_bytes_def fragment_encoding_def max_data_size Let_def
      is_transient_send_failure_def)

theorem piped_metadata_can_overflow_witness:
  "fst (packet_sending fixint_codec (\<lambda>d. True) 1 4 []
      (pipe_fragment 7 2000 1 (replicate 1000 0) (Some (replicate 130 1))) 1000 None Control
      (spt_new :: unit SentPacketTracker)) = Some SerializationError"
  using piped_metadata_can_overflow[OF fixint_codec_encoding, of "replicate 1000 0" "replicate 130 1"
      "\<lambda>d. True" 1 4 7 2000 1000 None Control "spt_new :: unit SentPacketTracker"]
  by (simp add: max_data_size)

end
