(* ===== verification/Rate_Control.thy ===== *)
theory Rate_Control
  imports Float64
begin

text \<open>
  Pacing: the token bucket of \<open>transport/token_bucket.rs\<close>, whose fractional tokens are binary64
  values, and the division of the global bandwidth of \<open>transport/global_bandwidth.rs\<close>. The mutex
  of the bucket makes each method atomic; the connection count is one atomic. Tokens are \<open>isize\<close>
  values that stay far from its limits and are integers here.
\<close>

section \<open>Token bucket\<close>

record BucketState =
  capacity :: nat
  tokens :: int
  fractional_tokens :: rat
  rate :: nat
  last_refill_nanos :: nat

definition bucket_new :: "nat \<Rightarrow> nat \<Rightarrow> nat \<Rightarrow> BucketState" where
  "bucket_new cap r now = \<lparr>capacity = cap, tokens = int cap, fractional_tokens = 0, rate = r,
     last_refill_nanos = now\<rparr>"

definition refill_state :: "nat \<Rightarrow> BucketState \<Rightarrow> BucketState" where
  "refill_state now s =
    (let elapsed_nanos = now - last_refill_nanos s
     in if elapsed_nanos = 0 then s
        else
          let elapsed_secs = fdiv (nat_f64 elapsed_nanos) 1000000000;
              new_tokens_f64 = fmul (nat_f64 (rate s)) elapsed_secs;
              frac = fadd (fractional_tokens s) new_tokens_f64;
              new_tokens_whole = \<lfloor>frac\<rfloor>
          in if new_tokens_whole > 0 then
               s\<lparr>tokens := min (tokens s + new_tokens_whole) (int (capacity s)),
                 fractional_tokens := fsub frac (of_int new_tokens_whole),
                 last_refill_nanos := now\<rparr>
             else s\<lparr>fractional_tokens := frac\<rparr>)"

definition reserve :: "nat \<Rightarrow> nat \<Rightarrow> BucketState \<Rightarrow> duration \<times> BucketState" where
  "reserve now bytes s0 =
    (let s = refill_state now s0;
         wait_time = (if tokens s \<ge> int bytes then 0
                      else if rate s = 0 then 0
                      else
                        let deficit = int bytes - tokens s;
                            wait_secs = fdiv (nat_f64 (nat deficit)) (nat_f64 (rate s))
                        in from_secs_f64 wait_secs)
     in (wait_time, s\<lparr>tokens := tokens s - int bytes\<rparr>))"

definition set_rate :: "nat \<Rightarrow> BucketState \<Rightarrow> BucketState" where
  "set_rate new_rate s = s\<lparr>rate := max new_rate 1024\<rparr>"

definition available_tokens :: "nat \<Rightarrow> BucketState \<Rightarrow> nat \<times> BucketState" where
  "available_tokens now s0 = (let s = refill_state now s0 in (nat (max (tokens s) 0), s))"

section \<open>Global bandwidth\<close>

definition DEFAULT_MIN_PER_CONNECTION :: nat where
  "DEFAULT_MIN_PER_CONNECTION = 1000000"

record GlobalBandwidthManager =
  total_limit :: nat
  connection_count :: nat
  min_per_connection :: nat

definition gbm_new :: "nat \<Rightarrow> nat option \<Rightarrow> GlobalBandwidthManager" where
  "gbm_new limit min_per = \<lparr>total_limit = limit, connection_count = 0,
     min_per_connection = (case min_per of None \<Rightarrow> DEFAULT_MIN_PER_CONNECTION | Some m \<Rightarrow> m)\<rparr>"

definition compute_per_connection_rate :: "nat \<Rightarrow> GlobalBandwidthManager \<Rightarrow> nat" where
  "compute_per_connection_rate n m =
    (let fair_share = total_limit m div max n 1 in max fair_share (min_per_connection m))"

definition register_connection :: "GlobalBandwidthManager \<Rightarrow> nat \<times> GlobalBandwidthManager" where
  "register_connection m =
    (let count = wrap_add64 (connection_count m) 1
     in (compute_per_connection_rate count m, m\<lparr>connection_count := count\<rparr>))"

definition unregister_connection :: "GlobalBandwidthManager \<Rightarrow> nat \<times> GlobalBandwidthManager" where
  "unregister_connection m =
    (if connection_count m > 0 then
       let new_count = max (connection_count m - 1) 1
       in (compute_per_connection_rate new_count m, m\<lparr>connection_count := connection_count m - 1\<rparr>)
     else (compute_per_connection_rate 1 m, m))"

definition current_per_connection_rate :: "GlobalBandwidthManager \<Rightarrow> nat" where
  "current_per_connection_rate m = compute_per_connection_rate (max (connection_count m) 1) m"

section \<open>Properties of the bucket\<close>

definition bucket_inv :: "BucketState \<Rightarrow> bool" where
  "bucket_inv s \<longleftrightarrow> tokens s \<le> int (capacity s) \<and> 0 \<le> fractional_tokens s \<and> fractional_tokens s < 1 \<and>
     is_f64 (fractional_tokens s)"

lemma bucket_inv_new: "bucket_inv (bucket_new cap r now)"
  by (simp add: bucket_inv_def bucket_new_def)

text \<open>The accumulator before whole tokens are taken out.\<close>

definition accumulated :: "nat \<Rightarrow> BucketState \<Rightarrow> rat" where
  "accumulated now s = fadd (fractional_tokens s)
     (fmul (nat_f64 (rate s)) (fdiv (nat_f64 (now - last_refill_nanos s)) 1000000000))"

lemma accumulated_props:
  assumes "bucket_inv s"
  shows "0 \<le> accumulated now s" "is_f64 (accumulated now s)"
  using assms by (auto simp: accumulated_def bucket_inv_def fops_nonneg fadd_def f64_rnd_nonneg)

lemma refill_state_alt:
  "refill_state now s =
    (if now - last_refill_nanos s = 0 then s
     else if \<lfloor>accumulated now s\<rfloor> > 0 then
       s\<lparr>tokens := min (tokens s + \<lfloor>accumulated now s\<rfloor>) (int (capacity s)),
         fractional_tokens := fsub (accumulated now s) (of_int \<lfloor>accumulated now s\<rfloor>),
         last_refill_nanos := now\<rparr>
     else s\<lparr>fractional_tokens := accumulated now s\<rparr>)"
  by (simp add: refill_state_def accumulated_def Let_def)

lemma refill_inv:
  assumes "bucket_inv s"
  shows "bucket_inv (refill_state now s)"
proof -
  let ?a = "accumulated now s"
  note a = accumulated_props[OF assms, of now]
  have "fsub ?a (of_int \<lfloor>?a\<rfloor>) = ?a - of_int \<lfloor>?a\<rfloor>"
    using is_f64_frac[OF a(2,1)] by (simp add: fsub_def is_f64_def)
  moreover have "0 \<le> ?a - of_int \<lfloor>?a\<rfloor>" "?a - of_int \<lfloor>?a\<rfloor> < 1" by linarith+
  moreover have "\<not> \<lfloor>?a\<rfloor> > 0 \<Longrightarrow> ?a < 1" by linarith
  ultimately show ?thesis using assms a is_f64_frac[OF a(2,1)]
    by (auto simp: refill_state_alt bucket_inv_def)
qed

lemma reserve_inv: "bucket_inv s \<Longrightarrow> bucket_inv (snd (reserve now n s))"
  using refill_inv[of s now] by (simp add: reserve_def Let_def bucket_inv_def)

datatype BucketCall = Reserve nat | SetRate nat | Available

fun bucket_call :: "nat \<times> BucketCall \<Rightarrow> BucketState \<Rightarrow> BucketState" where
  "bucket_call (now, Reserve n) s = snd (reserve now n s)"
| "bucket_call (now, SetRate r) s = set_rate r s"
| "bucket_call (now, Available) s = snd (available_tokens now s)"

interpretation bucket: machine bucket_call "\<lambda>_. True" bucket_inv
proof
  show "bucket_inv (bucket_call e s)" if "bucket_inv s" for e s
    using that reserve_inv refill_inv
    by (cases "(e, s)" rule: bucket_call.cases)
      (auto simp: set_rate_def available_tokens_def Let_def, auto simp: bucket_inv_def)
qed

text \<open>
  Whatever the sequence of reservations, rate changes and clock readings, the bucket never holds
  more tokens than its capacity, and the fractional accumulator stays in [0, 1) and is never rounded when
  whole tokens are taken from it.
\<close>

theorem bucket_bounded:
  "bucket_inv (fold bucket_call calls (bucket_new cap r now))"
  using bucket.fold_inv[of calls "bucket_new cap r now"] bucket_inv_new by (simp add: list.pred_True)

lemma from_secs_mono: "x \<le> y \<Longrightarrow> from_secs_f64 x \<le> from_secs_f64 y"
  unfolding from_secs_f64_def by (intro nat_mono round_even_mono) simp

lemma from_secs_nonneg: "from_secs_f64 0 = 0"
  using round_even_of_int[of 0] by (simp add: from_secs_f64_def)

text \<open>The wait of a reservation as a function of the deficit.\<close>

definition deficit_wait :: "nat \<Rightarrow> int \<Rightarrow> duration" where
  "deficit_wait r d = (if d \<le> 0 \<or> r = 0 then 0 else from_secs_f64 (fdiv (nat_f64 (nat d)) (nat_f64 r)))"

lemma reserve_wait: "fst (reserve now n s) = deficit_wait (rate s) (int n - tokens (refill_state now s))"
proof -
  have "rate (refill_state now s) = rate s" by (simp add: refill_state_alt)
  then show ?thesis by (simp add: reserve_def Let_def deficit_wait_def)
qed

lemma deficit_wait_mono:
  assumes "d \<le> e"
  shows "deficit_wait r d \<le> deficit_wait r e"
proof (cases "d \<le> 0 \<or> r = 0")
  case False
  have "nat_f64 (nat d) / nat_f64 r \<le> nat_f64 (nat e) / nat_f64 r"
    using assms by (intro divide_right_mono nat_f64_mono) auto
  then show ?thesis using False assms
    unfolding deficit_wait_def fdiv_def by (auto intro!: from_secs_mono f64_rnd_mono)
qed (auto simp: deficit_wait_def)

text \<open>Refilling again at the same instant finds at most two further tokens.\<close>

lemma refill_twice:
  assumes "bucket_inv s"
  shows "tokens (refill_state now ((refill_state now s)\<lparr>tokens := x\<rparr>)) \<le> x + 2"
proof -
  let ?p = "fmul (nat_f64 (rate s)) (fdiv (nat_f64 (now - last_refill_nanos s)) 1000000000)"
  consider "now - last_refill_nanos s = 0" | "\<lfloor>accumulated now s\<rfloor> > 0" "now - last_refill_nanos s \<noteq> 0"
    | "\<not> \<lfloor>accumulated now s\<rfloor> > 0" "now - last_refill_nanos s \<noteq> 0" by blast
  then show ?thesis
  proof cases
    case 3
    let ?s = "s\<lparr>fractional_tokens := accumulated now s, tokens := x\<rparr>"
    have "?p \<le> fractional_tokens s + ?p" using assms by (simp add: bucket_inv_def)
    then have "?p \<le> accumulated now s" unfolding accumulated_def fadd_def
      by (rule f64_rnd_ge) (simp add: fmul_def)
    then have "?p \<le> 1" "accumulated now s \<le> 1" using 3(1) by linarith+
    then have "accumulated now ?s \<le> 2" unfolding accumulated_def[of now ?s] fadd_def
      using is_f64_of_nat[of 2] by (intro f64_rnd_le) auto
    then have fl: "\<lfloor>accumulated now ?s\<rfloor> \<le> 2" by linarith
    have step: "(refill_state now s)\<lparr>tokens := x\<rparr> = ?s" using 3 by (simp add: refill_state_alt)
    have "tokens (refill_state now ?s) = x \<or>
        tokens (refill_state now ?s) = min (x + \<lfloor>accumulated now ?s\<rfloor>) (int (capacity s))"
      by (simp add: refill_state_alt)
    then show ?thesis using fl unfolding step by linarith
  qed (auto simp: refill_state_alt)
qed

text \<open>
  A reservation deducts at once, and a second reservation at the same instant sees the debt of the
  first: it waits at least as long. So concurrent reservations queue up behind each other.
\<close>

theorem reservations_queue_up:
  assumes "bucket_inv s" "2 \<le> m"
  shows "fst (reserve now n s) \<le> fst (reserve now m (snd (reserve now n s)))"
proof -
  let ?t = "tokens (refill_state now s)"
  have s1: "snd (reserve now n s) = (refill_state now s)\<lparr>tokens := ?t - int n\<rparr>"
    by (simp add: reserve_def Let_def)
  have "int n - ?t \<le> int m - tokens (refill_state now (snd (reserve now n s)))"
    using refill_twice[OF assms(1), of now "?t - int n"] assms(2) unfolding s1 by linarith
  moreover have "rate (snd (reserve now n s)) = rate s" unfolding s1 by (simp add: refill_state_alt)
  ultimately show ?thesis unfolding reserve_wait using deficit_wait_mono by simp
qed

theorem reservations_queue_up_witness:
  "fst (reserve 5 3000 (bucket_new 1000 1000 5)) \<le>
    fst (reserve 5 2000 (snd (reserve 5 3000 (bucket_new 1000 1000 5))))"
  by (rule reservations_queue_up[OF bucket_inv_new]) simp

definition idle_bucket :: BucketState where
  "idle_bucket = snd (reserve 0 100 (bucket_new 100 128 0))"

lemma f64_dyadic:
  "f64_rnd (1 / 512) = 1 / 512" "f64_rnd (1 / 256) = 1 / 256" "f64_rnd (3 / 512) = 3 / 512"
  "f64_rnd (1 / 4) = 1 / 4" "f64_rnd (1 / 2) = 1 / 2" "f64_rnd (3 / 4) = 3 / 4" "f64_rnd (3 / 2) = 3 / 2"
  using is_f64_scaled[of 1 "- 9"] is_f64_scaled[of 1 "- 8"] is_f64_scaled[of 3 "- 9"] is_f64_scaled[of 1 "- 2"]
    is_f64_scaled[of 1 "- 1"] is_f64_scaled[of 3 "- 2"] is_f64_scaled[of 3 "- 1"]
  by (simp_all add: is_f64_def pow2_def)

lemma nat_f64_values:
  "nat_f64 128 = 128" "nat_f64 1953125 = 1953125" "nat_f64 3906250 = 3906250" "nat_f64 5859375 = 5859375"
  using nat_f64_exact[of 128] nat_f64_exact[of 1953125] nat_f64_exact[of 3906250] nat_f64_exact[of 5859375]
  by simp_all

lemma idle_bucket_value: "idle_bucket = \<lparr>capacity = 100, tokens = 0, fractional_tokens = 0, rate = 128, last_refill_nanos = 0\<rparr>"
  by (simp add: idle_bucket_def bucket_new_def reserve_def refill_state_def)

lemma floor_three_halves: "\<lfloor>3 / 2 :: rat\<rfloor> = 1"
  by (rule floor_unique) simp_all

lemma accumulated_values:
  "accumulated 1953125 \<lparr>capacity = 100, tokens = 0, fractional_tokens = 0, rate = 128, last_refill_nanos = 0\<rparr> = 1 / 4"
  "accumulated 3906250 \<lparr>capacity = 100, tokens = 0, fractional_tokens = 1 / 4, rate = 128, last_refill_nanos = 0\<rparr> = 3 / 4"
  "accumulated 5859375 \<lparr>capacity = 100, tokens = 0, fractional_tokens = 3 / 4, rate = 128, last_refill_nanos = 0\<rparr> = 3 / 2"
  "accumulated 5859375 \<lparr>capacity = 100, tokens = 0, fractional_tokens = 0, rate = 128, last_refill_nanos = 0\<rparr> = 3 / 4"
  by (simp_all add: accumulated_def fadd_def fmul_def fdiv_def nat_f64_values f64_dyadic)

text \<open>
  Time that has been credited to the fractional accumulator without yielding a whole token is
  credited again by the next refill, because only a refill that yields whole tokens moves the refill
  time. Polled three times at multiples of 2^-9 seconds, an empty bucket of 128 bytes per second hands
  out a token after 3/512 of a second, in which 3/4 of a token accrued.
\<close>

theorem refill_counts_time_twice:
  "fst (available_tokens 0 idle_bucket) = 0 \<and>
    (let s1 = refill_state 1953125 idle_bucket;
         s2 = refill_state 3906250 s1;
         s3 = refill_state 5859375 s2
     in tokens s1 = 0 \<and> tokens s2 = 0 \<and> tokens s3 = 1 \<and>
        of_nat (rate idle_bucket) * (5859375 / 1000000000 :: rat) = 3 / 4 \<and>
        tokens (refill_state 5859375 idle_bucket) = 0)"
  by (simp add: idle_bucket_value available_tokens_def refill_state_alt accumulated_values floor_three_halves Let_def)

section \<open>Properties of the bandwidth division\<close>

text \<open>
  The rates handed to the connections add up to at most the total limit, unless the per-connection
  minimum is what every connection gets; no rate is below the minimum; registering and unregistering
  cancel out, and an unregistration too many leaves the count at zero.
\<close>

theorem bandwidth_shared:
  "(connection_count m * current_per_connection_rate m \<le> total_limit m \<or>
      current_per_connection_rate m = min_per_connection m) \<and>
    min_per_connection m \<le> current_per_connection_rate m \<and>
    fst (unregister_connection m) = current_per_connection_rate (snd (unregister_connection m)) \<and>
    (connection_count m = 0 \<longrightarrow> snd (unregister_connection m) = m) \<and>
    (connection_count m + 1 < 2 ^ 64 \<longrightarrow>
      snd (unregister_connection (snd (register_connection m))) = m \<and>
      fst (register_connection m) = current_per_connection_rate (snd (register_connection m)))"
proof -
  define f where "f = total_limit m div max (connection_count m) 1"
  have share: "connection_count m * f \<le> total_limit m"
    unfolding f_def by (cases "connection_count m = 0") (auto simp: max_def)
  have cur: "current_per_connection_rate m = max f (min_per_connection m)"
    by (simp add: current_per_connection_rate_def compute_per_connection_rate_def f_def)
  have rates: "fst (unregister_connection m) = current_per_connection_rate (snd (unregister_connection m))"
    "connection_count m = 0 \<longrightarrow> snd (unregister_connection m) = m"
    by (auto simp: unregister_connection_def current_per_connection_rate_def compute_per_connection_rate_def Let_def)
  have reg: "connection_count m + 1 < 2 ^ 64 \<longrightarrow>
      snd (unregister_connection (snd (register_connection m))) = m \<and>
      fst (register_connection m) = current_per_connection_rate (snd (register_connection m))"
    by (auto simp: register_connection_def unregister_connection_def current_per_connection_rate_def
        compute_per_connection_rate_def Let_def wrap_add64_small)
  show ?thesis unfolding cur using share rates reg by (auto simp: max_def)
qed

theorem bandwidth_shared_witness:
  "let m = \<lparr>total_limit = 50000000, connection_count = 2, min_per_connection = 1000000\<rparr> in
    snd (unregister_connection (snd (register_connection m))) = m \<and> 1000000 \<le> current_per_connection_rate m"
  using bandwidth_shared[of "\<lparr>total_limit = 50000000, connection_count = 2, min_per_connection = 1000000\<rparr>"]
  by (simp add: Let_def)

end
