(* ===== verification/Fair_Queue.thy ===== *)
theory Fair_Queue
  imports Prelude
begin

text \<open>
  The event queue in front of the contract executor, \<open>contract/fair_queue.rs\<close>, with the admission
  path \<open>push_with_background_eviction\<close> of \<open>contract.rs\<close>: three priority tiers, each with one queue
  per contract served round robin, a global cap with a reserve for local clients, and shedding of
  background work. Contract identifiers (a type of the standard library crate) and the data the events
  carry are type parameters: the queue only compares identifiers.
\<close>

section \<open>Events\<close>

datatype 'cid ContractKey = ContractKey (key_id: 'cid) (key_code: bytes)

datatype 'd ExecutorError = ContractQueueFull | OtherError 'd

datatype ('cid, 'd) ContractHandlerEvent =
    DelegateRequest 'd
  | DelegateResponse 'd
  | ExportUserSecrets 'd
  | ExportUserSecretsResponse "'d ExecutorError + 'd"
  | ImportSecrets 'd
  | ImportSecretsResponse "'d ExecutorError + 'd"
  | PutQuery "'cid ContractKey" 'd
  | PutResponse "'d ExecutorError + 'd" bool
  | GetQuery 'cid bool
  | GetResponse "'cid ContractKey option" "'d ExecutorError + 'd"
  | UpdateQuery "'cid ContractKey" 'd
  | UpdateResponse "'d ExecutorError + 'd" bool
  | UpdateNoChange "'cid ContractKey"
  | RegisterSubscriberListener 'cid 'd
  | RegisterSubscriberListenerResponse 'd
  | QuerySubscriptions 'd
  | QuerySubscriptionsResponse
  | GetSummaryQuery "'cid ContractKey"
  | GetSummaryResponse "'cid ContractKey" "'d ExecutorError + 'd"
  | GetDeltaQuery "'cid ContractKey" 'd
  | GetDeltaResponse "'cid ContractKey" "'d ExecutorError + 'd"
  | ClientDisconnect 'd
  | EvictContract "'cid ContractKey" nat

text \<open>The contract an event is routed by.\<close>

fun extract_contract_id :: "('cid, 'd) ContractHandlerEvent \<Rightarrow> 'cid option" where
  "extract_contract_id (PutQuery key _) = Some (key_id key)"
| "extract_contract_id (UpdateQuery key _) = Some (key_id key)"
| "extract_contract_id (GetSummaryQuery key) = Some (key_id key)"
| "extract_contract_id (GetDeltaQuery key _) = Some (key_id key)"
| "extract_contract_id (EvictContract key _) = Some (key_id key)"
| "extract_contract_id (GetQuery instance_id _) = Some instance_id"
| "extract_contract_id (RegisterSubscriberListener instance_id _) = Some instance_id"
| "extract_contract_id _ = None"

datatype Priority = Background | NetworkRelay | ClientLocal

fun priority_index :: "Priority \<Rightarrow> nat" where
  "priority_index Background = 0"
| "priority_index NetworkRelay = 1"
| "priority_index ClientLocal = 2"

text \<open>\<open>derive(PartialOrd, Ord)\<close>: in the order of declaration.\<close>

instantiation Priority :: linorder
begin

definition less_eq_Priority :: "Priority \<Rightarrow> Priority \<Rightarrow> bool" where
  "p \<le> q \<longleftrightarrow> priority_index p \<le> priority_index q"

definition less_Priority :: "Priority \<Rightarrow> Priority \<Rightarrow> bool" where
  "p < q \<longleftrightarrow> priority_index p < priority_index q"

instance
proof
  show "p = q" if "p \<le> q" "q \<le> p" for p q :: Priority
    using that by (cases p; cases q) (simp_all add: less_eq_Priority_def)
qed (auto simp: less_eq_Priority_def less_Priority_def)

end

datatype 'cid QueueKey = Contract 'cid | Default

datatype RejectReason = GlobalCapacity | PerContract | Evicted

type_synonym ('cid, 'd) QueuedItem = "nat \<times> ('cid, 'd) ContractHandlerEvent \<times> Priority"

record ('cid, 'd) RejectedEvent =
  rej_id :: nat
  rej_event :: "('cid, 'd) ContractHandlerEvent"
  rej_priority :: Priority
  rej_reason :: RejectReason

definition MAX_QUEUED_PER_CONTRACT :: nat where
  "MAX_QUEUED_PER_CONTRACT = 100"

definition MAX_TOTAL_FAIR_QUEUE :: nat where
  "MAX_TOTAL_FAIR_QUEUE = 5000"

definition CLIENT_LOCAL_RESERVE :: nat where
  "CLIENT_LOCAL_RESERVE = 256"

definition RELAY_STARVATION_FLOOR :: nat where
  "RELAY_STARVATION_FLOOR = 16"

lemmas fq_consts = MAX_QUEUED_PER_CONTRACT_def MAX_TOTAL_FAIR_QUEUE_def CLIENT_LOCAL_RESERVE_def
  RELAY_STARVATION_FLOOR_def

section \<open>One tier\<close>

record ('cid, 'd) PriorityTier =
  contract_queues :: "('cid, ('cid, 'd) QueuedItem list) hash_map"
  default_queue :: "('cid, 'd) QueuedItem list"
  round_robin :: "'cid QueueKey list"
  queued :: nat

definition tier_default :: "('cid, 'd) PriorityTier" where
  "tier_default = \<lparr>contract_queues = [], default_queue = [], round_robin = [], queued = 0\<rparr>"

definition len_for :: "('cid, 'd) ContractHandlerEvent \<Rightarrow> ('cid, 'd) PriorityTier \<Rightarrow> nat" where
  "len_for event t =
    (case extract_contract_id event of
       Some cid \<Rightarrow> (case map_of (contract_queues t) cid of Some q \<Rightarrow> length q | None \<Rightarrow> 0)
     | None \<Rightarrow> length (default_queue t))"

definition tier_push :: "('cid, 'd) QueuedItem \<Rightarrow> ('cid, 'd) PriorityTier \<Rightarrow> ('cid, 'd) PriorityTier" where
  "tier_push item t =
    (let t' = (case extract_contract_id (fst (snd item)) of
         Some cid \<Rightarrow>
           let queue = (case map_of (contract_queues t) cid of Some q \<Rightarrow> q | None \<Rightarrow> [])
           in t\<lparr>round_robin := (if queue = [] then round_robin t @ [Contract cid] else round_robin t),
                contract_queues := AList.update cid (queue @ [item]) (contract_queues t)\<rparr>
       | None \<Rightarrow>
           t\<lparr>round_robin := (if default_queue t = [] then round_robin t @ [Default] else round_robin t),
             default_queue := default_queue t @ [item]\<rparr>)
     in t'\<lparr>queued := queued t + 1\<rparr>)"

text \<open>The \<open>loop\<close> of \<open>pop\<close>: the first argument is what is left of the round-robin order.\<close>

fun tier_pop_loop :: "'cid QueueKey list \<Rightarrow> ('cid, 'd) PriorityTier \<Rightarrow>
    ('cid, 'd) QueuedItem option \<times> ('cid, 'd) PriorityTier" where
  "tier_pop_loop [] t = (None, t\<lparr>round_robin := []\<rparr>)"
| "tier_pop_loop (Contract cid # rr) t =
    (case map_of (contract_queues t) cid of
       Some (item # queue) \<Rightarrow>
         (Some item,
          if queue = [] then
            t\<lparr>queued := queued t - 1, contract_queues := AList.delete cid (contract_queues t), round_robin := rr\<rparr>
          else
            t\<lparr>queued := queued t - 1, contract_queues := AList.update cid queue (contract_queues t),
              round_robin := rr @ [Contract cid]\<rparr>)
     | Some [] \<Rightarrow> tier_pop_loop rr (t\<lparr>contract_queues := AList.delete cid (contract_queues t)\<rparr>)
     | None \<Rightarrow> tier_pop_loop rr t)"
| "tier_pop_loop (Default # rr) t =
    (case default_queue t of
       item # queue \<Rightarrow>
         (Some item,
          t\<lparr>queued := queued t - 1, default_queue := queue,
            round_robin := (if queue = [] then rr else rr @ [Default])\<rparr>)
     | [] \<Rightarrow> tier_pop_loop rr t)"

definition tier_pop :: "('cid, 'd) PriorityTier \<Rightarrow> ('cid, 'd) QueuedItem option \<times> ('cid, 'd) PriorityTier" where
  "tier_pop t = tier_pop_loop (round_robin t) t"

section \<open>The queue\<close>

record FairQueueCounters =
  high_water :: nat
  rejected_global_capacity :: nat
  rejected_per_contract :: nat
  background_shed :: nat

text \<open>\<open>tiers\<close>, an array indexed by priority, is a function on \<open>Priority\<close>.\<close>

record ('cid, 'd) FairEventQueue =
  tiers :: "Priority \<Rightarrow> ('cid, 'd) PriorityTier"
  total_queued :: nat
  client_streak :: nat
  counters :: FairQueueCounters

record FairQueueStats =
  depth_total :: nat
  depth_client_local :: nat
  depth_network_relay :: nat
  depth_background :: nat
  stat_counters :: FairQueueCounters

definition fq_new :: "('cid, 'd) FairEventQueue" where
  "fq_new = \<lparr>tiers = \<lambda>_. tier_default, total_queued = 0, client_streak = 0,
     counters = \<lparr>high_water = 0, rejected_global_capacity = 0, rejected_per_contract = 0, background_shed = 0\<rparr>\<rparr>"

definition fq_stats :: "('cid, 'd) FairEventQueue \<Rightarrow> FairQueueStats" where
  "fq_stats s = \<lparr>depth_total = total_queued s,
     depth_client_local = queued (tiers s ClientLocal),
     depth_network_relay = queued (tiers s NetworkRelay),
     depth_background = queued (tiers s Background),
     stat_counters = counters s\<rparr>"

text \<open>\<open>publish\<close> without the process-global gauge and the log line, which nothing reads back.\<close>

definition fq_publish :: "('cid, 'd) FairEventQueue \<Rightarrow> ('cid, 'd) FairEventQueue" where
  "fq_publish s = s\<lparr>counters := (counters s)\<lparr>high_water := max (high_water (counters s)) (total_queued s)\<rparr>\<rparr>"

definition record_terminal_rejection :: "RejectReason \<Rightarrow> ('cid, 'd) FairEventQueue \<Rightarrow> ('cid, 'd) FairEventQueue" where
  "record_terminal_rejection reason s =
    (case reason of
       GlobalCapacity \<Rightarrow> fq_publish (s\<lparr>counters := (counters s)\<lparr>rejected_global_capacity :=
           sat_add64 (rejected_global_capacity (counters s)) 1\<rparr>\<rparr>)
     | PerContract \<Rightarrow> fq_publish (s\<lparr>counters := (counters s)\<lparr>rejected_per_contract :=
           sat_add64 (rejected_per_contract (counters s)) 1\<rparr>\<rparr>)
     | Evicted \<Rightarrow> s)"

definition try_push :: "nat \<Rightarrow> ('cid, 'd) ContractHandlerEvent \<Rightarrow> Priority \<Rightarrow> ('cid, 'd) FairEventQueue \<Rightarrow>
    ('cid, 'd) RejectedEvent option \<times> ('cid, 'd) FairEventQueue" where
  "try_push eid event priority s =
    (let rejected = \<lambda>reason. Some \<lparr>rej_id = eid, rej_event = event, rej_priority = priority, rej_reason = reason\<rparr>;
         soft_cap = MAX_TOTAL_FAIR_QUEUE - CLIENT_LOCAL_RESERVE
     in if total_queued s \<ge> MAX_TOTAL_FAIR_QUEUE then (rejected GlobalCapacity, s)
        else if priority < ClientLocal \<and> total_queued s \<ge> soft_cap then (rejected GlobalCapacity, s)
        else if len_for event (tiers s priority) \<ge> MAX_QUEUED_PER_CONTRACT then (rejected PerContract, s)
        else (None, fq_publish (s\<lparr>tiers := (tiers s)(priority := tier_push (eid, event, priority) (tiers s priority)),
                                  total_queued := total_queued s + 1\<rparr>)))"

fun evict_loop :: "nat \<Rightarrow> ('cid, 'd) FairEventQueue \<Rightarrow> ('cid, 'd) RejectedEvent list \<times> ('cid, 'd) FairEventQueue" where
  "evict_loop 0 s = ([], s)"
| "evict_loop (Suc n) s =
    (case tier_pop (tiers s Background) of
       (Some (eid, event, priority), t) \<Rightarrow>
         let (evicted, s') = evict_loop n
               (s\<lparr>tiers := (tiers s)(Background := t), total_queued := total_queued s - 1\<rparr>)
         in (\<lparr>rej_id = eid, rej_event = event, rej_priority = priority, rej_reason = Evicted\<rparr> # evicted, s')
     | (None, t) \<Rightarrow> ([], s\<lparr>tiers := (tiers s)(Background := t)\<rparr>))"

definition evict_background :: "nat \<Rightarrow> ('cid, 'd) FairEventQueue \<Rightarrow>
    ('cid, 'd) RejectedEvent list \<times> ('cid, 'd) FairEventQueue" where
  "evict_background max_n s =
    (let (evicted, s') = evict_loop max_n s
     in (evicted, fq_publish (s'\<lparr>counters := (counters s')\<lparr>background_shed :=
           sat_add64 (background_shed (counters s')) (length evicted)\<rparr>\<rparr>)))"

definition background_queued :: "('cid, 'd) FairEventQueue \<Rightarrow> nat" where
  "background_queued s = queued (tiers s Background)"

text \<open>The \<open>for priority in order\<close> loop of \<open>pop\<close>.\<close>

fun pop_order :: "Priority list \<Rightarrow> bool \<Rightarrow> ('cid, 'd) FairEventQueue \<Rightarrow>
    ('cid, 'd) QueuedItem option \<times> ('cid, 'd) FairEventQueue" where
  "pop_order [] lower_nonempty s = (None, s)"
| "pop_order (priority # order) lower_nonempty s =
    (case tier_pop (tiers s priority) of
       (Some item, t) \<Rightarrow>
         (Some item, fq_publish (s\<lparr>tiers := (tiers s)(priority := t), total_queued := total_queued s - 1,
            client_streak := (if priority = ClientLocal \<and> lower_nonempty then client_streak s + 1 else 0)\<rparr>))
     | (None, t) \<Rightarrow> pop_order order lower_nonempty (s\<lparr>tiers := (tiers s)(priority := t)\<rparr>))"

text \<open>\<open>pop\<close>, returning the item with its priority; the code drops the priority from the result.\<close>

definition fq_pop :: "('cid, 'd) FairEventQueue \<Rightarrow> ('cid, 'd) QueuedItem option \<times> ('cid, 'd) FairEventQueue" where
  "fq_pop s =
    (let client_nonempty = queued (tiers s ClientLocal) > 0;
         lower_nonempty = (queued (tiers s NetworkRelay) > 0 \<or> queued (tiers s Background) > 0);
         force_lower = (client_nonempty \<and> lower_nonempty \<and> client_streak s \<ge> RELAY_STARVATION_FLOOR);
         order = (if force_lower then [NetworkRelay, Background, ClientLocal]
                  else [ClientLocal, NetworkRelay, Background])
     in pop_order order lower_nonempty s)"

section \<open>Admission with shedding\<close>

text \<open>The answer to a refused event: \<open>None\<close> when the waiting sender is dropped instead.\<close>

fun queue_full_response :: "('cid, 'd) ContractHandlerEvent \<Rightarrow> ('cid, 'd) ContractHandlerEvent option" where
  "queue_full_response (PutQuery _ _) = Some (PutResponse (Inl ContractQueueFull) False)"
| "queue_full_response (UpdateQuery _ _) = Some (UpdateResponse (Inl ContractQueueFull) False)"
| "queue_full_response (GetQuery _ _) = Some (GetResponse None (Inl ContractQueueFull))"
| "queue_full_response (GetSummaryQuery key) = Some (GetSummaryResponse key (Inl ContractQueueFull))"
| "queue_full_response (GetDeltaQuery key _) = Some (GetDeltaResponse key (Inl ContractQueueFull))"
| "queue_full_response (ExportUserSecrets _) = Some (ExportUserSecretsResponse (Inl ContractQueueFull))"
| "queue_full_response (ImportSecrets _) = Some (ImportSecretsResponse (Inl ContractQueueFull))"
| "queue_full_response _ = None"

text \<open>What refusing events does outside the queue: answers by event id, and contracts whose disk
  reclamation is to be retried.\<close>

record ('cid, 'd) Refusals =
  responses :: "(nat \<times> ('cid, 'd) ContractHandlerEvent option) list"
  pending_reclamation :: "('cid ContractKey \<times> nat) list"

definition track_pending_reclamation_if_evict :: "('cid, 'd) RejectedEvent \<Rightarrow> ('cid ContractKey \<times> nat) list" where
  "track_pending_reclamation_if_evict rejected =
    (case rej_event rejected of EvictContract key generation \<Rightarrow> [(key, generation)] | _ \<Rightarrow> [])"

definition refuse :: "('cid, 'd) RejectedEvent list \<Rightarrow> ('cid, 'd) Refusals" where
  "refuse rs = \<lparr>responses = map (\<lambda>r. (rej_id r, queue_full_response (rej_event r))) rs,
     pending_reclamation = concat (map track_pending_reclamation_if_evict rs)\<rparr>"

text \<open>The refused events (shed background events, then the event itself if it is refused).\<close>

definition push_with_background_eviction :: "nat \<Rightarrow> ('cid, 'd) ContractHandlerEvent \<Rightarrow> Priority \<Rightarrow>
    ('cid, 'd) FairEventQueue \<Rightarrow> ('cid, 'd) RejectedEvent list \<times> ('cid, 'd) FairEventQueue" where
  "push_with_background_eviction eid event priority s =
    (case try_push eid event priority s of
       (None, s1) \<Rightarrow> ([], s1)
     | (Some rejected, s1) \<Rightarrow>
         let eviction_can_help =
               (priority > Background \<and> rej_reason rejected = GlobalCapacity \<and> background_queued s1 > 0)
         in if eviction_can_help then
              let (evicted, s2) = evict_background CLIENT_LOCAL_RESERVE s1
              in case try_push (rej_id rejected) (rej_event rejected) (rej_priority rejected) s2 of
                   (None, s3) \<Rightarrow> (evicted, s3)
                 | (Some still_rejected, s3) \<Rightarrow>
                     (evicted @ [still_rejected], record_terminal_rejection (rej_reason still_rejected) s3)
            else ([rejected], record_terminal_rejection (rej_reason rejected) s1))"

end
