(* ===== verification/Keyed_Fifo.thy ===== *)
theory Keyed_Fifo
  imports Prelude
begin

text \<open>
  The interface of a queue with several lanes: what a step of it does to every lane, and the
  consequence for runs. The fair queue of the contract executor and the tracker of contract
  initialisations provide it.
\<close>

text \<open>A run collects what the steps put in and what they took out.\<close>

fun q_run :: "('e \<Rightarrow> 's \<Rightarrow> 'x list \<times> 'x list \<times> 's) \<Rightarrow> 'e list \<Rightarrow> 's \<Rightarrow> 'x list \<times> 'x list \<times> 's" where
  "q_run step [] s = ([], [], s)"
| "q_run step (e # es) s =
    (let (i, out, s1) = step e s; (ins, outs, s2) = q_run step es s1 in (i @ ins, out @ outs, s2))"

locale keyed_fifo =
  fixes step :: "'e \<Rightarrow> 's \<Rightarrow> 'x list \<times> 'x list \<times> 's"
    and qinv :: "'s \<Rightarrow> bool"
    and lane :: "'s \<Rightarrow> 'k \<Rightarrow> 'x list"
    and key_of :: "'x \<Rightarrow> 'k"
  assumes step_qinv: "qinv s \<Longrightarrow> step e s = (ins, outs, s') \<Longrightarrow> qinv s'"
    and step_lane: "qinv s \<Longrightarrow> step e s = (ins, outs, s') \<Longrightarrow>
      lane s k @ filter (\<lambda>x. key_of x = k) ins = filter (\<lambda>x. key_of x = k) outs @ lane s' k"
begin

lemma run_lane: "qinv s \<Longrightarrow> q_run step es s = (ins, outs, s') \<Longrightarrow>
    qinv s' \<and> lane s k @ filter (\<lambda>x. key_of x = k) ins = filter (\<lambda>x. key_of x = k) outs @ lane s' k"
proof (induction es arbitrary: s ins outs)
  case (Cons e es)
  obtain i out s1 where e: "step e s = (i, out, s1)" by (cases "step e s")
  obtain is' os' s2 where es: "q_run step es s1 = (is', os', s2)" by (cases "q_run step es s1")
  have eqs: "ins = i @ is'" "outs = out @ os'" "s' = s2" using Cons.prems(2) e es by auto
  note IH = Cons.IH[OF step_qinv[OF Cons.prems(1) e] es[folded eqs(3)]]
  have "lane s k @ filter (\<lambda>x. key_of x = k) i = filter (\<lambda>x. key_of x = k) out @ lane s1 k"
    using step_lane[OF Cons.prems(1) e] .
  then show ?case using IH unfolding eqs by (metis append.assoc filter_append)
qed simp

end

end
