(* ===== verification/Fair_Queue_Properties.thy ===== *)
theory Fair_Queue_Properties
  imports Fair_Queue Keyed_Fifo
begin

text \<open>
  Properties of the fair queue. It provides the interface \<open>keyed_fifo\<close> (lanes are contracts within a
  priority), which gives the order of every lane over any run. Then the bounds, the reserve for local clients, and the bounded wait of relayed work.
\<close>

section \<open>A tier\<close>

definition route :: "('cid, 'd) QueuedItem \<Rightarrow> 'cid QueueKey" where
  "route item = (case extract_contract_id (fst (snd item)) of Some cid \<Rightarrow> Contract cid | None \<Rightarrow> Default)"

fun tier_lane :: "('cid, 'd) PriorityTier \<Rightarrow> 'cid QueueKey \<Rightarrow> ('cid, 'd) QueuedItem list" where
  "tier_lane t (Contract cid) = (case map_of (contract_queues t) cid of Some q \<Rightarrow> q | None \<Rightarrow> [])"
| "tier_lane t Default = default_queue t"

definition tier_inv :: "('cid, 'd) PriorityTier \<Rightarrow> bool" where
  "tier_inv t \<longleftrightarrow> map_ok (contract_queues t) \<and> distinct (round_robin t) \<and>
    (\<forall>k. k \<in> set (round_robin t) \<longleftrightarrow> tier_lane t k \<noteq> []) \<and>
    (\<forall>k. \<forall>item \<in> set (tier_lane t k). route item = k) \<and>
    queued t = (\<Sum>k \<in> set (round_robin t). length (tier_lane t k))"

lemma tier_lane_default [simp]: "tier_lane tier_default k = []"
  by (cases k) (simp_all add: tier_default_def)

lemma tier_inv_default: "tier_inv tier_default"
  by (simp add: tier_inv_def) (simp add: tier_default_def)

lemma len_for_lane: "len_for event t = length (tier_lane t (route (eid, event, p)))"
  by (auto simp: len_for_def route_def split: option.splits)

lemma tier_push_lane: "tier_lane (tier_push item t) = (tier_lane t)(route item := tier_lane t (route item) @ [item])"
proof
  fix k
  show "tier_lane (tier_push item t) k = ((tier_lane t)(route item := tier_lane t (route item) @ [item])) k"
    by (cases k) (auto simp: tier_push_def route_def Let_def split: option.splits)
qed

lemma tier_push_rr: "round_robin (tier_push item t) =
    (if tier_lane t (route item) = [] then round_robin t @ [route item] else round_robin t)"
  "queued (tier_push item t) = queued t + 1"
  by (auto simp: tier_push_def route_def Let_def split: option.splits)

lemma tier_push_map_ok: "map_ok (contract_queues t) \<Longrightarrow> map_ok (contract_queues (tier_push item t))"
  by (auto simp: tier_push_def Let_def split: option.splits)

lemma sum_lane_upd: "finite A \<Longrightarrow> k \<in> A \<Longrightarrow>
    (\<Sum>x \<in> A. length ((f(k := v)) x)) + length (f k) = (\<Sum>x \<in> A. length (f x)) + length v"
  by (simp add: sum.remove[of A k] cong: sum.cong) (auto intro: sum.cong)

lemma tier_push_inv:
  assumes "tier_inv t"
  shows "tier_inv (tier_push item t)"
proof -
  let ?k = "route item" and ?t = "tier_push item t"
  have iff: "k \<in> set (round_robin ?t) \<longleftrightarrow> tier_lane ?t k \<noteq> []" for k
    using assms by (auto simp: tier_push_rr tier_push_lane tier_inv_def)
  have dist: "distinct (round_robin ?t)" using assms by (auto simp: tier_push_rr tier_inv_def)
  have routed: "\<forall>i \<in> set (tier_lane ?t k). route i = k" for k
    using assms by (auto simp: tier_push_lane tier_inv_def)
  have "(\<Sum>k \<in> set (round_robin ?t). length (tier_lane t k)) = queued t"
    using assms by (auto simp: tier_push_rr tier_inv_def)
  moreover have "?k \<in> set (round_robin ?t)" by (simp add: iff tier_push_lane)
  ultimately have "(\<Sum>k \<in> set (round_robin ?t). length (tier_lane ?t k)) = queued ?t"
    using sum_lane_upd[of "set (round_robin ?t)" ?k "tier_lane t" "tier_lane t ?k @ [item]"]
    by (simp only: tier_push_lane tier_push_rr(2)) simp
  then show ?thesis using iff dist routed assms by (simp add: tier_inv_def tier_push_map_ok)
qed

lemma tier_pop_empty:
  assumes "tier_inv t" "round_robin t = []"
  shows "tier_pop t = (None, t)" "tier_lane t k = []" "queued t = 0"
  using assms by (simp_all add: tier_pop_def tier_inv_def)

lemma tier_pop_front:
  assumes inv: "tier_inv t" and rr: "round_robin t = k # rest"
  obtains item items t' where "tier_pop t = (Some item, t')" "tier_lane t k = item # items" "route item = k"
    "tier_lane t' = (tier_lane t)(k := items)" "round_robin t' = (if items = [] then rest else rest @ [k])"
    "queued t' = queued t - 1" "map_ok (contract_queues t')"
proof -
  have "tier_lane t k \<noteq> []" using inv rr by (auto simp: tier_inv_def)
  then obtain item items where lane: "tier_lane t k = item # items" by (cases "tier_lane t k") auto
  have route: "route item = k" using inv lane by (force simp: tier_inv_def)
  have ok: "map_ok (contract_queues t)" using inv by (simp add: tier_inv_def)
  show ?thesis
  proof (cases k)
    case (Contract cid)
    then have q: "map_of (contract_queues t) cid = Some (item # items)" using lane by (auto split: option.splits)
    let ?t' = "snd (tier_pop t)"
    have "tier_lane ?t' x = ((tier_lane t)(k := items)) x" for x
      using q rr Contract by (cases x) (auto simp: tier_pop_def)
    then have "tier_lane ?t' = (tier_lane t)(k := items)" by (rule ext)
    then show ?thesis
      by (rule that[of item ?t' items, rotated 3])
        (use q rr Contract lane route ok in \<open>auto simp: tier_pop_def\<close>)
  next
    case Default
    then have q: "default_queue t = item # items" using lane by simp
    let ?t' = "snd (tier_pop t)"
    have "tier_lane ?t' x = ((tier_lane t)(k := items)) x" for x
      using q rr Default by (cases x) (auto simp: tier_pop_def)
    then have "tier_lane ?t' = (tier_lane t)(k := items)" by (rule ext)
    then show ?thesis
      by (rule that[of item ?t' items, rotated 3])
        (use q rr Default lane route ok in \<open>auto simp: tier_pop_def\<close>)
  qed
qed

lemma tier_pop_inv:
  assumes "tier_inv t" "tier_pop t = (r, t')"
  shows "tier_inv t'"
proof (cases "round_robin t")
  case (Cons k rest)
  obtain item items where p: "tier_lane t k = item # items" "tier_lane t' = (tier_lane t)(k := items)"
    "round_robin t' = (if items = [] then rest else rest @ [k])" "queued t' = queued t - 1"
    "map_ok (contract_queues t')"
    using tier_pop_front[OF assms(1) Cons] assms(2) by (metis prod.inject)
  have iff: "x \<in> set (round_robin t') \<longleftrightarrow> tier_lane t' x \<noteq> []" for x
    using assms(1) Cons p(1) by (auto simp: p(2,3) tier_inv_def)
  have sub: "set (round_robin t') \<subseteq> set (round_robin t)" using Cons p(3) by auto
  have "(\<Sum>x \<in> set (round_robin t'). length (tier_lane t' x)) = (\<Sum>x \<in> set (round_robin t). length (tier_lane t' x))"
    using sub by (intro sum.mono_neutral_left) (auto simp: iff)
  also have "\<dots> + 1 = queued t"
    using sum_lane_upd[of "set (round_robin t)" k "tier_lane t" items] assms(1) p(1) Cons
    by (simp add: p(2) tier_inv_def)
  finally have "queued t' = (\<Sum>x \<in> set (round_robin t'). length (tier_lane t' x))" using p(4) by simp
  moreover have "distinct (round_robin t')" using assms(1) Cons p(3) by (auto simp: tier_inv_def)
  moreover have "\<forall>x. \<forall>i \<in> set (tier_lane t' x). route i = x"
    using assms(1) p(1) unfolding p(2) tier_inv_def by (metis fun_upd_apply list.set_intros(2))
  ultimately show ?thesis using iff p(5) by (simp add: tier_inv_def)
qed (use assms tier_pop_empty(1) in fastforce)

lemma queued_pos_iff: "tier_inv t \<Longrightarrow> queued t > 0 \<longleftrightarrow> round_robin t \<noteq> []"
  by (cases "round_robin t") (auto simp: tier_inv_def intro: add_pos_nonneg)

section \<open>The queue\<close>

definition fq_lane :: "('cid, 'd) FairEventQueue \<Rightarrow> Priority \<times> 'cid QueueKey \<Rightarrow> ('cid, 'd) QueuedItem list" where
  "fq_lane s pk = tier_lane (tiers s (fst pk)) (snd pk)"

definition fq_key :: "('cid, 'd) QueuedItem \<Rightarrow> Priority \<times> 'cid QueueKey" where
  "fq_key item = (snd (snd item), route item)"

definition lower_queued :: "('cid, 'd) FairEventQueue \<Rightarrow> nat" where
  "lower_queued s = queued (tiers s NetworkRelay) + queued (tiers s Background)"

text \<open>The part of the invariant that holds between the steps of an eviction too.\<close>

definition fq_core :: "('cid, 'd) FairEventQueue \<Rightarrow> bool" where
  "fq_core s \<longleftrightarrow>
    (\<forall>p. tier_inv (tiers s p) \<and> (\<forall>k. \<forall>item \<in> set (tier_lane (tiers s p) k). snd (snd item) = p) \<and>
         (\<forall>k. length (tier_lane (tiers s p) k) \<le> MAX_QUEUED_PER_CONTRACT)) \<and>
    total_queued s = queued (tiers s ClientLocal) + lower_queued s \<and>
    total_queued s \<le> MAX_TOTAL_FAIR_QUEUE \<and>
    lower_queued s \<le> MAX_TOTAL_FAIR_QUEUE - CLIENT_LOCAL_RESERVE"

definition fq_inv :: "('cid, 'd) FairEventQueue \<Rightarrow> bool" where
  "fq_inv s \<longleftrightarrow> fq_core s \<and> client_streak s \<le> RELAY_STARVATION_FLOOR \<and> total_queued s \<le> high_water (counters s)"

lemma fq_inv_new: "fq_inv fq_new" "fq_lane fq_new k = []"
  by (simp_all add: fq_inv_def fq_core_def fq_new_def tier_inv_default lower_queued_def fq_lane_def)
    (simp add: tier_default_def)

lemma fq_publish_fields [simp]:
  "tiers (fq_publish s) = tiers s" "total_queued (fq_publish s) = total_queued s"
  "client_streak (fq_publish s) = client_streak s"
  "high_water (counters (fq_publish s)) = max (high_water (counters s)) (total_queued s)"
  by (simp_all add: fq_publish_def)

lemma record_terminal_fields [simp]:
  "tiers (record_terminal_rejection r s) = tiers s" "total_queued (record_terminal_rejection r s) = total_queued s"
  "client_streak (record_terminal_rejection r s) = client_streak s"
  "high_water (counters s) \<le> high_water (counters (record_terminal_rejection r s))"
  by (cases r; simp add: record_terminal_rejection_def)+

lemma fq_core_cong: "tiers s = tiers s' \<Longrightarrow> total_queued s = total_queued s' \<Longrightarrow> fq_core s = fq_core s'"
  by (simp add: fq_core_def lower_queued_def)

subsection \<open>Admission\<close>

definition admit :: "('cid, 'd) QueuedItem \<Rightarrow> ('cid, 'd) FairEventQueue \<Rightarrow> ('cid, 'd) FairEventQueue" where
  "admit item s = fq_publish (s\<lparr>tiers := (tiers s)(snd (snd item) := tier_push item (tiers s (snd (snd item)))),
     total_queued := total_queued s + 1\<rparr>)"

lemma try_push_admitted: "try_push eid event p s = (None, s') \<longleftrightarrow>
    s' = admit (eid, event, p) s \<and> total_queued s < MAX_TOTAL_FAIR_QUEUE \<and>
    (p = ClientLocal \<or> total_queued s < MAX_TOTAL_FAIR_QUEUE - CLIENT_LOCAL_RESERVE) \<and>
    length (fq_lane s (fq_key (eid, event, p))) < MAX_QUEUED_PER_CONTRACT"
  by (cases p) (auto simp: try_push_def admit_def Let_def less_Priority_def fq_lane_def fq_key_def
      len_for_lane[of event _ eid p] fun_upd_def)

lemma try_push_refused: "try_push eid event p s = (Some r, s') \<Longrightarrow>
    s' = s \<and> rej_id r = eid \<and> rej_event r = event \<and> rej_priority r = p \<and>
    (rej_reason r = GlobalCapacity \<and>
       (total_queued s \<ge> MAX_TOTAL_FAIR_QUEUE \<or>
        p \<noteq> ClientLocal \<and> total_queued s \<ge> MAX_TOTAL_FAIR_QUEUE - CLIENT_LOCAL_RESERVE) \<or>
     rej_reason r = PerContract \<and> length (fq_lane s (fq_key (eid, event, p))) \<ge> MAX_QUEUED_PER_CONTRACT)"
  by (cases p) (auto simp: try_push_def Let_def less_Priority_def fq_lane_def fq_key_def
      len_for_lane[of event _ eid p] split: if_splits)

lemma admit_lane: "fq_lane (admit item s) = (fq_lane s)(fq_key item := fq_lane s (fq_key item) @ [item])"
  by (auto simp: fq_lane_def fq_key_def admit_def tier_push_lane)

lemma admit_inv:
  assumes "fq_inv s" "try_push eid event p s = (None, s')"
  shows "fq_inv s'"
proof -
  note adm = assms(2)[unfolded try_push_admitted]
  have core: "fq_core s" using assms(1) by (simp add: fq_inv_def)
  have tier: "tier_inv (tiers s' q) \<and> (\<forall>k. \<forall>item \<in> set (tier_lane (tiers s' q) k). snd (snd item) = q) \<and>
      (\<forall>k. length (tier_lane (tiers s' q) k) \<le> MAX_QUEUED_PER_CONTRACT)" for q
    using core adm
    by (auto simp: admit_def fq_core_def tier_push_inv tier_push_lane fq_lane_def fq_key_def
        dest: bspec)
  have "lower_queued s' = lower_queued s + (if p = ClientLocal then 0 else 1)"
    "total_queued s' = queued (tiers s' ClientLocal) + lower_queued s'"
    using adm core by (cases p; auto simp: admit_def lower_queued_def tier_push_rr fq_core_def)+
  moreover have "lower_queued s \<le> total_queued s" using core by (simp add: fq_core_def)
  ultimately have "fq_core s'" using tier core adm
    unfolding fq_core_def by (auto simp: admit_def fq_consts)
  then show ?thesis using assms(1) adm by (simp add: fq_inv_def admit_def)
qed

subsection \<open>Removal\<close>

lemma fq_core_remove:
  assumes core: "fq_core s" and ne: "round_robin (tiers s p) \<noteq> []"
  obtains item t where "tier_pop (tiers s p) = (Some item, t)" "snd (snd item) = p"
    "queued t + 1 = queued (tiers s p)"
    "fq_core (s\<lparr>tiers := (tiers s)(p := t), total_queued := total_queued s - 1\<rparr>)"
    "\<forall>k. fq_lane s k = (if fq_key item = k then [item] else []) @
       fq_lane (s\<lparr>tiers := (tiers s)(p := t), total_queued := total_queued s - 1\<rparr>) k"
proof -
  have inv: "tier_inv (tiers s p)" using core by (simp add: fq_core_def)
  obtain k0 rest where rr: "round_robin (tiers s p) = k0 # rest" using ne by (cases "round_robin (tiers s p)") auto
  obtain item items t where pop: "tier_pop (tiers s p) = (Some item, t)" "tier_lane (tiers s p) k0 = item # items"
    "route item = k0" "tier_lane t = (tier_lane (tiers s p))(k0 := items)"
    "round_robin t = (if items = [] then rest else rest @ [k0])" "queued t = queued (tiers s p) - 1"
    "map_ok (contract_queues t)"
    by (rule tier_pop_front[OF inv rr])
  let ?s = "s\<lparr>tiers := (tiers s)(p := t), total_queued := total_queued s - 1\<rparr>"
  have prio: "snd (snd item) = p" using core pop(2) unfolding fq_core_def by (metis list.set_intros(1))
  have pos: "queued t + 1 = queued (tiers s p)" using queued_pos_iff[OF inv] ne pop(6) by simp
  have tier: "tier_inv (tiers ?s q) \<and> (\<forall>k. \<forall>item \<in> set (tier_lane (tiers ?s q) k). snd (snd item) = q) \<and>
      (\<forall>k. length (tier_lane (tiers ?s q) k) \<le> MAX_QUEUED_PER_CONTRACT)" for q
  proof -
    have "length items \<le> MAX_QUEUED_PER_CONTRACT" "\<forall>i \<in> set items. snd (snd i) = p"
      using core pop(2) unfolding fq_core_def by (metis Suc_leD length_Cons, metis list.set_intros(2))
    then show ?thesis using core tier_pop_inv[OF inv pop(1)] by (auto simp: fq_core_def pop(4) dest: bspec)
  qed
  have "fq_core ?s" using tier core pos by (cases p) (auto simp: fq_core_def lower_queued_def)
  moreover have "\<forall>k. fq_lane s k = (if fq_key item = k then [item] else []) @ fq_lane ?s k"
    using pop(2,3,4) prio by (auto simp: fq_lane_def fq_key_def)
  ultimately show ?thesis using that[of item t] pop(1) prio pos by blast
qed

lemma evict_loop_spec:
  "fq_core s \<Longrightarrow> evict_loop n s = (evicted, s') \<Longrightarrow>
    fq_core s' \<and> length evicted = min n (background_queued s) \<and> total_queued s' + length evicted = total_queued s \<and>
    client_streak s' = client_streak s \<and> counters s' = counters s \<and>
    (\<forall>r \<in> set evicted. rej_reason r = Evicted \<and> rej_priority r = Background) \<and>
    (\<forall>k. fq_lane s k =
      filter (\<lambda>x. fq_key x = k) (map (\<lambda>r. (rej_id r, rej_event r, rej_priority r)) evicted) @ fq_lane s' k)"
proof (induction n arbitrary: s evicted)
  case (Suc n)
  have inv: "tier_inv (tiers s Background)" using Suc.prems(1) by (simp add: fq_core_def)
  show ?case
  proof (cases "round_robin (tiers s Background) = []")
    case True
    then show ?thesis using Suc.prems tier_pop_empty[OF inv True]
      by (auto simp: background_queued_def fq_lane_def)
  next
    case False
    obtain item t where r: "tier_pop (tiers s Background) = (Some item, t)" "snd (snd item) = Background"
      "queued t + 1 = queued (tiers s Background)"
      "fq_core (s\<lparr>tiers := (tiers s)(Background := t), total_queued := total_queued s - 1\<rparr>)"
      "\<forall>k. fq_lane s k = (if fq_key item = k then [item] else []) @
         fq_lane (s\<lparr>tiers := (tiers s)(Background := t), total_queued := total_queued s - 1\<rparr>) k"
      by (rule fq_core_remove[OF Suc.prems(1) False])
    let ?s = "s\<lparr>tiers := (tiers s)(Background := t), total_queued := total_queued s - 1\<rparr>"
    obtain ev where ev: "evict_loop n ?s = (ev, s')" using Suc.prems(2) r(1) by (auto split: prod.splits)
    have e: "evicted = \<lparr>rej_id = fst item, rej_event = fst (snd item), rej_priority = Background, rej_reason = Evicted\<rparr> # ev"
      using Suc.prems(2) r(1,2) ev by (cases item) auto
    have "total_queued s > 0" using Suc.prems(1) r(3) by (simp add: fq_core_def lower_queued_def)
    then show ?thesis using Suc.IH[OF r(4) ev] r(3,5) r(2)[symmetric]
      by (cases item) (auto simp: e background_queued_def)
  qed
qed auto

definition shed_items :: "('cid, 'd) RejectedEvent list \<Rightarrow> ('cid, 'd) QueuedItem list" where
  "shed_items rs = map (\<lambda>r. (rej_id r, rej_event r, rej_priority r)) (filter (\<lambda>r. rej_reason r = Evicted) rs)"

lemma evict_background_spec:
  assumes "fq_inv s" "evict_background n s = (evicted, s')"
  shows "fq_inv s'" "length evicted = min n (background_queued s)" "total_queued s' + length evicted = total_queued s"
    "\<forall>r \<in> set evicted. rej_reason r = Evicted \<and> rej_priority r = Background"
    "fq_lane s k = filter (\<lambda>x. fq_key x = k) (shed_items evicted) @ fq_lane s' k"
proof -
  obtain s1 where l: "evict_loop n s = (evicted, s1)" using assms(2)
    by (auto simp: evict_background_def split: prod.splits)
  then have s': "tiers s' = tiers s1" "total_queued s' = total_queued s1" "client_streak s' = client_streak s1"
    "total_queued s' \<le> high_water (counters s')"
    using assms(2) by (auto simp: evict_background_def)
  note spec = evict_loop_spec[OF _ l]
  have "fq_lane s' = fq_lane s1" by (auto simp: fq_lane_def s')
  moreover have "filter (\<lambda>r. rej_reason r = Evicted) evicted = evicted"
    using spec assms(1) by (auto simp: fq_inv_def intro: filter_True)
  ultimately show "fq_inv s'" "length evicted = min n (background_queued s)"
    "total_queued s' + length evicted = total_queued s"
    "\<forall>r \<in> set evicted. rej_reason r = Evicted \<and> rej_priority r = Background"
    "fq_lane s k = filter (\<lambda>x. fq_key x = k) (shed_items evicted) @ fq_lane s' k"
    using spec assms(1) s' fq_core_cong[OF s'(1,2)]
    by (auto simp: fq_inv_def shed_items_def simp del: split_paired_All)
qed

text \<open>One pop that serves tier \<open>p\<close>.\<close>

definition served :: "('cid, 'd) FairEventQueue \<Rightarrow> Priority \<Rightarrow> ('cid, 'd) QueuedItem \<Rightarrow> ('cid, 'd) FairEventQueue \<Rightarrow> bool" where
  "served s p item s' \<longleftrightarrow> snd (snd item) = p \<and> fq_core s' \<and> tier_pop (tiers s p) = (Some item, tiers s' p) \<and>
    (\<forall>k. fq_lane s k = (if fq_key item = k then [item] else []) @ fq_lane s' k) \<and>
    (\<forall>q. q \<noteq> p \<longrightarrow> tiers s' q = tiers s q) \<and>
    total_queued s' + 1 = total_queued s \<and> total_queued s' \<le> high_water (counters s')"

lemma pop_order_skip: "fq_core s \<Longrightarrow> round_robin (tiers s p) = [] \<Longrightarrow> pop_order (p # ps) l s = pop_order ps l s"
  using tier_pop_empty(1)[of "tiers s p"] by (simp add: fq_core_def)

lemma pop_order_serve:
  assumes "fq_core s" "round_robin (tiers s p) \<noteq> []"
  shows "\<exists>item s'. pop_order (p # ps) l s = (Some item, s') \<and> served s p item s' \<and>
    client_streak s' = (if p = ClientLocal \<and> l then client_streak s + 1 else 0)"
proof -
  obtain item t where r: "tier_pop (tiers s p) = (Some item, t)" "snd (snd item) = p"
    "queued t + 1 = queued (tiers s p)"
    "fq_core (s\<lparr>tiers := (tiers s)(p := t), total_queued := total_queued s - 1\<rparr>)"
    "\<forall>k. fq_lane s k = (if fq_key item = k then [item] else []) @
       fq_lane (s\<lparr>tiers := (tiers s)(p := t), total_queued := total_queued s - 1\<rparr>) k"
    by (rule fq_core_remove[OF assms])
  let ?s = "s\<lparr>tiers := (tiers s)(p := t), total_queued := total_queued s - 1\<rparr>"
  let ?s' = "fq_publish (?s\<lparr>client_streak := (if p = ClientLocal \<and> l then client_streak s + 1 else 0)\<rparr>)"
  have "fq_core ?s'" "fq_lane ?s' = fq_lane ?s"
    using r(4) by (simp_all add: fq_core_def lower_queued_def fq_lane_def fun_eq_iff)
  moreover have "total_queued s > 0" using assms(1) r(3) by (cases p) (auto simp: fq_core_def lower_queued_def)
  ultimately have "served s p item ?s'" using r(1,2,5) by (simp add: served_def)
  then show ?thesis using r(1) by auto
qed

declare pop_order.simps(2) [simp del]

lemma fq_pop_spec:
  assumes "fq_inv s"
  shows "fq_pop s = (None, s) \<and> total_queued s = 0 \<or>
    (\<exists>p item s'. fq_pop s = (Some item, s') \<and> served s p item s' \<and>
      client_streak s' = (if p = ClientLocal \<and> lower_queued s > 0 then client_streak s + 1 else 0) \<and>
      (if p = ClientLocal then lower_queued s > 0 \<longrightarrow> client_streak s < RELAY_STARVATION_FLOOR
       else queued (tiers s ClientLocal) = 0 \<or> client_streak s \<ge> RELAY_STARVATION_FLOOR) \<and>
      (p = Background \<longrightarrow> queued (tiers s NetworkRelay) = 0))"
proof -
  have core: "fq_core s" using assms by (simp add: fq_inv_def)
  have q: "queued (tiers s p) > 0 \<longleftrightarrow> round_robin (tiers s p) \<noteq> []" for p
    using core queued_pos_iff[of "tiers s p"] by (simp add: fq_core_def)
  have total: "total_queued s = queued (tiers s ClientLocal) + lower_queued s" using core by (simp add: fq_core_def)
  let ?l = "queued (tiers s NetworkRelay) > 0 \<or> queued (tiers s Background) > 0"
  have l: "?l \<longleftrightarrow> lower_queued s > 0" by (auto simp: lower_queued_def)
  let ?C = "queued (tiers s ClientLocal) > 0" and ?R = "queued (tiers s NetworkRelay) > 0"
    and ?B = "queued (tiers s Background) > 0" and ?f = "client_streak s \<ge> RELAY_STARVATION_FLOOR"
  note serve = pop_order_serve[OF core, of _ _ ?l] and skip = pop_order_skip[OF core]
  consider (client) "?C" "\<not> (?l \<and> ?f)" | (relay) "?R" "\<not> ?C \<or> ?f" | (background) "?B" "\<not> ?R" "\<not> ?C \<or> ?f"
    | (empty) "\<not> ?C" "\<not> ?R" "\<not> ?B" by blast
  then show ?thesis
  proof cases
    case client
    then have "fq_pop s = pop_order (ClientLocal # [NetworkRelay, Background]) ?l s"
      by (auto simp: fq_pop_def Let_def)
    then show ?thesis using serve[of ClientLocal] client q l by fastforce
  next
    case relay
    then have "\<exists>ps. fq_pop s = pop_order (NetworkRelay # ps) ?l s" using q
      by (auto simp: fq_pop_def Let_def skip)
    then obtain ps where ps: "fq_pop s = pop_order (NetworkRelay # ps) ?l s" by blast
    obtain item s' where "pop_order (NetworkRelay # ps) ?l s = (Some item, s')" "served s NetworkRelay item s'" "client_streak s' = 0"
      using serve[of NetworkRelay ps, OF q[THEN iffD1, OF relay(1)]] by auto
    then show ?thesis using ps relay
      by (intro disjI2 exI[of _ NetworkRelay] exI[of _ item] exI[of _ s']) auto
  next
    case background
    then have "\<exists>ps. fq_pop s = pop_order (Background # ps) ?l s" using q
      by (auto simp: fq_pop_def Let_def skip)
    then obtain ps where ps: "fq_pop s = pop_order (Background # ps) ?l s" by blast
    obtain item s' where "pop_order (Background # ps) ?l s = (Some item, s')" "served s Background item s'" "client_streak s' = 0"
      using serve[of Background ps, OF q[THEN iffD1, OF background(1)]] by auto
    then show ?thesis using ps background
      by (intro disjI2 exI[of _ Background] exI[of _ item] exI[of _ s']) auto
  next
    case empty
    then have "fq_pop s = (None, s)" using q
      by (auto simp: fq_pop_def Let_def skip)
    then show ?thesis using empty total by (auto simp: lower_queued_def)
  qed
qed

lemma served_inv: "fq_inv s \<Longrightarrow> served s p item s' \<Longrightarrow> client_streak s' \<le> RELAY_STARVATION_FLOOR \<Longrightarrow> fq_inv s'"
  by (simp add: served_def fq_inv_def)

lemma fq_pop_inv: "fq_inv s \<Longrightarrow> fq_pop s = (r, s') \<Longrightarrow> fq_inv s'"
  using fq_pop_spec[of s] served_inv[of s] by (auto simp: fq_inv_def split: if_splits)

subsection \<open>Runs\<close>

datatype ('cid, 'd) FqOp = FqPush nat "('cid, 'd) ContractHandlerEvent" Priority | FqPop

text \<open>What the two operations of the event loop admit and remove: a push admits its event unless it
  refuses it, and removes the background events it sheds.\<close>

fun fq_step :: "('cid, 'd) FqOp \<Rightarrow> ('cid, 'd) FairEventQueue \<Rightarrow>
    ('cid, 'd) QueuedItem list \<times> ('cid, 'd) QueuedItem list \<times> ('cid, 'd) FairEventQueue" where
  "fq_step (FqPush eid event p) s =
    (let (refused, s') = push_with_background_eviction eid event p s
     in (if list_all (\<lambda>r. rej_reason r = Evicted) refused then [(eid, event, p)] else [],
         shed_items refused, s'))"
| "fq_step FqPop s = (case fq_pop s of (Some item, s') \<Rightarrow> ([], [item], s') | (None, s') \<Rightarrow> ([], [], s'))"

lemma terminal_inv: "fq_inv s \<Longrightarrow> fq_inv (record_terminal_rejection r s)"
  "fq_lane (record_terminal_rejection r s) = fq_lane s"
  using fq_core_cong[of "record_terminal_rejection r s" s]
  by (auto simp: fq_inv_def fq_lane_def fun_eq_iff intro: order_trans[OF _ record_terminal_fields(4)])

lemma push_cases:
  assumes "fq_inv s" "push_with_background_eviction eid event p s = (refused, s')"
  obtains (admitted) "try_push eid event p s = (None, s')" "refused = []"
  | (shed) r evicted s2 where "try_push eid event p s = (Some r, s)" "rej_reason r = GlobalCapacity"
      "p \<noteq> Background" "background_queued s > 0"
      "evict_background CLIENT_LOCAL_RESERVE s = (evicted, s2)" "try_push eid event p s2 = (None, s')" "refused = evicted"
  | (wasted) r evicted s2 r2 where "try_push eid event p s = (Some r, s)" "rej_reason r = GlobalCapacity"
      "p \<noteq> Background" "background_queued s > 0"
      "evict_background CLIENT_LOCAL_RESERVE s = (evicted, s2)" "try_push eid event p s2 = (Some r2, s2)"
      "refused = evicted @ [r2]" "s' = record_terminal_rejection (rej_reason r2) s2"
  | (refused) r where "try_push eid event p s = (Some r, s)" "refused = [r]"
      "p = Background \<or> rej_reason r \<noteq> GlobalCapacity \<or> background_queued s = 0"
      "s' = record_terminal_rejection (rej_reason r) s"
proof (cases "fst (try_push eid event p s)")
  case None
  then show ?thesis using assms(2) admitted
    by (cases "try_push eid event p s") (auto simp: push_with_background_eviction_def)
next
  case (Some r)
  then have r: "try_push eid event p s = (Some r, s)"
    using try_push_refused[of eid event p s r] by (cases "try_push eid event p s") auto
  note fields = try_push_refused[OF r]
  show ?thesis
  proof (cases "p > Background \<and> rej_reason r = GlobalCapacity \<and> background_queued s > 0")
    case False
    then show ?thesis using refused[OF r] assms(2) r
      by (cases p) (auto simp: push_with_background_eviction_def less_Priority_def)
  next
    case True
    obtain evicted s2 where ev: "evict_background CLIENT_LOCAL_RESERVE s = (evicted, s2)"
      by (cases "evict_background CLIENT_LOCAL_RESERVE s")
    obtain r2 s3 where push: "try_push eid event p s2 = (r2, s3)" by (cases "try_push eid event p s2")
    have "p \<noteq> Background" using True by (auto simp: less_Priority_def)
    then show ?thesis
      using shed[OF r _ _ _ ev] wasted[OF r _ _ _ ev] True assms(2) r ev push fields try_push_refused[of eid event p s2]
      by (cases r2) (auto simp: push_with_background_eviction_def)
  qed
qed

lemma push_inv:
  assumes "fq_inv s" "push_with_background_eviction eid event p s = (refused, s')"
  shows "fq_inv s'"
  using assms
proof (cases rule: push_cases)
  case admitted
  then show ?thesis using admit_inv[OF assms(1)] by blast
next
  case (shed r evicted s2)
  then show ?thesis using admit_inv evict_background_spec(1)[OF assms(1)] by blast
next
  case (wasted r evicted s2 r2)
  then show ?thesis using terminal_inv(1) evict_background_spec(1)[OF assms(1)] by blast
next
  case (refused r)
  then show ?thesis using terminal_inv(1)[OF assms(1)] by blast
qed

lemma refused_not_evicted: "try_push eid event p s = (Some r, s') \<Longrightarrow> rej_reason r \<noteq> Evicted"
  using try_push_refused[of eid event p s r s'] by auto

lemma push_lane:
  assumes "fq_inv s" "fq_step (FqPush eid event p) s = (ins, outs, s')"
  shows "fq_lane s k @ filter (\<lambda>x. fq_key x = k) ins = filter (\<lambda>x. fq_key x = k) outs @ fq_lane s' k"
proof -
  obtain refused where push: "push_with_background_eviction eid event p s = (refused, s')"
    and ins: "ins = (if list_all (\<lambda>r. rej_reason r = Evicted) refused then [(eid, event, p)] else [])"
    and outs: "outs = shed_items refused"
    using assms(2) by (auto split: prod.splits)
  note ins_outs = ins outs shed_items_def
  from assms(1) push show ?thesis
  proof (cases rule: push_cases)
    case admitted
    then show ?thesis by (auto simp: ins_outs try_push_admitted admit_lane)
  next
    case (shed r evicted s2)
    note ev = evict_background_spec[OF assms(1) shed(5)]
    have "list_all (\<lambda>r. rej_reason r = Evicted) refused" using ev(4) shed(7) by (auto simp: list_all_iff)
    then show ?thesis using ev(5)[of k] shed(6,7) by (auto simp: ins outs try_push_admitted admit_lane)
  next
    case (wasted r evicted s2 r2)
    note ev = evict_background_spec[OF assms(1) wasted(5)]
    show ?thesis using ev(5)[of k] wasted(7,8) refused_not_evicted[OF wasted(6)]
      by (simp add: ins outs shed_items_def terminal_inv(2))
  next
    case (refused r)
    then show ?thesis using refused_not_evicted[OF refused(1)]
      by (simp add: ins outs shed_items_def terminal_inv(2))
  qed
qed

lemma pop_lane:
  assumes "fq_inv s" "fq_step FqPop s = (ins, outs, s')"
  shows "fq_lane s k @ filter (\<lambda>x. fq_key x = k) ins = filter (\<lambda>x. fq_key x = k) outs @ fq_lane s' k"
proof -
  consider "fq_pop s = (None, s)" | p item s1 where "fq_pop s = (Some item, s1)" "served s p item s1"
    using fq_pop_spec[OF assms(1)] by blast
  then show ?thesis
  proof cases
    case 2
    have "fq_lane s k = (if fq_key item = k then [item] else []) @ fq_lane s1 k"
      using 2(2) unfolding served_def by blast
    then show ?thesis using assms(2) 2(1) by auto
  qed (use assms(2) in auto)
qed

interpretation fq: keyed_fifo fq_step fq_inv fq_lane fq_key
proof
  fix s :: "('a, 'b) FairEventQueue" and e ins outs s' k
  assume inv: "fq_inv s" and step: "fq_step e s = (ins, outs, s')"
  show "fq_inv s'"
    using inv step push_inv fq_pop_inv by (cases e) (auto split: prod.splits option.splits)
  show "fq_lane s k @ filter (\<lambda>x. fq_key x = k) ins = filter (\<lambda>x. fq_key x = k) outs @ fq_lane s' k"
    using push_lane[OF inv] pop_lane[OF inv] step by (cases e) auto
qed

section \<open>Properties\<close>

text \<open>
  C12: whatever is pushed and popped, the events of one contract (or of the default lane) within one
  priority class leave the queue, popped or shed, in exactly the order in which they were admitted:
  none is lost, duplicated or overtaken by a later one of its lane.
\<close>

theorem fair_queue_order:
  "case q_run fq_step es (fq_new :: ('cid, 'd) FairEventQueue) of (ins, outs, s) \<Rightarrow>
    filter (\<lambda>x. fq_key x = k) ins = filter (\<lambda>x. fq_key x = k) outs @ fq_lane s k"
  using fq.run_lane[OF fq_inv_new(1), of es, where k = k]
  by (cases "q_run fq_step es (fq_new :: ('cid, 'd) FairEventQueue)") (auto simp: fq_inv_new(2))

text \<open>
  In every reachable state the counters are exact (the depth of a class is the number of events in
  its lanes, the total is the sum of the depths), no lane holds more than 100 events, the queue holds at
  most 5000, relayed and background events together at most 4744, and the high-water mark is at least
  the total.
\<close>

theorem fair_queue_bounds:
  "case q_run fq_step es (fq_new :: ('cid, 'd) FairEventQueue) of (ins, outs, s) \<Rightarrow>
    let st = fq_stats s in
    (\<forall>p. queued (tiers s p) = (\<Sum>k | fq_lane s (p, k) \<noteq> []. length (fq_lane s (p, k)))) \<and>
    depth_total st = depth_client_local st + depth_network_relay st + depth_background st \<and>
    (\<forall>p k. length (fq_lane s (p, k)) \<le> 100) \<and> depth_total st \<le> 5000 \<and>
    depth_network_relay st + depth_background st \<le> 4744 \<and> depth_total st \<le> high_water (stat_counters st)"
proof -
  obtain ins outs and s :: "('cid, 'd) FairEventQueue" where run: "q_run fq_step es fq_new = (ins, outs, s)"
    by (cases "q_run fq_step es (fq_new :: ('cid, 'd) FairEventQueue)")
  have inv: "fq_inv s" using fq.run_lane[OF fq_inv_new(1) run] by blast
  have "queued (tiers s p) = (\<Sum>k | fq_lane s (p, k) \<noteq> []. length (fq_lane s (p, k)))" for p
  proof -
    have t: "tier_inv (tiers s p)" using inv by (simp add: fq_inv_def fq_core_def)
    then have "set (round_robin (tiers s p)) = {k. fq_lane s (p, k) \<noteq> []}" by (auto simp: tier_inv_def fq_lane_def)
    then show ?thesis using t by (simp add: tier_inv_def fq_lane_def)
  qed
  then show ?thesis using inv
    by (simp add: run fq_stats_def fq_inv_def fq_core_def lower_queued_def fq_consts fq_lane_def)
qed

definition terminal :: "('cid, 'd) RejectedEvent list \<Rightarrow> bool" where
  "terminal refused \<longleftrightarrow> list_ex (\<lambda>r. rej_reason r \<noteq> Evicted) refused"

text \<open>A tier in which each of \<open>n\<close> contracts has 100 events, and a queue of three such tiers.\<close>

definition full_tier :: "nat \<Rightarrow> Priority \<Rightarrow> (nat, unit) PriorityTier" where
  "full_tier n p = \<lparr>contract_queues = map (\<lambda>c. (c, replicate 100 (0, GetQuery c False, p))) [0..<n],
     default_queue = [], round_robin = map Contract [0..<n], queued = 100 * n\<rparr>"

definition full_queue :: "nat \<Rightarrow> nat \<Rightarrow> nat \<Rightarrow> (nat, unit) FairEventQueue" where
  "full_queue n m b = \<lparr>tiers = (\<lambda>p. full_tier (case p of ClientLocal \<Rightarrow> n | NetworkRelay \<Rightarrow> m | Background \<Rightarrow> b) p),
     total_queued = 100 * (n + m + b), client_streak = 0,
     counters = \<lparr>high_water = 100 * (n + m + b), rejected_global_capacity = 0, rejected_per_contract = 0,
       background_shed = 0\<rparr>\<rparr>"

lemma map_of_graph: "map_of (map (\<lambda>c. (c, f c)) xs) k = (if k \<in> set xs then Some (f k) else None)"
  by (induction xs) auto

lemma full_tier_lane: "tier_lane (full_tier n p) k =
    (case k of Contract c \<Rightarrow> if c < n then replicate 100 (0, GetQuery c False, p) else [] | Default \<Rightarrow> [])"
  by (cases k) (simp_all add: full_tier_def map_of_graph)

lemma full_tier_inv: "tier_inv (full_tier n p)"
proof -
  have rr: "set (round_robin (full_tier n p)) = Contract ` {0..<n}" by (simp add: full_tier_def)
  have "(\<Sum>k \<in> Contract ` {0..<n}. length (tier_lane (full_tier n p) k)) = 100 * n"
    by (simp add: full_tier_lane sum.reindex inj_on_def)
  then show ?thesis unfolding tier_inv_def rr
    by (auto simp: full_tier_lane route_def split: QueueKey.splits if_splits)
      (auto simp: full_tier_def map_ok_def distinct_map inj_on_def comp_def)
qed

lemma full_queue_inv: "m + b \<le> 47 \<Longrightarrow> n + m + b \<le> 50 \<Longrightarrow> fq_inv (full_queue n m b)"
  by (auto simp: fq_inv_def fq_core_def full_queue_def full_tier_inv lower_queued_def fq_consts full_tier_lane
      split: Priority.splits QueueKey.splits if_splits) (auto simp: full_tier_def)

text \<open>
  The event of a local client is refused only when its own lane already holds 100 client events, or
  when no background event is left to shed and at least 256 client events are queued: relayed and
  background work alone never causes a refusal.
\<close>

theorem client_push_refused_only_when:
  assumes "fq_inv s" "push_with_background_eviction eid event ClientLocal s = (refused, s')" "terminal refused"
  shows "100 \<le> length (fq_lane s (fq_key (eid, event, ClientLocal))) \<or>
    background_queued s = 0 \<and> 256 \<le> queued (tiers s ClientLocal)"
proof -
  from assms(1,2) show ?thesis
  proof (cases rule: push_cases)
    case admitted
    then show ?thesis using assms(3) by (simp add: terminal_def)
  next
    case (shed r evicted s2)
    then show ?thesis using assms(3) evict_background_spec(4)[OF assms(1) shed(5)]
      by (auto simp: terminal_def list_ex_iff)
  next
    case (wasted r evicted s2 r2)
    note ev = evict_background_spec[OF assms(1) wasted(5)]
    have "total_queued s2 < MAX_TOTAL_FAIR_QUEUE" using ev(2,3) wasted(4) assms(1)
      by (auto simp: fq_inv_def fq_core_def fq_consts)
    then have "length (fq_lane s2 (fq_key (eid, event, ClientLocal))) \<ge> 100"
      using try_push_refused[OF wasted(6)] by (simp add: fq_consts)
    then show ?thesis using ev(5)[of "fq_key (eid, event, ClientLocal)"] by (simp add: trans_le_add2)
  next
    case (refused r)
    then show ?thesis using try_push_refused[OF refused(1)] assms(1)
      by (auto simp: fq_inv_def fq_core_def fq_consts lower_queued_def background_queued_def)
  qed
qed

theorem client_push_refused_only_when_witness:
  "case push_with_background_eviction 7 (GetQuery 0 False) ClientLocal (full_queue 1 0 0) of (refused, s') \<Rightarrow>
    terminal refused \<and>
    100 \<le> length (fq_lane (full_queue 1 0 0) (fq_key (7, GetQuery 0 False :: (nat, unit) ContractHandlerEvent, ClientLocal)))"
proof -
  let ?s = "full_queue 1 0 0"
  obtain refused s' where p: "push_with_background_eviction 7 (GetQuery 0 False) ClientLocal ?s = (refused, s')"
    by (cases "push_with_background_eviction 7 (GetQuery 0 False) ClientLocal ?s")
  have t: "terminal refused" using p
    by (auto simp: push_with_background_eviction_def try_push_def len_for_def full_queue_def full_tier_def
        fq_consts terminal_def less_Priority_def)
  have "queued (tiers ?s ClientLocal) = 100" by (simp add: full_queue_def full_tier_def)
  then show ?thesis
    using client_push_refused_only_when[OF full_queue_inv p t] p t by simp
qed

text \<open>
  Shedding makes room for a relayed event only below the hard cap. When the queue is full and at
  least 256 background events are queued, pushing a relayed event sheds 256 of them and is still
  refused, because the 4744 events left are exactly the soft cap for relayed work.
\<close>

theorem relay_push_sheds_in_vain:
  assumes "fq_inv s" "total_queued s = MAX_TOTAL_FAIR_QUEUE" "background_queued s \<ge> CLIENT_LOCAL_RESERVE"
    and push: "push_with_background_eviction eid event NetworkRelay s = (refused, s')"
  shows "terminal refused \<and> length (shed_items refused) = 256 \<and> total_queued s' = 4744"
proof -
  have first: "try_push eid event NetworkRelay s \<noteq> (None, u)" for u
    unfolding try_push_admitted using assms(2) by simp
  from assms(1) push show ?thesis
  proof (cases rule: push_cases)
    case (shed r evicted s2)
    note ev = evict_background_spec[OF assms(1) shed(5)]
    show ?thesis using shed(6) ev(2,3) assms(2,3) unfolding try_push_admitted by (simp add: fq_consts)
  next
    case (wasted r evicted s2 r2)
    note ev = evict_background_spec[OF assms(1) wasted(5)]
    have "filter (\<lambda>r. rej_reason r = Evicted) evicted = evicted" using ev(4) by (auto intro: filter_True)
    then show ?thesis using ev(2,3) assms(2,3) wasted(7,8) refused_not_evicted[OF wasted(6)]
      by (simp add: terminal_def shed_items_def fq_consts)
  next
    case (refused r)
    then show ?thesis using try_push_refused[OF refused(1)] assms(2,3) by (auto simp: fq_consts try_push_def)
  qed (use first in blast)
qed

theorem relay_push_sheds_in_vain_witness:
  "case push_with_background_eviction 7 (GetQuery 0 False) NetworkRelay (full_queue 10 0 40) of (refused, s') \<Rightarrow>
    terminal refused \<and> length (shed_items refused) = 256 \<and> total_queued s' = 4744"
proof -
  let ?s = "full_queue 10 0 40"
  obtain refused s' where p: "push_with_background_eviction 7 (GetQuery 0 False) NetworkRelay ?s = (refused, s')"
    by (cases "push_with_background_eviction 7 (GetQuery 0 False) NetworkRelay ?s")
  have "total_queued ?s = MAX_TOTAL_FAIR_QUEUE" "background_queued ?s \<ge> CLIENT_LOCAL_RESERVE"
    by (simp_all add: full_queue_def full_tier_def background_queued_def fq_consts)
  then show ?thesis using relay_push_sheds_in_vain[OF full_queue_inv _ _ p] p by simp
qed

lemma evict_loop_other: "p \<noteq> Background \<Longrightarrow> tiers (snd (evict_loop n s)) p = tiers s p"
  by (induction n s rule: evict_loop.induct) (auto split: prod.splits option.splits)

lemma push_relay_order:
  assumes "fq_inv s" "push_with_background_eviction eid event p s = (refused, s')"
  shows "client_streak s' = client_streak s \<and>
    (\<exists>more. round_robin (tiers s' NetworkRelay) = round_robin (tiers s NetworkRelay) @ more)"
proof -
  have evict: "tiers s2 NetworkRelay = tiers s NetworkRelay" "client_streak s2 = client_streak s"
    if ev: "evict_background n s = (evicted, s2)" for n evicted s2
  proof -
    obtain s1 where l: "evict_loop n s = (evicted, s1)" "tiers s2 = tiers s1" "client_streak s2 = client_streak s1"
      using ev by (auto simp: evict_background_def split: prod.splits)
    then show "tiers s2 NetworkRelay = tiers s NetworkRelay" "client_streak s2 = client_streak s"
      using evict_loop_other[of NetworkRelay n s] evict_loop_spec[OF _ l(1)] assms(1) by (auto simp: fq_inv_def)
  qed
  have admit: "client_streak (admit item u) = client_streak u \<and>
      (\<exists>more. round_robin (tiers (admit item u) NetworkRelay) = round_robin (tiers u NetworkRelay) @ more)" for item and u :: "('a, 'b) FairEventQueue"
    by (auto simp: admit_def tier_push_rr)
  from assms show ?thesis
  proof (cases rule: push_cases)
    case (shed r evicted s2)
    then show ?thesis using evict[OF shed(5)] admit[of "(eid, event, p)" s2] by (auto simp: try_push_admitted)
  next
    case (wasted r evicted s2 r2)
    then show ?thesis using evict[OF wasted(5)] by simp
  qed (use admit in \<open>auto simp: try_push_admitted\<close>)
qed

definition fq_pops :: "('cid, 'd) FqOp list \<Rightarrow> nat" where
  "fq_pops es = length (filter (\<lambda>e. e = FqPop) es)"

text \<open>One pop while relayed work waits: either it serves a client and the streak grows, or it serves the
  front of the relay round robin.\<close>

lemma pop_with_relay_waiting:
  assumes "fq_inv s" "round_robin (tiers s NetworkRelay) = k # rest" "fq_step FqPop s = (i, out, s')"
  shows "round_robin (tiers s' NetworkRelay) = k # rest \<and> client_streak s' = client_streak s + 1 \<or>
    (\<exists>item more. out = [item] \<and> fq_key item = (NetworkRelay, k) \<and> round_robin (tiers s' NetworkRelay) = rest @ more)"
proof -
  have t: "tier_inv (tiers s NetworkRelay)" using assms(1) by (simp add: fq_inv_def fq_core_def)
  have q: "queued (tiers s NetworkRelay) > 0" using queued_pos_iff[OF t] assms(2) by simp
  then have "total_queued s > 0" using assms(1) by (simp add: fq_inv_def fq_core_def lower_queued_def)
  then obtain p item where s: "fq_pop s = (Some item, s')" "served s p item s'" "p \<noteq> Background" "out = [item]"
    "client_streak s' = (if p = ClientLocal \<and> lower_queued s > 0 then client_streak s + 1 else 0)"
    using fq_pop_spec[OF assms(1)] q assms(3) by auto
  show ?thesis
  proof (cases p)
    case ClientLocal
    then show ?thesis using s q assms(2) by (auto simp: served_def lower_queued_def)
  next
    case NetworkRelay
    then have pop: "tier_pop (tiers s NetworkRelay) = (Some item, tiers s' NetworkRelay)" "snd (snd item) = NetworkRelay"
      using s(2) by (auto simp: served_def)
    obtain item' items t' where f: "tier_pop (tiers s NetworkRelay) = (Some item', t')"
      "tier_lane (tiers s NetworkRelay) k = item' # items" "route item' = k"
      "tier_lane t' = (tier_lane (tiers s NetworkRelay))(k := items)"
      "round_robin t' = (if items = [] then rest else rest @ [k])"
      by (rule tier_pop_front[OF t assms(2)])
    then show ?thesis using pop s(4) by (auto simp: fq_key_def)
  qed (use s(3) in auto)
qed

lemma relay_turn:
  "fq_inv s \<Longrightarrow> k \<in> set (take n (round_robin (tiers s NetworkRelay))) \<Longrightarrow>
    17 * n \<le> fq_pops es + client_streak s \<Longrightarrow> q_run fq_step es s = (ins, outs, s') \<Longrightarrow>
    (NetworkRelay, k) \<in> fq_key ` set outs"
proof (induction es arbitrary: s n ins outs s')
  case Nil
  then have "17 * n \<le> 16" by (simp add: fq_pops_def fq_inv_def fq_consts)
  then show ?case using Nil.prems(2) by (cases n) auto
next
  case (Cons e es)
  obtain i out s1 where e: "fq_step e s = (i, out, s1)" by (cases "fq_step e s")
  obtain is' os' s2 where es: "q_run fq_step es s1 = (is', os', s2)" by (cases "q_run fq_step es s1")
  have outs: "outs = out @ os'" using Cons.prems(4) e es by auto
  have inv: "fq_inv s1" using fq.step_qinv[OF Cons.prems(1) e] .
  note IH = Cons.IH[OF inv _ _ es]
  show ?case
  proof (cases e)
    case (FqPush eid event p)
    then obtain refused where "push_with_background_eviction eid event p s = (refused, s1)"
      using e by (auto split: prod.splits)
    from push_relay_order[OF Cons.prems(1) this] show ?thesis
      using IH[of n] Cons.prems(2,3) FqPush outs by (auto simp: fq_pops_def)
  next
    case FqPop
    obtain k0 rest where rr: "round_robin (tiers s NetworkRelay) = k0 # rest"
      using Cons.prems(2) by (cases "round_robin (tiers s NetworkRelay)") auto
    have streak: "client_streak s \<le> 16" using Cons.prems(1) by (simp add: fq_inv_def fq_consts)
    from pop_with_relay_waiting[OF Cons.prems(1) rr e[unfolded FqPop]] show ?thesis
    proof (elim disjE exE conjE)
      assume "round_robin (tiers s1 NetworkRelay) = k0 # rest" "client_streak s1 = client_streak s + 1"
      then show ?thesis using IH[of n] Cons.prems(2,3) FqPop outs rr by (auto simp: fq_pops_def)
    next
      fix item more
      assume out: "out = [item]" "fq_key item = (NetworkRelay, k0)" "round_robin (tiers s1 NetworkRelay) = rest @ more"
      show ?thesis
      proof (cases "k = k0")
        case False
        then have "k \<in> set (take (n - 1) (round_robin (tiers s1 NetworkRelay)))" "n \<noteq> 0"
          using Cons.prems(2) rr out(3) by (cases n; auto)+
        moreover have "17 * (n - 1) \<le> fq_pops es + client_streak s1"
          using Cons.prems(3) streak FqPop \<open>n \<noteq> 0\<close> by (simp add: fq_pops_def)
        ultimately show ?thesis using IH[of "n - 1"] outs by auto
      qed (use out outs in auto)
    qed
  qed
qed

text \<open>
  C13: relayed work is not starved. A contract whose relayed events wait behind \<open>n\<close> other contracts in
  the round robin has one of them served within 17 (n + 1) pops, whatever is pushed in between and
  however many client events are queued.
\<close>

theorem relay_served_in_bounded_pops:
  assumes "fq_inv s" "n < length (round_robin (tiers s NetworkRelay))" "17 * (n + 1) \<le> fq_pops es"
    and run: "q_run fq_step es s = (ins, outs, s')"
  shows "\<exists>item \<in> set outs. fq_key item = (NetworkRelay, round_robin (tiers s NetworkRelay) ! n)"
proof -
  have "round_robin (tiers s NetworkRelay) ! n \<in> set (take (n + 1) (round_robin (tiers s NetworkRelay)))"
    using assms(2) by (auto simp: set_conv_nth intro!: exI[of _ n])
  from relay_turn[OF assms(1) this _ run] show ?thesis using assms(3) by force
qed

theorem relay_served_in_bounded_pops_witness:
  "case q_run fq_step (replicate 34 FqPop) (full_queue 40 2 0) of (ins, outs, s') \<Rightarrow>
    \<exists>item \<in> set outs. fq_key item = (NetworkRelay, Contract 1)"
proof -
  let ?s = "full_queue 40 2 0"
  have rr: "round_robin (tiers ?s NetworkRelay) = [Contract 0, Contract 1]"
    by (simp add: full_queue_def full_tier_def numeral_2_eq_2)
  obtain ins outs s' where run: "q_run fq_step (replicate 34 FqPop) ?s = (ins, outs, s')"
    by (cases "q_run fq_step (replicate 34 FqPop) ?s")
  show ?thesis
    using relay_served_in_bounded_pops[OF full_queue_inv _ _ run, of 1] run by (simp add: rr fq_pops_def)
qed

end
