(* ===== verification/Init_Tracker.thy ===== *)
theory Init_Tracker
  imports Keyed_Fifo
begin

text \<open>
  The tracker of contract initialisations, \<open>contract/executor/init_tracker.rs\<close>: updates that arrive
  while a contract is being stored are queued and handed back when its initialisation completes, or
  dropped when it fails or goes stale. Contract keys and updates are opaque types of the standard
  library crate, here type parameters; time is passed in, as in the code.
\<close>

section \<open>Data\<close>

definition STALE_INIT_THRESHOLD :: duration where
  "STALE_INIT_THRESHOLD = from_secs 30"

definition MAX_QUEUED_OPS_PER_CONTRACT :: nat where
  "MAX_QUEUED_OPS_PER_CONTRACT = 100"

definition MAX_CONCURRENT_INITIALIZATIONS :: nat where
  "MAX_CONCURRENT_INITIALIZATIONS = 50"

datatype InitTrackerError = TooManyConcurrentInits nat

datatype InitCheckResult = NotInitializing | Queued nat | QueueFull | PutDuringInit

text \<open>\<open>update\<close> stands for the update together with its related contracts.\<close>

record 'u QueuedOperation =
  op_update :: 'u
  queued_at_nanos :: nat

record 'u InitCompletionInfo =
  info_queued_ops :: "'u QueuedOperation list"
  init_duration :: duration

record 'k StaleInitInfo =
  stale_key :: 'k
  stale_age :: duration
  dropped_ops :: nat

record 'u InitState =
  queued_ops :: "'u QueuedOperation list"
  started_at_nanos :: nat

type_synonym ('k, 'u) ContractInitTracker = "('k, 'u InitState) hash_map"

section \<open>Operations\<close>

definition it_new :: "('k, 'u) ContractInitTracker" where
  "it_new = []"

definition check_and_maybe_queue :: "'k \<Rightarrow> bool \<Rightarrow> 'u \<Rightarrow> nat \<Rightarrow> ('k, 'u) ContractInitTracker \<Rightarrow>
    InitCheckResult \<times> ('k, 'u) ContractInitTracker" where
  "check_and_maybe_queue key has_code update now_nanos s =
    (case map_of s key of
       None \<Rightarrow> (NotInitializing, s)
     | Some st \<Rightarrow>
         if has_code then (PutDuringInit, s)
         else if length (queued_ops st) \<ge> MAX_QUEUED_OPS_PER_CONTRACT then (QueueFull, s)
         else let ops = queued_ops st @ [\<lparr>op_update = update, queued_at_nanos = now_nanos\<rparr>]
              in (Queued (length ops), AList.update key (st\<lparr>queued_ops := ops\<rparr>) s))"

definition is_initializing :: "'k \<Rightarrow> ('k, 'u) ContractInitTracker \<Rightarrow> bool" where
  "is_initializing key s = contains_key s key"

definition start_initialization :: "'k \<Rightarrow> nat \<Rightarrow> ('k, 'u) ContractInitTracker \<Rightarrow>
    (InitTrackerError + unit) \<times> ('k, 'u) ContractInitTracker" where
  "start_initialization key now_nanos s =
    (if length s \<ge> MAX_CONCURRENT_INITIALIZATIONS then
       (Inl (TooManyConcurrentInits MAX_CONCURRENT_INITIALIZATIONS), s)
     else (Inr (), AList.update key \<lparr>queued_ops = [], started_at_nanos = now_nanos\<rparr> s))"

definition complete_initialization :: "'k \<Rightarrow> nat \<Rightarrow> ('k, 'u) ContractInitTracker \<Rightarrow>
    'u InitCompletionInfo option \<times> ('k, 'u) ContractInitTracker" where
  "complete_initialization key now_nanos s =
    (map_option (\<lambda>st. \<lparr>info_queued_ops = queued_ops st, init_duration = now_nanos - started_at_nanos st\<rparr>)
       (map_of s key),
     AList.delete key s)"

definition fail_initialization :: "'k \<Rightarrow> ('k, 'u) ContractInitTracker \<Rightarrow> nat option \<times> ('k, 'u) ContractInitTracker" where
  "fail_initialization key s = (map_option (\<lambda>st. length (queued_ops st)) (map_of s key), AList.delete key s)"

definition queued_count :: "'k \<Rightarrow> ('k, 'u) ContractInitTracker \<Rightarrow> nat" where
  "queued_count key s = (case map_of s key of Some st \<Rightarrow> length (queued_ops st) | None \<Rightarrow> 0)"

definition is_stale :: "duration \<Rightarrow> nat \<Rightarrow> 'u InitState \<Rightarrow> bool" where
  "is_stale max_age now_nanos st \<longleftrightarrow> now_nanos - started_at_nanos st > max_age mod 2 ^ 64"

definition cleanup_stale_initializations :: "duration \<Rightarrow> nat \<Rightarrow> ('k, 'u) ContractInitTracker \<Rightarrow>
    'k StaleInitInfo list \<times> ('k, 'u) ContractInitTracker" where
  "cleanup_stale_initializations max_age now_nanos s =
    (let stale = filter (\<lambda>(key, st). is_stale max_age now_nanos st) s
     in (map (\<lambda>(key, st). \<lparr>stale_key = key, stale_age = now_nanos - started_at_nanos st,
              dropped_ops = length (queued_ops st)\<rparr>) stale,
         fold (\<lambda>(key, st). AList.delete key) stale s))"

definition initializing_count :: "('k, 'u) ContractInitTracker \<Rightarrow> nat" where
  "initializing_count s = length s"

definition queue_wait_duration :: "'u QueuedOperation \<Rightarrow> nat \<Rightarrow> duration" where
  "queue_wait_duration op now_nanos = now_nanos - queued_at_nanos op"

section \<open>The lanes of the tracker\<close>

definition it_lane :: "('k, 'u) ContractInitTracker \<Rightarrow> 'k \<Rightarrow> ('k \<times> 'u QueuedOperation) list" where
  "it_lane s k = (case map_of s k of Some st \<Rightarrow> map (Pair k) (queued_ops st) | None \<Rightarrow> [])"

definition it_inv :: "('k, 'u) ContractInitTracker \<Rightarrow> bool" where
  "it_inv s \<longleftrightarrow> map_ok s \<and> length s \<le> MAX_CONCURRENT_INITIALIZATIONS \<and>
    (\<forall>k st. map_of s k = Some st \<longrightarrow> length (queued_ops st) \<le> MAX_QUEUED_OPS_PER_CONTRACT)"

datatype ('k, 'u) ItOp =
    ItCheck 'k bool 'u nat
  | ItStart 'k nat
  | ItComplete 'k nat
  | ItFail 'k
  | ItCleanup duration nat

text \<open>
  What each operation puts in and takes out: an update is put in when the result is \<open>Queued\<close>; completion
  takes out what it returns; failure, staleness and a restart take out (drop) what was queued.
\<close>

fun it_step :: "('k, 'u) ItOp \<Rightarrow> ('k, 'u) ContractInitTracker \<Rightarrow>
    ('k \<times> 'u QueuedOperation) list \<times> ('k \<times> 'u QueuedOperation) list \<times> ('k, 'u) ContractInitTracker" where
  "it_step (ItCheck key has_code update now) s =
    (case check_and_maybe_queue key has_code update now s of
       (Queued n, s') \<Rightarrow> ([(key, \<lparr>op_update = update, queued_at_nanos = now\<rparr>)], [], s')
     | (_, s') \<Rightarrow> ([], [], s'))"
| "it_step (ItStart key now) s =
    (case start_initialization key now s of
       (Inr _, s') \<Rightarrow> ([], it_lane s key, s') | (Inl _, s') \<Rightarrow> ([], [], s'))"
| "it_step (ItComplete key now) s =
    (case complete_initialization key now s of
       (Some info, s') \<Rightarrow> ([], map (Pair key) (info_queued_ops info), s') | (None, s') \<Rightarrow> ([], [], s'))"
| "it_step (ItFail key) s = ([], it_lane s key, snd (fail_initialization key s))"
| "it_step (ItCleanup max_age now) s =
    ([], concat (map (\<lambda>(key, st). map (Pair key) (queued_ops st)) (filter (\<lambda>(key, st). is_stale max_age now st) s)),
     snd (cleanup_stale_initializations max_age now s))"

lemma filter_fst_Pair: "filter (\<lambda>x. fst x = k) (map (Pair key) xs) = (if key = k then map (Pair key) xs else [])"
  by (induction xs) auto

lemma filter_lane: "filter (\<lambda>x. fst x = k) (it_lane s key) = (if key = k then it_lane s k else [])"
  by (auto simp: it_lane_def filter_fst_Pair split: option.splits)

lemma map_of_fold_delete: "map_of (fold (\<lambda>(key, st). AList.delete key) xs s) k = (if k \<in> keys xs then None else map_of s k)"
  by (induction xs arbitrary: s) auto

lemma map_ok_fold_delete: "map_ok s \<Longrightarrow> map_ok (fold (\<lambda>(key, st). AList.delete key) xs s)"
  by (induction xs arbitrary: s) auto

lemma length_fold_delete: "length (fold (\<lambda>(key, st). AList.delete key) xs s) \<le> length s"
  by (induction xs arbitrary: s) (auto intro: order_trans[OF _ length_delete_le])

lemma cleanup_map_of:
  assumes "map_ok s"
  shows "map_of (snd (cleanup_stale_initializations max_age now s)) k =
    (case map_of s k of Some st \<Rightarrow> if is_stale max_age now st then None else Some st | None \<Rightarrow> None)"
proof -
  have "k \<in> keys (filter (\<lambda>(key, st). is_stale max_age now st) s) \<longleftrightarrow>
      (\<exists>st. map_of s k = Some st \<and> is_stale max_age now st)"
    using map_of_filter[OF assms, of "\<lambda>_. is_stale max_age now" k]
      map_of_keys[of "filter (\<lambda>(key, st). is_stale max_age now st) s" k]
    by (cases "map_of s k") (auto split: if_splits)
  then show ?thesis
    by (auto simp: cleanup_stale_initializations_def Let_def map_of_fold_delete split: option.splits)
qed

lemma stale_lane: "map_ok s \<Longrightarrow>
    filter (\<lambda>x. fst x = k) (concat (map (\<lambda>(key, st). map (Pair key) (queued_ops st))
      (filter (\<lambda>(key, st). is_stale max_age now st) s))) =
    (case map_of s k of Some st \<Rightarrow> if is_stale max_age now st then map (Pair k) (queued_ops st) else [] | None \<Rightarrow> [])"
proof (induction s)
  case (Cons p s)
  obtain key st where p: "p = (key, st)" by (cases p)
  have "map_of s key = None" using Cons.prems p by (simp add: map_of_keys)
  then show ?case using Cons by (auto simp: p filter_fst_Pair)
qed simp

lemma it_step_inv:
  assumes "it_inv s" "it_step e s = (ins, outs, s')"
  shows "it_inv s'"
proof (cases e)
  case (ItCheck key has_code update now)
  then show ?thesis using assms
    by (auto simp: check_and_maybe_queue_def it_inv_def Let_def length_update map_of_keys[symmetric]
        split: option.splits if_splits)
next
  case (ItStart key now)
  then show ?thesis using assms
    by (auto simp: start_initialization_def it_inv_def length_update split: if_splits)
next
  case (ItComplete key now)
  then show ?thesis using assms
    by (auto simp: complete_initialization_def it_inv_def split: option.splits if_splits intro: order_trans[OF length_delete_le])
next
  case (ItFail key)
  then show ?thesis using assms
    by (auto simp: fail_initialization_def it_inv_def split: if_splits intro: order_trans[OF length_delete_le])
next
  case (ItCleanup max_age now)
  have "map_ok s" using assms(1) by (simp add: it_inv_def)
  then show ?thesis using assms ItCleanup cleanup_map_of[of s max_age now] map_ok_fold_delete[of s]
      length_fold_delete[of "filter (\<lambda>(key, st). is_stale max_age now st) s" s]
    by (auto simp: it_inv_def split: option.splits if_splits)
      (auto simp: cleanup_stale_initializations_def Let_def)
qed

lemma it_step_lane:
  assumes "it_inv s" "it_step e s = (ins, outs, s')"
  shows "it_lane s k @ filter (\<lambda>x. fst x = k) ins = filter (\<lambda>x. fst x = k) outs @ it_lane s' k"
proof (cases e)
  case (ItCheck key has_code update now)
  then show ?thesis using assms
    by (auto simp: check_and_maybe_queue_def it_lane_def Let_def split: option.splits if_splits)
next
  case (ItStart key now)
  then show ?thesis using assms
    by (auto simp: start_initialization_def filter_lane split: if_splits) (auto simp: it_lane_def)
next
  case (ItComplete key now)
  then show ?thesis using assms
    by (auto simp: complete_initialization_def it_lane_def filter_fst_Pair split: option.splits if_splits)
next
  case (ItFail key)
  then show ?thesis using assms
    by (auto simp: fail_initialization_def filter_lane split: if_splits) (auto simp: it_lane_def)
next
  case (ItCleanup max_age now)
  have "map_ok s" using assms(1) by (simp add: it_inv_def)
  then show ?thesis using assms ItCleanup cleanup_map_of[of s max_age now k] stale_lane[of s k max_age now]
    by (auto simp: it_lane_def split: option.splits if_splits)
qed

interpretation it: keyed_fifo it_step it_inv it_lane fst
  by unfold_locales (fact it_step_inv, fact it_step_lane)

text \<open>
  Whatever starts, completes, fails or goes stale, the updates queued for a contract come back in
  the order of their arrival, each exactly once: what was accepted for a contract is what was handed back
  or dropped for it, followed by what is still queued; at most 50 contracts are initialising at once, and
  no queue exceeds 100 updates.
\<close>

theorem init_tracker_order:
  "case q_run it_step es (it_new :: ('k, 'u) ContractInitTracker) of (ins, outs, s) \<Rightarrow>
    filter (\<lambda>x. fst x = k) ins = filter (\<lambda>x. fst x = k) outs @ it_lane s k \<and>
    initializing_count s \<le> 50 \<and> queued_count k s \<le> 100"
proof -
  have "it_inv (it_new :: ('k, 'u) ContractInitTracker)" "it_lane (it_new :: ('k, 'u) ContractInitTracker) k = []"
    by (simp_all add: it_inv_def it_new_def it_lane_def)
  then show ?thesis
    using it.run_lane[of "it_new :: ('k, 'u) ContractInitTracker" es, where k = k]
    by (cases "q_run it_step es (it_new :: ('k, 'u) ContractInitTracker)")
      (auto simp: it_inv_def initializing_count_def queued_count_def MAX_CONCURRENT_INITIALIZATIONS_def
        MAX_QUEUED_OPS_PER_CONTRACT_def split: option.splits)
qed

end
