(* ===== verification/Slot_Reservation.thy ===== *)
theory Slot_Reservation
  imports Prelude
begin

text \<open>
  The way the ban list and the rate limiters bound their concurrent maps: a counter is incremented
  before a new key is inserted (\<open>fetch_add\<close>), the increment is taken back when the counter was already
  at the cap, and whatever removes keys subtracts their number afterwards. The state below is what
  threads share, with the operations that are between two of their atomic steps; the interleavings are
  the paths of \<open>slot_step\<close>. The locale \<open>slot_client\<close> is the contract of a component built on it.
\<close>

text \<open>\<open>reserved\<close>: keys with a slot reserved and not yet inserted. \<open>refused\<close>: increments to be taken
  back. \<open>unsettled\<close>: keys removed and not yet subtracted.\<close>

record 'k slots =
  present :: "'k set"
  size_ctr :: nat
  reserved :: "'k set"
  refused :: nat
  unsettled :: nat

text \<open>The shard guard of the map is held from the reservation of a key to its insertion, so no other
  thread inserts that key in between.\<close>

inductive slot_step :: "nat \<Rightarrow> 'k slots \<Rightarrow> 'k slots \<Rightarrow> bool" for cap where
  reserve: "k \<notin> present s \<Longrightarrow> k \<notin> reserved s \<Longrightarrow> size_ctr s < cap \<Longrightarrow>
    slot_step cap s (s\<lparr>size_ctr := size_ctr s + 1, reserved := insert k (reserved s)\<rparr>)"
| refuse: "k \<notin> present s \<Longrightarrow> k \<notin> reserved s \<Longrightarrow> cap \<le> size_ctr s \<Longrightarrow>
    slot_step cap s (s\<lparr>size_ctr := size_ctr s + 1, refused := refused s + 1\<rparr>)"
| roll_back: "refused s > 0 \<Longrightarrow>
    slot_step cap s (s\<lparr>size_ctr := size_ctr s - 1, refused := refused s - 1\<rparr>)"
| insert_key: "k \<in> reserved s \<Longrightarrow>
    slot_step cap s (s\<lparr>present := insert k (present s), reserved := reserved s - {k}\<rparr>)"
| remove_keys: "K \<subseteq> present s \<Longrightarrow>
    slot_step cap s (s\<lparr>present := present s - K, unsettled := unsettled s + card K\<rparr>)"
| settle: "n \<le> unsettled s \<Longrightarrow>
    slot_step cap s (s\<lparr>size_ctr := size_ctr s - n, unsettled := unsettled s - n\<rparr>)"

abbreviation slot_path :: "nat \<Rightarrow> 'k slots \<Rightarrow> 'k slots \<Rightarrow> bool" where
  "slot_path cap \<equiv> (slot_step cap)\<^sup>*\<^sup>*"

text \<open>No operation under way.\<close>

definition quiet :: "'k set \<Rightarrow> nat \<Rightarrow> 'k slots" where
  "quiet K n = \<lparr>present = K, size_ctr = n, reserved = {}, refused = 0, unsettled = 0\<rparr>"

definition slot_inv :: "nat \<Rightarrow> 'k slots \<Rightarrow> bool" where
  "slot_inv cap s \<longleftrightarrow> finite (present s) \<and> finite (reserved s) \<and> present s \<inter> reserved s = {} \<and>
    size_ctr s = card (present s) + card (reserved s) + refused s + unsettled s \<and>
    card (present s) + card (reserved s) \<le> cap"

lemma slot_step_inv: "slot_step cap s s' \<Longrightarrow> slot_inv cap s \<Longrightarrow> slot_inv cap s'"
proof (induction rule: slot_step.induct)
  case (insert_key k s)
  then have "k \<notin> present s" "card (reserved s) > 0" by (auto simp: slot_inv_def card_gt_0_iff)
  then show ?case using insert_key by (auto simp: slot_inv_def card_insert_if card_Diff_singleton)
next
  case (remove_keys K s)
  then have "card (present s - K) + card K = card (present s)" "finite K"
    by (auto simp: slot_inv_def card_Diff_subset finite_subset card_mono)
  then show ?case using remove_keys by (auto simp: slot_inv_def)
qed (auto simp: slot_inv_def card_insert_if)

lemma slot_path_inv: "slot_path cap s s' \<Longrightarrow> slot_inv cap s \<Longrightarrow> slot_inv cap s'"
  by (induction rule: rtranclp_induct) (auto intro: slot_step_inv)

lemma slot_inv_quiet: "slot_inv cap (quiet K n) \<longleftrightarrow> finite K \<and> n = card K \<and> card K \<le> cap"
  by (auto simp: slot_inv_def quiet_def)

section \<open>Operations that run alone\<close>

lemma path_insert: "k \<notin> K \<Longrightarrow> n < cap \<Longrightarrow> slot_path cap (quiet K n) (quiet (insert k K) (n + 1))"
  using reserve[of k "quiet K n" cap] insert_key[of k "(quiet K n)\<lparr>size_ctr := n + 1, reserved := {k}\<rparr>" cap]
  by (simp add: quiet_def)

lemma path_remove: "R \<subseteq> K \<Longrightarrow> slot_path cap (quiet K n) (quiet (K - R) (n - card R))"
  using remove_keys[of R "quiet K n" cap]
    settle[of "card R" "(quiet K n)\<lparr>present := K - R, unsettled := card R\<rparr>" cap]
  by (simp add: quiet_def)

text \<open>\<open>retain\<close> on the map, followed by the subtraction of the number of entries dropped.\<close>

lemma path_filter:
  assumes ok: "map_ok m"
  shows "slot_path cap (quiet (keys m) n)
    (quiet (keys (filter (\<lambda>(k, v). P k v) m)) (n - length (filter (\<lambda>(k, v). \<not> P k v) m)))"
proof -
  let ?gone = "filter (\<lambda>(k, v). \<not> P k v) m"
  let ?kept = "filter (\<lambda>(k, v). P k v) m"
  have "k \<in> keys ?kept \<longleftrightarrow> k \<in> keys m \<and> k \<notin> keys ?gone" for k
    using map_of_filter[OF ok, of P k] map_of_filter[OF ok, of "\<lambda>k v. \<not> P k v" k]
      map_of_keys[of ?kept k] map_of_keys[of ?gone k] map_of_keys[of m k]
    by (auto split: option.splits if_splits)
  then have "keys ?kept = keys m - keys ?gone" by blast
  moreover have "keys ?gone \<subseteq> keys m" by (auto simp: keys_def)
  moreover have "length ?gone = card (keys ?gone)" using ok by (intro length_map_ok) simp
  ultimately show ?thesis using path_remove[of "keys ?gone" "keys m" cap n] by simp
qed

locale slot_client =
  fixes step :: "'e \<Rightarrow> 's \<Rightarrow> 's"
    and ks :: "'s \<Rightarrow> 'k set"
    and sz :: "'s \<Rightarrow> nat"
    and cap_of :: "'s \<Rightarrow> nat"
    and ok :: "'s \<Rightarrow> bool"
  assumes step_ok: "ok s \<Longrightarrow> ok (step e s)"
    and step_cap: "ok s \<Longrightarrow> cap_of (step e s) = cap_of s"
    and step_path: "ok s \<Longrightarrow> sz s = card (ks s) \<Longrightarrow>
      slot_path (cap_of s) (quiet (ks s) (sz s)) (quiet (ks (step e s)) (sz (step e s)))"
begin

lemma run_capped: "ok s \<Longrightarrow> finite (ks s) \<Longrightarrow> sz s = card (ks s) \<Longrightarrow> sz s \<le> cap_of s \<Longrightarrow>
    ok (fold step es s) \<and> sz (fold step es s) = card (ks (fold step es s)) \<and>
    sz (fold step es s) \<le> cap_of s \<and> cap_of (fold step es s) = cap_of s"
proof (induction es arbitrary: s)
  case (Cons e es)
  have "slot_inv (cap_of s) (quiet (ks (step e s)) (sz (step e s)))"
    using slot_path_inv[OF step_path[OF Cons.prems(1,3)]] Cons.prems by (simp add: slot_inv_quiet)
  then show ?case using Cons.IH[of "step e s"] step_ok[OF Cons.prems(1)] step_cap[OF Cons.prems(1), of e]
    by (simp add: slot_inv_quiet)
qed simp

end

text \<open>
  However the atomic steps of concurrent insertions, refusals and removals interleave, the map never
  holds more keys than its cap, the counter never underflows, and once no operation is under way the
  counter is exactly the number of keys.
\<close>

theorem cap_never_overshot:
  assumes "slot_path cap (quiet {} 0) s"
  shows "card (present s) \<le> cap \<and> refused s + unsettled s \<le> size_ctr s \<and>
    (reserved s = {} \<and> refused s = 0 \<and> unsettled s = 0 \<longrightarrow> size_ctr s = card (present s))"
  using slot_path_inv[OF assms] by (simp add: slot_inv_quiet) (simp add: slot_inv_def)

theorem cap_never_overshot_witness:
  "let s = (quiet {1 :: nat} 1)\<lparr>size_ctr := 2, refused := 1\<rparr> in
    slot_path 1 (quiet {} 0) s \<and> card (present s) \<le> 1 \<and> refused s + unsettled s \<le> size_ctr s"
proof -
  let ?s = "(quiet {1 :: nat} 1)\<lparr>size_ctr := 2, refused := 1\<rparr>"
  have "slot_path 1 (quiet {} 0) (quiet {1 :: nat} 1)" using path_insert[of "1 :: nat" "{}" 0 1] by simp
  moreover have "slot_step 1 (quiet {1 :: nat} 1) ?s" using refuse[of 2 "quiet {1 :: nat} 1" 1]
    by (simp add: quiet_def numeral_2_eq_2)
  ultimately have "slot_path 1 (quiet {} 0) ?s" by (rule rtranclp.rtrancl_into_rtrancl)
  from cap_never_overshot[OF this] this show ?thesis by (simp add: Let_def)
qed

end
