(* ===== verification/Ban_List.thy ===== *)
theory Ban_List
  imports Slot_Reservation
begin

text \<open>
  The list of banned contracts, \<open>ring/contract_ban_list.rs\<close>. The order of the association list stands
  for the iteration order of the concurrent map, which decides the operator entry that is evicted.
\<close>

section \<open>Data\<close>

definition MAX_BANNED_CONTRACTS :: nat where
  "MAX_BANNED_CONTRACTS = 8192"

datatype BanReason = AutoMad | Operator

record BanEntry =
  expires_at :: instant
  ban_reason :: BanReason

datatype BanOutcome = Banned | Updated | CapacityExceeded

record 'c ContractBanList =
  ban_entries :: "('c, BanEntry) hash_map"
  ban_size :: nat
  max_banned :: nat
  ban_capacity_rejected_total :: nat

record 'c BanListEntry =
  listed_contract :: 'c
  listed_reason :: BanReason
  listed_remaining :: duration

section \<open>Operations\<close>

definition bl_with_max :: "nat \<Rightarrow> 'c ContractBanList" where
  "bl_with_max cap = \<lparr>ban_entries = [], ban_size = 0, max_banned = cap, ban_capacity_rejected_total = 0\<rparr>"

definition bl_new :: "'c ContractBanList" where
  "bl_new = bl_with_max MAX_BANNED_CONTRACTS"

definition is_banned :: "instant \<Rightarrow> 'c \<Rightarrow> 'c ContractBanList \<Rightarrow> bool" where
  "is_banned now c s = (case map_of (ban_entries s) c of None \<Rightarrow> False | Some e \<Rightarrow> now < expires_at e)"

text \<open>\<open>retain\<close> that drops the first operator entry.\<close>

fun drop_first_operator :: "('c, BanEntry) hash_map \<Rightarrow> bool \<times> ('c, BanEntry) hash_map" where
  "drop_first_operator [] = (False, [])"
| "drop_first_operator ((c, e) # es) =
    (if ban_reason e = Operator then (True, es)
     else let (evicted, es') = drop_first_operator es in (evicted, (c, e) # es'))"

definition evict_one_operator :: "'c ContractBanList \<Rightarrow> bool \<times> 'c ContractBanList" where
  "evict_one_operator s =
    (let (evicted, es) = drop_first_operator (ban_entries s)
     in (evicted, s\<lparr>ban_entries := es, ban_size := (if evicted then ban_size s - 1 else ban_size s)\<rparr>))"

definition operator_count :: "'c ContractBanList \<Rightarrow> nat" where
  "operator_count s = length (filter (\<lambda>(c, e). ban_reason e = Operator) (ban_entries s))"

lemma drop_first_operator_count: "drop_first_operator es = (True, es') \<Longrightarrow>
    length (filter (\<lambda>(c, e). ban_reason e = Operator) es) = length (filter (\<lambda>(c, e). ban_reason e = Operator) es') + 1"
  by (induction es arbitrary: es') (auto split: if_splits prod.splits)

text \<open>\<open>ban\<close> is a loop: an automatic ban that finds the list full evicts an operator entry and tries
  again. It ends because the operator entries run out.\<close>

function ban :: "'c \<Rightarrow> instant \<Rightarrow> BanReason \<Rightarrow> 'c ContractBanList \<Rightarrow> BanOutcome \<times> 'c ContractBanList" where
  "ban contract expiry reason s =
    (case map_of (ban_entries s) contract of
       Some cur \<Rightarrow>
         (Updated, s\<lparr>ban_entries := AList.update contract
            \<lparr>expires_at = (if expiry > expires_at cur then expiry else expires_at cur),
             ban_reason = (if reason = AutoMad then AutoMad else ban_reason cur)\<rparr> (ban_entries s)\<rparr>)
     | None \<Rightarrow>
         if ban_size s < max_banned s then
           (Banned, s\<lparr>ban_entries := AList.update contract \<lparr>expires_at = expiry, ban_reason = reason\<rparr> (ban_entries s),
                     ban_size := ban_size s + 1\<rparr>)
         else if reason = AutoMad \<and> fst (evict_one_operator s) then
           ban contract expiry reason (snd (evict_one_operator s))
         else (CapacityExceeded,
               s\<lparr>ban_capacity_rejected_total := wrap_add64 (ban_capacity_rejected_total s) 1\<rparr>))"
  by pat_completeness auto

termination ban
proof (relation "measure (\<lambda>(_, _, _, s). operator_count s)", goal_cases)
  case (2 contract expiry reason s)
  then show ?case using drop_first_operator_count[of "ban_entries s"]
    by (auto simp: evict_one_operator_def operator_count_def split: prod.splits)
qed simp

declare ban.simps [simp del]

definition unban :: "'c \<Rightarrow> 'c ContractBanList \<Rightarrow> 'c ContractBanList" where
  "unban c s = (if contains_key (ban_entries s) c
     then s\<lparr>ban_entries := AList.delete c (ban_entries s), ban_size := ban_size s - 1\<rparr> else s)"

definition bl_cleanup :: "instant \<Rightarrow> 'c ContractBanList \<Rightarrow> 'c ContractBanList" where
  "bl_cleanup now s =
    (let removed = length (filter (\<lambda>(c, e). \<not> expires_at e > now) (ban_entries s));
         s' = s\<lparr>ban_entries := filter (\<lambda>(c, e). expires_at e > now) (ban_entries s)\<rparr>
     in if removed > 0 then s'\<lparr>ban_size := ban_size s - removed\<rparr> else s')"

definition bl_snapshot :: "instant \<Rightarrow> 'c ContractBanList \<Rightarrow> 'c BanListEntry list" where
  "bl_snapshot now s =
    map (\<lambda>(c, e). \<lparr>listed_contract = c, listed_reason = ban_reason e, listed_remaining = expires_at e - now\<rparr>)
      (filter (\<lambda>(c, e). now < expires_at e) (ban_entries s))"

section \<open>Steps\<close>

lemma drop_first_operator_None: "drop_first_operator es = (False, es') \<Longrightarrow>
    es' = es \<and> (\<forall>(c, e) \<in> set es. ban_reason e \<noteq> Operator)"
  by (induction es arbitrary: es') (auto split: if_splits prod.splits)

lemma drop_first_operator_Some: "map_ok es \<Longrightarrow> drop_first_operator es = (True, es') \<Longrightarrow>
    \<exists>k e. map_of es k = Some e \<and> ban_reason e = Operator \<and> es' = AList.delete k es"
proof (induction es arbitrary: es')
  case (Cons p es)
  obtain c e where p: "p = (c, e)" by (cases p)
  show ?case
  proof (cases "ban_reason e = Operator")
    case True
    then show ?thesis using Cons.prems p by (auto intro!: exI[of _ c])
  next
    case False
    then obtain es1 where d: "drop_first_operator es = (True, es1)" "es' = (c, e) # es1"
      using Cons.prems p by (auto split: prod.splits)
    obtain k e' where k: "map_of es k = Some e'" "ban_reason e' = Operator" "es1 = AList.delete k es"
      using Cons.IH[OF _ d(1)] Cons.prems(1) by auto
    then have "k \<noteq> c" using Cons.prems(1) p map_of_keys[of es c] by auto
    then show ?thesis using k d(2) p by auto
  qed
qed simp

text \<open>One round of the loop of \<open>ban\<close>: an eviction removes an operator entry and its slot.\<close>

lemma evict_cases:
  assumes "map_ok (ban_entries s)"
  obtains (none) "evict_one_operator s = (False, s)" "\<forall>(c, e) \<in> set (ban_entries s). ban_reason e = AutoMad"
  | (evicted) k e where "fst (evict_one_operator s)" "map_of (ban_entries s) k = Some e" "ban_reason e = Operator"
      "snd (evict_one_operator s) = s\<lparr>ban_entries := AList.delete k (ban_entries s), ban_size := ban_size s - 1\<rparr>"
proof (cases "drop_first_operator (ban_entries s)")
  case (Pair b es)
  show ?thesis
  proof (cases b)
    case True
    then show ?thesis using drop_first_operator_Some[OF assms] Pair that(2) by (auto simp: evict_one_operator_def)
  next
    case False
    have "es = ban_entries s \<and> (\<forall>(c, e) \<in> set (ban_entries s). ban_reason e \<noteq> Operator)"
      using drop_first_operator_None[of "ban_entries s" es] Pair False by simp
    moreover have "r \<noteq> Operator \<longleftrightarrow> r = AutoMad" for r by (cases r) simp_all
    ultimately show ?thesis using that(1) Pair False by (simp add: evict_one_operator_def)
  qed
qed

datatype 'c BanOp = OpBan 'c instant BanReason | OpUnban 'c | OpCleanup instant

fun bl_step :: "'c BanOp \<Rightarrow> 'c ContractBanList \<Rightarrow> 'c ContractBanList" where
  "bl_step (OpBan c e r) s = snd (ban c e r s)"
| "bl_step (OpUnban c) s = unban c s"
| "bl_step (OpCleanup now) s = bl_cleanup now s"

abbreviation bl_keys :: "'c ContractBanList \<Rightarrow> 'c set" where
  "bl_keys s \<equiv> keys (ban_entries s)"

abbreviation bl_ok :: "'c ContractBanList \<Rightarrow> bool" where
  "bl_ok s \<equiv> map_ok (ban_entries s)"

lemma ban_path: "bl_ok s \<Longrightarrow> bl_ok (snd (ban c e r s)) \<and> max_banned (snd (ban c e r s)) = max_banned s \<and>
    slot_path (max_banned s) (quiet (bl_keys s) (ban_size s)) (quiet (bl_keys (snd (ban c e r s))) (ban_size (snd (ban c e r s))))"
proof (induction c e r s rule: ban.induct)
  case (1 c e r s)
  show ?case
  proof (cases "map_of (ban_entries s) c")
    case (Some cur)
    then have "c \<in> bl_keys s" by (metis map_of_keys option.distinct(1))
    then show ?thesis using Some 1 by (simp add: ban.simps[of c e r s] insert_absorb)
  next
    case None
    then have c: "c \<notin> bl_keys s" by (simp add: map_of_keys)
    show ?thesis
    proof (cases "ban_size s < max_banned s")
      case True
      then show ?thesis using None c 1 path_insert[OF c True] by (simp add: ban.simps[of c e r s])
    next
      case False
      from 1(2) show ?thesis
      proof (cases rule: evict_cases)
        case (evicted k ent)
        let ?s = "s\<lparr>ban_entries := AList.delete k (ban_entries s), ban_size := ban_size s - 1\<rparr>"
        have "k \<in> bl_keys s" using evicted(2) by (metis map_of_keys option.distinct(1))
        then have "slot_path (max_banned s) (quiet (bl_keys s) (ban_size s)) (quiet (bl_keys ?s) (ban_size ?s))"
          using path_remove[of "{k}" "bl_keys s" "max_banned s" "ban_size s"] by simp
        moreover have "ban c e r s = (if r = AutoMad then ban c e r ?s
            else (CapacityExceeded, s\<lparr>ban_capacity_rejected_total := wrap_add64 (ban_capacity_rejected_total s) 1\<rparr>))"
          using None False evicted by (simp add: ban.simps[of c e r s])
        moreover have "r = AutoMad \<Longrightarrow> max_banned (snd (ban c e r ?s)) = max_banned s \<and> bl_ok (snd (ban c e r ?s)) \<and>
            slot_path (max_banned s) (quiet (bl_keys ?s) (ban_size ?s))
              (quiet (bl_keys (snd (ban c e r ?s))) (ban_size (snd (ban c e r ?s))))"
          using 1(1)[OF None False] 1(2) evicted by simp
        ultimately show ?thesis using 1(2) by (auto intro: rtranclp_trans)
      qed (use None False 1 in \<open>simp add: ban.simps[of c e r s]\<close>)
    qed
  qed
qed

lemma cleanup_path: "bl_ok s \<Longrightarrow>
    slot_path (max_banned s) (quiet (bl_keys s) (ban_size s)) (quiet (bl_keys (bl_cleanup now s)) (ban_size (bl_cleanup now s)))"
  using path_filter[of "ban_entries s" "max_banned s" "ban_size s" "\<lambda>_ e. expires_at e > now"]
  by (auto simp: bl_cleanup_def Let_def)

interpretation bl: slot_client bl_step bl_keys ban_size max_banned bl_ok
proof
  fix s :: "'c ContractBanList" and e
  show "bl_ok (bl_step e s)" if "bl_ok s"
    using that ban_path[OF that] by (cases e) (auto simp: unban_def bl_cleanup_def Let_def)
  show "max_banned (bl_step e s) = max_banned s" if "bl_ok s"
    using ban_path[OF that] by (cases e) (auto simp: unban_def bl_cleanup_def Let_def)
  show "slot_path (max_banned s) (quiet (bl_keys s) (ban_size s)) (quiet (bl_keys (bl_step e s)) (ban_size (bl_step e s)))"
    if "bl_ok s" "ban_size s = card (bl_keys s)"
  proof (cases e)
    case (OpUnban c)
    then show ?thesis using path_remove[of "{c}" "bl_keys s" "max_banned s" "ban_size s"]
      by (auto simp: unban_def contains_key_iff)
  qed (use ban_path[OF that(1)] cleanup_path[OF that(1)] in auto)
qed

section \<open>Properties\<close>

definition auto_until :: "'c \<Rightarrow> instant \<Rightarrow> 'c ContractBanList \<Rightarrow> bool" where
  "auto_until c t s \<longleftrightarrow> (\<exists>e. map_of (ban_entries s) c = Some e \<and> ban_reason e = AutoMad \<and> t \<le> expires_at e)"

lemma ban_keeps_auto: "bl_ok s \<Longrightarrow> auto_until c t s \<Longrightarrow> auto_until c t (snd (ban c' e r s))"
proof (induction c' e r s rule: ban.induct)
  case (1 c' e r s)
  show ?case
  proof (cases "map_of (ban_entries s) c'")
    case (Some cur)
    then show ?thesis using 1 by (auto simp: ban.simps[of c' e r s] auto_until_def)
  next
    case None
    from 1(2) show ?thesis
    proof (cases rule: evict_cases)
      case none
      then show ?thesis using None 1 by (auto simp: ban.simps[of c' e r s] auto_until_def)
    next
      case (evicted k ent)
      then have "k \<noteq> c" using 1(3) by (auto simp: auto_until_def)
      let ?s = "s\<lparr>ban_entries := AList.delete k (ban_entries s), ban_size := ban_size s - 1\<rparr>"
      have "r = AutoMad \<Longrightarrow> \<not> ban_size s < max_banned s \<Longrightarrow> auto_until c t (snd (ban c' e r ?s))"
        using 1(1)[OF None] 1(2,3) evicted \<open>k \<noteq> c\<close> by (auto simp: auto_until_def)
      then show ?thesis using None evicted 1(3)
        by (auto simp: ban.simps[of c' e r s] auto_until_def)
    qed
  qed
qed

definition keeps_ban :: "'c \<Rightarrow> instant \<Rightarrow> 'c BanOp \<Rightarrow> bool" where
  "keeps_ban c t op = (case op of OpBan _ _ _ \<Rightarrow> True | OpUnban c' \<Rightarrow> c' \<noteq> c | OpCleanup now \<Rightarrow> now < t)"

interpretation auto_ban: machine bl_step "keeps_ban c t" "\<lambda>s. bl_ok s \<and> auto_until c t s" for c :: 'c and t
proof
  fix s :: "'c ContractBanList" and e
  assume e: "keeps_ban c t e" and s: "bl_ok s \<and> auto_until c t s"
  have "auto_until c t (bl_step e s)"
  proof (cases e)
    case (OpCleanup now)
    then show ?thesis using e s map_of_filter[of "ban_entries s" "\<lambda>_ e. expires_at e > now" c]
      by (auto simp: keeps_ban_def bl_cleanup_def auto_until_def Let_def)
  next
    case (OpUnban c')
    then show ?thesis using e s by (auto simp: keeps_ban_def unban_def auto_until_def)
  qed (use s ban_keeps_auto in auto)
  then show "bl_ok (bl_step e s) \<and> auto_until c t (bl_step e s)" using bl.step_ok s by blast
qed

lemma ban_auto_established:
  assumes "bl_ok s" "ban c t AutoMad s = (out, s')" "out \<noteq> CapacityExceeded"
  shows "auto_until c t s'"
  using assms
proof (induction c t AutoMad s rule: ban.induct)
  case (1 c t s)
  show ?case
  proof (cases "map_of (ban_entries s) c")
    case (Some cur)
    then show ?thesis using 1 by (auto simp: ban.simps[of c t AutoMad s] auto_until_def)
  next
    case None
    from 1(2) show ?thesis
    proof (cases rule: evict_cases)
      case none
      then show ?thesis using None 1 by (auto simp: ban.simps[of c t AutoMad s] auto_until_def split: if_splits)
    next
      case (evicted k ent)
      then show ?thesis using None 1 by (auto simp: ban.simps[of c t AutoMad s] auto_until_def split: if_splits)
    qed
  qed
qed

text \<open>
  A ban the node itself has decided holds until it expires or is lifted. Once an automatic ban of a
  contract up to time \<open>t\<close> has been accepted, no sequence of further bans (by the operator or automatic, at
  any capacity), lifted bans of other contracts and clean-ups before \<open>t\<close> makes the contract admissible
  before \<open>t\<close>.
\<close>

theorem automatic_ban_holds:
  assumes "bl_ok s" "ban c t AutoMad s = (out, s1)" "out \<noteq> CapacityExceeded"
    and "list_all (keeps_ban c t) ops" "now < t"
  shows "is_banned now c (fold bl_step ops s1)"
proof -
  have "bl_ok s1" using ban_path[OF assms(1), of c t AutoMad] assms(2) by simp
  then have "auto_until c t (fold bl_step ops s1)"
    using auto_ban.fold_inv[OF assms(4)] ban_auto_established[OF assms(1-3)] by blast
  then show ?thesis using assms(5) by (auto simp: is_banned_def auto_until_def)
qed

theorem automatic_ban_holds_witness:
  "is_banned 9 (1 :: nat) (fold bl_step [OpBan 2 50 Operator, OpBan 1 5 Operator, OpCleanup 8, OpUnban 2]
     (snd (ban 1 10 AutoMad (bl_with_max 1))))"
proof -
  have "ban 1 10 AutoMad (bl_with_max 1) = (Banned, snd (ban (1 :: nat) 10 AutoMad (bl_with_max 1)))"
    by (simp add: ban.simps bl_with_max_def)
  then show ?thesis
    by (rule automatic_ban_holds[rotated]) (simp_all add: bl_with_max_def keeps_ban_def)
qed

text \<open>
  From the empty list, after any sequence of operations, the counter is the number of entries and at
  most the cap; and a ban is refused exactly when the contract is not on the list, the list is full, and
  the ban comes from the operator or every entry is an automatic one. A refusal changes no entry.
\<close>

theorem ban_refused_iff:
  "let s = fold bl_step ops (bl_with_max cap); (out, s') = ban c t r s in
    ban_size s = length (ban_entries s) \<and> ban_size s \<le> cap \<and>
    (out = CapacityExceeded \<longleftrightarrow> map_of (ban_entries s) c = None \<and> ban_size s = cap \<and>
      (r = Operator \<or> list_all (\<lambda>(k, e). ban_reason e = AutoMad) (ban_entries s))) \<and>
    (out = CapacityExceeded \<longrightarrow> ban_entries s' = ban_entries s)"
proof -
  define s where "s = fold bl_step ops (bl_with_max cap)"
  have run: "bl_ok s" "ban_size s = card (bl_keys s)" "ban_size s \<le> cap" "max_banned s = cap"
    using bl.run_capped[of "bl_with_max cap" ops] unfolding s_def by (simp_all add: bl_with_max_def)
  have size: "ban_size s = length (ban_entries s)" using run by (simp add: length_map_ok)
  obtain out s' where b: "ban c t r s = (out, s')" by (cases "ban c t r s")
  have "(out = CapacityExceeded \<longleftrightarrow> map_of (ban_entries s) c = None \<and> ban_size s = cap \<and>
      (r = Operator \<or> list_all (\<lambda>(k, e). ban_reason e = AutoMad) (ban_entries s))) \<and>
    (out = CapacityExceeded \<longrightarrow> ban_entries s' = ban_entries s)"
  proof (cases "map_of (ban_entries s) c")
    case (Some cur)
    then show ?thesis using b by (auto simp: ban.simps[of c t r s])
  next
    case None
    from run(1) show ?thesis
    proof (cases rule: evict_cases)
      case none
      then show ?thesis using None b run by (cases r) (auto simp: ban.simps[of c t _ s] list_all_iff split: if_splits)
    next
      case (evicted k ent)
      let ?s = "s\<lparr>ban_entries := AList.delete k (ban_entries s), ban_size := ban_size s - 1\<rparr>"
      have "(k, ent) \<in> set (ban_entries s)" using evicted(2) by (rule map_of_SomeD)
      then have "ban_entries s \<noteq> []" "\<not> list_all (\<lambda>(k, e). ban_reason e = AutoMad) (ban_entries s)"
        using evicted(3) by (auto simp: list_all_iff intro!: bexI[of _ "(k, ent)"])
      moreover from this have "fst (ban c t r ?s) = Banned" if "ban_size s = cap"
      proof -
        have "ban_size s - 1 < max_banned s" using that size run(4) calculation(1) by (cases "ban_entries s") auto
        then show ?thesis using None by (subst ban.simps) simp
      qed
      ultimately show ?thesis using None b run evicted
        by (cases r) (auto simp: ban.simps[of c t _ s] split: if_splits)
    qed
  qed
  then show ?thesis using b size run by (simp add: Let_def flip: s_def)
qed

theorem ban_refused_iff_witness:
  "fst (ban (1 :: nat) 5 Operator (fold bl_step [OpBan 2 50 AutoMad] (bl_with_max 1))) = CapacityExceeded"
  using ban_refused_iff[of "[OpBan 2 50 AutoMad]" 1 "1 :: nat" 5 Operator]
  by (simp add: Let_def split: prod.splits) (simp add: ban.simps bl_with_max_def)

end
