(* ===== verification/Update_Rate_Limit.thy ===== *)
theory Update_Rate_Limit
  imports Slot_Reservation
begin

text \<open>
  The limiter of inbound updates per sender and contract, \<open>ring/update_rate_limit.rs\<close>. Addresses and
  contract identifiers are type parameters; the counters of decisions are 64-bit atomics.
\<close>

section \<open>Data and operations\<close>

definition MIN_UPDATE_INTERVAL :: duration where
  "MIN_UPDATE_INTERVAL = from_millis 100"

definition CLEANUP_AGE :: duration where
  "CLEANUP_AGE = from_secs (5 * 60)"

definition MAX_TRACKED_PAIRS :: nat where
  "MAX_TRACKED_PAIRS = 16384"

datatype RateLimitDecision = Allowed | Rejected duration duration | RateCapacityExceeded

definition is_allowed :: "RateLimitDecision \<Rightarrow> bool" where
  "is_allowed d \<longleftrightarrow> d = Allowed"

record ('a, 'c) UpdateRateLimiter =
  last_accepted :: "('a \<times> 'c, instant) hash_map"
  url_size :: nat
  min_interval :: duration
  max_tracked_pairs :: nat
  accepted_total :: nat
  rejected_total :: nat
  url_capacity_rejected_total :: nat

definition url_with_config :: "duration \<Rightarrow> nat \<Rightarrow> ('a, 'c) UpdateRateLimiter" where
  "url_with_config interval cap = \<lparr>last_accepted = [], url_size = 0, min_interval = interval,
     max_tracked_pairs = cap, accepted_total = 0, rejected_total = 0, url_capacity_rejected_total = 0\<rparr>"

definition url_new :: "('a, 'c) UpdateRateLimiter" where
  "url_new = url_with_config MIN_UPDATE_INTERVAL MAX_TRACKED_PAIRS"

definition check_and_record :: "instant \<Rightarrow> 'a \<Rightarrow> 'c \<Rightarrow> ('a, 'c) UpdateRateLimiter \<Rightarrow>
    RateLimitDecision \<times> ('a, 'c) UpdateRateLimiter" where
  "check_and_record now sender contract s =
    (let key = (sender, contract)
     in case map_of (last_accepted s) key of
          Some prev \<Rightarrow>
            let elapsed = now - prev
            in if elapsed < min_interval s then
                 (Rejected elapsed (min_interval s), s\<lparr>rejected_total := wrap_add64 (rejected_total s) 1\<rparr>)
               else (Allowed, s\<lparr>last_accepted := AList.update key now (last_accepted s),
                                accepted_total := wrap_add64 (accepted_total s) 1\<rparr>)
        | None \<Rightarrow>
            if url_size s \<ge> max_tracked_pairs s then
              (RateCapacityExceeded, s\<lparr>url_capacity_rejected_total := wrap_add64 (url_capacity_rejected_total s) 1\<rparr>)
            else (Allowed, s\<lparr>last_accepted := AList.update key now (last_accepted s), url_size := url_size s + 1,
                             accepted_total := wrap_add64 (accepted_total s) 1\<rparr>))"

definition url_cleanup :: "instant \<Rightarrow> ('a, 'c) UpdateRateLimiter \<Rightarrow> ('a, 'c) UpdateRateLimiter" where
  "url_cleanup now s =
    (if now < CLEANUP_AGE then s
     else let cutoff = now - CLEANUP_AGE;
              removed = length (filter (\<lambda>(k, prev). \<not> prev \<ge> cutoff) (last_accepted s));
              s' = s\<lparr>last_accepted := filter (\<lambda>(k, prev). prev \<ge> cutoff) (last_accepted s)\<rparr>
          in if removed > 0 then s'\<lparr>url_size := url_size s - removed\<rparr> else s')"

section \<open>Steps\<close>

datatype ('a, 'c) UrlOp = UrlCheck 'a 'c | UrlCleanup

fun url_op :: "instant \<times> ('a, 'c) UrlOp \<Rightarrow> ('a, 'c) UpdateRateLimiter \<Rightarrow> ('a, 'c) UpdateRateLimiter" where
  "url_op (now, UrlCheck a c) s = snd (check_and_record now a c s)"
| "url_op (now, UrlCleanup) s = url_cleanup now s"

abbreviation url_keys :: "('a, 'c) UpdateRateLimiter \<Rightarrow> ('a \<times> 'c) set" where
  "url_keys s \<equiv> keys (last_accepted s)"

abbreviation url_ok :: "('a, 'c) UpdateRateLimiter \<Rightarrow> bool" where
  "url_ok s \<equiv> map_ok (last_accepted s)"

interpretation url: slot_client url_op url_keys url_size max_tracked_pairs url_ok
proof
  fix s :: "('a, 'c) UpdateRateLimiter" and e :: "instant \<times> ('a, 'c) UrlOp"
  obtain now op where e: "e = (now, op)" by (cases e)
  show "url_ok (url_op e s)" if "url_ok s"
    using that by (cases op) (auto simp: e check_and_record_def url_cleanup_def Let_def split: option.splits)
  show "max_tracked_pairs (url_op e s) = max_tracked_pairs s" if "url_ok s"
    by (cases op) (auto simp: e check_and_record_def url_cleanup_def Let_def split: option.splits)
  show "slot_path (max_tracked_pairs s) (quiet (url_keys s) (url_size s)) (quiet (url_keys (url_op e s)) (url_size (url_op e s)))"
    if "url_ok s" "url_size s = card (url_keys s)"
  proof (cases op)
    case (UrlCheck a c)
    show ?thesis
    proof (cases "map_of (last_accepted s) (a, c)")
      case None
      then have "(a, c) \<notin> url_keys s" by (simp add: map_of_keys)
      then show ?thesis using path_insert[of "(a, c)" "url_keys s" "url_size s" "max_tracked_pairs s"] None
        by (auto simp: e UrlCheck check_and_record_def)
    next
      case (Some prev)
      then have "(a, c) \<in> url_keys s" by (metis map_of_keys option.distinct(1))
      then show ?thesis using Some by (simp add: e UrlCheck check_and_record_def Let_def insert_absorb)
    qed
  next
    case UrlCleanup
    then show ?thesis
      using path_filter[OF that(1), of "max_tracked_pairs s" "url_size s" "\<lambda>_ prev. prev \<ge> now - CLEANUP_AGE"]
      by (auto simp: e url_cleanup_def Let_def)
  qed
qed

section \<open>Spacing\<close>

text \<open>A run with the log of the updates it allowed: when, and for which pair.\<close>

fun url_log :: "instant \<times> ('a, 'c) UrlOp \<Rightarrow> (instant \<times> 'a \<times> 'c) list \<times> ('a, 'c) UpdateRateLimiter \<Rightarrow>
    (instant \<times> 'a \<times> 'c) list \<times> ('a, 'c) UpdateRateLimiter" where
  "url_log (now, UrlCheck a c) (log, s) =
    (case check_and_record now a c s of (d, s') \<Rightarrow> (if is_allowed d then log @ [(now, a, c)] else log, s'))"
| "url_log (now, UrlCleanup) (log, s) = (log, url_cleanup now s)"

definition spaced_by :: "duration \<Rightarrow> (instant \<times> 'a \<times> 'c) list \<Rightarrow> bool" where
  "spaced_by d log \<longleftrightarrow> sorted_wrt (\<lambda>(t, k) (t', k'). k = k' \<longrightarrow> t + d \<le> t') log"

definition url_log_inv :: "duration \<Rightarrow> instant \<Rightarrow> (instant \<times> 'a \<times> 'c) list \<times> ('a, 'c) UpdateRateLimiter \<Rightarrow> bool" where
  "url_log_inv d now = (\<lambda>(log, s). map_ok (last_accepted s) \<and> min_interval s = d \<and> spaced_by d log \<and>
    (\<forall>k t. map_of (last_accepted s) k = Some t \<longrightarrow> (t, k) \<in> set log \<and> t \<le> now) \<and>
    (\<forall>k t. (t, k) \<in> set log \<longrightarrow> t \<le> now \<and>
      ((\<exists>t'. map_of (last_accepted s) k = Some t' \<and> t \<le> t') \<or> t + CLEANUP_AGE \<le> now)))"

lemma spaced_by_snoc: "spaced_by d (log @ [(now, k)]) \<longleftrightarrow> spaced_by d log \<and> (\<forall>t. (t, k) \<in> set log \<longrightarrow> t + d \<le> now)"
  by (auto simp: spaced_by_def sorted_wrt_append)

lemma url_allow_inv:
  assumes inv: "url_log_inv d now (log, s)" and d: "d \<le> CLEANUP_AGE"
    and free: "\<And>t. map_of (last_accepted s) k = Some t \<Longrightarrow> t + d \<le> now"
    and s': "last_accepted s' = AList.update k now (last_accepted s)" "min_interval s' = min_interval s"
  shows "url_log_inv d now (log @ [(now, k)], s')"
proof -
  have "t + d \<le> now" if "(t, k) \<in> set log" for t
  proof -
    have "(\<exists>t'. map_of (last_accepted s) k = Some t' \<and> t \<le> t') \<or> t + CLEANUP_AGE \<le> now"
      using inv that by (cases k) (auto simp: url_log_inv_def)
    then show ?thesis using free d by fastforce
  qed
  moreover have "\<forall>k' t. (t, k') \<in> set log \<longrightarrow> t \<le> now \<and>
      ((\<exists>t'. map_of (last_accepted s') k' = Some t' \<and> t \<le> t') \<or> t + CLEANUP_AGE \<le> now)"
    using inv by (auto simp: url_log_inv_def s')
  ultimately show ?thesis using inv by (auto simp: url_log_inv_def spaced_by_snoc s')
qed

lemma url_cleanup_inv:
  assumes inv: "url_log_inv d now (log, s)"
  shows "url_log_inv d now (log, url_cleanup now s)"
proof (cases "now < CLEANUP_AGE")
  case False
  have ok: "map_ok (last_accepted s)" using inv by (simp add: url_log_inv_def)
  have m: "map_of (last_accepted (url_cleanup now s)) k =
      (case map_of (last_accepted s) k of None \<Rightarrow> None | Some t \<Rightarrow> if t \<ge> now - CLEANUP_AGE then Some t else None)" for k
    using False map_of_filter[OF ok, of "\<lambda>_ t. t \<ge> now - CLEANUP_AGE" k] by (auto simp: url_cleanup_def Let_def)
  have "map_ok (last_accepted (url_cleanup now s))" "min_interval (url_cleanup now s) = min_interval s"
    using ok by (auto simp: url_cleanup_def Let_def)
  moreover have "(\<exists>t'. map_of (last_accepted (url_cleanup now s)) k = Some t' \<and> t \<le> t') \<or> t + CLEANUP_AGE \<le> now"
    if "(t, k) \<in> set log" for t k
  proof -
    have "(\<exists>t'. map_of (last_accepted s) k = Some t' \<and> t \<le> t') \<or> t + CLEANUP_AGE \<le> now"
      using inv that by (cases k) (auto simp: url_log_inv_def)
    then show ?thesis using False unfolding m by fastforce
  qed
  ultimately show ?thesis using inv unfolding url_log_inv_def by (auto simp: m split: option.splits if_splits)
qed (use inv in \<open>simp add: url_cleanup_def\<close>)

interpretation url_timed: timed_machine url_log "\<lambda>now ls. d \<le> CLEANUP_AGE \<longrightarrow> url_log_inv d now ls" for d
proof
  fix t t' :: instant and ls :: "(instant \<times> 'a \<times> 'c) list \<times> ('a, 'c) UpdateRateLimiter"
  assume "d \<le> CLEANUP_AGE \<longrightarrow> url_log_inv d t ls" "t \<le> t'"
  then show "d \<le> CLEANUP_AGE \<longrightarrow> url_log_inv d t' ls"
    by (cases ls) (fastforce simp: url_log_inv_def)
next
  fix now :: instant and ls :: "(instant \<times> 'a \<times> 'c) list \<times> ('a, 'c) UpdateRateLimiter" and op
  assume a: "d \<le> CLEANUP_AGE \<longrightarrow> url_log_inv d now ls"
  obtain log s where ls: "ls = (log, s)" by (cases ls)
  show "d \<le> CLEANUP_AGE \<longrightarrow> url_log_inv d now (url_log (now, op) ls)"
  proof
    assume d: "d \<le> CLEANUP_AGE"
    have inv: "url_log_inv d now (log, s)" "min_interval s = d" using a d ls by (auto simp: url_log_inv_def)
    have cong: "url_log_inv d now (log, s')" if "last_accepted s' = last_accepted s" "min_interval s' = min_interval s" for s'
      using inv(1) that by (simp add: url_log_inv_def)
    show "url_log_inv d now (url_log (now, op) ls)"
    proof (cases op)
      case (UrlCheck a c)
      show ?thesis
      proof (cases "map_of (last_accepted s) (a, c)")
        case None
        then show ?thesis using cong url_allow_inv[OF inv(1) d, of "(a, c)"]
          by (auto simp: ls UrlCheck check_and_record_def Let_def is_allowed_def)
      next
        case (Some t)
        then have "t \<le> now" using inv(1) by (cases "(a, c)") (auto simp: url_log_inv_def)
        then show ?thesis using Some cong inv(2) url_allow_inv[OF inv(1) d, of "(a, c)"]
          by (auto simp: ls UrlCheck check_and_record_def Let_def is_allowed_def)
      qed
    qed (use inv(1) ls url_cleanup_inv in auto)
  qed
qed

lemma url_log_snd: "snd (url_log e ls) = url_op e (snd ls)"
  by (cases "(e, ls)" rule: url_log.cases) (auto split: prod.splits)

text \<open>
  Over any run with non-decreasing times, clean-ups included, two updates allowed for the same sender
  and contract are at least the configured interval apart; an update is rejected for its rate only when an
  update of its pair was allowed less than the interval before; and the pairs tracked never exceed the cap.
\<close>

theorem update_spacing:
  fixes es :: "(instant \<times> ('a, 'c) UrlOp) list"
  assumes "d \<le> CLEANUP_AGE" "sorted (map fst (es @ [(now, UrlCheck a c)]))"
    and run: "fold url_log es ([], url_with_config d cap) = (log, s)"
  shows "spaced_by d log \<and> length (last_accepted s) \<le> cap \<and>
    (case check_and_record now a c s of
       (Rejected elapsed interval, s') \<Rightarrow> interval = d \<and> (\<exists>t. (t, a, c) \<in> set log \<and> t \<le> now \<and> now < t + d)
     | _ \<Rightarrow> True)"
proof -
  define T where "T = (if es = [] then 0 else fst (last es))"
  have "url_log_inv d T (log, s)"
    using url_timed.timed_fold_inv[of es 0 d "([], url_with_config d cap)"] assms run
    by (auto simp: T_def sorted_append url_log_inv_def[of d 0] url_with_config_def spaced_by_def split: if_splits)
  moreover have "T \<le> now" using assms(2) by (auto simp: T_def sorted_append)
  ultimately have inv: "url_log_inv d now (log, s)" using url_timed.inv_mono[of d T "(log, s)" now] assms(1) by blast
  have snd: "snd (fold url_log es ls) = fold url_op es (snd ls)" for ls
    by (induction es arbitrary: ls) (simp_all add: url_log_snd)
  have "url_size s = card (url_keys s)" "url_size s \<le> cap" "url_ok s"
    using url.run_capped[of "url_with_config d cap" es] snd[of "([], url_with_config d cap)"] run
    by (auto simp: url_with_config_def)
  then have "length (last_accepted s) \<le> cap" by (simp add: length_map_ok)
  moreover have "case check_and_record now a c s of
       (Rejected elapsed interval, s') \<Rightarrow> interval = d \<and> (\<exists>t. (t, a, c) \<in> set log \<and> t \<le> now \<and> now < t + d) | _ \<Rightarrow> True"
  proof (cases "map_of (last_accepted s) (a, c)")
    case (Some t)
    then have "(t, a, c) \<in> set log" "t \<le> now" "min_interval s = d" using inv by (auto simp: url_log_inv_def)
    then show ?thesis using Some by (auto simp: check_and_record_def Let_def intro!: exI[of _ t])
  qed (simp add: check_and_record_def)
  ultimately show ?thesis using inv by (simp add: url_log_inv_def)
qed

theorem update_spacing_witness:
  "case fold url_log [(0, UrlCheck 1 2), (50000000, UrlCheck 1 2), (100000000, UrlCheck 1 2)]
      ([], url_with_config MIN_UPDATE_INTERVAL 10 :: (nat, nat) UpdateRateLimiter) of
    (log, s) \<Rightarrow> log = [(0, 1, 2), (100000000, 1, 2)] \<and> spaced_by MIN_UPDATE_INTERVAL log"
proof -
  let ?es = "[(0, UrlCheck 1 2), (50000000, UrlCheck 1 2), (100000000, UrlCheck 1 2)] :: (nat \<times> (nat, nat) UrlOp) list"
  have fst: "fst (fold url_log ?es ([], url_with_config MIN_UPDATE_INTERVAL 10)) = [(0, 1, 2), (100000000, 1, 2)]"
    by (simp add: url_with_config_def check_and_record_def is_allowed_def MIN_UPDATE_INTERVAL_def from_millis_def)
  obtain s where run: "fold url_log ?es ([], url_with_config MIN_UPDATE_INTERVAL 10) = ([(0, 1, 2), (100000000, 1, 2)], s)"
    using fst by (metis prod.collapse)
  have "MIN_UPDATE_INTERVAL \<le> CLEANUP_AGE"
    by (simp add: MIN_UPDATE_INTERVAL_def CLEANUP_AGE_def from_millis_def from_secs_def)
  from update_spacing[OF this _ run, of 100000000 1 2] show ?thesis unfolding run by simp
qed

end
