(* ===== verification/Resync_Rate_Limit.thy ===== *)
theory Resync_Rate_Limit
  imports Slot_Reservation Float64
begin

text \<open>
  The limiters of the resynchronisation protocol, \<open>ring/resync_rate_limit.rs\<close>: a token bucket per key,
  with its tokens in floating point, and the table of outstanding requests that authorises a response.
\<close>

section \<open>Token buckets per key\<close>

definition EMIT_REFILL_INTERVAL :: duration where
  "EMIT_REFILL_INTERVAL = from_secs 60"

definition EMIT_BURST :: rat where
  "EMIT_BURST = 2"

definition RESPOND_REFILL_INTERVAL :: duration where
  "RESPOND_REFILL_INTERVAL = from_secs 30"

definition RESPOND_BURST :: rat where
  "RESPOND_BURST = 1"

definition RESPOND_GLOBAL_REFILL_INTERVAL :: duration where
  "RESPOND_GLOBAL_REFILL_INTERVAL = from_secs 5"

definition RESPOND_GLOBAL_BURST :: rat where
  "RESPOND_GLOBAL_BURST = 2"

definition MAX_TRACKED_KEYS :: nat where
  "MAX_TRACKED_KEYS = 16384"

definition RESYNC_CLEANUP_AGE :: duration where
  "RESYNC_CLEANUP_AGE = from_secs (5 * 60)"

record Bucket =
  bucket_tokens :: rat
  last_refill :: instant

definition bucket_refill :: "instant \<Rightarrow> rat \<Rightarrow> duration \<Rightarrow> Bucket \<Rightarrow> Bucket" where
  "bucket_refill now capacity interval b =
    (let elapsed = now - last_refill b;
         gained = fdiv (as_secs_f64 elapsed) (as_secs_f64 interval)
     in \<lparr>bucket_tokens = min (fadd (bucket_tokens b) gained) capacity, last_refill = now\<rparr>)"

record 'k TokenBucketLimiter =
  buckets :: "('k, Bucket) hash_map"
  tbl_size :: nat
  max_tracked :: nat
  tbl_capacity :: rat
  refill_interval :: duration
  allowed_total :: nat
  suppressed_total :: nat

definition tbl_new :: "rat \<Rightarrow> duration \<Rightarrow> nat \<Rightarrow> 'k TokenBucketLimiter" where
  "tbl_new capacity interval cap = \<lparr>buckets = [], tbl_size = 0, max_tracked = cap, tbl_capacity = capacity,
     refill_interval = interval, allowed_total = 0, suppressed_total = 0\<rparr>"

definition tbl_check_and_record :: "instant \<Rightarrow> 'k \<Rightarrow> 'k TokenBucketLimiter \<Rightarrow> bool \<times> 'k TokenBucketLimiter" where
  "tbl_check_and_record now key s =
    (case map_of (buckets s) key of
       Some b \<Rightarrow>
         let b1 = bucket_refill now (tbl_capacity s) (refill_interval s) b
         in if bucket_tokens b1 \<ge> 1 then
              (True, s\<lparr>buckets := AList.update key (b1\<lparr>bucket_tokens := fsub (bucket_tokens b1) 1\<rparr>) (buckets s),
                       allowed_total := wrap_add64 (allowed_total s) 1\<rparr>)
            else
              (False, s\<lparr>buckets := AList.update key b1 (buckets s),
                        suppressed_total := wrap_add64 (suppressed_total s) 1\<rparr>)
     | None \<Rightarrow>
         if tbl_size s \<ge> max_tracked s then
           (False, s\<lparr>suppressed_total := wrap_add64 (suppressed_total s) 1\<rparr>)
         else
           (True, s\<lparr>buckets := AList.update key \<lparr>bucket_tokens = fsub (tbl_capacity s) 1, last_refill = now\<rparr> (buckets s),
                    tbl_size := tbl_size s + 1, allowed_total := wrap_add64 (allowed_total s) 1\<rparr>))"

text \<open>The test of \<open>cleanup\<close>: fully refilled, and idle for more than the clean-up age.\<close>

definition tbl_recovered :: "instant \<Rightarrow> 'k TokenBucketLimiter \<Rightarrow> Bucket \<Rightarrow> bool" where
  "tbl_recovered now s b \<longleftrightarrow>
    (let elapsed = now - last_refill b;
         gained = fdiv (as_secs_f64 elapsed) (as_secs_f64 (refill_interval s));
         tokens_now = min (fadd (bucket_tokens b) gained) (tbl_capacity s)
     in tokens_now \<ge> tbl_capacity s \<and> elapsed > RESYNC_CLEANUP_AGE)"

definition tbl_cleanup :: "instant \<Rightarrow> 'k TokenBucketLimiter \<Rightarrow> 'k TokenBucketLimiter" where
  "tbl_cleanup now s =
    (let removed = length (filter (\<lambda>(k, b). tbl_recovered now s b) (buckets s));
         s' = s\<lparr>buckets := filter (\<lambda>(k, b). \<not> tbl_recovered now s b) (buckets s)\<rparr>
     in if removed > 0 then s'\<lparr>tbl_size := tbl_size s - removed\<rparr> else s')"

definition new_emit_limiter :: "'k TokenBucketLimiter" where
  "new_emit_limiter = tbl_new EMIT_BURST EMIT_REFILL_INTERVAL MAX_TRACKED_KEYS"

definition new_response_limiter :: "'k TokenBucketLimiter" where
  "new_response_limiter = tbl_new RESPOND_BURST RESPOND_REFILL_INTERVAL MAX_TRACKED_KEYS"

definition new_response_global_limiter :: "'k TokenBucketLimiter" where
  "new_response_global_limiter = tbl_new RESPOND_GLOBAL_BURST RESPOND_GLOBAL_REFILL_INTERVAL MAX_TRACKED_KEYS"

section \<open>Outstanding requests\<close>

definition OUTSTANDING_RESYNC_TTL :: duration where
  "OUTSTANDING_RESYNC_TTL = from_secs 60"

record ('c, 'a) OutstandingResyncRequests =
  orr_entries :: "('c \<times> 'a, instant) hash_map"
  orr_size :: nat
  orr_max_tracked :: nat
  ttl :: duration

definition orr_new :: "('c, 'a) OutstandingResyncRequests" where
  "orr_new = \<lparr>orr_entries = [], orr_size = 0, orr_max_tracked = MAX_TRACKED_KEYS, ttl = OUTSTANDING_RESYNC_TTL\<rparr>"

definition orr_record :: "instant \<Rightarrow> 'c \<Rightarrow> 'a \<Rightarrow> ('c, 'a) OutstandingResyncRequests \<Rightarrow>
    bool \<times> ('c, 'a) OutstandingResyncRequests" where
  "orr_record now contract target s =
    (case map_of (orr_entries s) (contract, target) of
       Some _ \<Rightarrow> (True, s\<lparr>orr_entries := AList.update (contract, target) now (orr_entries s)\<rparr>)
     | None \<Rightarrow>
         if orr_size s \<ge> orr_max_tracked s then (False, s)
         else (True, s\<lparr>orr_entries := AList.update (contract, target) now (orr_entries s), orr_size := orr_size s + 1\<rparr>))"

definition orr_consume :: "instant \<Rightarrow> 'c \<Rightarrow> 'a \<Rightarrow> ('c, 'a) OutstandingResyncRequests \<Rightarrow>
    bool \<times> ('c, 'a) OutstandingResyncRequests" where
  "orr_consume now contract source s =
    (case map_of (orr_entries s) (contract, source) of
       Some emitted \<Rightarrow>
         (now - emitted \<le> ttl s,
          s\<lparr>orr_entries := AList.delete (contract, source) (orr_entries s), orr_size := orr_size s - 1\<rparr>)
     | None \<Rightarrow> (False, s))"

definition is_outstanding :: "instant \<Rightarrow> 'c \<Rightarrow> 'a \<Rightarrow> ('c, 'a) OutstandingResyncRequests \<Rightarrow> bool" where
  "is_outstanding now contract peer s =
    (case map_of (orr_entries s) (contract, peer) of Some emitted \<Rightarrow> now - emitted \<le> ttl s | None \<Rightarrow> False)"

definition orr_cleanup :: "instant \<Rightarrow> ('c, 'a) OutstandingResyncRequests \<Rightarrow> ('c, 'a) OutstandingResyncRequests" where
  "orr_cleanup now s =
    (let removed = length (filter (\<lambda>(k, emitted). now - emitted > ttl s) (orr_entries s));
         s' = s\<lparr>orr_entries := filter (\<lambda>(k, emitted). \<not> now - emitted > ttl s) (orr_entries s)\<rparr>
     in if removed > 0 then s'\<lparr>orr_size := orr_size s - removed\<rparr> else s')"

section \<open>The token buckets\<close>

datatype 'k TblOp = TblCheck 'k | TblCleanup

fun tbl_op :: "instant \<times> 'k TblOp \<Rightarrow> 'k TokenBucketLimiter \<Rightarrow> 'k TokenBucketLimiter" where
  "tbl_op (now, TblCheck k) s = snd (tbl_check_and_record now k s)"
| "tbl_op (now, TblCleanup) s = tbl_cleanup now s"

abbreviation tbl_keys :: "'k TokenBucketLimiter \<Rightarrow> 'k set" where
  "tbl_keys s \<equiv> keys (buckets s)"

abbreviation tbl_ok :: "'k TokenBucketLimiter \<Rightarrow> bool" where
  "tbl_ok s \<equiv> map_ok (buckets s)"

interpretation tbl: slot_client tbl_op tbl_keys tbl_size max_tracked tbl_ok
proof
  fix s :: "'k TokenBucketLimiter" and e :: "instant \<times> 'k TblOp"
  obtain now op where e: "e = (now, op)" by (cases e)
  show "tbl_ok (tbl_op e s)" if "tbl_ok s"
    using that by (cases op) (auto simp: e tbl_check_and_record_def tbl_cleanup_def Let_def split: option.splits)
  show "max_tracked (tbl_op e s) = max_tracked s" if "tbl_ok s"
    by (cases op) (auto simp: e tbl_check_and_record_def tbl_cleanup_def Let_def split: option.splits)
  show "slot_path (max_tracked s) (quiet (tbl_keys s) (tbl_size s)) (quiet (tbl_keys (tbl_op e s)) (tbl_size (tbl_op e s)))"
    if "tbl_ok s" "tbl_size s = card (tbl_keys s)"
  proof (cases op)
    case (TblCheck k)
    show ?thesis
    proof (cases "map_of (buckets s) k")
      case None
      then have "k \<notin> tbl_keys s" by (simp add: map_of_keys)
      then show ?thesis using path_insert[of k "tbl_keys s" "tbl_size s" "max_tracked s"] None
        by (auto simp: e TblCheck tbl_check_and_record_def)
    next
      case (Some b)
      then have "k \<in> tbl_keys s" by (metis map_of_keys option.distinct(1))
      then show ?thesis using Some by (simp add: e TblCheck tbl_check_and_record_def Let_def insert_absorb)
    qed
  next
    case TblCleanup
    then show ?thesis
      using path_filter[OF that(1), of "max_tracked s" "tbl_size s" "\<lambda>_ b. \<not> tbl_recovered now s b"]
      by (auto simp: e tbl_cleanup_def Let_def)
  qed
qed

lemma as_secs_f64_mono:
  assumes "d \<le> e" "e div 1000000000 \<le> 2 ^ 53"
  shows "as_secs_f64 d \<le> as_secs_f64 e"
proof -
  let ?b = "1000000000 :: nat"
  have le: "d div ?b \<le> e div ?b" using assms(1) by (rule div_le_mono)
  have frac: "fdiv (nat_f64 (d mod ?b)) 1000000000 \<le> 1" unfolding fdiv_def
    by (rule f64_rnd_le) (simp_all add: nat_f64_exact divide_le_eq)
  have "nat_f64 (d div ?b) + fdiv (nat_f64 (d mod ?b)) 1000000000 \<le>
      nat_f64 (e div ?b) + fdiv (nat_f64 (e mod ?b)) 1000000000"
  proof (cases "d div ?b = e div ?b")
    case True
    then have "d mod ?b \<le> e mod ?b" using assms(1) by (metis add_le_cancel_left mult_div_mod_eq)
    then show ?thesis using True unfolding fdiv_def
      by (auto intro!: f64_rnd_mono divide_right_mono nat_f64_mono)
  next
    case False
    then have "of_nat (d div ?b) + 1 \<le> (of_nat (e div ?b) :: rat)" using le by (simp flip: of_nat_Suc)
    moreover have "nat_f64 (d div ?b) = of_nat (d div ?b)" "nat_f64 (e div ?b) = of_nat (e div ?b)"
      using le assms(2) by (auto intro: nat_f64_exact)
    moreover have "0 \<le> fdiv (nat_f64 (e mod ?b)) 1000000000" unfolding fdiv_def by (intro f64_rnd_nonneg) simp
    ultimately show ?thesis using frac by linarith
  qed
  then show ?thesis unfolding as_secs_f64_def fadd_def by (rule f64_rnd_mono)
qed

text \<open>A bucket that is full at \<open>t\<close> is full at any later time, up to 2^64 nanoseconds on.\<close>

lemma recovered_stays_full:
  assumes "tbl_recovered t s b" "t \<le> t'" "t' < 2 ^ 64"
  shows "bucket_tokens (bucket_refill t' (tbl_capacity s) (refill_interval s) b) = tbl_capacity s"
proof -
  have "(t' - last_refill b) div 1000000000 \<le> 2 ^ 53"
  proof -
    have "t' - last_refill b \<le> 2 ^ 64" using assms(3) by linarith
    then have "(t' - last_refill b) div 1000000000 \<le> 2 ^ 64 div 1000000000" by (rule div_le_mono)
    also have "\<dots> \<le> 2 ^ 53" by simp
    finally show ?thesis .
  qed
  then have "as_secs_f64 (t - last_refill b) \<le> as_secs_f64 (t' - last_refill b)"
    using assms(2) by (intro as_secs_f64_mono) auto
  then have "fdiv (as_secs_f64 (t - last_refill b)) (as_secs_f64 (refill_interval s)) \<le>
      fdiv (as_secs_f64 (t' - last_refill b)) (as_secs_f64 (refill_interval s))"
    unfolding fdiv_def by (intro f64_rnd_mono divide_right_mono) simp_all
  then have "fadd (bucket_tokens b) (fdiv (as_secs_f64 (t - last_refill b)) (as_secs_f64 (refill_interval s))) \<le>
      fadd (bucket_tokens b) (fdiv (as_secs_f64 (t' - last_refill b)) (as_secs_f64 (refill_interval s)))"
    unfolding fadd_def by (intro f64_rnd_mono) simp
  then show ?thesis using assms(1) by (auto simp: tbl_recovered_def bucket_refill_def Let_def)
qed

lemma tbl_cleanup_lookup: "map_ok (buckets s) \<Longrightarrow> map_of (buckets (tbl_cleanup t s)) k =
    (case map_of (buckets s) k of None \<Rightarrow> None | Some b \<Rightarrow> if tbl_recovered t s b then None else Some b)"
  using map_of_filter[of "buckets s" "\<lambda>_ b. \<not> tbl_recovered t s b" k]
  by (auto simp: tbl_cleanup_def Let_def split: option.splits)

lemma tbl_cleanup_fields [simp]:
  "tbl_capacity (tbl_cleanup t s) = tbl_capacity s" "refill_interval (tbl_cleanup t s) = refill_interval s"
  "max_tracked (tbl_cleanup t s) = max_tracked s"
  by (auto simp: tbl_cleanup_def Let_def)

lemma tbl_cleanup_size: "tbl_size (tbl_cleanup t s) \<le> tbl_size s"
  by (simp add: tbl_cleanup_def Let_def)

lemma tbl_cleanup_makes_room:
  assumes "map_of (buckets s) k = Some b" "tbl_recovered t s b" "tbl_size s = length (buckets s)"
    "tbl_size s \<le> max_tracked s"
  shows "tbl_size (tbl_cleanup t s) < max_tracked s"
proof -
  have "(k, b) \<in> set (filter (\<lambda>(k, b). tbl_recovered t s b) (buckets s))"
    using assms(1,2) map_of_SomeD by fastforce
  then have "0 < length (filter (\<lambda>(k, b). tbl_recovered t s b) (buckets s))" by (rule length_pos_if_in_set)
  moreover have "0 < length (buckets s)" using assms(1) by (cases "buckets s") auto
  ultimately show ?thesis using assms(3,4) by (simp add: tbl_cleanup_def Let_def del: length_greater_0_conv)
qed

lemma tbl_op_config:
  "tbl_capacity (tbl_op e s) = tbl_capacity s" "refill_interval (tbl_op e s) = refill_interval s"
  by (cases "(e, s)" rule: tbl_op.cases; auto simp: tbl_check_and_record_def Let_def split: option.splits)+

lemma tbl_run:
  assumes "s = fold tbl_op es (tbl_new capacity interval cap)"
  shows "map_ok (buckets s)" "tbl_size s = length (buckets s)" "tbl_size s \<le> max_tracked s" "tbl_capacity s = capacity"
proof -
  show "map_ok (buckets s)" "tbl_size s = length (buckets s)" "tbl_size s \<le> max_tracked s"
    using tbl.run_capped[of "tbl_new capacity interval cap" es] assms by (auto simp: tbl_new_def length_map_ok)
  have "tbl_capacity (fold tbl_op es s0) = tbl_capacity s0" for s0 :: "'a TokenBucketLimiter"
    by (induction es arbitrary: s0) (simp_all add: tbl_op_config)
  then show "tbl_capacity s = capacity" by (simp add: assms tbl_new_def)
qed

text \<open>
  Dropping the recovered buckets in a clean-up cannot be observed through a tracked key: after any run of a
  limiter, a check made at or after the clean-up gives the same decision and leaves the key with the same
  tokens and refill time as it would have without it. For an untracked key the clean-up only frees slots:
  whatever was allowed without it is allowed after it.
\<close>

theorem resync_cleanup_invisible:
  fixes es :: "(instant \<times> 'k TblOp) list"
  assumes run: "s = fold tbl_op es (tbl_new capacity interval cap)"
    and "1 \<le> capacity" "t \<le> t'" "t' < 2 ^ 64"
    and with_cleanup: "tbl_check_and_record t' k (tbl_cleanup t s) = (ok1, s1)"
    and without: "tbl_check_and_record t' k s = (ok2, s2)"
  shows "(ok2 \<longrightarrow> ok1) \<and> (k \<in> keys (buckets s) \<longrightarrow> ok1 = ok2 \<and> map_of (buckets s1) k = map_of (buckets s2) k)"
proof (cases "map_of (buckets s) k")
  case None
  then have "map_of (buckets (tbl_cleanup t s)) k = None" "k \<notin> keys (buckets s)"
    using tbl_run(1)[OF run] None by (simp_all add: tbl_cleanup_lookup flip: map_of_keys)
  then show ?thesis using None with_cleanup without tbl_cleanup_size[of t s]
    by (auto simp: tbl_check_and_record_def split: if_splits)
next
  case (Some b)
  show ?thesis
  proof (cases "tbl_recovered t s b")
    case True
    have "bucket_tokens (bucket_refill t' (tbl_capacity s) (refill_interval s) b) = capacity"
      using recovered_stays_full[OF True assms(3,4)] tbl_run(4)[OF run] by simp
    moreover have "last_refill (bucket_refill t' (tbl_capacity s) (refill_interval s) b) = t'"
      by (simp add: bucket_refill_def Let_def)
    moreover have "tbl_size (tbl_cleanup t s) < max_tracked s"
      using tbl_cleanup_makes_room[OF Some True] tbl_run(2,3)[OF run] by simp
    moreover have "map_of (buckets (tbl_cleanup t s)) k = None"
      using Some True tbl_run(1)[OF run] by (simp add: tbl_cleanup_lookup)
    ultimately show ?thesis using Some with_cleanup without \<open>1 \<le> capacity\<close> tbl_run(4)[OF run]
      by (auto simp: tbl_check_and_record_def Let_def)
  next
    case False
    then have "map_of (buckets (tbl_cleanup t s)) k = Some b"
      using Some tbl_run(1)[OF run] by (simp add: tbl_cleanup_lookup)
    then show ?thesis using Some with_cleanup without
      by (auto simp: tbl_check_and_record_def Let_def split: if_splits)
  qed
qed

theorem resync_cleanup_invisible_witness:
  "let s = fold tbl_op [(0, TblCheck (1 :: nat))] (tbl_new 2 100000000000 5);
       (ok1, s1) = tbl_check_and_record 400000000001 1 (tbl_cleanup 400000000000 s);
       (ok2, s2) = tbl_check_and_record 400000000001 1 s
   in tbl_size (tbl_cleanup 400000000000 s) = 0 \<and> ok1 = ok2 \<and> map_of (buckets s1) 1 = map_of (buckets s2) 1"
proof -
  let ?s = "fold tbl_op [(0, TblCheck (1 :: nat))] (tbl_new 2 100000000000 5)"
  obtain ok1 s1 where 1: "tbl_check_and_record 400000000001 1 (tbl_cleanup 400000000000 ?s) = (ok1, s1)" by fastforce
  obtain ok2 s2 where 2: "tbl_check_and_record 400000000001 1 ?s = (ok2, s2)" by fastforce
  have "tbl_size (tbl_cleanup 400000000000 ?s) = 0"
    by (simp add: tbl_new_def tbl_check_and_record_def tbl_cleanup_def tbl_recovered_def RESYNC_CLEANUP_AGE_def
        from_secs_def as_secs_f64_def nat_f64_exact fadd_def fdiv_def fsub_def f64_rnd_numeral)
  moreover have "1 \<in> keys (buckets ?s)" by (simp add: tbl_new_def tbl_check_and_record_def)
  ultimately show ?thesis using resync_cleanup_invisible[OF refl _ _ _ 1 2] unfolding Let_def 1 2 by simp
qed

section \<open>Outstanding requests\<close>

datatype ('c, 'a) OrrOp = OrrRecord 'c 'a | OrrConsume 'c 'a | OrrQuery 'c 'a | OrrCleanup

text \<open>An operation and the answer its caller sees; \<open>cleanup\<close> has none, written \<open>True\<close>.\<close>

fun orr_step :: "instant \<times> ('c, 'a) OrrOp \<Rightarrow> ('c, 'a) OutstandingResyncRequests \<Rightarrow>
    bool \<times> ('c, 'a) OutstandingResyncRequests" where
  "orr_step (now, OrrRecord c a) s = orr_record now c a s"
| "orr_step (now, OrrConsume c a) s = orr_consume now c a s"
| "orr_step (now, OrrQuery c a) s = (is_outstanding now c a s, s)"
| "orr_step (now, OrrCleanup) s = (True, orr_cleanup now s)"

fun orr_answers :: "(instant \<times> ('c, 'a) OrrOp) list \<Rightarrow> ('c, 'a) OutstandingResyncRequests \<Rightarrow> bool list" where
  "orr_answers [] s = []"
| "orr_answers (e # es) s = (case orr_step e s of (b, s') \<Rightarrow> b # orr_answers es s')"

text \<open>
  The contract of the bounded table, over the map from requests to the instant of their last recording: a known request
  is recorded again, a new one if the table has room; a response takes the request out and is authorised within the
  time to live \<open>d\<close>; a clean-up takes out what is older.
\<close>

fun orr_spec_step :: "duration \<Rightarrow> nat \<Rightarrow> instant \<times> ('c, 'a) OrrOp \<Rightarrow> ('c \<times> 'a \<rightharpoonup> instant) \<Rightarrow> bool \<times> ('c \<times> 'a \<rightharpoonup> instant)" where
  "orr_spec_step d cap (now, OrrRecord c a) m =
    (if (c, a) \<in> dom m \<or> card (dom m) < cap then (True, m((c, a) \<mapsto> now)) else (False, m))"
| "orr_spec_step d cap (now, OrrConsume c a) m =
    (case m (c, a) of Some t \<Rightarrow> now \<le> t + d | None \<Rightarrow> False, m((c, a) := None))"
| "orr_spec_step d cap (now, OrrQuery c a) m = (case m (c, a) of Some t \<Rightarrow> now \<le> t + d | None \<Rightarrow> False, m)"
| "orr_spec_step d cap (now, OrrCleanup) m = (True, m |` {k. \<exists>t. m k = Some t \<and> now \<le> t + d})"

fun orr_spec_answers :: "duration \<Rightarrow> nat \<Rightarrow> (instant \<times> ('c, 'a) OrrOp) list \<Rightarrow> ('c \<times> 'a \<rightharpoonup> instant) \<Rightarrow> bool list" where
  "orr_spec_answers d cap [] m = []"
| "orr_spec_answers d cap (e # es) m = (case orr_spec_step d cap e m of (b, m') \<Rightarrow> b # orr_spec_answers d cap es m')"

text \<open>The contract of a table without bound, which never refuses a request and forgets it only when it is consumed.\<close>

fun orr_ideal_step :: "duration \<Rightarrow> instant \<times> ('c, 'a) OrrOp \<Rightarrow> ('c \<times> 'a \<rightharpoonup> instant) \<Rightarrow> bool \<times> ('c \<times> 'a \<rightharpoonup> instant)" where
  "orr_ideal_step d (now, OrrRecord c a) m = (True, m((c, a) \<mapsto> now))"
| "orr_ideal_step d (now, OrrConsume c a) m =
    (case m (c, a) of Some t \<Rightarrow> now \<le> t + d | None \<Rightarrow> False, m((c, a) := None))"
| "orr_ideal_step d (now, OrrQuery c a) m = (case m (c, a) of Some t \<Rightarrow> now \<le> t + d | None \<Rightarrow> False, m)"
| "orr_ideal_step d (now, OrrCleanup) m = (True, m)"

fun orr_ideal_answers :: "duration \<Rightarrow> (instant \<times> ('c, 'a) OrrOp) list \<Rightarrow> ('c \<times> 'a \<rightharpoonup> instant) \<Rightarrow> bool list" where
  "orr_ideal_answers d [] m = []"
| "orr_ideal_answers d (e # es) m = (case orr_ideal_step d e m of (b, m') \<Rightarrow> b # orr_ideal_answers d es m')"

fun recorded_key :: "('c, 'a) OrrOp \<Rightarrow> ('c \<times> 'a) set" where
  "recorded_key (OrrRecord c a) = {(c, a)}"
| "recorded_key _ = {}"

subsection \<open>The bounded table\<close>

definition orr_inv :: "duration \<Rightarrow> nat \<Rightarrow> ('c, 'a) OutstandingResyncRequests \<Rightarrow> bool" where
  "orr_inv d cap s \<longleftrightarrow> map_ok (orr_entries s) \<and> orr_size s = length (orr_entries s) \<and> ttl s = d \<and> orr_max_tracked s = cap"

lemma orr_size_dom: "orr_inv d cap s \<Longrightarrow> card (dom (map_of (orr_entries s))) = orr_size s"
  by (simp add: orr_inv_def length_map_ok keys_def dom_map_of_conv_image_fst)

lemma orr_cleanup_map:
  assumes "map_ok (orr_entries s)"
  shows "map_of (orr_entries (orr_cleanup now s)) =
    map_of (orr_entries s) |` {k. \<exists>t. map_of (orr_entries s) k = Some t \<and> now \<le> t + ttl s}"
proof
  fix k
  show "map_of (orr_entries (orr_cleanup now s)) k =
      (map_of (orr_entries s) |` {k. \<exists>t. map_of (orr_entries s) k = Some t \<and> now \<le> t + ttl s}) k"
    using map_of_filter[OF assms, of "\<lambda>_ t. \<not> now - t > ttl s" k]
    by (auto simp: orr_cleanup_def Let_def restrict_map_def split: option.splits if_splits)
qed

lemma orr_cleanup_inv:
  assumes "orr_inv d cap s"
  shows "orr_inv d cap (orr_cleanup now s)"
proof -
  let ?P = "\<lambda>(k :: 'a \<times> 'b, emitted). now - emitted > ttl s"
  have "length (filter ?P (orr_entries s)) + length (filter (\<lambda>x. \<not> ?P x) (orr_entries s)) = length (orr_entries s)"
    by (rule sum_length_filter_compl)
  moreover have "(\<lambda>x. \<not> ?P x) = (\<lambda>(k, emitted). \<not> now - emitted > ttl s)" by auto
  ultimately show ?thesis using assms by (auto simp: orr_inv_def orr_cleanup_def Let_def)
qed

lemma orr_step_exact:
  assumes inv: "orr_inv d cap s" and step: "orr_step (now, op) s = (b, s')"
  shows "orr_spec_step d cap (now, op) (map_of (orr_entries s)) = (b, map_of (orr_entries s')) \<and> orr_inv d cap s'"
proof -
  have ok: "map_ok (orr_entries s)" "ttl s = d" "orr_max_tracked s = cap" using inv by (auto simp: orr_inv_def)
  note size = orr_size_dom[OF inv]
  show ?thesis
  proof (cases op)
    case (OrrRecord c a)
    show ?thesis
    proof (cases "map_of (orr_entries s) (c, a)")
      case None
      then have "(c, a) \<notin> keys (orr_entries s)" by (simp add: map_of_keys)
      then show ?thesis using None step OrrRecord inv size ok
        by (auto simp: orr_record_def orr_inv_def update_conv dom_def length_update split: if_splits)
    next
      case (Some t)
      then have "(c, a) \<in> keys (orr_entries s)" using map_of_keys[of "orr_entries s" "(c, a)"] by auto
      then show ?thesis using Some step OrrRecord inv
        by (auto simp: orr_record_def orr_inv_def update_conv length_update dom_def)
    qed
  next
    case (OrrConsume c a)
    show ?thesis
    proof (cases "map_of (orr_entries s) (c, a)")
      case None
      then have "(map_of (orr_entries s))((c, a) := None) = map_of (orr_entries s)" by auto
      then show ?thesis using None step OrrConsume inv by (simp add: orr_consume_def)
    next
      case (Some t)
      then have "(c, a) \<in> keys (orr_entries s)" using map_of_keys[of "orr_entries s" "(c, a)"] by auto
      then show ?thesis using Some step OrrConsume inv
        by (auto simp: orr_consume_def orr_inv_def delete_conv length_delete)
    qed
  next
    case (OrrQuery c a)
    then show ?thesis using step inv ok by (auto simp: is_outstanding_def split: option.splits)
  next
    case OrrCleanup
    then show ?thesis using step orr_cleanup_map[OF ok(1), of now] orr_cleanup_inv[OF inv, of now] ok(2) by auto
  qed
qed

lemma orr_run_exact: "orr_inv d cap s \<Longrightarrow> orr_spec_answers d cap es (map_of (orr_entries s)) = orr_answers es s"
proof (induction es arbitrary: s)
  case (Cons e es)
  obtain b s' where step: "orr_step e s = (b, s')" by fastforce
  then show ?case using Cons orr_step_exact[of d cap s "fst e" "snd e" b s'] by simp
qed simp

subsection \<open>The table that has room\<close>

definition orr_agree :: "duration \<Rightarrow> instant \<Rightarrow> instant option \<Rightarrow> instant option \<Rightarrow> bool" where
  "orr_agree d now x y \<longleftrightarrow> (case x of Some t \<Rightarrow> y = Some t
     | None \<Rightarrow> (case y of None \<Rightarrow> True | Some t \<Rightarrow> t + d < now))"

definition orr_sim :: "instant \<Rightarrow> ('c, 'a) OutstandingResyncRequests \<Rightarrow> ('c \<times> 'a \<rightharpoonup> instant) \<Rightarrow> bool" where
  "orr_sim now s m \<longleftrightarrow> map_ok (orr_entries s) \<and> (\<forall>k. orr_agree (ttl s) now (map_of (orr_entries s) k) (m k))"

lemma orr_agree_refl [simp]: "orr_agree d now x x"
  by (simp add: orr_agree_def split: option.splits)

lemma orr_sim_mono: "orr_sim now s m \<Longrightarrow> now \<le> now' \<Longrightarrow> orr_sim now' s m"
  unfolding orr_sim_def orr_agree_def by (fastforce split: option.splits)

text \<open>Both tables forget an entry, or both set it.\<close>

lemma orr_sim_upd:
  assumes "orr_sim now s m" "ttl s' = ttl s" "map_ok (orr_entries s')" "map_of (orr_entries s') = (map_of (orr_entries s))(k := x)"
  shows "orr_sim now s' (m(k := x))"
  using assms by (simp add: orr_sim_def del: split_paired_All)

lemma orr_sim_lookup: "orr_sim now s m \<Longrightarrow>
    (case m k of Some t \<Rightarrow> now \<le> t + ttl s | None \<Rightarrow> False) =
    (case map_of (orr_entries s) k of Some t \<Rightarrow> now - t \<le> ttl s | None \<Rightarrow> False)"
  unfolding orr_sim_def orr_agree_def by (erule conjE, drule spec[of _ k]) (auto split: option.splits)

lemma orr_sim_ok: "orr_sim now s m \<Longrightarrow> map_ok (orr_entries s)"
  by (simp add: orr_sim_def)

lemma orr_cleanup_sim:
  assumes "orr_sim now s m"
  shows "orr_sim now (orr_cleanup now s) m" "ttl (orr_cleanup now s) = ttl s"
proof -
  have ok: "map_ok (orr_entries s)" using assms by (simp add: orr_sim_def)
  have look: "map_of (orr_entries (orr_cleanup now s)) k =
      (case map_of (orr_entries s) k of None \<Rightarrow> None | Some t \<Rightarrow> if \<not> now - t > ttl s then Some t else None)" for k
    using map_of_filter[OF ok, of "\<lambda>_ t. \<not> now - t > ttl s" k] by (simp add: orr_cleanup_def Let_def)
  have "orr_agree (ttl s) now (map_of (orr_entries (orr_cleanup now s)) k) (m k)" for k
    using assms unfolding look orr_sim_def orr_agree_def
    by (elim conjE, drule_tac x = k in spec) (auto split: option.splits)
  moreover have "map_ok (orr_entries (orr_cleanup now s))" using ok by (simp add: orr_cleanup_def Let_def)
  moreover show "ttl (orr_cleanup now s) = ttl s" by (simp add: orr_cleanup_def Let_def)
  ultimately show "orr_sim now (orr_cleanup now s) m" by (simp add: orr_sim_def del: split_paired_All)
qed

lemma orr_record_sim:
  assumes "orr_sim now s m" "orr_record now c a s = (b, s')"
  shows "orr_sim now s' (if b then m((c, a) \<mapsto> now) else m) \<and> ttl s' = ttl s"
  using assms orr_sim_upd[OF assms(1), of s' "(c, a)" "Some now"] orr_sim_ok[OF assms(1)]
  by (auto simp: orr_record_def update_conv split: option.splits if_splits)

lemma orr_consume_sim:
  assumes sim: "orr_sim now s m" and step: "orr_consume now c a s = (b, s')"
  shows "orr_sim now s' (m((c, a) := None)) \<and> ttl s' = ttl s"
proof (cases "map_of (orr_entries s) (c, a)")
  case None
  then have "s' = s" "(map_of (orr_entries s))((c, a) := None) = map_of (orr_entries s)"
    using step by (auto simp: orr_consume_def)
  then show ?thesis using orr_sim_upd[OF sim, of s "(c, a)" None] orr_sim_ok[OF sim] by simp
next
  case (Some t)
  then show ?thesis using orr_sim_upd[OF sim, of s' "(c, a)" None] orr_sim_ok[OF sim] step
    by (auto simp: orr_consume_def delete_conv)
qed

lemma orr_step_sim:
  assumes sim: "orr_sim now s m" and step: "orr_step (now, op) s = (b, s')"
    and room: "\<And>c a. op = OrrRecord c a \<Longrightarrow> b"
  shows "\<exists>m'. orr_ideal_step (ttl s) (now, op) m = (b, m') \<and> orr_sim now s' m' \<and> ttl s' = ttl s"
proof (cases op)
  case (OrrRecord c a)
  then show ?thesis using step orr_record_sim[OF sim, of c a b s'] room by auto
next
  case (OrrConsume c a)
  moreover have "b = (case map_of (orr_entries s) (c, a) of Some t \<Rightarrow> now - t \<le> ttl s | None \<Rightarrow> False)"
    using step OrrConsume by (auto simp: orr_consume_def split: option.splits)
  ultimately show ?thesis using step orr_consume_sim[OF sim, of c a b s'] orr_sim_lookup[OF sim, of "(c, a)"] by simp
next
  case (OrrQuery c a)
  then show ?thesis using step sim orr_sim_lookup[OF sim, of "(c, a)"] by (auto simp: is_outstanding_def)
next
  case OrrCleanup
  then show ?thesis using step orr_cleanup_sim[OF sim] by auto
qed

lemma orr_step_keys:
  assumes "orr_step (now, op) s = (b, s')" "keys (orr_entries s) \<union> recorded_key op \<subseteq> K" "finite K" "card K \<le> cap" "orr_inv d cap s"
  shows "keys (orr_entries s') \<subseteq> K" "\<And>c a. op = OrrRecord c a \<Longrightarrow> b"
proof -
  show "keys (orr_entries s') \<subseteq> K"
    using assms(1,2) by (cases op)
      (auto simp: orr_record_def orr_consume_def orr_cleanup_def Let_def split: option.splits if_splits, auto simp: keys_def)
  fix c a
  assume op: "op = OrrRecord c a"
  show b
  proof (rule ccontr)
    assume "\<not> b"
    then have full: "(c, a) \<notin> keys (orr_entries s)" "cap \<le> orr_size s"
      using assms(1,5) op by (auto simp: orr_record_def orr_inv_def map_of_keys split: option.splits if_splits)
    have "insert (c, a) (keys (orr_entries s)) \<subseteq> K" using assms(2) op by auto
    then have "card (insert (c, a) (keys (orr_entries s))) \<le> cap" using card_mono[OF assms(3)] assms(4) by (meson le_trans)
    then show False using full assms(5) by (simp add: orr_inv_def length_map_ok)
  qed
qed

lemma orr_run_sim:
  "orr_sim t0 s m \<Longrightarrow> sorted (t0 # map fst es) \<Longrightarrow> orr_inv d cap s \<Longrightarrow>
    keys (orr_entries s) \<union> (\<Union>e \<in> set es. recorded_key (snd e)) \<subseteq> K \<Longrightarrow> finite K \<Longrightarrow> card K \<le> cap \<Longrightarrow>
    orr_ideal_answers d es m = orr_answers es s"
proof (induction es arbitrary: t0 s m)
  case (Cons e es)
  obtain now op where e: "e = (now, op)" by (cases e)
  obtain b s' where step: "orr_step (now, op) s = (b, s')" by fastforce
  have ttl: "ttl s = d" using Cons.prems(3) by (simp add: orr_inv_def)
  have "keys (orr_entries s) \<union> recorded_key op \<subseteq> K" using Cons.prems(4) e by auto
  note keys' = orr_step_keys[OF step this Cons.prems(5,6,3)]
  have "orr_sim now s m" using Cons.prems(1,2) by (auto simp: e intro: orr_sim_mono)
  from orr_step_sim[OF this step] keys'(2) obtain m' where m': "orr_ideal_step d e m = (b, m')" "orr_sim now s' m'"
    using ttl e by blast
  have "orr_inv d cap s'" using orr_step_exact[OF Cons.prems(3) step] by simp
  then show ?case using Cons.IH[OF m'(2)] Cons.prems keys'(1) step m'(1) by (simp add: e)
qed simp

text \<open>
  C37: the table of outstanding requests implements its contract. Over any run its answers to \<open>record\<close>, \<open>consume\<close> and
  \<open>is_outstanding\<close> are those of the bounded map of the specification: \<open>record\<close> answers yes for a known request, which it
  refreshes, and for a new one exactly when fewer than the cap are held. And over any run with non-decreasing
  times in which no more requests are recorded than the cap, with clean-ups anywhere in it, the answers are those of a
  map without bound that never refuses a request and forgets it only when it is consumed. So a response is authorised once
  per recorded request, only from the peer and for the contract recorded, and only within the time-to-live.
\<close>

theorem outstanding_refines_contract:
  fixes es :: "(instant \<times> ('c, 'a) OrrOp) list"
  shows "orr_answers es orr_new = orr_spec_answers OUTSTANDING_RESYNC_TTL MAX_TRACKED_KEYS es Map.empty \<and>
    (sorted (map fst es) \<and> card (\<Union>e \<in> set es. recorded_key (snd e)) \<le> MAX_TRACKED_KEYS \<longrightarrow>
      orr_answers es orr_new = orr_ideal_answers OUTSTANDING_RESYNC_TTL es Map.empty)"
proof -
  let ?new = "orr_new :: ('c, 'a) OutstandingResyncRequests" and ?K = "\<Union>e \<in> set es. recorded_key (snd e)"
  have inv: "orr_inv OUTSTANDING_RESYNC_TTL MAX_TRACKED_KEYS ?new" by (simp add: orr_inv_def orr_new_def)
  have "map_of (orr_entries ?new) = Map.empty" by (simp add: orr_new_def)
  then have "orr_answers es ?new = orr_spec_answers OUTSTANDING_RESYNC_TTL MAX_TRACKED_KEYS es Map.empty"
    using orr_run_exact[OF inv, of es] by simp
  moreover have "orr_answers es ?new = orr_ideal_answers OUTSTANDING_RESYNC_TTL es Map.empty"
    if "sorted (map fst es)" "card ?K \<le> MAX_TRACKED_KEYS"
  proof -
    have "finite (recorded_key op)" for op :: "('c, 'a) OrrOp" by (cases op) auto
    moreover have "orr_sim 0 ?new Map.empty" by (simp add: orr_sim_def orr_new_def)
    ultimately show ?thesis using orr_run_sim[OF _ _ inv, of 0 Map.empty es ?K] that by (simp add: orr_new_def)
  qed
  ultimately show ?thesis by blast
qed

theorem outstanding_refines_contract_witness:
  "let es = [(0, OrrRecord (1 :: nat) (2 :: nat)), (59000000000, OrrRecord 1 2), (61000000000, OrrCleanup),
             (61000000000, OrrConsume 1 2), (62000000000, OrrQuery 1 2), (63000000000, OrrConsume 1 2)]
   in orr_ideal_answers OUTSTANDING_RESYNC_TTL es Map.empty = [True, True, True, True, False, False] \<and>
      orr_answers es orr_new = [True, True, True, True, False, False]"
proof -
  let ?es = "[(0, OrrRecord (1 :: nat) (2 :: nat)), (59000000000, OrrRecord 1 2), (61000000000, OrrCleanup),
      (61000000000, OrrConsume 1 2), (62000000000, OrrQuery 1 2), (63000000000, OrrConsume 1 2)]"
  have "orr_answers ?es orr_new = orr_ideal_answers OUTSTANDING_RESYNC_TTL ?es Map.empty"
    by (rule outstanding_refines_contract[THEN conjunct2, rule_format]) (simp add: MAX_TRACKED_KEYS_def)
  moreover have "orr_ideal_answers OUTSTANDING_RESYNC_TTL ?es Map.empty = [True, True, True, True, False, False]"
    by (simp add: OUTSTANDING_RESYNC_TTL_def from_secs_def)
  ultimately show ?thesis by (simp only: Let_def)
qed

end
