(* ===== verification/Hosting_Cache.thy ===== *)
theory Hosting_Cache
  imports Float64 "HOL-Library.Product_Lexorder"
begin

text \<open>
  The cache of hosted contracts, \<open>ring/hosting/cache.rs\<close>: byte accounting, the recency of accesses, eviction over
  the byte budget in the order of demand, and eviction of contracts that dominate a cost axis. A contract key
  is an element of a linearly ordered type, whose order is that of the key's bytes; the subscriber counts of
  the hosting manager are a function argument, as in the source. A rate that may be NaN is a \<open>rat option\<close>.
\<close>

section \<open>Budgets\<close>

definition MIN_DEFAULT_HOSTING_BUDGET_BYTES :: nat where
  "MIN_DEFAULT_HOSTING_BUDGET_BYTES = 128 * 1024 * 1024"

definition MAX_DEFAULT_HOSTING_BUDGET_BYTES :: nat where
  "MAX_DEFAULT_HOSTING_BUDGET_BYTES = 1024 * 1024 * 1024"

definition DEFAULT_HOSTING_BUDGET_RAM_DIVISOR :: nat where
  "DEFAULT_HOSTING_BUDGET_RAM_DIVISOR = 8"

definition DEFAULT_MAX_HOSTING_DISK_BYTES :: nat where
  "DEFAULT_MAX_HOSTING_DISK_BYTES = 32 * 1024 * 1024 * 1024"

definition budget_for_ram :: "nat \<Rightarrow> nat" where
  "budget_for_ram total_ram =
    min (max (total_ram div DEFAULT_HOSTING_BUDGET_RAM_DIVISOR) MIN_DEFAULT_HOSTING_BUDGET_BYTES)
        MAX_DEFAULT_HOSTING_BUDGET_BYTES"

text \<open>\<open>None\<close> is a percentage that is not finite; the conversion of a float to \<open>u64\<close> truncates.\<close>

definition disk_budget_for_clamped :: "nat \<Rightarrow> nat \<Rightarrow> rat option \<Rightarrow> nat \<Rightarrow> nat \<Rightarrow> nat" where
  "disk_budget_for_clamped freenet_used available pct0 min_bytes max_bytes =
    (let pct = (case pct0 of Some p \<Rightarrow> min (max p 0) 1 | None \<Rightarrow> 0);
         basis = sat_add64 freenet_used available;
         raw = fmul (nat_f64 basis) pct;
         budget = (if raw \<ge> nat_f64 u64_max then u64_max else nat \<lfloor>raw\<rfloor>)
     in max (min budget max_bytes) min_bytes)"

definition disk_budget_for :: "nat \<Rightarrow> nat \<Rightarrow> rat option \<Rightarrow> nat" where
  "disk_budget_for freenet_used available pct =
    disk_budget_for_clamped freenet_used available pct MIN_DEFAULT_HOSTING_BUDGET_BYTES DEFAULT_MAX_HOSTING_DISK_BYTES"

section \<open>State\<close>

datatype AccessType = Get | Put | Subscribe

datatype MemoryPressure = AtCapacity | Overflow

record HostedContract =
  size_bytes :: nat
  last_accessed :: instant
  last_access_seq :: nat
  recency_seq :: nat
  last_genuine_access :: "instant option"
  keep_score :: rat
  predicted_demand :: rat
  read_count :: nat
  inserted_at :: instant
  seeded_this_run :: bool
  access_type :: AccessType
  local_client_access :: bool
  local_client_last_access :: "instant option"
  write_generation :: nat
  abandoned_at :: "instant option"

record 'k HostingCache =
  budget_bytes :: nat
  current_bytes :: nat
  contracts :: "('k, HostedContract) hash_map"
  access_seq :: nat
  eviction_floor :: rat
  budget_evictions_total :: nat
  evictions_of_recently_read_total :: nat
  evicted_unread_total :: nat
  evicted_unread_age_secs_sum :: nat
  oom_valve_evictions_total :: nat
  subscribed_evictions_total :: nat
  cost_evictions_total :: nat

record 'k EvictedContract =
  victim :: 'k
  victim_generation :: nat
  was_in_use :: bool

record 'k RecordAccessResult =
  is_new :: bool
  evicted :: "('k \<times> nat) list"
  evicted_in_use :: "'k list"
  observed_read_rate :: "rat option"

definition hc_new :: "nat \<Rightarrow> 'k HostingCache" where
  "hc_new budget = \<lparr>budget_bytes = budget, current_bytes = 0, contracts = [], access_seq = 0, eviction_floor = 0,
     budget_evictions_total = 0, evictions_of_recently_read_total = 0, evicted_unread_total = 0,
     evicted_unread_age_secs_sum = 0, oom_valve_evictions_total = 0, subscribed_evictions_total = 0,
     cost_evictions_total = 0\<rparr>"

definition next_seq :: "'k HostingCache \<Rightarrow> nat \<times> 'k HostingCache" where
  "next_seq c = (sat_add64 (access_seq c) 1, c\<lparr>access_seq := sat_add64 (access_seq c) 1\<rparr>)"

text \<open>\<open>if let Some(existing) = self.contracts.get_mut(key)\<close>.\<close>

definition update_entry :: "'k \<Rightarrow> (HostedContract \<Rightarrow> HostedContract) \<Rightarrow> 'k HostingCache \<Rightarrow> 'k HostingCache" where
  "update_entry k f c =
    (case map_of (contracts c) k of Some e \<Rightarrow> c\<lparr>contracts := AList.update k (f e) (contracts c)\<rparr> | None \<Rightarrow> c)"

section \<open>Eviction over the budget\<close>

text \<open>\<open>victim_order\<close> compares lexicographically; its result is that of comparing these tuples.\<close>

definition victim_order :: "'k \<times> nat \<times> nat \<times> nat \<Rightarrow> nat \<times> nat \<times> nat \<times> 'k" where
  "victim_order = (\<lambda>(key, loc, downstream, seq). (loc, downstream, seq, key))"

definition eviction_candidates :: "('k :: linorder \<Rightarrow> nat \<times> nat) \<Rightarrow> MemoryPressure \<Rightarrow> 'k option \<Rightarrow> 'k HostingCache \<Rightarrow>
    ('k \<times> nat \<times> nat \<times> nat) list" where
  "eviction_candidates subscriber_counts pressure protected c =
    sort_key victim_order
      (map (\<lambda>(key, e). (key, fst (subscriber_counts key), snd (subscriber_counts key), recency_seq e))
        (filter (\<lambda>(key, e). case pressure of AtCapacity \<Rightarrow> protected \<noteq> Some key | Overflow \<Rightarrow> True) (contracts c)))"

definition evict_entry :: "instant \<Rightarrow> MemoryPressure \<Rightarrow> 'k \<Rightarrow> bool \<Rightarrow> HostedContract \<Rightarrow> 'k HostingCache \<Rightarrow> 'k HostingCache" where
  "evict_entry now pressure key in_use e c =
    (let c1 = c\<lparr>contracts := AList.delete key (contracts c),
               current_bytes := current_bytes c - size_bytes e,
               budget_evictions_total := sat_add64 (budget_evictions_total c) 1\<rparr>;
         c2 = (if in_use then c1\<lparr>subscribed_evictions_total := sat_add64 (subscribed_evictions_total c1) 1\<rparr> else c1);
         c3 = (if pressure = Overflow then c2\<lparr>oom_valve_evictions_total := sat_add64 (oom_valve_evictions_total c2) 1\<rparr> else c2);
         c4 = (if read_count e \<ge> 2
               then c3\<lparr>evictions_of_recently_read_total := sat_add64 (evictions_of_recently_read_total c3) 1\<rparr> else c3);
         c5 = (if read_count e = 0 \<and> seeded_this_run e
               then c4\<lparr>evicted_unread_total := sat_add64 (evicted_unread_total c4) 1,
                       evicted_unread_age_secs_sum := sat_add64 (evicted_unread_age_secs_sum c4) ((now - inserted_at e) div 1000000000)\<rparr>
               else c4)
     in if keep_score e > eviction_floor c5 then c5\<lparr>eviction_floor := keep_score e\<rparr> else c5)"

text \<open>The loop over the sorted candidates, with its \<open>break\<close>.\<close>

fun hc_evict_loop :: "instant \<Rightarrow> MemoryPressure \<Rightarrow> ('k \<times> nat \<times> nat \<times> nat) list \<Rightarrow> 'k HostingCache \<Rightarrow>
    'k EvictedContract list \<times> 'k HostingCache" where
  "hc_evict_loop now pressure [] c = ([], c)"
| "hc_evict_loop now pressure ((key, loc, downstream, seq) # cs) c =
    (if current_bytes c \<le> budget_bytes c then ([], c)
     else case map_of (contracts c) key of
            Some e \<Rightarrow>
              let in_use = (loc + downstream > 0);
                  (vs, c') = hc_evict_loop now pressure cs (evict_entry now pressure key in_use e c)
              in (\<lparr>victim = key, victim_generation = write_generation e, was_in_use = in_use\<rparr> # vs, c')
          | None \<Rightarrow> hc_evict_loop now pressure cs c)"

definition evict_over_budget :: "instant \<Rightarrow> ('k :: linorder \<Rightarrow> nat \<times> nat) \<Rightarrow> MemoryPressure \<Rightarrow> 'k option \<Rightarrow>
    'k HostingCache \<Rightarrow> 'k EvictedContract list \<times> 'k HostingCache" where
  "evict_over_budget now subscriber_counts pressure protected c =
    (if current_bytes c \<le> budget_bytes c then ([], c)
     else hc_evict_loop now pressure (eviction_candidates subscriber_counts pressure protected c) c)"

definition sweep_expired :: "instant \<Rightarrow> ('k :: linorder \<Rightarrow> nat \<times> nat) \<Rightarrow> MemoryPressure \<Rightarrow> 'k HostingCache \<Rightarrow>
    'k EvictedContract list \<times> 'k HostingCache" where
  "sweep_expired now subscriber_counts pressure c = evict_over_budget now subscriber_counts pressure None c"

section \<open>Accesses\<close>

definition rate_sample :: "nat \<Rightarrow> instant \<Rightarrow> instant \<Rightarrow> rat option" where
  "rate_sample reads now inserted =
    (let residency = now - inserted
     in if residency = 0 then None
        else let residency_secs = max (as_secs_f64 residency) 1 in Some (fdiv (nat_f64 reads) residency_secs))"

text \<open>The entry of a contract that is already cached, after an access; \<open>fl\<close> is the eviction floor.\<close>

definition refreshed_entry :: "instant \<Rightarrow> nat \<Rightarrow> nat \<Rightarrow> AccessType \<Rightarrow> nat \<Rightarrow> rat \<Rightarrow> rat \<Rightarrow> HostedContract \<Rightarrow> HostedContract" where
  "refreshed_entry now seq bytes access generation demand fl e0 =
    (let e1 = e0\<lparr>size_bytes := bytes, last_accessed := now, last_access_seq := seq, access_type := access,
                 write_generation := generation, predicted_demand := demand\<rparr>;
         e2 = (if access = Get \<or> access = Put then e1\<lparr>recency_seq := seq, last_genuine_access := Some now\<rparr> else e1)
     in if access = Get \<or> access = Subscribe
        then e2\<lparr>read_count := sat_add32 (read_count e2) 1, abandoned_at := None, keep_score := fadd fl demand\<rparr>
        else e2)"

definition new_entry :: "instant \<Rightarrow> nat \<Rightarrow> nat \<Rightarrow> AccessType \<Rightarrow> nat \<Rightarrow> rat \<Rightarrow> rat \<Rightarrow> HostedContract" where
  "new_entry now seq bytes access generation demand fl =
    \<lparr>size_bytes = bytes, last_accessed = now, last_access_seq = seq,
     recency_seq = if access = Get \<or> access = Put then seq else 0,
     last_genuine_access = if access = Get \<or> access = Put then Some now else None,
     keep_score = fadd fl demand, predicted_demand = demand,
     read_count = if access = Get \<or> access = Subscribe then 1 else 0,
     inserted_at = now, seeded_this_run = True, access_type = access, local_client_access = False,
     local_client_last_access = None, write_generation = generation, abandoned_at = None\<rparr>"

definition record_access_with_demand :: "instant \<Rightarrow> 'k :: linorder \<Rightarrow> nat \<Rightarrow> AccessType \<Rightarrow> nat \<Rightarrow> rat \<Rightarrow>
    ('k \<Rightarrow> nat \<times> nat) \<Rightarrow> 'k HostingCache \<Rightarrow> 'k RecordAccessResult \<times> 'k HostingCache" where
  "record_access_with_demand now key bytes access generation demand subscriber_counts c0 =
    (let (seq, c) = next_seq c0
     in case map_of (contracts c) key of
          Some e0 \<Rightarrow>
            let c1 = (if size_bytes e0 \<noteq> bytes
                      then c\<lparr>current_bytes := sat_add64 (current_bytes c) bytes - size_bytes e0\<rparr> else c);
                e = refreshed_entry now seq bytes access generation demand (eviction_floor c) e0
            in (\<lparr>is_new = False, evicted = [], evicted_in_use = [],
                 observed_read_rate =
                   (if access = Get \<or> access = Subscribe then rate_sample (read_count e) now (inserted_at e) else None)\<rparr>,
                c1\<lparr>contracts := AList.update key e (contracts c1)\<rparr>)
        | None \<Rightarrow>
            let e = new_entry now seq bytes access generation demand (eviction_floor c);
                c1 = c\<lparr>contracts := AList.update key e (contracts c), current_bytes := sat_add64 (current_bytes c) bytes\<rparr>;
                (vs, c2) = evict_over_budget now subscriber_counts AtCapacity (Some key) c1
            in (\<lparr>is_new = True, evicted = map (\<lambda>v. (victim v, victim_generation v)) vs,
                 evicted_in_use = map victim (filter was_in_use vs), observed_read_rate = None\<rparr>, c2))"

definition NEUTRAL_DEMAND :: rat where
  "NEUTRAL_DEMAND = 1"

definition record_access :: "instant \<Rightarrow> 'k :: linorder \<Rightarrow> nat \<Rightarrow> AccessType \<Rightarrow> nat \<Rightarrow> ('k \<Rightarrow> nat \<times> nat) \<Rightarrow>
    'k HostingCache \<Rightarrow> 'k RecordAccessResult \<times> 'k HostingCache" where
  "record_access now key bytes access generation subscriber_counts c =
    record_access_with_demand now key bytes access generation NEUTRAL_DEMAND subscriber_counts c"

definition mark_local_client_access :: "instant \<Rightarrow> 'k \<Rightarrow> 'k HostingCache \<Rightarrow> 'k HostingCache" where
  "mark_local_client_access now key c =
    update_entry key (\<lambda>e. e\<lparr>local_client_access := True, local_client_last_access := Some now\<rparr>) c"

definition has_local_client_access :: "'k \<Rightarrow> 'k HostingCache \<Rightarrow> bool" where
  "has_local_client_access key c =
    (case map_of (contracts c) key of Some e \<Rightarrow> local_client_access e | None \<Rightarrow> False)"

definition has_recent_local_client_access :: "instant \<Rightarrow> 'k \<Rightarrow> duration \<Rightarrow> 'k HostingCache \<Rightarrow> bool" where
  "has_recent_local_client_access now key max_age c =
    (case map_of (contracts c) key of
       Some e \<Rightarrow> (case local_client_last_access e of Some t \<Rightarrow> now - t < max_age | None \<Rightarrow> False)
     | None \<Rightarrow> False)"

definition touch_with_demand :: "instant \<Rightarrow> 'k \<Rightarrow> rat \<Rightarrow> 'k HostingCache \<Rightarrow> rat option \<times> 'k HostingCache" where
  "touch_with_demand now key demand c0 =
    (let fl = eviction_floor c0; (seq, c) = next_seq c0
     in case map_of (contracts c) key of
          Some e0 \<Rightarrow>
            let e = e0\<lparr>last_accessed := now, last_access_seq := seq, recency_seq := seq, last_genuine_access := Some now,
                       read_count := sat_add32 (read_count e0) 1, abandoned_at := None, predicted_demand := demand,
                       keep_score := fadd fl demand\<rparr>
            in (rate_sample (read_count e) now (inserted_at e), c\<lparr>contracts := AList.update key e (contracts c)\<rparr>)
        | None \<Rightarrow> (None, c))"

definition touch :: "instant \<Rightarrow> 'k \<Rightarrow> 'k HostingCache \<Rightarrow> rat option \<times> 'k HostingCache" where
  "touch now key c =
    (case map_of (contracts c) key of
       Some e \<Rightarrow> touch_with_demand now key (predicted_demand e) c
     | None \<Rightarrow> (None, c))"

definition record_abandonment :: "instant \<Rightarrow> 'k \<Rightarrow> 'k HostingCache \<Rightarrow> 'k HostingCache" where
  "record_abandonment now key c0 =
    (let fl = eviction_floor c0;
         is_termination = (case map_of (contracts c0) key of Some e \<Rightarrow> abandoned_at e = None | None \<Rightarrow> False)
     in if \<not> is_termination then c0
        else let (seq, c) = next_seq c0
             in update_entry key (\<lambda>e. e\<lparr>abandoned_at := Some now, recency_seq := seq, last_genuine_access := Some now,
                                       keep_score := fl\<rparr>) c)"

definition refresh_entry_generation :: "'k \<Rightarrow> nat \<Rightarrow> 'k HostingCache \<Rightarrow> 'k HostingCache" where
  "refresh_entry_generation key new_gen c = update_entry key (\<lambda>e. e\<lparr>write_generation := new_gen\<rparr>) c"

definition set_budget_bytes :: "nat \<Rightarrow> 'k HostingCache \<Rightarrow> 'k HostingCache" where
  "set_budget_bytes budget c = c\<lparr>budget_bytes := budget\<rparr>"

section \<open>Eviction for cost\<close>

definition COST_SHARE_THRESHOLD :: rat where
  "COST_SHARE_THRESHOLD = 1 / 4"

definition EXEC_CPU_PRESSURE_FLOOR_MICROS_PER_SEC :: rat where
  "EXEC_CPU_PRESSURE_FLOOR_MICROS_PER_SEC = 50000"

definition BROADCAST_FANOUT_PRESSURE_FLOOR_BYTES_PER_SEC :: rat where
  "BROADCAST_FANOUT_PRESSURE_FLOOR_BYTES_PER_SEC = 128 * 1024"

definition BROADCAST_MESSAGES_PRESSURE_FLOOR_PER_SEC :: rat where
  "BROADCAST_MESSAGES_PRESSURE_FLOOR_PER_SEC = 10"

definition COST_RATE_MIN_WINDOW :: duration where
  "COST_RATE_MIN_WINDOW = from_secs 300"

definition SUBSCRIPTION_RENEWAL_INTERVAL :: duration where
  "SUBSCRIPTION_RENEWAL_INTERVAL = from_secs 120"

definition LEASE_RENEWAL_MULTIPLIER :: nat where
  "LEASE_RENEWAL_MULTIPLIER = 4"

definition SUBSCRIPTION_LEASE_DURATION :: duration where
  "SUBSCRIPTION_LEASE_DURATION = SUBSCRIPTION_RENEWAL_INTERVAL * LEASE_RENEWAL_MULTIPLIER"

text \<open>The code looks a rate up by the instance id of the contract key; a key of type \<open>'k\<close> stands for its id here.\<close>

record 'k CostAxisPressure =
  axis :: string
  total_rate :: "rat option"
  axis_floor :: rat
  rates :: "('k, rat option) hash_map"

definition build_cost_axes :: "rat option \<times> ('k, rat option) hash_map \<Rightarrow> rat option \<times> ('k, rat option) hash_map \<Rightarrow>
    rat option \<times> ('k, rat option) hash_map \<Rightarrow> 'k CostAxisPressure list" where
  "build_cost_axes exec_cpu fanout_bytes messages =
    [\<lparr>axis = ''exec_cpu_micros_per_sec'', total_rate = fst exec_cpu,
      axis_floor = EXEC_CPU_PRESSURE_FLOOR_MICROS_PER_SEC, rates = snd exec_cpu\<rparr>,
     \<lparr>axis = ''broadcast_fanout_bytes_per_sec'', total_rate = fst fanout_bytes,
      axis_floor = BROADCAST_FANOUT_PRESSURE_FLOOR_BYTES_PER_SEC, rates = snd fanout_bytes\<rparr>,
     \<lparr>axis = ''broadcast_messages_per_sec'', total_rate = fst messages,
      axis_floor = BROADCAST_MESSAGES_PRESSURE_FLOOR_PER_SEC, rates = snd messages\<rparr>]"

text \<open>Every comparison with NaN is false.\<close>

definition cost_eviction_candidate :: "nat \<Rightarrow> nat \<Rightarrow> rat option \<Rightarrow> bool \<Rightarrow> bool" where
  "cost_eviction_candidate local_subs downstream_subs attributed_rate recently_accessed \<longleftrightarrow>
    local_subs = 0 \<and> downstream_subs = 0 \<and> \<not> recently_accessed \<and>
    (case attributed_rate of Some r \<Rightarrow> r > 0 | None \<Rightarrow> False)"

definition recently_accessed :: "instant \<Rightarrow> HostedContract \<Rightarrow> bool" where
  "recently_accessed now e \<longleftrightarrow>
    (case last_genuine_access e of Some t \<Rightarrow> now - t < COST_RATE_MIN_WINDOW | None \<Rightarrow> False) \<or>
    (case local_client_last_access e of Some t \<Rightarrow> now - t < SUBSCRIPTION_LEASE_DURATION | None \<Rightarrow> False)"

text \<open>The attributed rate of an offender on an axis whose share cut-off is \<open>cutoff\<close>; \<open>None\<close> for any other entry.\<close>

definition offender_rate :: "instant \<Rightarrow> ('k \<Rightarrow> nat \<times> nat) \<Rightarrow> ('k, rat option) hash_map \<Rightarrow> rat \<Rightarrow> 'k \<Rightarrow> HostedContract \<Rightarrow>
    rat option" where
  "offender_rate now subscriber_counts rs cutoff key e =
    (let rate = (case map_of rs key of Some r \<Rightarrow> r | None \<Rightarrow> Some 0)
     in if (case rate of Some r \<Rightarrow> r \<le> cutoff | None \<Rightarrow> False) then None
        else let (loc, downstream) = subscriber_counts key
             in if cost_eviction_candidate loc downstream rate (recently_accessed now e) then rate else None)"

fun shed_offenders :: "('k \<times> rat) list \<Rightarrow> 'k HostingCache \<Rightarrow> 'k EvictedContract list \<times> 'k HostingCache" where
  "shed_offenders [] c = ([], c)"
| "shed_offenders ((key, rate) # os) c =
    (case map_of (contracts c) key of
       Some e \<Rightarrow>
         let (vs, c') = shed_offenders os
               (c\<lparr>contracts := AList.delete key (contracts c), current_bytes := current_bytes c - size_bytes e,
                  cost_evictions_total := sat_add64 (cost_evictions_total c) 1\<rparr>)
         in (\<lparr>victim = key, victim_generation = write_generation e, was_in_use = False\<rparr> # vs, c')
     | None \<Rightarrow> shed_offenders os c)"

text \<open>Descending by rate, ties by key.\<close>

definition offenders :: "instant \<Rightarrow> ('k :: linorder \<Rightarrow> nat \<times> nat) \<Rightarrow> ('k, rat option) hash_map \<Rightarrow> rat \<Rightarrow> 'k HostingCache \<Rightarrow>
    ('k \<times> rat) list" where
  "offenders now subscriber_counts rs cutoff c =
    sort_key (\<lambda>(key, rate). (- rate, key))
      (List.map_filter (\<lambda>(key, e). map_option (Pair key) (offender_rate now subscriber_counts rs cutoff key e)) (contracts c))"

definition evict_axis :: "instant \<Rightarrow> ('k :: linorder \<Rightarrow> nat \<times> nat) \<Rightarrow> 'k CostAxisPressure \<Rightarrow> 'k HostingCache \<Rightarrow>
    'k EvictedContract list \<times> 'k HostingCache" where
  "evict_axis now subscriber_counts a c =
    (case total_rate a of
       None \<Rightarrow> ([], c)
     | Some tot \<Rightarrow>
         if tot \<le> axis_floor a then ([], c)
         else shed_offenders (offenders now subscriber_counts (rates a) (fmul COST_SHARE_THRESHOLD tot) c) c)"

fun evict_cost_pressure :: "instant \<Rightarrow> ('k :: linorder \<Rightarrow> nat \<times> nat) \<Rightarrow> 'k CostAxisPressure list \<Rightarrow> 'k HostingCache \<Rightarrow>
    'k EvictedContract list \<times> 'k HostingCache" where
  "evict_cost_pressure now subscriber_counts [] c = ([], c)"
| "evict_cost_pressure now subscriber_counts (a # axes) c =
    (let (vs, c1) = evict_axis now subscriber_counts a c;
         (ws, c2) = evict_cost_pressure now subscriber_counts axes c1
     in (vs @ ws, c2))"

section \<open>Loading after a restart\<close>

definition load_persisted_entry_with_demand :: "instant \<Rightarrow> 'k \<Rightarrow> nat \<Rightarrow> AccessType \<Rightarrow> duration \<Rightarrow> bool \<Rightarrow> rat \<Rightarrow>
    'k HostingCache \<Rightarrow> 'k HostingCache" where
  "load_persisted_entry_with_demand now key bytes access last_access_age local_access demand c =
    (if contains_key (contracts c) key then c
     else
       let accessed = (if last_access_age \<le> now then now - last_access_age else now);
           e = \<lparr>size_bytes = bytes, last_accessed = accessed, last_access_seq = 0, recency_seq = 0,
                last_genuine_access = (case access of Get \<Rightarrow> Some accessed | _ \<Rightarrow> None),
                keep_score = fadd (eviction_floor c) demand, predicted_demand = demand, read_count = 0,
                inserted_at = now, seeded_this_run = False, access_type = access, local_client_access = local_access,
                local_client_last_access = if local_access then Some now else None, write_generation = 0,
                abandoned_at = None\<rparr>
       in c\<lparr>contracts := AList.update key e (contracts c), current_bytes := sat_add64 (current_bytes c) bytes\<rparr>)"

definition load_persisted_entry :: "instant \<Rightarrow> 'k \<Rightarrow> nat \<Rightarrow> AccessType \<Rightarrow> duration \<Rightarrow> bool \<Rightarrow>
    'k HostingCache \<Rightarrow> 'k HostingCache" where
  "load_persisted_entry now key bytes access last_access_age local_access c =
    load_persisted_entry_with_demand now key bytes access last_access_age local_access NEUTRAL_DEMAND c"

definition finalize_loading :: "'k HostingCache \<Rightarrow> 'k HostingCache" where
  "finalize_loading c =
    fold (\<lambda>(key, _) c. let (seq, c') = next_seq c in update_entry key (\<lambda>e. e\<lparr>last_access_seq := seq\<rparr>) c')
      (sort_key (last_accessed \<circ> snd) (contracts c)) c"

section \<open>Statistics\<close>

record HostingCacheStats =
  stats_budget_bytes :: nat
  stats_current_bytes :: nat
  contract_count :: nat
  stats_budget_evictions_total :: nat
  stats_subscribed_evictions_total :: nat
  stats_cost_evictions_total :: nat
  stats_evictions_of_recently_read_total :: nat
  stats_evicted_unread_total :: nat
  stats_evicted_unread_age_secs_sum :: nat
  stats_oom_valve_evictions_total :: nat

definition hc_stats :: "'k HostingCache \<Rightarrow> HostingCacheStats" where
  "hc_stats c = \<lparr>stats_budget_bytes = budget_bytes c, stats_current_bytes = current_bytes c,
     contract_count = length (contracts c), stats_budget_evictions_total = budget_evictions_total c,
     stats_subscribed_evictions_total = subscribed_evictions_total c,
     stats_cost_evictions_total = cost_evictions_total c,
     stats_evictions_of_recently_read_total = evictions_of_recently_read_total c,
     stats_evicted_unread_total = evicted_unread_total c,
     stats_evicted_unread_age_secs_sum = evicted_unread_age_secs_sum c,
     stats_oom_valve_evictions_total = oom_valve_evictions_total c\<rparr>"

record 'k HostingContractScore =
  score_key :: 'k
  score_keep_score :: rat
  score_predicted_demand :: rat
  score_size_bytes :: nat
  score_read_count :: nat
  score_recency_seq :: nat

definition eviction_ordered_scores :: "'k :: linorder HostingCache \<Rightarrow> 'k HostingContractScore list" where
  "eviction_ordered_scores c =
    sort_key (\<lambda>row. (score_recency_seq row, score_key row))
      (map (\<lambda>(k, v). \<lparr>score_key = k, score_keep_score = keep_score v, score_predicted_demand = predicted_demand v,
                      score_size_bytes = size_bytes v, score_read_count = read_count v, score_recency_seq = recency_seq v\<rparr>)
        (contracts c))"

end
