(* ===== verification/Hosting_Properties.thy ===== *)
theory Hosting_Properties
  imports Hosting_Cache
begin

text \<open>
  Properties of the hosting cache: exact byte accounting over any run, the victims of an eviction over the
  budget and of an eviction for cost, and the rank of a contract that has just been read.
\<close>

section \<open>Entries removed one by one\<close>

abbreviation hosted_bytes :: "('k, HostedContract) hash_map \<Rightarrow> nat" where
  "hosted_bytes \<equiv> value_sum size_bytes"

definition hc_exact :: "'k HostingCache \<Rightarrow> bool" where
  "hc_exact c \<longleftrightarrow> map_ok (contracts c) \<and> current_bytes c = hosted_bytes (contracts c)"

definition without :: "'k list \<Rightarrow> ('k, 'v) hash_map \<Rightarrow> ('k, 'v) hash_map" where
  "without ks m = filter (\<lambda>(k, v). k \<notin> set ks) m"

lemma without_Nil [simp]: "without [] m = m"
  by (simp add: without_def)

lemma delete_filter: "AList.delete k m = filter (\<lambda>(k', v). k' \<noteq> k) m"
  by (induction m) auto

lemma without_delete: "without ks (AList.delete k m) = without (k # ks) m"
  unfolding without_def delete_filter filter_filter by (rule filter_cong) auto

lemma map_ok_without [simp]: "map_ok m \<Longrightarrow> map_ok (without ks m)"
  by (simp add: without_def)

lemma map_of_without: "map_ok m \<Longrightarrow> map_of (without ks m) k = (if k \<in> set ks then None else map_of m k)"
  unfolding without_def by (subst map_of_filter) (auto split: option.splits)

lemma keys_without: "keys (without ks m) = keys m - set ks"
  by (auto simp: without_def keys_def)

lemma without_append: "without (ks @ ls) m = without ls (without ks m)"
  unfolding without_def filter_filter by (rule filter_cong) auto

lemma evict_entry_fields [simp]:
  "contracts (evict_entry now p k u e c) = AList.delete k (contracts c)"
  "current_bytes (evict_entry now p k u e c) = current_bytes c - size_bytes e"
  "budget_bytes (evict_entry now p k u e c) = budget_bytes c"
  "access_seq (evict_entry now p k u e c) = access_seq c"
  by (simp_all add: evict_entry_def Let_def)

lemma hc_exact_removed:
  assumes "hc_exact c" "map_of (contracts c) k = Some e" "contracts c' = AList.delete k (contracts c)"
    "current_bytes c' = current_bytes c - size_bytes e"
  shows "hc_exact c'" "current_bytes c' + size_bytes e = current_bytes c"
  using assms value_sum_delete[of "contracts c" k e size_bytes] by (auto simp: hc_exact_def)

text \<open>A cache of three contracts of six bytes, the first of them with a local subscription, for the examples.\<close>

definition six_bytes :: "nat \<Rightarrow> HostedContract" where
  "six_bytes seq = new_entry 0 seq 6 Get 0 1 0"

definition three_contracts :: "nat HostingCache" where
  "three_contracts = (hc_new 10)\<lparr>current_bytes := 18, access_seq := 3,
     contracts := [(1, six_bytes 1), (2, six_bytes 2), (3, six_bytes 3)]\<rparr>"

definition one_subscriber :: "nat \<Rightarrow> nat \<times> nat" where
  "one_subscriber k = (if k = 1 then (1, 0) else (0, 0))"

lemma three_contracts_exact: "hc_exact three_contracts"
  by (simp add: hc_exact_def three_contracts_def hc_new_def six_bytes_def new_entry_def)

section \<open>Eviction over the budget\<close>

definition evicts :: "('k \<Rightarrow> nat \<times> nat) \<Rightarrow> 'k HostingCache \<Rightarrow> 'k EvictedContract list \<Rightarrow> 'k HostingCache \<Rightarrow> bool" where
  "evicts cnt c vs c' \<longleftrightarrow> hc_exact c' \<and> contracts c' = without (map victim vs) (contracts c) \<and>
    budget_bytes c' = budget_bytes c \<and> access_seq c' = access_seq c \<and>
    (\<forall>v \<in> set vs. \<exists>e. map_of (contracts c) (victim v) = Some e \<and> victim_generation v = write_generation e \<and>
      (was_in_use v \<longleftrightarrow> 0 < fst (cnt (victim v)) + snd (cnt (victim v))))"

lemma hc_evict_loop_spec:
  assumes "hc_exact c" "distinct (map fst cs)" "set (map fst cs) \<subseteq> keys (contracts c)"
    "\<forall>(k, l, d, s) \<in> set cs. cnt k = (l, d)" "hc_evict_loop now p cs c = (vs, c')"
  shows "evicts cnt c vs c' \<and>
    (\<exists>n \<le> length cs. map victim vs = map fst (take n cs) \<and> (current_bytes c' \<le> budget_bytes c \<or> n = length cs)) \<and>
    (vs \<noteq> [] \<longrightarrow> (\<exists>e. map_of (contracts c) (victim (last vs)) = Some e \<and> budget_bytes c < current_bytes c' + size_bytes e))"
  using assms
proof (induction now p cs c arbitrary: vs rule: hc_evict_loop.induct)
  case (2 now p k l d s cs c)
  show ?case
  proof (cases "current_bytes c \<le> budget_bytes c")
    case True
    then show ?thesis using "2.prems" by (auto simp: evicts_def)
  next
    case False
    obtain e where e: "map_of (contracts c) k = Some e" using "2.prems"(3) map_of_keys[of "contracts c" k] by auto
    let ?c = "evict_entry now p k (0 < l + d) e c"
    obtain ws where ws: "hc_evict_loop now p cs ?c = (ws, c')"
      and vs: "vs = \<lparr>victim = k, victim_generation = write_generation e, was_in_use = 0 < l + d\<rparr> # ws"
      using "2.prems"(5) False e by (auto simp: Let_def split: prod.splits)
    note rm = hc_exact_removed[OF "2.prems"(1) e, of ?c, simplified]
    have sub: "fst ` set cs \<subseteq> keys (contracts c) - {k}" using "2.prems"(2,3) by auto
    have IH: "evicts cnt ?c ws c'"
      "\<exists>n \<le> length cs. map victim ws = map fst (take n cs) \<and> (current_bytes c' \<le> budget_bytes c \<or> n = length cs)"
      "ws \<noteq> [] \<longrightarrow> (\<exists>e. map_of (contracts ?c) (victim (last ws)) = Some e \<and> budget_bytes c < current_bytes c' + size_bytes e)"
      using "2.IH"(2)[OF False e refl, of ws] rm(1) "2.prems"(2-4) ws sub by (simp_all del: fun_upd_apply)
    have "evicts cnt c vs c'"
      using IH(1) e "2.prems"(4) by (auto simp: evicts_def vs without_delete split: if_splits)
    moreover obtain n where n: "n \<le> length cs" "map victim ws = map fst (take n cs)"
        "current_bytes c' \<le> budget_bytes c \<or> n = length cs" using IH(2) by blast
    have "\<exists>n \<le> length ((k, l, d, s) # cs). map victim vs = map fst (take n ((k, l, d, s) # cs)) \<and>
        (current_bytes c' \<le> budget_bytes c \<or> n = length ((k, l, d, s) # cs))"
      by (rule exI[of _ "Suc n"]) (use n in \<open>auto simp: vs\<close>)
    moreover have "\<exists>e. map_of (contracts c) (victim (last vs)) = Some e \<and> budget_bytes c < current_bytes c' + size_bytes e"
    proof (cases "ws = []")
      case True
      then have "current_bytes c' = current_bytes ?c" using IH(1) rm(1) by (simp add: evicts_def hc_exact_def)
      then show ?thesis using True e rm(2) False by (auto simp: vs)
    next
      case nonempty: False
      then show ?thesis using IH(3) by (auto simp: vs split: if_splits)
    qed
    ultimately show ?thesis by blast
  qed
qed (auto simp: evicts_def)

definition eligible :: "MemoryPressure \<Rightarrow> 'k option \<Rightarrow> 'k \<Rightarrow> bool" where
  "eligible p protected k \<longleftrightarrow> p = Overflow \<or> protected \<noteq> Some k"

definition victim_rank :: "('k \<Rightarrow> nat \<times> nat) \<Rightarrow> 'k \<Rightarrow> HostedContract \<Rightarrow> nat \<times> nat \<times> nat \<times> 'k" where
  "victim_rank cnt k e = (fst (cnt k), snd (cnt k), recency_seq e, k)"

lemma candidate_in: "x \<in> set (eviction_candidates cnt p protected c) \<longleftrightarrow>
    (\<exists>k e. (k, e) \<in> set (contracts c) \<and> eligible p protected k \<and> x = (k, fst (cnt k), snd (cnt k), recency_seq e))"
  by (auto simp: eviction_candidates_def eligible_def split: MemoryPressure.splits)

lemma candidates_distinct:
  assumes "map_ok (contracts c)"
  shows "distinct (map fst (eviction_candidates cnt p protected c))"
proof -
  let ?xs = "map (\<lambda>(k, e). (k, fst (cnt k), snd (cnt k), recency_seq e))
    (filter (\<lambda>(k, e). case p of AtCapacity \<Rightarrow> protected \<noteq> Some k | Overflow \<Rightarrow> True) (contracts c))"
  have "map fst ?xs = map fst (filter (\<lambda>(k, e). case p of AtCapacity \<Rightarrow> protected \<noteq> Some k | Overflow \<Rightarrow> True) (contracts c))"
    by auto
  then have "distinct (map fst ?xs)" using assms by (simp only: map_ok_def distinct_map_filter)
  then show ?thesis unfolding eviction_candidates_def by (simp only: distinct_map distinct_sort set_sort)
qed

lemma candidates_sorted: "sorted (map victim_order (eviction_candidates cnt p protected c))"
  by (simp add: eviction_candidates_def)

lemma candidates_split:
  assumes "x \<in> set (take n (eviction_candidates cnt p protected c))" "y \<in> set (drop n (eviction_candidates cnt p protected c))"
  shows "victim_order x \<le> victim_order y"
proof -
  have "sorted (map victim_order (take n (eviction_candidates cnt p protected c)) @
      map victim_order (drop n (eviction_candidates cnt p protected c)))"
    using candidates_sorted[of cnt p protected c] by (simp only: flip: map_append) (simp only: append_take_drop_id)
  then show ?thesis using assms by (simp add: sorted_append)
qed

lemma evict_over_budget_spec:
  assumes "hc_exact c" and run: "evict_over_budget now cnt p protected c = (vs, c')"
  obtains n where "evicts cnt c vs c'" "map victim vs = map fst (take n (eviction_candidates cnt p protected c))"
    "current_bytes c' \<le> budget_bytes c \<or> n = length (eviction_candidates cnt p protected c)"
    "vs \<noteq> [] \<longrightarrow> (\<exists>e. map_of (contracts c) (victim (last vs)) = Some e \<and> budget_bytes c < current_bytes c' + size_bytes e)"
proof (cases "current_bytes c \<le> budget_bytes c")
  case True
  then show ?thesis using assms that[of 0] by (auto simp: evict_over_budget_def evicts_def)
next
  case False
  let ?cs = "eviction_candidates cnt p protected c"
  have ok: "map_ok (contracts c)" using assms(1) by (simp add: hc_exact_def)
  have "set (map fst ?cs) \<subseteq> keys (contracts c)" by (force simp: candidate_in keys_def)
  moreover have "\<forall>(k, l, d, s) \<in> set ?cs. cnt k = (l, d)" by (auto simp: candidate_in)
  moreover have "hc_evict_loop now p ?cs c = (vs, c')" using run False by (simp add: evict_over_budget_def)
  ultimately show ?thesis
    using hc_evict_loop_spec[OF assms(1) candidates_distinct[OF ok]] that by blast
qed

text \<open>The first \<open>n\<close> candidates are the victims: what a victim and an eligible survivor are.\<close>

lemma candidate_taken:
  assumes ok: "map_ok (contracts c)" and k: "k \<in> set (map fst (take n (eviction_candidates cnt p protected c)))"
  obtains e where "map_of (contracts c) k = Some e" "eligible p protected k"
    "(k, fst (cnt k), snd (cnt k), recency_seq e) \<in> set (take n (eviction_candidates cnt p protected c))"
proof -
  obtain x where x: "x \<in> set (take n (eviction_candidates cnt p protected c))" "k = fst x" using k by (auto simp only: set_map)
  then have "x \<in> set (eviction_candidates cnt p protected c)" by (simp only: in_set_takeD)
  then obtain k' e where e: "(k', e) \<in> set (contracts c)" "eligible p protected k'"
      "x = (k', fst (cnt k'), snd (cnt k'), recency_seq e)"
    unfolding candidate_in by blast
  have "map_of (contracts c) k' = Some e" using e(1) ok by (simp add: map_ok_def)
  then show ?thesis using that[of e] e x by simp
qed

lemma candidate_left:
  assumes "(k, e) \<in> set (contracts c)" "eligible p protected k"
    "k \<notin> set (map fst (take n (eviction_candidates cnt p protected c)))"
  shows "(k, fst (cnt k), snd (cnt k), recency_seq e) \<in> set (drop n (eviction_candidates cnt p protected c))"
proof -
  have "(k, fst (cnt k), snd (cnt k), recency_seq e) \<in>
      set (take n (eviction_candidates cnt p protected c) @ drop n (eviction_candidates cnt p protected c))"
    using assms(1,2) unfolding append_take_drop_id candidate_in by blast
  then show ?thesis using assms(3) unfolding set_append by force
qed

lemma eviction_ranks:
  assumes "hc_exact c" and run: "evict_over_budget now cnt p protected c = (vs, c')" and v: "v \<in> set vs"
  shows "eligible p protected (victim v) \<and>
    (\<exists>e. map_of (contracts c) (victim v) = Some e \<and>
      (\<forall>(k, e') \<in> set (contracts c'). eligible p protected k \<longrightarrow> victim_rank cnt (victim v) e < victim_rank cnt k e'))"
proof -
  let ?cs = "eviction_candidates cnt p protected c"
  obtain n where n: "evicts cnt c vs c'" "map victim vs = map fst (take n ?cs)"
    using evict_over_budget_spec[OF assms(1,2)] .
  have "map_ok (contracts c)" "victim v \<in> set (map fst (take n ?cs))"
    using assms(1) v unfolding n(2)[symmetric] by (auto simp: hc_exact_def)
  then obtain e where e: "map_of (contracts c) (victim v) = Some e" "eligible p protected (victim v)"
      "(victim v, fst (cnt (victim v)), snd (cnt (victim v)), recency_seq e) \<in> set (take n ?cs)"
    by (rule candidate_taken)
  have "victim_rank cnt (victim v) e < victim_rank cnt k e'"
    if k: "(k, e') \<in> set (contracts c')" "eligible p protected k" for k e'
  proof -
    have k': "(k, e') \<in> set (contracts c)" "k \<notin> set (map victim vs)"
      using k(1) n(1) by (auto simp: evicts_def without_def)
    have "victim_rank cnt (victim v) e \<le> victim_rank cnt k e'"
      using candidates_split[OF e(3) candidate_left[OF k'(1) k(2)]] k'(2) unfolding n(2)
      by (simp only: victim_order_def victim_rank_def split_conv simp_thms)
    moreover have "victim v \<noteq> k" using k'(2) v by auto
    ultimately show ?thesis by (auto simp: victim_rank_def)
  qed
  then show ?thesis using e(1,2) by blast
qed

lemma eviction_enough:
  assumes "hc_exact c" and run: "evict_over_budget now cnt p protected c = (vs, c')"
  shows "current_bytes c' \<le> budget_bytes c \<or> (\<forall>k \<in> keys (contracts c'). \<not> eligible p protected k)"
proof -
  let ?cs = "eviction_candidates cnt p protected c"
  obtain n where n: "evicts cnt c vs c'" "map victim vs = map fst (take n ?cs)"
      "current_bytes c' \<le> budget_bytes c \<or> n = length ?cs"
    using evict_over_budget_spec[OF assms] .
  have "(k, fst (cnt k), snd (cnt k), recency_seq e) \<in> set (drop n ?cs)"
    if "(k, e) \<in> set (contracts c')" "eligible p protected k" for k e
    using candidate_left[of k e c p protected n cnt] that n(1) unfolding n(2)[symmetric] by (auto simp: evicts_def without_def)
  then show ?thesis using n(3) by (fastforce simp: keys_def)
qed

text \<open>
  C18: an eviction over the budget removes exactly the victims it reports and accounts for their bytes. It stops as
  soon as the budget holds, and goes on while it does not and a contract is eligible; every victim precedes
  every eligible contract that stays, comparing local subscriptions, downstream subscribers, recency and key
  in this order; the last victim was needed; and the contract in whose operation the sweep runs is spared
  unless memory overflows.
\<close>

theorem eviction_exact:
  assumes "hc_exact c" and run: "evict_over_budget now cnt p protected c = (vs, c')"
  shows "contracts c' = without (map victim vs) (contracts c) \<and> current_bytes c' = hosted_bytes (contracts c') \<and>
    (current_bytes c' \<le> budget_bytes c \<or> (\<forall>k \<in> keys (contracts c'). \<not> eligible p protected k)) \<and>
    (\<forall>v \<in> set vs. eligible p protected (victim v) \<and>
      (\<exists>e. map_of (contracts c) (victim v) = Some e \<and>
        (\<forall>(k, e') \<in> set (contracts c'). eligible p protected k \<longrightarrow> victim_rank cnt (victim v) e < victim_rank cnt k e'))) \<and>
    (vs \<noteq> [] \<longrightarrow> (\<exists>e. map_of (contracts c) (victim (last vs)) = Some e \<and> budget_bytes c < current_bytes c' + size_bytes e))"
proof -
  obtain n where n: "evicts cnt c vs c'"
      "vs \<noteq> [] \<longrightarrow> (\<exists>e. map_of (contracts c) (victim (last vs)) = Some e \<and> budget_bytes c < current_bytes c' + size_bytes e)"
    using evict_over_budget_spec[OF assms] .
  then show ?thesis using eviction_ranks[OF assms] eviction_enough[OF assms] by (auto simp: evicts_def hc_exact_def)
qed

theorem eviction_exact_witness:
  "hc_exact three_contracts \<and>
    (case evict_over_budget 0 one_subscriber AtCapacity None three_contracts of (vs, c') \<Rightarrow>
       map victim vs = [2, 3] \<and> contracts c' = without (map victim vs) (contracts three_contracts) \<and>
       current_bytes c' = hosted_bytes (contracts c'))"
proof -
  obtain vs c' where run: "evict_over_budget 0 one_subscriber AtCapacity None three_contracts = (vs, c')" by fastforce
  have "map victim (fst (evict_over_budget 0 one_subscriber AtCapacity None three_contracts)) = [2, 3]"
    by (simp add: evict_over_budget_def three_contracts_def hc_new_def eviction_candidates_def victim_order_def
        one_subscriber_def six_bytes_def new_entry_def case_prod_beta)
  then have "map victim vs = [2, 3]" by (simp add: run)
  with eviction_exact[OF three_contracts_exact run] three_contracts_exact show ?thesis unfolding run by simp
qed

section \<open>Any run\<close>

datatype 'k HcOp =
    HcAccess 'k nat AccessType nat rat "'k \<Rightarrow> nat \<times> nat"
  | HcMark 'k
  | HcTouch 'k rat
  | HcAbandon 'k
  | HcGeneration 'k nat
  | HcBudget nat
  | HcSweep "'k \<Rightarrow> nat \<times> nat" MemoryPressure
  | HcCost "'k \<Rightarrow> nat \<times> nat" "'k CostAxisPressure list"
  | HcLoad 'k nat AccessType duration bool rat
  | HcFinalize

fun hc_step :: "instant \<times> 'k :: linorder HcOp \<Rightarrow> 'k HostingCache \<Rightarrow> 'k HostingCache" where
  "hc_step (now, HcAccess k bytes access generation demand cnt) c =
    snd (record_access_with_demand now k bytes access generation demand cnt c)"
| "hc_step (now, HcMark k) c = mark_local_client_access now k c"
| "hc_step (now, HcTouch k demand) c = snd (touch_with_demand now k demand c)"
| "hc_step (now, HcAbandon k) c = record_abandonment now k c"
| "hc_step (now, HcGeneration k g) c = refresh_entry_generation k g c"
| "hc_step (now, HcBudget b) c = set_budget_bytes b c"
| "hc_step (now, HcSweep cnt p) c = snd (sweep_expired now cnt p c)"
| "hc_step (now, HcCost cnt axes) c = snd (evict_cost_pressure now cnt axes c)"
| "hc_step (now, HcLoad k bytes access age local_access demand) c =
    load_persisted_entry_with_demand now k bytes access age local_access demand c"
| "hc_step (now, HcFinalize) c = finalize_loading c"

fun offered_bytes :: "'k HcOp \<Rightarrow> nat" where
  "offered_bytes (HcAccess k bytes access generation demand cnt) = bytes"
| "offered_bytes (HcLoad k bytes access age local_access demand) = bytes"
| "offered_bytes _ = 0"

definition hc_inv :: "'k HostingCache \<Rightarrow> bool" where
  "hc_inv c \<longleftrightarrow> hc_exact c \<and> access_seq c \<le> u64_max \<and> (\<forall>k e. map_of (contracts c) k = Some e \<longrightarrow> recency_seq e \<le> access_seq c)"

lemma next_seq_mono: "access_seq c \<le> u64_max \<Longrightarrow> access_seq c \<le> sat_add64 (access_seq c) 1"
  by (simp add: sat_add64_def)

text \<open>An entry replaced by one of the same size and of a recency up to the counter.\<close>

lemma hc_inv_replace:
  assumes "hc_inv c" "map_of (contracts c) k = Some e" "size_bytes e' = size_bytes e" "recency_seq e' \<le> access_seq c'"
    "access_seq c \<le> access_seq c'" "access_seq c' \<le> u64_max"
    "contracts c' = AList.update k e' (contracts c)" "current_bytes c' = current_bytes c"
  shows "hc_inv c'"
  using assms value_sum_update_same[of "contracts c" k e size_bytes e']
  by (fastforce simp: hc_inv_def hc_exact_def)

lemma hc_inv_update_entry:
  assumes "hc_inv c" "\<And>e. size_bytes (f e) = size_bytes e" "\<And>e. recency_seq e \<le> access_seq c \<Longrightarrow> recency_seq (f e) \<le> access_seq c"
  shows "hc_inv (update_entry k f c)"
proof (cases "map_of (contracts c) k")
  case (Some e)
  then show ?thesis using assms
    by (auto simp: update_entry_def hc_inv_def[of c] intro!: hc_inv_replace[OF assms(1) Some, of "f e"])
qed (use assms in \<open>simp add: update_entry_def\<close>)

lemma hc_inv_next_seq: "hc_inv c \<Longrightarrow> next_seq c = (s, c') \<Longrightarrow>
    hc_inv c' \<and> s = access_seq c' \<and> contracts c' = contracts c \<and> current_bytes c' = current_bytes c \<and> s \<le> u64_max"
  using next_seq_mono[of c] by (fastforce simp: next_seq_def hc_inv_def hc_exact_def sat_add64_def)

lemma hc_inv_removed:
  assumes "hc_inv c" "hc_exact c'" "contracts c' = without ks (contracts c)" "access_seq c' = access_seq c"
  shows "hc_inv c'"
  using assms by (auto simp: hc_inv_def hc_exact_def map_of_without split: if_splits)

lemma hc_inv_evict:
  assumes "hc_inv c" "evict_over_budget now cnt p protected c = (vs, c')"
  shows "hc_inv c' \<and> current_bytes c' \<le> current_bytes c"
proof -
  have ex: "hc_exact c" using assms(1) by (simp add: hc_inv_def)
  obtain n where n: "evicts cnt c vs c'" using evict_over_budget_spec[OF ex assms(2)] .
  have "hosted_bytes (without ks m) \<le> hosted_bytes m" for ks and m :: "('a, HostedContract) hash_map"
    by (induction m) (auto simp: without_def)
  then show ?thesis using n ex hc_inv_removed[OF assms(1), of c'] by (simp add: evicts_def hc_exact_def)
qed

section \<open>Eviction for cost\<close>

text \<open>What it means that the contract dominates an axis: its share of an axis under pressure exceeds a quarter.\<close>

definition dominates :: "'k CostAxisPressure \<Rightarrow> 'k \<Rightarrow> bool" where
  "dominates a k \<longleftrightarrow> (\<exists>tot r. total_rate a = Some tot \<and> tot > axis_floor a \<and> map_of (rates a) k = Some (Some r) \<and>
    r > 0 \<and> r > fmul COST_SHARE_THRESHOLD tot)"

definition sheddable :: "instant \<Rightarrow> ('k \<Rightarrow> nat \<times> nat) \<Rightarrow> 'k \<Rightarrow> HostedContract \<Rightarrow> bool" where
  "sheddable now cnt k e \<longleftrightarrow> cnt k = (0, 0) \<and> \<not> recently_accessed now e"

lemma offender_iff:
  "(\<exists>tot r. total_rate a = Some tot \<and> tot > axis_floor a \<and>
      offender_rate now cnt (rates a) (fmul COST_SHARE_THRESHOLD tot) k e = Some r) \<longleftrightarrow>
    dominates a k \<and> sheddable now cnt k e"
  by (cases "cnt k"; cases "total_rate a")
    (auto simp: dominates_def sheddable_def offender_rate_def cost_eviction_candidate_def Let_def split: option.splits)

lemma in_offenders: "(k, r) \<in> set (offenders now cnt rs cutoff c) \<longleftrightarrow>
    (\<exists>e. (k, e) \<in> set (contracts c) \<and> offender_rate now cnt rs cutoff k e = Some r)"
  by (force simp: offenders_def List.map_filter_def)

lemma shed_offenders_spec: "hc_exact c \<Longrightarrow> shed_offenders os c = (vs, c') \<Longrightarrow>
    hc_exact c' \<and> contracts c' = without (map fst os) (contracts c) \<and> access_seq c' = access_seq c \<and>
    current_bytes c' \<le> current_bytes c \<and> set (map victim vs) = set (map fst os) \<inter> keys (contracts c) \<and>
    list_all (\<lambda>v. \<not> was_in_use v) vs"
proof (induction os c arbitrary: vs rule: shed_offenders.induct)
  case (2 k r os c)
  show ?case
  proof (cases "map_of (contracts c) k")
    case None
    then have "k \<notin> keys (contracts c)" by (simp add: map_of_keys)
    moreover from this have "without (k # ks) (contracts c) = without ks (contracts c)" for ks
      using without_delete[of ks k "contracts c"] by simp
    ultimately show ?thesis using 2 None by auto
  next
    case (Some e)
    let ?c = "c\<lparr>contracts := AList.delete k (contracts c), current_bytes := current_bytes c - size_bytes e,
      cost_evictions_total := sat_add64 (cost_evictions_total c) 1\<rparr>"
    have k: "k \<in> keys (contracts c)" using Some by (metis map_of_keys option.distinct(1))
    have ex: "hc_exact ?c" by (rule hc_exact_removed[OF "2.prems"(1) Some]) simp_all
    obtain ws where ws: "shed_offenders os ?c = (ws, c')"
        "vs = \<lparr>victim = k, victim_generation = write_generation e, was_in_use = False\<rparr> # ws"
      using "2.prems"(2) Some by (auto simp: Let_def split: prod.splits)
    note IH = "2.IH"(2)[OF Some ex ws(1)]
    have "set (map victim vs) = insert k (set (map fst os) \<inter> (keys (contracts c) - {k}))"
      using IH by (simp add: ws(2))
    also have "\<dots> = set (map fst ((k, r) # os)) \<inter> keys (contracts c)" using k by auto
    finally have "set (map victim vs) = set (map fst ((k, r) # os)) \<inter> keys (contracts c)" .
    moreover have "current_bytes c' \<le> current_bytes c" using IH by auto
    ultimately show ?thesis using IH by (simp add: without_delete ws(2))
  qed
qed simp

lemma evict_axis_spec:
  assumes "hc_exact c" "evict_axis now cnt a c = (vs, c')"
  shows "hc_exact c' \<and> contracts c' = filter (\<lambda>(k, e). \<not> (dominates a k \<and> sheddable now cnt k e)) (contracts c) \<and>
    access_seq c' = access_seq c \<and> current_bytes c' \<le> current_bytes c \<and>
    set (map victim vs) = keys (contracts c) - keys (contracts c') \<and> list_all (\<lambda>v. \<not> was_in_use v) vs"
proof (cases "\<exists>tot. total_rate a = Some tot \<and> tot > axis_floor a")
  case False
  then have "\<not> dominates a k" for k by (auto simp: dominates_def)
  then show ?thesis using False assms by (auto simp: evict_axis_def split: option.splits)
next
  case True
  then obtain tot where tot: "total_rate a = Some tot" "tot > axis_floor a" by blast
  let ?os = "offenders now cnt (rates a) (fmul COST_SHARE_THRESHOLD tot) c"
  have "shed_offenders ?os c = (vs, c')" using assms(2) tot by (simp add: evict_axis_def)
  note spec = shed_offenders_spec[OF assms(1) this]
  have "k \<in> set (map fst ?os) \<longleftrightarrow> dominates a k \<and> sheddable now cnt k e" if "(k, e) \<in> set (contracts c)" for k e
  proof -
    let ?r = "offender_rate now cnt (rates a) (fmul COST_SHARE_THRESHOLD tot) k"
    have ok: "distinct (map fst (contracts c))" using assms(1) by (simp add: hc_exact_def map_ok_def)
    have "k \<in> set (map fst ?os) \<longleftrightarrow> (\<exists>r. (k, r) \<in> set ?os)" by (simp only: set_map) force
    also have "\<dots> \<longleftrightarrow> (\<exists>r e'. (k, e') \<in> set (contracts c) \<and> ?r e' = Some r)" by (simp only: in_offenders)
    also have "\<dots> \<longleftrightarrow> (\<exists>r. ?r e = Some r)" using that eq_key_imp_eq_value[OF ok that] by blast
    finally have "k \<in> set (map fst ?os) \<longleftrightarrow> (\<exists>r. ?r e = Some r)" .
    then show ?thesis using offender_iff[of a now cnt k e] tot by simp
  qed
  then have "without (map fst ?os) (contracts c) = filter (\<lambda>(k, e). \<not> (dominates a k \<and> sheddable now cnt k e)) (contracts c)"
    unfolding without_def by (intro filter_cong) auto
  moreover have "set (map fst ?os) \<inter> keys (contracts c) = keys (contracts c) - keys (without (map fst ?os) (contracts c))"
    by (auto simp: keys_without)
  ultimately show ?thesis using spec by simp
qed

lemma evict_cost_pressure_spec: "hc_exact c \<Longrightarrow> evict_cost_pressure now cnt axes c = (vs, c') \<Longrightarrow>
    hc_exact c' \<and>
    contracts c' = filter (\<lambda>(k, e). \<not> (sheddable now cnt k e \<and> (\<exists>a \<in> set axes. dominates a k))) (contracts c) \<and>
    access_seq c' = access_seq c \<and> current_bytes c' \<le> current_bytes c \<and>
    set (map victim vs) = keys (contracts c) - keys (contracts c') \<and> list_all (\<lambda>v. \<not> was_in_use v) vs"
proof (induction axes arbitrary: c vs)
  case (Cons a axes)
  obtain us c1 where 1: "evict_axis now cnt a c = (us, c1)" by fastforce
  obtain ws where 2: "evict_cost_pressure now cnt axes c1 = (ws, c')" "vs = us @ ws"
    using Cons.prems(2) 1 by (auto split: prod.splits)
  note A = evict_axis_spec[OF Cons.prems(1) 1]
  note IH = Cons.IH[OF conjunct1[OF A] 2(1)]
  have "keys (contracts c') \<subseteq> keys (contracts c1)" "keys (contracts c1) \<subseteq> keys (contracts c)"
    using A IH by (auto simp: keys_def)
  then have "set (map victim vs) = keys (contracts c) - keys (contracts c')"
    using A IH unfolding 2(2) by auto
  moreover have "contracts c' = filter (\<lambda>(k, e). \<not> (sheddable now cnt k e \<and> (\<exists>a \<in> set (a # axes). dominates a k))) (contracts c)"
    using A IH by (auto intro: filter_cong)
  ultimately show ?case using A IH by (simp add: 2(2))
qed simp

text \<open>
  Eviction for cost removes exactly the hosted contracts that have no subscriber, that no client has used
  recently, and whose attributed rate exceeds a quarter of the total of some axis whose total is above its
  floor; whatever the axes, a contract with a subscriber or a recent access stays. The victims reported are
  the contracts removed, none of them in use, and the byte count stays exact.
\<close>

theorem cost_eviction_exact:
  assumes "hc_exact c" "evict_cost_pressure now cnt axes c = (vs, c')"
  shows "contracts c' = filter (\<lambda>(k, e). \<not> (sheddable now cnt k e \<and> (\<exists>a \<in> set axes. dominates a k))) (contracts c) \<and>
    set (map victim vs) = keys (contracts c) - keys (contracts c') \<and> list_all (\<lambda>v. \<not> was_in_use v) vs \<and>
    current_bytes c' = hosted_bytes (contracts c')"
  using evict_cost_pressure_spec[OF assms] by (simp add: hc_exact_def)

theorem cost_eviction_exact_witness:
  "hc_exact three_contracts \<and>
    (case evict_cost_pressure 1000000000000 one_subscriber
        [\<lparr>axis = ''messages'', total_rate = Some 100, axis_floor = 10, rates = [(1, Some 60), (2, Some 40), (3, None)]\<rparr>] three_contracts of
      (vs, c') \<Rightarrow> map fst (contracts c') = [1, 3] \<and> set (map victim vs) = {2})"
proof -
  let ?axes = "[\<lparr>axis = ''messages'', total_rate = Some 100, axis_floor = 10, rates = [(1, Some 60), (2, Some 40), (3, None)]\<rparr>]"
  obtain vs c' where run: "evict_cost_pressure 1000000000000 one_subscriber ?axes three_contracts = (vs, c')" by fastforce
  note cost_eviction_exact[OF three_contracts_exact run]
  moreover have "filter (\<lambda>(k, e). \<not> (sheddable 1000000000000 one_subscriber k e \<and> (\<exists>a \<in> set ?axes. dominates a k)))
      (contracts three_contracts) = [(1, six_bytes 1), (3, six_bytes 3)]"
    by (simp add: three_contracts_def sheddable_def dominates_def one_subscriber_def six_bytes_def new_entry_def
        recently_accessed_def COST_RATE_MIN_WINDOW_def from_secs_def COST_SHARE_THRESHOLD_def fmul_def f64_rnd_numeral)
  moreover have "keys (contracts three_contracts) = {1, 2, 3}" by (simp add: three_contracts_def insert_commute)
  ultimately have "contracts c' = [(1, six_bytes 1), (3, six_bytes 3)]" "set (map victim vs) = {2}" by auto
  then show ?thesis using three_contracts_exact unfolding run by simp
qed

section \<open>Accounting\<close>

lemma hc_inv_cost:
  assumes "hc_inv c" "evict_cost_pressure now cnt axes c = (vs, c')"
  shows "hc_inv c' \<and> current_bytes c' \<le> current_bytes c"
proof -
  have ex: "hc_exact c" using assms(1) by (simp add: hc_inv_def)
  note spec = evict_cost_pressure_spec[OF ex assms(2)]
  have "recency_seq e \<le> access_seq c" if "map_of (contracts c') k = Some e" for k e
  proof -
    have "(k, e) \<in> set (contracts c)" using map_of_SomeD[OF that] spec by auto
    then have "map_of (contracts c) k = Some e" using ex by (simp add: hc_exact_def map_ok_def)
    then show ?thesis using assms(1) by (auto simp: hc_inv_def)
  qed
  then show ?thesis using spec assms(1) by (simp add: hc_inv_def)
qed

text \<open>A new entry, while the byte count does not saturate.\<close>

lemma hc_inv_insert:
  assumes "hc_inv c" "k \<notin> keys (contracts c)" "current_bytes c + size_bytes e \<le> u64_max" "recency_seq e \<le> access_seq c"
    "contracts c' = AList.update k e (contracts c)" "current_bytes c' = sat_add64 (current_bytes c) (size_bytes e)"
    "access_seq c' = access_seq c"
  shows "hc_inv c' \<and> current_bytes c' = current_bytes c + size_bytes e"
  using assms value_sum_update_new[of k "contracts c" size_bytes e]
  by (auto simp: hc_inv_def hc_exact_def sat_add64_def)

text \<open>An entry refreshed with a new size.\<close>

lemma hc_inv_resize:
  assumes "hc_inv c" "map_of (contracts c) k = Some e" "current_bytes c + size_bytes e' \<le> u64_max" "recency_seq e' \<le> access_seq c"
    "contracts c' = AList.update k e' (contracts c)"
    "current_bytes c' = sat_add64 (current_bytes c) (size_bytes e') - size_bytes e" "access_seq c' = access_seq c"
  shows "hc_inv c' \<and> current_bytes c' \<le> current_bytes c + size_bytes e'"
proof -
  have ok: "map_ok (contracts c)" using assms(1) by (simp add: hc_inv_def hc_exact_def)
  have "hosted_bytes (AList.update k e' (contracts c)) + size_bytes e = hosted_bytes (contracts c) + size_bytes e'"
    using value_sum_delete[OF ok assms(2), of size_bytes]
      value_sum_delete[of "AList.update k e' (contracts c)" k e' size_bytes] ok by simp
  then show ?thesis using assms by (auto simp: hc_inv_def hc_exact_def sat_add64_def)
qed

lemma new_entry_fields [simp]:
  "size_bytes (new_entry now seq bytes access g demand fl) = bytes"
  "recency_seq (new_entry now seq bytes access g demand fl) \<le> seq"
  by (simp_all add: new_entry_def)

lemma refreshed_entry_fields [simp]:
  "size_bytes (refreshed_entry now seq bytes access g demand fl e) = bytes"
  "recency_seq e \<le> seq \<Longrightarrow> recency_seq (refreshed_entry now seq bytes access g demand fl e) \<le> seq"
  by (simp_all add: refreshed_entry_def Let_def)

lemma hc_inv_access:
  assumes inv: "hc_inv c" and room: "current_bytes c + bytes \<le> u64_max"
    and run: "record_access_with_demand now k bytes access g demand cnt c = (r, c')"
  shows "hc_inv c' \<and> current_bytes c' \<le> current_bytes c + bytes"
proof -
  obtain seq c1 where seq: "next_seq c = (seq, c1)" by fastforce
  note s = hc_inv_next_seq[OF inv seq]
  show ?thesis
  proof (cases "map_of (contracts c1) k")
    case None
    then have k: "k \<notin> keys (contracts c1)" by (simp add: map_of_keys)
    define e where "e = new_entry now seq bytes access g demand (eviction_floor c1)"
    define c2 where "c2 = c1\<lparr>contracts := AList.update k e (contracts c1), current_bytes := sat_add64 (current_bytes c1) bytes\<rparr>"
    obtain vs where vs: "evict_over_budget now cnt AtCapacity (Some k) c2 = (vs, c')"
      using run None by (auto simp: record_access_with_demand_def seq Let_def c2_def e_def split: prod.splits)
    have "hc_inv c2 \<and> current_bytes c2 = current_bytes c1 + size_bytes e"
      using s room by (intro hc_inv_insert[OF conjunct1[OF s] k]) (auto simp: e_def c2_def)
    then show ?thesis using hc_inv_evict[of c2, OF _ vs] s by (auto simp: e_def)
  next
    case (Some e)
    define e' where "e' = refreshed_entry now seq bytes access g demand (eviction_floor c1) e"
    have "recency_seq e \<le> access_seq c1" using s Some by (auto simp: hc_inv_def)
    then have e': "size_bytes e' = bytes" "recency_seq e' \<le> access_seq c1" using s by (simp_all add: e'_def)
    have c': "contracts c' = AList.update k e' (contracts c1)" "access_seq c' = access_seq c1"
        "current_bytes c' = (if size_bytes e \<noteq> bytes then sat_add64 (current_bytes c1) bytes - size_bytes e else current_bytes c1)"
      using run Some by (auto simp: record_access_with_demand_def seq Let_def e'_def)
    then have "current_bytes c' = sat_add64 (current_bytes c1) (size_bytes e') - size_bytes e"
      using e' room s by (auto simp: sat_add64_def)
    then have "hc_inv c' \<and> current_bytes c' \<le> current_bytes c1 + size_bytes e'"
      using hc_inv_resize[OF conjunct1[OF s] Some, of e' c'] s e' c' room by simp
    then show ?thesis using s e'(1) by simp
  qed
qed

lemma hc_inv_touch:
  assumes inv: "hc_inv c" and run: "touch_with_demand now k demand c = (r, c')"
  shows "hc_inv c' \<and> current_bytes c' = current_bytes c"
proof -
  obtain seq c1 where seq: "next_seq c = (seq, c1)" by fastforce
  note s = hc_inv_next_seq[OF inv seq]
  show ?thesis
  proof (cases "map_of (contracts c1) k")
    case None
    then show ?thesis using run s by (auto simp: touch_with_demand_def seq)
  next
    case (Some e)
    let ?e = "e\<lparr>last_accessed := now, last_access_seq := seq, recency_seq := seq, last_genuine_access := Some now,
      read_count := sat_add32 (read_count e) 1, abandoned_at := None, predicted_demand := demand,
      keep_score := fadd (eviction_floor c) demand\<rparr>"
    have "c' = c1\<lparr>contracts := AList.update k ?e (contracts c1)\<rparr>"
      using run Some by (auto simp: touch_with_demand_def seq Let_def)
    then show ?thesis using hc_inv_replace[OF conjunct1[OF s] Some, of ?e c'] s by simp
  qed
qed

lemma update_entry_bytes [simp]: "current_bytes (update_entry k f c) = current_bytes c"
  by (simp add: update_entry_def split: option.splits)

lemma hc_inv_abandon:
  assumes inv: "hc_inv c"
  shows "hc_inv (record_abandonment now k c) \<and> current_bytes (record_abandonment now k c) = current_bytes c"
proof -
  obtain seq c1 where seq: "next_seq c = (seq, c1)" by fastforce
  note s = hc_inv_next_seq[OF inv seq]
  let ?f = "\<lambda>e. e\<lparr>abandoned_at := Some now, recency_seq := seq, last_genuine_access := Some now, keep_score := eviction_floor c\<rparr>"
  have "hc_inv (update_entry k ?f c1)" using s by (intro hc_inv_update_entry) auto
  then show ?thesis using inv s by (simp add: record_abandonment_def seq Let_def)
qed

lemma hc_inv_finalize:
  assumes "hc_inv c"
  shows "hc_inv (finalize_loading c) \<and> current_bytes (finalize_loading c) = current_bytes c"
proof -
  have "hc_inv c \<Longrightarrow> hc_inv (fold (\<lambda>(key, _) c. let (seq, c') = next_seq c in update_entry key (\<lambda>e. e\<lparr>last_access_seq := seq\<rparr>) c') xs c) \<and>
      current_bytes (fold (\<lambda>(key, _) c. let (seq, c') = next_seq c in update_entry key (\<lambda>e. e\<lparr>last_access_seq := seq\<rparr>) c') xs c) =
        current_bytes c" for xs :: "('a \<times> HostedContract) list" and c
  proof (induction xs arbitrary: c)
    case (Cons x xs)
    obtain seq c1 where seq: "next_seq c = (seq, c1)" by fastforce
    note s = hc_inv_next_seq[OF Cons.prems seq]
    have "hc_inv (update_entry (fst x) (\<lambda>e. e\<lparr>last_access_seq := seq\<rparr>) c1)" using s by (intro hc_inv_update_entry) auto
    then show ?case using Cons.IH s by (simp add: seq case_prod_beta)
  qed simp
  then show ?thesis using assms by (simp add: finalize_loading_def)
qed

lemma hc_inv_load:
  assumes inv: "hc_inv c" and room: "current_bytes c + bytes \<le> u64_max"
  shows "hc_inv (load_persisted_entry_with_demand now k bytes access age l demand c) \<and>
    current_bytes (load_persisted_entry_with_demand now k bytes access age l demand c) \<le> current_bytes c + bytes"
proof (cases "contains_key (contracts c) k")
  case True
  then show ?thesis using inv by (simp add: load_persisted_entry_with_demand_def)
next
  case False
  then have k: "k \<notin> keys (contracts c)" by (simp add: contains_key_iff)
  let ?a = "if age \<le> now then now - age else now"
  let ?e = "\<lparr>size_bytes = bytes, last_accessed = ?a, last_access_seq = 0, recency_seq = 0,
    last_genuine_access = (case access of Get \<Rightarrow> Some ?a | _ \<Rightarrow> None), keep_score = fadd (eviction_floor c) demand,
    predicted_demand = demand, read_count = 0, inserted_at = now, seeded_this_run = False, access_type = access,
    local_client_access = l, local_client_last_access = if l then Some now else None, write_generation = 0,
    abandoned_at = None\<rparr>"
  have "load_persisted_entry_with_demand now k bytes access age l demand c =
      c\<lparr>contracts := AList.update k ?e (contracts c), current_bytes := sat_add64 (current_bytes c) bytes\<rparr>"
    using False by (simp only: load_persisted_entry_with_demand_def Let_def if_False)
  moreover have "sat_add64 (current_bytes c) bytes \<le> current_bytes c + bytes" by (simp add: sat_add64_def)
  ultimately show ?thesis using hc_inv_insert[OF inv k, of ?e] room by simp
qed

lemma hc_step_inv:
  assumes "hc_inv c" "current_bytes c + offered_bytes op \<le> u64_max"
  shows "hc_inv (hc_step (now, op) c) \<and> current_bytes (hc_step (now, op) c) \<le> current_bytes c + offered_bytes op"
proof (cases op)
  case (HcAccess k bytes access g demand cnt)
  then show ?thesis using hc_inv_access[OF assms(1), of bytes now k access g demand cnt] assms(2)
    by (cases "record_access_with_demand now k bytes access g demand cnt c") auto
next
  case (HcTouch k demand)
  then show ?thesis using hc_inv_touch[OF assms(1), of now k demand]
    by (cases "touch_with_demand now k demand c") auto
next
  case (HcSweep cnt p)
  then show ?thesis using hc_inv_evict[OF assms(1), of now cnt p None]
    by (cases "evict_over_budget now cnt p None c") (auto simp: sweep_expired_def)
next
  case (HcCost cnt axes)
  then show ?thesis using hc_inv_cost[OF assms(1), of now cnt axes]
    by (cases "evict_cost_pressure now cnt axes c") auto
next
  case (HcLoad k bytes access age l demand)
  then show ?thesis using hc_inv_load[OF assms(1), of bytes now k access age l demand] assms(2) by simp
next
  case (HcBudget b)
  then show ?thesis using assms(1) by (simp add: set_budget_bytes_def hc_inv_def hc_exact_def)
next
  case (HcAbandon k)
  then show ?thesis using hc_inv_abandon[OF assms(1), of now k] by simp
next
  case HcFinalize
  then show ?thesis using hc_inv_finalize[OF assms(1)] by simp
qed (use assms(1) in
  \<open>auto simp: mark_local_client_access_def refresh_entry_generation_def intro!: hc_inv_update_entry\<close>)

text \<open>The cache together with the number of bytes offered to it so far.\<close>

interpretation hosting: machine "\<lambda>e (b, c). (b + offered_bytes (snd e), hc_step e c)" "\<lambda>_. True"
  "\<lambda>(b, c). b \<le> u64_max \<longrightarrow> hc_inv c \<and> current_bytes c \<le> b"
proof
  fix e :: "instant \<times> 'k :: linorder HcOp" and bc :: "nat \<times> 'k HostingCache"
  assume "case bc of (b, c) \<Rightarrow> b \<le> u64_max \<longrightarrow> hc_inv c \<and> current_bytes c \<le> b"
  then show "case (case bc of (b, c) \<Rightarrow> (b + offered_bytes (snd e), hc_step e c)) of
      (b, c) \<Rightarrow> b \<le> u64_max \<longrightarrow> hc_inv c \<and> current_bytes c \<le> b"
    using hc_step_inv[of "snd bc" "snd e" "fst e"] by (cases bc; cases e) auto
qed

lemma hc_run_inv:
  fixes es :: "(instant \<times> 'k :: linorder HcOp) list"
  assumes "sum_list (map (offered_bytes \<circ> snd) es) \<le> u64_max"
  shows "hc_inv (fold hc_step es (hc_new budget))"
proof -
  have fst: "fold (\<lambda>e (b, c). (b + offered_bytes (snd e), hc_step e c)) es (b, c) =
      (b + sum_list (map (offered_bytes \<circ> snd) es), fold hc_step es c)" for b and c :: "'k HostingCache"
    by (induction es arbitrary: b c) (simp_all add: add.assoc)
  have "hc_inv (hc_new budget :: 'k HostingCache)" "current_bytes (hc_new budget :: 'k HostingCache) = 0" by (simp_all add: hc_inv_def hc_exact_def hc_new_def)
  then show ?thesis using hosting.fold_inv[of es "(0, hc_new budget)"] assms by (simp add: fst list_all_iff)
qed

text \<open>
  C19: the byte count is exact. After any sequence of accesses, reads, abandonments, sweeps, evictions for cost,
  budget changes and loads, whose sizes add up to at most 2^64 - 1 bytes, the number of bytes the cache
  believes it holds is the sum of the sizes of the contracts in it, each of them once; and no contract has a
  recency ahead of the access counter.
\<close>

theorem hosted_bytes_exact:
  assumes "sum_list (map (offered_bytes \<circ> snd) es) \<le> u64_max"
  shows "let c = fold hc_step es (hc_new budget) in
    distinct (map fst (contracts c)) \<and> current_bytes c = sum_list (map (size_bytes \<circ> snd) (contracts c)) \<and>
    (\<forall>e \<in> snd ` set (contracts c). recency_seq e \<le> access_seq c)"
proof -
  let ?c = "fold hc_step es (hc_new budget)"
  have inv: "hc_inv ?c" using assms by (rule hc_run_inv)
  then have "distinct (map fst (contracts ?c))" "current_bytes ?c = sum_list (map (size_bytes \<circ> snd) (contracts ?c))"
    by (simp_all add: hc_inv_def hc_exact_def map_ok_def value_sum_def)
  moreover have "recency_seq e \<le> access_seq ?c" if "(k, e) \<in> set (contracts ?c)" for k e
    using that inv calculation(1) by (auto simp: hc_inv_def)
  ultimately show ?thesis by (auto simp: Let_def)
qed

theorem hosted_bytes_exact_witness:
  "let es = [(0, HcAccess (1 :: nat) 6 Get 0 1 (\<lambda>_. (0, 0))), (5, HcAccess 1 8 Put 1 1 (\<lambda>_. (0, 0)))];
       c = fold hc_step es (hc_new 100)
   in sum_list (map (offered_bytes \<circ> snd) es) = 14 \<and> current_bytes c = 8 \<and>
      current_bytes c = sum_list (map (size_bytes \<circ> snd) (contracts c))"
proof -
  let ?es = "[(0, HcAccess (1 :: nat) 6 Get 0 1 (\<lambda>_. (0, 0))), (5, HcAccess 1 8 Put 1 1 (\<lambda>_. (0, 0)))]"
  have sum: "sum_list (map (offered_bytes \<circ> snd) ?es) = 14" by simp
  then have "sum_list (map (offered_bytes \<circ> snd) ?es) \<le> u64_max" by (simp only: u64_max_def) simp
  note hosted_bytes_exact[OF this, of 100]
  moreover have "current_bytes (fold hc_step ?es (hc_new 100)) = 8"
    by (simp add: record_access_with_demand_def next_seq_def hc_new_def evict_over_budget_def sat_add64_def u64_max_def
        new_entry_def)
  ultimately show ?thesis using sum by (simp only: Let_def simp_thms)
qed

text \<open>
  A contract that has just been read goes last. After any run, once a hosted contract is served from the
  cache, an eviction over the budget takes it only together with every other eligible contract that has no
  more local subscriptions and downstream subscribers than it has, in lexicographic order.
\<close>

theorem just_read_evicted_last:
  fixes es :: "(instant \<times> 'k :: linorder HcOp) list"
  assumes "sum_list (map (offered_bytes \<circ> snd) es) \<le> u64_max" "c = fold hc_step es (hc_new budget)" "access_seq c < u64_max"
    and read: "k \<in> keys (contracts c)" "touch_with_demand now k demand c = (r, c1)"
    and run: "evict_over_budget now' cnt p protected c1 = (vs, c2)" "k \<in> set (map victim vs)"
    and other: "j \<in> keys (contracts c1)" "eligible p protected j" "cnt j \<le> cnt k"
  shows "j \<in> set (map victim vs)"
proof (rule ccontr)
  assume j: "j \<notin> set (map victim vs)"
  have inv: "hc_inv c" using assms(1,2) hc_run_inv by simp
  then have inv1: "hc_inv c1" using hc_inv_touch[OF _ read(2)] by simp
  then have ex: "hc_exact c1" by (simp add: hc_inv_def)
  obtain e0 where "map_of (contracts c) k = Some e0" using read(1) map_of_keys[of "contracts c" k] by auto
  then have k: "\<exists>e. map_of (contracts c1) k = Some e \<and> recency_seq e = Suc (access_seq c)"
      and oth: "map_of (contracts c1) j = map_of (contracts c) j" if "j \<noteq> k" for j
    using read(2) assms(3) that by (auto simp: touch_with_demand_def next_seq_def sat_add64_def Let_def)
  obtain v where v: "v \<in> set vs" "victim v = k" using run(2) by auto
  have "j \<noteq> k" using j run(2) by auto
  obtain e where e: "map_of (contracts c1) j = Some e" using other(1) map_of_keys[of "contracts c1" j] by auto
  then have rj: "recency_seq e \<le> access_seq c" using inv oth[OF \<open>j \<noteq> k\<close>] by (auto simp: hc_inv_def)
  obtain n where "evicts cnt c1 vs c2" using evict_over_budget_spec[OF ex run(1)] .
  then have "(j, e) \<in> set (contracts c2)" using map_of_SomeD[OF e] j by (auto simp: evicts_def without_def)
  then obtain ek where "map_of (contracts c1) k = Some ek" "victim_rank cnt k ek < victim_rank cnt j e"
    using eviction_ranks[OF ex run(1) v(1)] other(2) v(2) by fastforce
  then show False using k[OF \<open>j \<noteq> k\<close>] rj other(3) by (cases "cnt j"; cases "cnt k") (auto simp: victim_rank_def)
qed

theorem just_read_evicted_last_witness:
  "let c = fold hc_step [(0, HcLoad (1 :: nat) 6 Get 0 False 1), (0, HcLoad 2 6 Get 0 False 1)] (hc_new 4);
       (r, c1) = touch_with_demand 5 1 1 c; (vs, c2) = evict_over_budget 6 (\<lambda>_. (0, 0)) AtCapacity None c1
   in 1 \<in> set (map victim vs) \<and> 2 \<in> set (map victim vs)"
proof -
  define c where "c = fold hc_step [(0, HcLoad (1 :: nat) 6 Get 0 False 1), (0, HcLoad 2 6 Get 0 False 1)] (hc_new 4)"
  obtain r c1 where read: "touch_with_demand 5 1 1 c = (r, c1)" by fastforce
  obtain vs c2 where run: "evict_over_budget 6 (\<lambda>_. (0, 0)) AtCapacity None c1 = (vs, c2)" by fastforce
  note load = c_def load_persisted_entry_with_demand_def hc_new_def contains_key_def sat_add64_def u64_max_def
  have "1 \<in> set (map victim (fst (evict_over_budget 6 (\<lambda>_. (0, 0)) AtCapacity None (snd (touch_with_demand 5 1 1 c)))))"
    by (simp add: load touch_with_demand_def next_seq_def evict_over_budget_def eviction_candidates_def victim_order_def
        case_prod_beta)
  then have "1 \<in> set (map victim vs)" by (simp only: read run fst_conv snd_conv)
  moreover have "2 \<in> set (map victim vs)"
  proof (rule just_read_evicted_last[OF _ c_def _ _ read run])
    show "2 \<in> keys (contracts c1)" using read by (auto simp: load touch_with_demand_def next_seq_def)
  qed (use calculation in \<open>auto simp: load eligible_def\<close>)
  ultimately show ?thesis unfolding Let_def c_def[symmetric] by (simp only: read run split_conv simp_thms)
qed

end
