(* ===== verification/Merge_Backoff.thy ===== *)
theory Merge_Backoff
  imports Slot_Reservation Float64
begin

text \<open>
  The back-off of failing merges, \<open>ring/merge_backoff.rs\<close>: an escalating cool-down per contract and sender for
  rejected updates, one per contract for merges that time out, and a memo of the payloads that failed. The
  jitter drawn from the random source is an argument of the operations that draw it; the hash of a payload is
  a number; contracts and senders are type parameters.
\<close>

section \<open>Cool-downs\<close>

datatype MergeFailureClass = Invalid | Timeout

definition INVALID_BASE :: duration where
  "INVALID_BASE = from_secs 30"

definition INVALID_CAP :: duration where
  "INVALID_CAP = from_secs (30 * 60)"

definition TIMEOUT_BASE :: duration where
  "TIMEOUT_BASE = from_secs 120"

definition TIMEOUT_CAP :: duration where
  "TIMEOUT_CAP = from_secs (2 * 60 * 60)"

definition INVALID_TRIP_THRESHOLD :: nat where
  "INVALID_TRIP_THRESHOLD = 3"

definition TIMEOUT_TRIP_THRESHOLD :: nat where
  "TIMEOUT_TRIP_THRESHOLD = 1"

definition FAILED_PAYLOAD_TTL :: duration where
  "FAILED_PAYLOAD_TTL = from_secs (10 * 60)"

definition MAX_FAILED_PAYLOADS_PER_CONTRACT :: nat where
  "MAX_FAILED_PAYLOADS_PER_CONTRACT = 32"

definition MAX_TRACKED_CONTRACTS :: nat where
  "MAX_TRACKED_CONTRACTS = 16384"

definition INVALID_CLEANUP_AGE :: duration where
  "INVALID_CLEANUP_AGE = INVALID_CAP"

definition CONTRACT_CLEANUP_AGE :: duration where
  "CONTRACT_CLEANUP_AGE = TIMEOUT_CAP"

fun class_base :: "MergeFailureClass \<Rightarrow> duration" where
  "class_base Invalid = INVALID_BASE"
| "class_base Timeout = TIMEOUT_BASE"

fun class_cap :: "MergeFailureClass \<Rightarrow> duration" where
  "class_cap Invalid = INVALID_CAP"
| "class_cap Timeout = TIMEOUT_CAP"

fun trip_threshold :: "MergeFailureClass \<Rightarrow> nat" where
  "trip_threshold Invalid = INVALID_TRIP_THRESHOLD"
| "trip_threshold Timeout = TIMEOUT_TRIP_THRESHOLD"

definition cooldown_for :: "rat \<Rightarrow> MergeFailureClass \<Rightarrow> nat \<Rightarrow> duration" where
  "cooldown_for jitter cl failures =
    (let exponent = min (failures - trip_threshold cl) 20;
         raw = duration_saturating_mul (class_base cl) (2 ^ min exponent 30);
         capped = min raw (class_cap cl)
     in mul_f64 capped jitter)"

datatype MergeDecision = Allow | InBackoff | KnownFailedPayload

record Cooldown =
  consecutive_failures :: nat
  next_allowed :: instant
  last_failure :: instant

definition inert :: "instant \<Rightarrow> Cooldown" where
  "inert now = \<lparr>consecutive_failures = 0, next_allowed = now, last_failure = now\<rparr>"

definition cd_record :: "rat \<Rightarrow> MergeFailureClass \<Rightarrow> instant \<Rightarrow> Cooldown \<Rightarrow> Cooldown" where
  "cd_record jitter cl now cd =
    (let n = sat_add32 (consecutive_failures cd) 1
     in cd\<lparr>consecutive_failures := n, last_failure := now, next_allowed := now + cooldown_for jitter cl n\<rparr>)"

definition tripped :: "MergeFailureClass \<Rightarrow> Cooldown \<Rightarrow> bool" where
  "tripped cl cd \<longleftrightarrow> consecutive_failures cd \<ge> trip_threshold cl"

definition suppressing :: "MergeFailureClass \<Rightarrow> instant \<Rightarrow> Cooldown \<Rightarrow> bool" where
  "suppressing cl now cd \<longleftrightarrow> tripped cl cd \<and> now < next_allowed cd"

definition past_cooldown :: "instant \<Rightarrow> Cooldown \<Rightarrow> bool" where
  "past_cooldown now cd \<longleftrightarrow> now \<ge> next_allowed cd"

definition cd_idle :: "instant \<Rightarrow> duration \<Rightarrow> Cooldown \<Rightarrow> bool" where
  "cd_idle now grace cd \<longleftrightarrow> now - last_failure cd > grace"

section \<open>The state of a contract\<close>

record ContractState =
  timeout_cd :: Cooldown
  failed_payloads :: "(nat \<times> instant) list"
  last_touch :: instant

definition cs_new :: "instant \<Rightarrow> ContractState" where
  "cs_new now = \<lparr>timeout_cd = inert now, failed_payloads = [], last_touch = now\<rparr>"

text \<open>The \<open>while let\<close> loop drops expired records from the front.\<close>

definition prune_payloads :: "instant \<Rightarrow> ContractState \<Rightarrow> ContractState" where
  "prune_payloads now cs =
    cs\<lparr>failed_payloads := dropWhile (\<lambda>(h, t). now - t > FAILED_PAYLOAD_TTL) (failed_payloads cs)\<rparr>"

definition memoize :: "nat \<Rightarrow> instant \<Rightarrow> ContractState \<Rightarrow> ContractState" where
  "memoize payload_hash now cs0 =
    (let cs = prune_payloads now cs0
     in if payload_hash \<in> fst ` set (failed_payloads cs) then cs
        else
          let kept = (if length (failed_payloads cs) \<ge> MAX_FAILED_PAYLOADS_PER_CONTRACT
                      then tl (failed_payloads cs) else failed_payloads cs)
          in cs\<lparr>failed_payloads := kept @ [(payload_hash, now)]\<rparr>)"

section \<open>The tracker\<close>

record ('c, 'a) MergeBackoff =
  invalid_by_sender :: "('c \<times> 'a, Cooldown) hash_map"
  invalid_size :: nat
  mb_contract :: "('c, ContractState) hash_map"
  contract_size :: nat
  mb_max_tracked :: nat
  mb_suppressed_total :: nat

definition mb_with_max :: "nat \<Rightarrow> ('c, 'a) MergeBackoff" where
  "mb_with_max cap = \<lparr>invalid_by_sender = [], invalid_size = 0, mb_contract = [], contract_size = 0,
     mb_max_tracked = cap, mb_suppressed_total = 0\<rparr>"

definition mb_new :: "('c, 'a) MergeBackoff" where
  "mb_new = mb_with_max MAX_TRACKED_CONTRACTS"

definition mb_suppress :: "('c, 'a) MergeBackoff \<Rightarrow> ('c, 'a) MergeBackoff" where
  "mb_suppress s = s\<lparr>mb_suppressed_total := wrap_add64 (mb_suppressed_total s) 1\<rparr>"

definition mb_check :: "instant \<Rightarrow> 'c \<Rightarrow> 'a \<Rightarrow> nat \<Rightarrow> ('c, 'a) MergeBackoff \<Rightarrow> MergeDecision \<times> ('c, 'a) MergeBackoff" where
  "mb_check now contract sender payload_hash s =
    (let sender_suppressing =
           (case map_of (invalid_by_sender s) (contract, sender) of
              Some cd \<Rightarrow> suppressing Invalid now cd | None \<Rightarrow> False);
         by_sender = (\<lambda>s. if sender_suppressing then (InBackoff, mb_suppress s) else (Allow, s))
     in case map_of (mb_contract s) contract of
          Some cs0 \<Rightarrow>
            let cs = prune_payloads now cs0;
                s1 = s\<lparr>mb_contract := AList.update contract cs (mb_contract s)\<rparr>
            in if payload_hash \<in> fst ` set (failed_payloads cs) then (KnownFailedPayload, mb_suppress s1)
               else if suppressing Timeout now (timeout_cd cs) then (InBackoff, mb_suppress s1)
               else by_sender s1
        | None \<Rightarrow> by_sender s)"

definition record_invalid_sender :: "rat \<Rightarrow> 'c \<Rightarrow> 'a \<Rightarrow> instant \<Rightarrow> ('c, 'a) MergeBackoff \<Rightarrow> ('c, 'a) MergeBackoff" where
  "record_invalid_sender jitter contract sender now s =
    (case map_of (invalid_by_sender s) (contract, sender) of
       Some cd \<Rightarrow> s\<lparr>invalid_by_sender := AList.update (contract, sender) (cd_record jitter Invalid now cd) (invalid_by_sender s)\<rparr>
     | None \<Rightarrow>
         if invalid_size s \<ge> mb_max_tracked s then s
         else s\<lparr>invalid_by_sender :=
                  AList.update (contract, sender) (cd_record jitter Invalid now (inert now)) (invalid_by_sender s),
                invalid_size := invalid_size s + 1\<rparr>)"

definition with_contract_entry :: "'c \<Rightarrow> instant \<Rightarrow> (ContractState \<Rightarrow> ContractState) \<Rightarrow> ('c, 'a) MergeBackoff \<Rightarrow>
    ('c, 'a) MergeBackoff" where
  "with_contract_entry contract now f s =
    (case map_of (mb_contract s) contract of
       Some cs \<Rightarrow> s\<lparr>mb_contract := AList.update contract (f cs) (mb_contract s)\<rparr>
     | None \<Rightarrow>
         if contract_size s \<ge> mb_max_tracked s then s
         else s\<lparr>mb_contract := AList.update contract (f (cs_new now)) (mb_contract s), contract_size := contract_size s + 1\<rparr>)"

definition mb_record_failure :: "rat \<Rightarrow> instant \<Rightarrow> 'c \<Rightarrow> 'a \<Rightarrow> MergeFailureClass \<Rightarrow> nat \<Rightarrow> ('c, 'a) MergeBackoff \<Rightarrow>
    ('c, 'a) MergeBackoff" where
  "mb_record_failure jitter now contract sender cl payload_hash s =
    (let s1 = (if cl = Invalid then record_invalid_sender jitter contract sender now s else s)
     in with_contract_entry contract now
          (\<lambda>cs. let cs1 = (if cl = Timeout then cs\<lparr>timeout_cd := cd_record jitter Timeout now (timeout_cd cs)\<rparr> else cs)
                in memoize payload_hash now (cs1\<lparr>last_touch := now\<rparr>)) s1)"

definition clear_contract_side :: "'c \<Rightarrow> ('c, 'a) MergeBackoff \<Rightarrow> ('c, 'a) MergeBackoff" where
  "clear_contract_side contract s =
    (if contains_key (mb_contract s) contract
     then s\<lparr>mb_contract := AList.delete contract (mb_contract s), contract_size := contract_size s - 1\<rparr> else s)"

definition record_success_from_sender :: "'c \<Rightarrow> 'a \<Rightarrow> bool \<Rightarrow> ('c, 'a) MergeBackoff \<Rightarrow> ('c, 'a) MergeBackoff" where
  "record_success_from_sender contract sender changed s =
    (let s1 = (if contains_key (invalid_by_sender s) (contract, sender)
               then s\<lparr>invalid_by_sender := AList.delete (contract, sender) (invalid_by_sender s),
                      invalid_size := invalid_size s - 1\<rparr> else s)
     in if changed then clear_contract_side contract s1 else s1)"

definition record_success_local :: "'c \<Rightarrow> bool \<Rightarrow> ('c, 'a) MergeBackoff \<Rightarrow> ('c, 'a) MergeBackoff" where
  "record_success_local contract changed s = (if changed then clear_contract_side contract s else s)"

definition invalidate_payload_memo :: "'c \<Rightarrow> ('c, 'a) MergeBackoff \<Rightarrow> ('c, 'a) MergeBackoff" where
  "invalidate_payload_memo contract s =
    (case map_of (mb_contract s) contract of
       Some cs \<Rightarrow> s\<lparr>mb_contract := AList.update contract (cs\<lparr>failed_payloads := []\<rparr>) (mb_contract s)\<rparr>
     | None \<Rightarrow> s)"

text \<open>\<open>retain\<close> visits every entry of a map, prunes it, and drops it when the test says so.\<close>

definition contract_expired :: "instant \<Rightarrow> ContractState \<Rightarrow> bool" where
  "contract_expired now cs \<longleftrightarrow>
    past_cooldown now (timeout_cd cs) \<and> failed_payloads cs = [] \<and> now - last_touch cs > CONTRACT_CLEANUP_AGE"

definition mb_cleanup_expired :: "instant \<Rightarrow> ('c, 'a) MergeBackoff \<Rightarrow> ('c, 'a) MergeBackoff" where
  "mb_cleanup_expired now s =
    (let gone = (\<lambda>k cd. past_cooldown now cd \<and> cd_idle now INVALID_CLEANUP_AGE cd);
         removed_invalid = length (filter (\<lambda>(k, cd). gone k cd) (invalid_by_sender s));
         s1 = s\<lparr>invalid_by_sender := filter (\<lambda>(k, cd). \<not> gone k cd) (invalid_by_sender s)\<rparr>;
         s2 = (if removed_invalid > 0 then s1\<lparr>invalid_size := invalid_size s1 - removed_invalid\<rparr> else s1);
         pruned = map (\<lambda>(k, cs). (k, prune_payloads now cs)) (mb_contract s2);
         removed_contract = length (filter (\<lambda>(k, cs). contract_expired now cs) pruned);
         s3 = s2\<lparr>mb_contract := filter (\<lambda>(k, cs). \<not> contract_expired now cs) pruned\<rparr>
     in if removed_contract > 0 then s3\<lparr>contract_size := contract_size s3 - removed_contract\<rparr> else s3)"

definition contracts_in_backoff :: "instant \<Rightarrow> ('c, 'a) MergeBackoff \<Rightarrow> nat" where
  "contracts_in_backoff now s =
    card (set (map fst (filter (\<lambda>(k, cs). suppressing Timeout now (timeout_cd cs)) (mb_contract s))) \<union>
          set (map (fst \<circ> fst) (filter (\<lambda>(k, cd). suppressing Invalid now cd) (invalid_by_sender s))))"

section \<open>Bounded tables\<close>

datatype ('c, 'a) MbOp =
    MbCheck 'c 'a nat
  | MbFail rat 'c 'a MergeFailureClass nat
  | MbSuccess 'c 'a bool
  | MbLocal 'c bool
  | MbMemo 'c
  | MbCleanup

fun mb_step :: "instant \<times> ('c, 'a) MbOp \<Rightarrow> ('c, 'a) MergeBackoff \<Rightarrow> ('c, 'a) MergeBackoff" where
  "mb_step (now, MbCheck c a p) s = snd (mb_check now c a p s)"
| "mb_step (now, MbFail jitter c a cl p) s = mb_record_failure jitter now c a cl p s"
| "mb_step (now, MbSuccess c a changed) s = record_success_from_sender c a changed s"
| "mb_step (now, MbLocal c changed) s = record_success_local c changed s"
| "mb_step (now, MbMemo c) s = invalidate_payload_memo c s"
| "mb_step (now, MbCleanup) s = mb_cleanup_expired now s"

definition mb_ok :: "('c, 'a) MergeBackoff \<Rightarrow> bool" where
  "mb_ok s \<longleftrightarrow> map_ok (invalid_by_sender s) \<and> map_ok (mb_contract s)"

lemma keys_map_values [simp]: "keys (map (\<lambda>(k, v). (k, f v)) m) = keys m"
  by (simp add: keys_def image_image case_prod_beta)

lemma map_ok_map_values [simp]: "map_ok (map (\<lambda>(k, v). (k, f v)) m) \<longleftrightarrow> map_ok m"
  by (simp add: map_ok_def comp_def case_prod_beta)

lemma map_of_map_values: "map_of (map (\<lambda>(k, v). (k, f v)) m) k = map_option f (map_of m k)"
  by (induction m) auto

lemmas mb_defs = mb_check_def mb_suppress_def record_invalid_sender_def with_contract_entry_def mb_record_failure_def
  clear_contract_side_def record_success_from_sender_def record_success_local_def invalidate_payload_memo_def

lemma mb_ok_check: "mb_ok s \<Longrightarrow> mb_ok (snd (mb_check now c a p s)) \<and> mb_max_tracked (snd (mb_check now c a p s)) = mb_max_tracked s"
  by (cases "map_of (mb_contract s) c") (simp_all add: mb_ok_def mb_check_def mb_suppress_def Let_def)

lemma mb_ok_sender: "mb_ok s \<Longrightarrow> mb_ok (record_invalid_sender j c a now s) \<and>
    mb_max_tracked (record_invalid_sender j c a now s) = mb_max_tracked s"
  by (cases "map_of (invalid_by_sender s) (c, a)") (simp_all add: mb_ok_def record_invalid_sender_def)

lemma mb_ok_contract: "mb_ok s \<Longrightarrow> mb_ok (with_contract_entry c now f s) \<and>
    mb_max_tracked (with_contract_entry c now f s) = mb_max_tracked s"
  by (cases "map_of (mb_contract s) c") (simp_all add: mb_ok_def with_contract_entry_def)

lemma mb_ok_clear: "mb_ok s \<Longrightarrow> mb_ok (clear_contract_side c s) \<and>
    mb_max_tracked (clear_contract_side c s) = mb_max_tracked s"
  by (simp add: mb_ok_def clear_contract_side_def)

lemma mb_ok_success: "mb_ok s \<Longrightarrow> mb_ok (record_success_from_sender c a changed s) \<and>
    mb_max_tracked (record_success_from_sender c a changed s) = mb_max_tracked s"
  by (simp add: mb_ok_def record_success_from_sender_def clear_contract_side_def Let_def)

lemma mb_ok_memo: "mb_ok s \<Longrightarrow> mb_ok (invalidate_payload_memo c s) \<and>
    mb_max_tracked (invalidate_payload_memo c s) = mb_max_tracked s"
  by (cases "map_of (mb_contract s) c") (simp_all add: mb_ok_def invalidate_payload_memo_def)

lemma mb_ok_cleanup: "mb_ok s \<Longrightarrow> mb_ok (mb_cleanup_expired now s) \<and>
    mb_max_tracked (mb_cleanup_expired now s) = mb_max_tracked s"
  by (simp add: mb_ok_def mb_cleanup_expired_def Let_def)

lemma mb_step_ok: "mb_ok s \<Longrightarrow> mb_ok (mb_step e s) \<and> mb_max_tracked (mb_step e s) = mb_max_tracked s"
  by (cases "(e, s)" rule: mb_step.cases)
    (simp_all add: mb_ok_check mb_ok_sender mb_ok_contract mb_ok_clear mb_ok_success mb_ok_memo mb_ok_cleanup
      mb_record_failure_def record_success_local_def Let_def)

abbreviation sender_keys :: "('c, 'a) MergeBackoff \<Rightarrow> ('c \<times> 'a) set" where
  "sender_keys s \<equiv> keys (invalid_by_sender s)"

abbreviation contract_keys :: "('c, 'a) MergeBackoff \<Rightarrow> 'c set" where
  "contract_keys s \<equiv> keys (mb_contract s)"

text \<open>What an operation does to one table is nothing, an insertion below the cap, a removal, or a sweep.\<close>

lemma sender_fields [simp]:
  "invalid_by_sender (with_contract_entry c now f s) = invalid_by_sender s"
  "invalid_size (with_contract_entry c now f s) = invalid_size s"
  "invalid_by_sender (clear_contract_side c s) = invalid_by_sender s"
  "invalid_size (clear_contract_side c s) = invalid_size s"
  "invalid_by_sender (invalidate_payload_memo c s) = invalid_by_sender s"
  "invalid_size (invalidate_payload_memo c s) = invalid_size s"
  "invalid_by_sender (snd (mb_check now c a p s)) = invalid_by_sender s"
  "invalid_size (snd (mb_check now c a p s)) = invalid_size s"
  by (auto simp: mb_defs Let_def split: option.splits)

lemma contract_fields [simp]:
  "mb_contract (record_invalid_sender j c a now s) = mb_contract s"
  "contract_size (record_invalid_sender j c a now s) = contract_size s"
  "mb_max_tracked (record_invalid_sender j c a now s) = mb_max_tracked s"
  by (auto simp: mb_defs Let_def split: option.splits)

lemma record_invalid_path:
  "slot_path (mb_max_tracked s) (quiet (sender_keys s) (invalid_size s))
    (quiet (sender_keys (record_invalid_sender j c a now s)) (invalid_size (record_invalid_sender j c a now s)))"
proof (cases "map_of (invalid_by_sender s) (c, a)")
  case None
  then have "(c, a) \<notin> sender_keys s" by (simp add: map_of_keys)
  then show ?thesis using path_insert[of "(c, a)" "sender_keys s" "invalid_size s" "mb_max_tracked s"] None
    by (auto simp: record_invalid_sender_def)
next
  case (Some cd)
  then have "(c, a) \<in> sender_keys s" by (metis map_of_keys option.distinct(1))
  then show ?thesis using Some by (simp add: record_invalid_sender_def insert_absorb)
qed

lemma with_contract_path:
  "slot_path (mb_max_tracked s) (quiet (contract_keys s) (contract_size s))
    (quiet (contract_keys (with_contract_entry c now f s)) (contract_size (with_contract_entry c now f s)))"
proof (cases "map_of (mb_contract s) c")
  case None
  then have "c \<notin> contract_keys s" by (simp add: map_of_keys)
  then show ?thesis using path_insert[of c "contract_keys s" "contract_size s" "mb_max_tracked s"] None
    by (auto simp: with_contract_entry_def)
next
  case (Some cs)
  then have "c \<in> contract_keys s" by (metis map_of_keys option.distinct(1))
  then show ?thesis using Some by (simp add: with_contract_entry_def insert_absorb)
qed

lemma clear_contract_path:
  "slot_path (mb_max_tracked s) (quiet (contract_keys s) (contract_size s))
    (quiet (contract_keys (clear_contract_side c s)) (contract_size (clear_contract_side c s)))"
  using path_remove[of "{c}" "contract_keys s" "mb_max_tracked s" "contract_size s"]
  by (auto simp: clear_contract_side_def contains_key_iff)

interpretation mb_senders: slot_client mb_step sender_keys invalid_size mb_max_tracked mb_ok
proof
  fix s :: "('a, 'b) MergeBackoff" and e :: "instant \<times> ('a, 'b) MbOp"
  show "mb_ok (mb_step e s)" if "mb_ok s" using mb_step_ok[OF that] by simp
  show "mb_max_tracked (mb_step e s) = mb_max_tracked s" if "mb_ok s" using mb_step_ok[OF that] by simp
  obtain now op where e: "e = (now, op)" by (cases e)
  show "slot_path (mb_max_tracked s) (quiet (sender_keys s) (invalid_size s))
      (quiet (sender_keys (mb_step e s)) (invalid_size (mb_step e s)))"
    if ok: "mb_ok s"
  proof (cases op)
    case (MbFail j c a cl p)
    then show ?thesis using record_invalid_path[of s j c a now] by (simp add: e mb_record_failure_def Let_def)
  next
    case (MbSuccess c a changed)
    then show ?thesis using path_remove[of "{(c, a)}" "sender_keys s" "mb_max_tracked s" "invalid_size s"]
      by (simp add: e record_success_from_sender_def contains_key_iff Let_def)
  next
    case MbCleanup
    have "map_ok (invalid_by_sender s)" using ok by (simp add: mb_ok_def)
    from path_filter[OF this, of "mb_max_tracked s" "invalid_size s"
        "\<lambda>k cd. \<not> (past_cooldown now cd \<and> cd_idle now INVALID_CLEANUP_AGE cd)"]
    show ?thesis by (auto simp: e MbCleanup mb_cleanup_expired_def Let_def)
  qed (simp_all add: e record_success_local_def)
qed

interpretation mb_contracts: slot_client mb_step contract_keys contract_size mb_max_tracked mb_ok
proof
  fix s :: "('a, 'b) MergeBackoff" and e :: "instant \<times> ('a, 'b) MbOp"
  show "mb_ok (mb_step e s)" if "mb_ok s" using mb_step_ok[OF that] by simp
  show "mb_max_tracked (mb_step e s) = mb_max_tracked s" if "mb_ok s" using mb_step_ok[OF that] by simp
  obtain now op where e: "e = (now, op)" by (cases e)
  show "slot_path (mb_max_tracked s) (quiet (contract_keys s) (contract_size s))
      (quiet (contract_keys (mb_step e s)) (contract_size (mb_step e s)))"
    if ok: "mb_ok s"
  proof (cases op)
    case (MbCheck c a p)
    show ?thesis
    proof (cases "map_of (mb_contract s) c")
      case (Some cs)
      then have "c \<in> contract_keys s" by (metis map_of_keys option.distinct(1))
      then show ?thesis using Some by (simp add: e MbCheck mb_check_def mb_suppress_def Let_def insert_absorb)
    qed (simp add: e MbCheck mb_check_def mb_suppress_def Let_def)
  next
    case (MbFail j c a cl p)
    then show ?thesis using with_contract_path[of "record_invalid_sender j c a now s" c now] with_contract_path[of s c now]
      by (simp add: e mb_record_failure_def Let_def)
  next
    case (MbSuccess c a changed)
    then show ?thesis using clear_contract_path[of s c]
        clear_contract_path[of "s\<lparr>invalid_by_sender := AList.delete (c, a) (invalid_by_sender s), invalid_size := invalid_size s - 1\<rparr>" c]
      by (simp add: e record_success_from_sender_def Let_def)
  next
    case (MbLocal c changed)
    then show ?thesis using clear_contract_path[of s c] by (simp add: e record_success_local_def)
  next
    case (MbMemo c)
    show ?thesis
    proof (cases "map_of (mb_contract s) c")
      case (Some cs)
      then have "c \<in> contract_keys s" by (metis map_of_keys option.distinct(1))
      then show ?thesis using Some by (simp add: e MbMemo invalidate_payload_memo_def insert_absorb)
    qed (simp add: e MbMemo invalidate_payload_memo_def)
  next
    case MbCleanup
    define m where "m = map (\<lambda>(k, cs). (k, prune_payloads now cs)) (mb_contract s)"
    have m: "map_ok m" "keys m = contract_keys s" using ok by (simp_all add: mb_ok_def m_def)
    have "mb_contract (mb_step e s) = filter (\<lambda>(k, cs). \<not> contract_expired now cs) m"
      "contract_size (mb_step e s) = contract_size s - length (filter (\<lambda>(k, cs). contract_expired now cs) m)"
      by (auto simp: e MbCleanup mb_cleanup_expired_def Let_def simp del: length_filter_map simp flip: m_def)
    then show ?thesis using path_filter[OF m(1), of "mb_max_tracked s" "contract_size s" "\<lambda>k cs. \<not> contract_expired now cs"] m(2)
      by simp
  qed
qed

section \<open>Suppression is justified\<close>

text \<open>
  What a node has observed, without bounds or clean-up: the updates of a sender rejected since one of its deltas last
  merged, the merges of a contract that timed out since a delta last changed its state, and the payloads that
  failed, with their times, since a delta or a full-state apply reported here (\<open>MbMemo\<close>) last changed the state. A full-state
  apply does not forgive a timeout, and an advance on the \<open>PUT\<close> path is not reported and forgives nothing.
\<close>

record ('c, 'a) merge_history =
  rejections :: "'c \<times> 'a \<Rightarrow> nat"
  timeouts :: "'c \<Rightarrow> nat"
  failures :: "'c \<Rightarrow> (nat \<times> instant) set"

definition no_history :: "('c, 'a) merge_history" where
  "no_history = \<lparr>rejections = \<lambda>_. 0, timeouts = \<lambda>_. 0, failures = \<lambda>_. {}\<rparr>"

definition delta_advanced :: "'c \<Rightarrow> bool \<Rightarrow> ('c, 'a) merge_history \<Rightarrow> ('c, 'a) merge_history" where
  "delta_advanced c changed h =
    (if changed then h\<lparr>timeouts := (timeouts h)(c := 0), failures := (failures h)(c := {})\<rparr> else h)"

fun observe :: "instant \<times> ('c, 'a) MbOp \<Rightarrow> ('c, 'a) merge_history \<Rightarrow> ('c, 'a) merge_history" where
  "observe (now, MbFail jitter c a cl p) h =
    h\<lparr>rejections := (if cl = Invalid then (rejections h)((c, a) := rejections h (c, a) + 1) else rejections h),
      timeouts := (if cl = Timeout then (timeouts h)(c := timeouts h c + 1) else timeouts h),
      failures := (failures h)(c := insert (p, now) (failures h c))\<rparr>"
| "observe (now, MbSuccess c a changed) h = delta_advanced c changed (h\<lparr>rejections := (rejections h)((c, a) := 0)\<rparr>)"
| "observe (now, MbLocal c changed) h = delta_advanced c changed h"
| "observe (now, MbMemo c) h = h\<lparr>failures := (failures h)(c := {})\<rparr>"
| "observe (now, _) h = h"

text \<open>The records of a contract: within the history, oldest first, and never from the future.\<close>

definition cs_sim :: "instant \<Rightarrow> nat \<Rightarrow> (nat \<times> instant) set \<Rightarrow> ContractState \<Rightarrow> bool" where
  "cs_sim now n F cs \<longleftrightarrow> consecutive_failures (timeout_cd cs) \<le> n \<and> set (failed_payloads cs) \<subseteq> F \<and>
    sorted (map snd (failed_payloads cs)) \<and> (\<forall>t \<in> snd ` set (failed_payloads cs). t \<le> now) \<and>
    length (failed_payloads cs) \<le> MAX_FAILED_PAYLOADS_PER_CONTRACT"

definition mb_sim :: "instant \<Rightarrow> ('c, 'a) MergeBackoff \<times> ('c, 'a) merge_history \<Rightarrow> bool" where
  "mb_sim now = (\<lambda>(s, h). mb_ok s \<and>
    (\<forall>c a cd. map_of (invalid_by_sender s) (c, a) = Some cd \<longrightarrow> consecutive_failures cd \<le> rejections h (c, a)) \<and>
    (\<forall>c cs. map_of (mb_contract s) c = Some cs \<longrightarrow> cs_sim now (timeouts h c) (failures h c) cs))"

lemma cs_sim_mono: "cs_sim now n F cs \<Longrightarrow> now \<le> now' \<Longrightarrow> n \<le> n' \<Longrightarrow> F \<subseteq> F' \<Longrightarrow> cs_sim now' n' F' cs"
  unfolding cs_sim_def by fastforce

lemma cs_sim_prune:
  assumes "cs_sim now n F cs"
  shows "cs_sim now n F (prune_payloads now cs)"
    "\<forall>(p, t) \<in> set (failed_payloads (prune_payloads now cs)). now \<le> t + FAILED_PAYLOAD_TTL"
proof -
  let ?P = "\<lambda>(h, t). now - t > FAILED_PAYLOAD_TTL"
  let ?xs = "dropWhile ?P (failed_payloads cs)"
  have pruned: "failed_payloads (prune_payloads now cs) = ?xs" by (simp add: prune_payloads_def)
  have sub: "set ?xs \<subseteq> set (failed_payloads cs)" by (auto dest: set_dropWhileD)
  have sorted: "sorted (map snd ?xs)"
    using assms sorted_append[of "map snd (takeWhile ?P (failed_payloads cs))" "map snd ?xs"]
    by (simp add: cs_sim_def flip: map_append)
  then show "cs_sim now n F (prune_payloads now cs)"
    using assms sub le_trans[OF length_dropWhile_le[of ?P "failed_payloads cs"]]
    by (auto simp: cs_sim_def prune_payloads_def)
  show "\<forall>(p, t) \<in> set (failed_payloads (prune_payloads now cs)). now \<le> t + FAILED_PAYLOAD_TTL"
    unfolding pruned
  proof (cases ?xs)
    case (Cons x xs)
    then have "\<not> ?P x" using hd_dropWhile[of ?P "failed_payloads cs"] by auto
    then have "now \<le> snd x + FAILED_PAYLOAD_TTL" by (cases x) auto
    moreover have "snd x \<le> snd y" if "y \<in> set ?xs" for y using sorted that unfolding Cons by auto
    ultimately show "\<forall>(p, t) \<in> set ?xs. now \<le> t + FAILED_PAYLOAD_TTL" by fastforce
  next
    case Nil
    show "\<forall>(p, t) \<in> set ?xs. now \<le> t + FAILED_PAYLOAD_TTL" unfolding Nil by simp
  qed
qed

lemma cs_sim_memoize:
  assumes "cs_sim now n F cs"
  shows "cs_sim now n (insert (p, now) F) (memoize p now cs)"
proof -
  let ?cs = "prune_payloads now cs"
  have pr: "cs_sim now n F ?cs" by (rule cs_sim_prune(1)[OF assms])
  let ?kept = "if length (failed_payloads ?cs) \<ge> MAX_FAILED_PAYLOADS_PER_CONTRACT then tl (failed_payloads ?cs) else failed_payloads ?cs"
  have tl: "set ?kept \<subseteq> set (failed_payloads ?cs)" "sorted (map snd ?kept)" "length ?kept < MAX_FAILED_PAYLOADS_PER_CONTRACT"
    using pr sorted_tl[of "map snd (failed_payloads ?cs)"]
    by (auto simp: cs_sim_def map_tl MAX_FAILED_PAYLOADS_PER_CONTRACT_def dest: list.set_sel(2)[rotated])
  have "sorted (map snd (?kept @ [(p, now)]))" using tl pr by (auto simp: sorted_append cs_sim_def)
  then have "cs_sim now n (insert (p, now) F) (?cs\<lparr>failed_payloads := ?kept @ [(p, now)]\<rparr>)"
    using tl pr by (auto simp: cs_sim_def)
  then show ?thesis using cs_sim_mono[OF pr, of now n "insert (p, now) F"]
    by (simp add: memoize_def Let_def subset_insertI)
qed

lemma cs_sim_failure:
  assumes "cs_sim now n F cs \<or> cs = cs_new now"
  shows "cs_sim now (if cl = Timeout then n + 1 else n) (insert (p, now) F)
    (memoize p now ((if cl = Timeout then cs\<lparr>timeout_cd := cd_record jitter Timeout now (timeout_cd cs)\<rparr> else cs)\<lparr>last_touch := now\<rparr>))"
proof (rule cs_sim_memoize)
  have "cs_sim now n F cs" using assms by (auto simp: cs_sim_def cs_new_def inert_def)
  then show "cs_sim now (if cl = Timeout then n + 1 else n) F
      ((if cl = Timeout then cs\<lparr>timeout_cd := cd_record jitter Timeout now (timeout_cd cs)\<rparr> else cs)\<lparr>last_touch := now\<rparr>)"
    by (auto simp: cs_sim_def cd_record_def sat_add32_def Let_def)
qed

lemma cd_record_le:
  "consecutive_failures cd \<le> n \<Longrightarrow> consecutive_failures (cd_record jitter cl now cd) \<le> Suc n"
  "consecutive_failures (cd_record jitter cl now (inert now)) \<le> Suc n"
  by (auto simp: cd_record_def inert_def sat_add32_def Let_def)

lemma mb_sim_fail:
  assumes "mb_sim now (s, h)"
  shows "mb_sim now (mb_record_failure jitter now c a cl p s, observe (now, MbFail jitter c a cl p) h)"
proof -
  define s1 where "s1 = (if cl = Invalid then record_invalid_sender jitter c a now s else s)"
  have ok: "mb_ok s" "mb_ok s1" using assms mb_ok_sender[of s] by (auto simp: mb_sim_def s1_def)
  have con: "mb_contract s1 = mb_contract s" by (simp add: s1_def)
  have inv: "consecutive_failures cd \<le> rejections (observe (now, MbFail jitter c a cl p) h) (c', a')"
    if "map_of (invalid_by_sender s1) (c', a') = Some cd" for c' a' cd
    using that assms
    by (auto simp: s1_def mb_sim_def record_invalid_sender_def cd_record_le split: if_splits option.splits)
  have "cs_sim now (timeouts (observe (now, MbFail jitter c a cl p) h) c')
      (failures (observe (now, MbFail jitter c a cl p) h) c') cs"
    if "map_of (mb_contract (mb_record_failure jitter now c a cl p s)) c' = Some cs" for c' cs
  proof (cases "c' = c")
    case False
    then show ?thesis using that assms con
      by (auto simp: mb_record_failure_def with_contract_entry_def mb_sim_def Let_def simp flip: s1_def split: option.splits if_splits)
  next
    case True
    have old: "cs_sim now (timeouts h c) (failures h c) cs0" if "map_of (mb_contract s) c = Some cs0" for cs0
      using assms that by (simp add: mb_sim_def)
    show ?thesis using that True con old cs_sim_failure[of now "timeouts h c" "failures h c" _ cl p jitter]
      by (auto simp: mb_record_failure_def with_contract_entry_def Let_def simp flip: s1_def split: option.splits if_splits)
  qed
  moreover have "mb_ok (mb_record_failure jitter now c a cl p s)"
    using mb_ok_contract[OF ok(2)] by (simp add: mb_record_failure_def s1_def)
  moreover have "invalid_by_sender (mb_record_failure jitter now c a cl p s) = invalid_by_sender s1"
    by (simp add: mb_record_failure_def s1_def)
  ultimately show ?thesis using inv by (simp add: mb_sim_def)
qed

text \<open>The other operations drop records, or history that no record refers to.\<close>

lemma mb_sim_shrink:
  assumes "mb_sim now (s, h)" "mb_ok s'"
    and "\<And>k cd. map_of (invalid_by_sender s') k = Some cd \<Longrightarrow>
      map_of (invalid_by_sender s) k = Some cd \<and> rejections h' k = rejections h k"
    and "\<And>c cs. map_of (mb_contract s') c = Some cs \<Longrightarrow>
      \<exists>cs0. map_of (mb_contract s) c = Some cs0 \<and> (cs_sim now (timeouts h c) (failures h c) cs0 \<longrightarrow> cs_sim now (timeouts h' c) (failures h' c) cs)"
  shows "mb_sim now (s', h')"
  using assms unfolding mb_sim_def by (simp del: split_paired_All) (metis surj_pair)

lemma clear_lookup: "mb_ok s \<Longrightarrow> map_of (mb_contract (clear_contract_side c s)) c' =
    (if c' = c then None else map_of (mb_contract s) c')"
  by (auto simp: clear_contract_side_def contains_key_def)

lemma mb_sim_clear:
  assumes "mb_sim now (s, h)"
  shows "mb_sim now (if changed then clear_contract_side c s else s, delta_advanced c changed h)"
proof (cases changed)
  case True
  have ok: "mb_ok s" using assms by (simp add: mb_sim_def)
  show ?thesis unfolding True if_True
    by (rule mb_sim_shrink[OF assms]) (use ok mb_ok_clear[OF ok] in \<open>auto simp: clear_lookup delta_advanced_def split: if_splits\<close>)
qed (use assms in \<open>simp add: delta_advanced_def\<close>)

lemma check_lookup: "map_of (mb_contract (snd (mb_check now c a p s))) c' =
    (if c' = c then map_option (prune_payloads now) (map_of (mb_contract s) c) else map_of (mb_contract s) c')"
  by (cases "map_of (mb_contract s) c") (auto simp: mb_check_def mb_suppress_def Let_def)

lemma mb_sim_check:
  assumes "mb_sim now (s, h)"
  shows "mb_sim now (snd (mb_check now c a p s), h)"
proof (rule mb_sim_shrink[OF assms])
  show "mb_ok (snd (mb_check now c a p s))" using assms mb_ok_check[of s now c a p] by (simp add: mb_sim_def)
qed (auto simp: check_lookup cs_sim_prune split: if_splits)

lemma mb_sim_success:
  assumes "mb_sim now (s, h)"
  shows "mb_sim now (record_success_from_sender c a changed s, observe (now, MbSuccess c a changed) h)"
proof -
  let ?s = "if contains_key (invalid_by_sender s) (c, a)
    then s\<lparr>invalid_by_sender := AList.delete (c, a) (invalid_by_sender s), invalid_size := invalid_size s - 1\<rparr> else s"
  have "mb_sim now (?s, h\<lparr>rejections := (rejections h)((c, a) := 0)\<rparr>)"
    using assms by (intro mb_sim_shrink[OF assms]) (auto simp: mb_sim_def mb_ok_def contains_key_def split: if_splits)
  from mb_sim_clear[OF this, of changed c] show ?thesis by (simp only: record_success_from_sender_def Let_def observe.simps)
qed

lemma mb_sim_memo:
  assumes "mb_sim now (s, h)"
  shows "mb_sim now (invalidate_payload_memo c s, observe (now, MbMemo c) h)"
proof (rule mb_sim_shrink[OF assms])
  show "mb_ok (invalidate_payload_memo c s)" using assms mb_ok_memo[of s c] by (simp add: mb_sim_def)
qed (auto simp: invalidate_payload_memo_def cs_sim_def split: if_splits option.splits)

lemma cleanup_lookup:
  assumes "mb_ok s"
  shows "map_of (invalid_by_sender (mb_cleanup_expired now s)) k = Some cd \<Longrightarrow> map_of (invalid_by_sender s) k = Some cd"
    and "map_of (mb_contract (mb_cleanup_expired now s)) c = Some cs \<Longrightarrow>
      \<exists>cs0. map_of (mb_contract s) c = Some cs0 \<and> cs = prune_payloads now cs0"
proof -
  define m where "m = map (\<lambda>(k, cs). (k, prune_payloads now cs)) (mb_contract s)"
  have ok: "map_ok m" "map_ok (invalid_by_sender s)" using assms by (simp_all add: m_def mb_ok_def)
  have "mb_contract (mb_cleanup_expired now s) = filter (\<lambda>(k, cs). \<not> contract_expired now cs) m"
    "invalid_by_sender (mb_cleanup_expired now s) =
      filter (\<lambda>(k, cd). \<not> (past_cooldown now cd \<and> cd_idle now INVALID_CLEANUP_AGE cd)) (invalid_by_sender s)"
    by (simp_all add: mb_cleanup_expired_def Let_def m_def)
  moreover have "map_of m c = map_option (prune_payloads now) (map_of (mb_contract s) c)"
    by (simp add: m_def map_of_map_values)
  ultimately show "map_of (invalid_by_sender (mb_cleanup_expired now s)) k = Some cd \<Longrightarrow> map_of (invalid_by_sender s) k = Some cd"
    "map_of (mb_contract (mb_cleanup_expired now s)) c = Some cs \<Longrightarrow>
      \<exists>cs0. map_of (mb_contract s) c = Some cs0 \<and> cs = prune_payloads now cs0"
    using map_of_filter[OF ok(1), of "\<lambda>_ cs. \<not> contract_expired now cs" c]
      map_of_filter[OF ok(2), of "\<lambda>_ cd. \<not> (past_cooldown now cd \<and> cd_idle now INVALID_CLEANUP_AGE cd)" k]
    by (auto split: option.splits if_splits)
qed

lemma mb_sim_cleanup:
  assumes "mb_sim now (s, h)"
  shows "mb_sim now (mb_cleanup_expired now s, h)"
proof -
  have ok: "mb_ok s" using assms by (simp add: mb_sim_def)
  show ?thesis by (rule mb_sim_shrink[OF assms])
    (use ok mb_ok_cleanup[OF ok] cleanup_lookup[OF ok] in \<open>auto dest!: cleanup_lookup(2)[OF ok] intro: cs_sim_prune\<close>)
qed

interpretation merge_timed: timed_machine "\<lambda>e (s, h). (mb_step e s, observe e h)" mb_sim
proof
  fix t t' :: instant and sh :: "('a, 'b) MergeBackoff \<times> ('a, 'b) merge_history"
  assume "mb_sim t sh" "t \<le> t'"
  then show "mb_sim t' sh" by (cases sh) (simp add: mb_sim_def, meson cs_sim_mono order_refl subset_refl)
next
  fix now :: instant and sh :: "('a, 'b) MergeBackoff \<times> ('a, 'b) merge_history" and op
  assume a: "mb_sim now sh"
  obtain s h where sh: "sh = (s, h)" by (cases sh)
  show "mb_sim now (case sh of (s, h) \<Rightarrow> (mb_step (now, op) s, observe (now, op) h))"
    using a mb_sim_check mb_sim_fail mb_sim_success mb_sim_clear mb_sim_memo mb_sim_cleanup unfolding sh
    by (cases op) (simp_all only: split_conv mb_step.simps observe.simps record_success_local_def)
qed

lemma mb_run_sim:
  fixes es :: "(instant \<times> ('c, 'a) MbOp) list"
  assumes "sorted (map fst es)" "\<forall>e \<in> set es. fst e \<le> now"
  shows "mb_sim now (fold mb_step es (mb_with_max cap), fold observe es no_history)"
proof -
  have pair: "fold (\<lambda>e (s, h). (mb_step e s, observe e h)) es (s, h) = (fold mb_step es s, fold observe es h)" for s h
    by (induction es arbitrary: s h) simp_all
  let ?t = "if es = [] then 0 else fst (last es)"
  have "mb_sim 0 (mb_with_max cap, no_history :: ('c, 'a) merge_history)" by (simp add: mb_sim_def mb_with_max_def mb_ok_def)
  then have "mb_sim ?t (fold mb_step es (mb_with_max cap), fold observe es no_history)"
    using merge_timed.timed_fold_inv[OF assms(1), of 0 "(mb_with_max cap, no_history)"] by (simp add: pair)
  moreover have "?t \<le> now" using assms(2) by simp
  ultimately show ?thesis by (rule merge_timed.inv_mono)
qed

text \<open>
  C36: a merge is skipped only for a reason the node has observed. Over any run with non-decreasing times, clean-ups
  included: a payload is refused as known to fail only if that payload failed for this contract at most ten
  minutes ago and neither a delta nor a full-state apply reported to the memo has changed the state since; a merge is
  refused as in back-off only if the sender had at least three updates rejected since one of its deltas last merged, or a
  merge of the contract timed out and no delta has changed its state since, whatever full states were applied. The
  tables never exceed their cap, nor the memo of a contract 32 payloads.
\<close>

theorem merge_suppression_justified:
  fixes es :: "(instant \<times> ('c, 'a) MbOp) list"
  assumes "sorted (map fst es)" "\<forall>e \<in> set es. fst e \<le> now"
    and run: "s = fold mb_step es (mb_with_max cap)" "h = fold observe es no_history"
  shows "(case fst (mb_check now c a p s) of
      KnownFailedPayload \<Rightarrow> \<exists>t. (p, t) \<in> failures h c \<and> t \<le> now \<and> now \<le> t + FAILED_PAYLOAD_TTL
    | InBackoff \<Rightarrow> 3 \<le> rejections h (c, a) \<or> 1 \<le> timeouts h c
    | Allow \<Rightarrow> True) \<and>
    length (invalid_by_sender s) \<le> cap \<and> length (mb_contract s) \<le> cap \<and>
    (\<forall>cs \<in> snd ` set (mb_contract s). length (failed_payloads cs) \<le> 32)"
proof -
  have sim: "mb_sim now (s, h)" using mb_run_sim[OF assms(1,2)] run by simp
  then have ok: "mb_ok s" by (simp add: mb_sim_def)
  have inv: "consecutive_failures cd \<le> rejections h (c, a)" if "map_of (invalid_by_sender s) (c, a) = Some cd" for cd
    using sim that by (simp add: mb_sim_def)
  have con: "cs_sim now (timeouts h c) (failures h c) (prune_payloads now cs)"
      "\<forall>(p, t) \<in> set (failed_payloads (prune_payloads now cs)). now \<le> t + FAILED_PAYLOAD_TTL"
    if "map_of (mb_contract s) c = Some cs" for cs
    using sim that cs_sim_prune[of now "timeouts h c" "failures h c" cs] by (auto simp: mb_sim_def)
  have "case fst (mb_check now c a p s) of
      KnownFailedPayload \<Rightarrow> \<exists>t. (p, t) \<in> failures h c \<and> t \<le> now \<and> now \<le> t + FAILED_PAYLOAD_TTL
    | InBackoff \<Rightarrow> 3 \<le> rejections h (c, a) \<or> 1 \<le> timeouts h c | Allow \<Rightarrow> True"
    using inv con
    by (fastforce simp: mb_check_def Let_def cs_sim_def suppressing_def tripped_def INVALID_TRIP_THRESHOLD_def
        TIMEOUT_TRIP_THRESHOLD_def split: option.splits if_splits)
  moreover have "invalid_size s = card (sender_keys s) \<and> invalid_size s \<le> cap"
    "contract_size s = card (contract_keys s) \<and> contract_size s \<le> cap"
    using mb_senders.run_capped[of "mb_with_max cap" es] mb_contracts.run_capped[of "mb_with_max cap" es]
    by (simp_all add: run(1) mb_with_max_def mb_ok_def)
  then have "length (invalid_by_sender s) \<le> cap \<and> length (mb_contract s) \<le> cap"
    using ok by (simp add: mb_ok_def length_map_ok)
  moreover have "\<forall>cs \<in> snd ` set (mb_contract s). length (failed_payloads cs) \<le> 32"
  proof
    fix cs
    assume "cs \<in> snd ` set (mb_contract s)"
    then obtain k where "(k, cs) \<in> set (mb_contract s)" by auto
    then have "map_of (mb_contract s) k = Some cs" using ok by (simp add: mb_ok_def map_ok_def)
    then show "length (failed_payloads cs) \<le> 32"
      using sim by (simp add: mb_sim_def cs_sim_def MAX_FAILED_PAYLOADS_PER_CONTRACT_def)
  qed
  ultimately show ?thesis by blast
qed

lemma first_timeout_cooldown: "cooldown_for 1 Timeout (Suc 0) = 120000000000"
  by (simp add: cooldown_for_def TIMEOUT_BASE_def TIMEOUT_CAP_def TIMEOUT_TRIP_THRESHOLD_def duration_saturating_mul_def
      duration_max_def from_secs_def mul_f64_def as_secs_f64_def from_secs_f64_def fadd_def fmul_def fdiv_def nat_f64_exact
      f64_rnd_numeral round_even_of_int[of 120000000000, simplified])

theorem merge_suppression_justified_witness:
  "let es = [(0, MbFail 1 (1 :: nat) (2 :: nat) Timeout 7), (1, MbMemo 1)];
       s = fold mb_step es (mb_with_max 5); h = fold observe es no_history
   in fst (mb_check 0 1 3 7 (mb_step (hd es) (mb_with_max 5))) = KnownFailedPayload \<and>
      fst (mb_check 119000000000 1 3 7 s) = InBackoff \<and> 1 \<le> timeouts h 1 \<and>
      fst (mb_check 120000000000 1 3 7 s) = Allow \<and> length (mb_contract s) \<le> 5"
proof -
  let ?es = "[(0, MbFail 1 (1 :: nat) (2 :: nat) Timeout 7), (1, MbMemo 1)]"
  let ?s = "fold mb_step ?es (mb_with_max 5)"
  note run = mb_record_failure_def with_contract_entry_def mb_with_max_def memoize_def cd_record_def sat_add32_def
    prune_payloads_def cs_new_def mb_check_def mb_suppress_def suppressing_def tripped_def inert_def u32_max_def
    invalidate_payload_memo_def first_timeout_cooldown
    FAILED_PAYLOAD_TTL_def MAX_FAILED_PAYLOADS_PER_CONTRACT_def TIMEOUT_TRIP_THRESHOLD_def from_secs_def Let_def
  have refused: "fst (mb_check 119000000000 1 3 7 ?s) = InBackoff" by (simp add: run)
  moreover have "fst (mb_check 120000000000 1 3 7 ?s) = Allow" by (simp add: run)
  moreover have "fst (mb_check 0 1 3 7 (mb_step (hd ?es) (mb_with_max 5))) = KnownFailedPayload" by (simp add: run)
  moreover have "1 \<le> timeouts (fold observe ?es no_history) 1 \<and> length (mb_contract ?s) \<le> 5"
    using merge_suppression_justified[of ?es 119000000000, OF _ _ refl refl, where c = 1 and a = 3 and p = 7 and cap = 5] refused
    by (simp add: no_history_def)
  ultimately show ?thesis by (simp only: Let_def simp_thms)
qed

end
