(* ===== verification/Orphan_Streams.thy ===== *)
theory Orphan_Streams
  imports Prelude
begin

text \<open>
  The registry in which streams and their metadata meet, \<open>operations/orphan_streams.rs\<close>. The operations are
  given twice: as functions on the whole registry, as they behave when nothing runs in between, and as the
  atomic steps on the three concurrent maps in which the source performs them. A call of \<open>claim_or_wait\<close> is
  named by the channel it waits on; the handle of a stream is a value of its own.
\<close>

section \<open>The operations\<close>

definition ORPHAN_STREAM_TIMEOUT :: duration where
  "ORPHAN_STREAM_TIMEOUT = from_secs 60"

datatype OrphanStreamError = ClaimTimeout | WaiterCancelled | AlreadyClaimed

record ('k, 'h, 'w) OrphanStreamRegistry =
  orphan_streams :: "('k, 'h \<times> instant) hash_map"
  stream_waiters :: "('k, 'w) hash_map"
  claimed_streams :: "'k list"

definition osr_new :: "('k, 'h, 'w) OrphanStreamRegistry" where
  "osr_new = \<lparr>orphan_streams = [], stream_waiters = [], claimed_streams = []\<rparr>"

text \<open>The waiter to which the handle is sent, if any.\<close>

definition register_orphan :: "instant \<Rightarrow> 'k \<Rightarrow> 'h \<Rightarrow> ('k, 'h, 'w) OrphanStreamRegistry \<Rightarrow>
    'w option \<times> ('k, 'h, 'w) OrphanStreamRegistry" where
  "register_orphan now key handle s =
    (case map_of (stream_waiters s) key of
       Some waiter \<Rightarrow> (Some waiter, s\<lparr>stream_waiters := AList.delete key (stream_waiters s)\<rparr>)
     | None \<Rightarrow> (None, s\<lparr>orphan_streams := AList.update key (handle, now) (orphan_streams s)\<rparr>))"

text \<open>\<open>claim_or_wait\<close> up to the point where it waits: \<open>None\<close> stands for waiting on the channel.\<close>

definition claim_or_wait :: "'k \<Rightarrow> 'w \<Rightarrow> ('k, 'h, 'w) OrphanStreamRegistry \<Rightarrow>
    (OrphanStreamError + 'h) option \<times> ('k, 'h, 'w) OrphanStreamRegistry" where
  "claim_or_wait key waiter s =
    (if key \<in> set (claimed_streams s) then (Some (Inl AlreadyClaimed), s)
     else
       let s1 = s\<lparr>claimed_streams := key # claimed_streams s\<rparr>
       in case map_of (orphan_streams s1) key of
            Some (handle, _) \<Rightarrow> (Some (Inr handle), s1\<lparr>orphan_streams := AList.delete key (orphan_streams s1)\<rparr>)
          | None \<Rightarrow> (None, s1\<lparr>stream_waiters := AList.update key waiter (stream_waiters s1)\<rparr>))"

text \<open>The end of a wait without a handle, after the timeout or because the sender was dropped.\<close>

definition give_up :: "'k \<Rightarrow> ('k, 'h, 'w) OrphanStreamRegistry \<Rightarrow> ('k, 'h, 'w) OrphanStreamRegistry" where
  "give_up key s = s\<lparr>stream_waiters := AList.delete key (stream_waiters s), claimed_streams := removeAll key (claimed_streams s)\<rparr>"

text \<open>The handles that are cancelled, and the registry without them.\<close>

definition gc_expired :: "instant \<Rightarrow> ('k, 'h, 'w) OrphanStreamRegistry \<Rightarrow> 'h list \<times> ('k, 'h, 'w) OrphanStreamRegistry" where
  "gc_expired now s =
    (let expired = (\<lambda>(key, handle, created). now - created > ORPHAN_STREAM_TIMEOUT);
         s1 = s\<lparr>orphan_streams := filter (\<lambda>e. \<not> expired e) (orphan_streams s)\<rparr>
     in (map (fst \<circ> snd) (filter expired (orphan_streams s)),
         if length (claimed_streams s1) > 1000 then s1\<lparr>claimed_streams := []\<rparr> else s1))"

section \<open>The atomic steps\<close>

text \<open>Where a call of \<open>claim_or_wait\<close> is.\<close>

datatype ('k, 'h) claim_pc =
    Looking 'k
  | Enlisting 'k
  | Waiting 'k
  | Leaving 'k OrphanStreamError
  | Unclaiming 'k OrphanStreamError
  | Received 'k 'h
  | Failed OrphanStreamError

text \<open>
  The maps, the calls of \<open>claim_or_wait\<close>, the calls of \<open>register_orphan\<close> that have found no waiter and not yet
  stored their handle, and, for the statements only, the key under which each handle has arrived and the
  handles that were dropped or cancelled.
\<close>

record ('k, 'h, 'w) rendezvous =
  orphans :: "'k \<rightharpoonup> 'h \<times> instant"
  waiters :: "'k \<rightharpoonup> 'w"
  claimed :: "'k set"
  claimers :: "'w \<rightharpoonup> ('k, 'h) claim_pc"
  storing :: "('k \<times> 'h) set"
  arrived :: "'h \<rightharpoonup> 'k"
  gone :: "'h set"

definition rv_init :: "('k, 'h, 'w) rendezvous" where
  "rv_init = \<lparr>orphans = Map.empty, waiters = Map.empty, claimed = {}, claimers = Map.empty, storing = {},
     arrived = Map.empty, gone = {}\<rparr>"

inductive rv_step :: "('k, 'h, 'w) rendezvous \<Rightarrow> ('k, 'h, 'w) rendezvous \<Rightarrow> bool" where
  deliver: "arrived s h = None \<Longrightarrow> waiters s k = Some w \<Longrightarrow> claimers s w = Some (Waiting k) \<Longrightarrow>
    rv_step s (s\<lparr>arrived := (arrived s)(h \<mapsto> k), waiters := (waiters s)(k := None),
                 claimers := (claimers s)(w \<mapsto> Received k h)\<rparr>)"
| deliver_late: "arrived s h = None \<Longrightarrow> waiters s k = Some w \<Longrightarrow> claimers s w \<noteq> Some (Waiting k) \<Longrightarrow>
    rv_step s (s\<lparr>arrived := (arrived s)(h \<mapsto> k), waiters := (waiters s)(k := None), gone := insert h (gone s)\<rparr>)"
| no_waiter: "arrived s h = None \<Longrightarrow> waiters s k = None \<Longrightarrow>
    rv_step s (s\<lparr>arrived := (arrived s)(h \<mapsto> k), storing := insert (k, h) (storing s)\<rparr>)"
| store: "(k, h) \<in> storing s \<Longrightarrow>
    rv_step s (s\<lparr>storing := storing s - {(k, h)}, orphans := (orphans s)(k \<mapsto> (h, now)),
                 gone := (case orphans s k of Some (old, _) \<Rightarrow> insert old (gone s) | None \<Rightarrow> gone s)\<rparr>)"
| claim: "claimers s w = None \<Longrightarrow> k \<notin> claimed s \<Longrightarrow>
    rv_step s (s\<lparr>claimed := insert k (claimed s), claimers := (claimers s)(w \<mapsto> Looking k)\<rparr>)"
| claim_again: "claimers s w = None \<Longrightarrow> k \<in> claimed s \<Longrightarrow>
    rv_step s (s\<lparr>claimers := (claimers s)(w \<mapsto> Failed AlreadyClaimed)\<rparr>)"
| found: "claimers s w = Some (Looking k) \<Longrightarrow> orphans s k = Some (h, t) \<Longrightarrow>
    rv_step s (s\<lparr>orphans := (orphans s)(k := None), claimers := (claimers s)(w \<mapsto> Received k h)\<rparr>)"
| not_found: "claimers s w = Some (Looking k) \<Longrightarrow> orphans s k = None \<Longrightarrow>
    rv_step s (s\<lparr>claimers := (claimers s)(w \<mapsto> Enlisting k)\<rparr>)"
| enlist: "claimers s w = Some (Enlisting k) \<Longrightarrow>
    rv_step s (s\<lparr>waiters := (waiters s)(k \<mapsto> w), claimers := (claimers s)(w \<mapsto> Waiting k)\<rparr>)"
| cancelled: "claimers s w = Some (Waiting k) \<Longrightarrow> waiters s k \<noteq> Some w \<Longrightarrow>
    rv_step s (s\<lparr>claimers := (claimers s)(w \<mapsto> Leaving k WaiterCancelled)\<rparr>)"
| timed_out: "claimers s w = Some (Waiting k) \<Longrightarrow>
    rv_step s (s\<lparr>claimers := (claimers s)(w \<mapsto> Leaving k ClaimTimeout)\<rparr>)"
| leave: "claimers s w = Some (Leaving k e) \<Longrightarrow>
    rv_step s (s\<lparr>waiters := (waiters s)(k := None), claimers := (claimers s)(w \<mapsto> Unclaiming k e)\<rparr>)"
| unclaim: "claimers s w = Some (Unclaiming k e) \<Longrightarrow>
    rv_step s (s\<lparr>claimed := claimed s - {k}, claimers := (claimers s)(w \<mapsto> Failed e)\<rparr>)"
| collect: "orphans s k = Some (h, t) \<Longrightarrow> now - t > ORPHAN_STREAM_TIMEOUT \<Longrightarrow>
    rv_step s (s\<lparr>orphans := (orphans s)(k := None), gone := insert h (gone s)\<rparr>)"
| forget_claims: "card (claimed s) > 1000 \<Longrightarrow> rv_step s (s\<lparr>claimed := {}\<rparr>)"

abbreviation rv_path :: "('k, 'h, 'w) rendezvous \<Rightarrow> ('k, 'h, 'w) rendezvous \<Rightarrow> bool" where
  "rv_path \<equiv> rv_step\<^sup>*\<^sup>*"

section \<open>No handle is lost or delivered twice\<close>

text \<open>Where the handle that arrived under key \<open>k\<close> is.\<close>

datatype 'w place = Stored | InTransit | Held 'w | Gone

fun is_at :: "('k, 'h, 'w) rendezvous \<Rightarrow> 'k \<Rightarrow> 'h \<Rightarrow> 'w place \<Rightarrow> bool" where
  "is_at s k h Stored \<longleftrightarrow> (\<exists>t. orphans s k = Some (h, t))"
| "is_at s k h InTransit \<longleftrightarrow> (k, h) \<in> storing s"
| "is_at s k h (Held w) \<longleftrightarrow> claimers s w = Some (Received k h)"
| "is_at s k h Gone \<longleftrightarrow> h \<in> gone s \<and> arrived s h = Some k"

definition rv_inv :: "('k, 'h, 'w) rendezvous \<Rightarrow> bool" where
  "rv_inv s \<longleftrightarrow> (\<forall>k h p. is_at s k h p \<longrightarrow> arrived s h = Some k) \<and>
    (\<forall>k h. arrived s h = Some k \<longrightarrow> (\<exists>!p. is_at s k h p)) \<and> (\<forall>h \<in> gone s. arrived s h \<noteq> None)"

text \<open>How a step moves handles: at most one of them to a new place, and at most one that was stored there away.\<close>

lemma rv_inv_move:
  assumes inv: "rv_inv s" and arr: "arrived s' = (arrived s)(h \<mapsto> k)" and h: "arrived s h = None \<or> arrived s h = Some k"
    and other: "\<And>k' h' p. h' \<noteq> h \<Longrightarrow> is_at s' k' h' p \<longleftrightarrow> is_at s k' h' p"
    and here: "\<And>k' p. is_at s' k' h p \<longleftrightarrow> k' = k \<and> p = p0" and g: "\<forall>h \<in> gone s'. arrived s' h \<noteq> None"
  shows "rv_inv s'"
proof -
  have at: "is_at s k h p \<Longrightarrow> arrived s h = Some k" and one: "arrived s h = Some k \<Longrightarrow> \<exists>!p. is_at s k h p" for k h p
    using inv unfolding rv_inv_def by blast+
  have "arrived s' h' = Some k'" if "is_at s' k' h' p" for k' h' p
    using that at[of k' h' p] other[of h'] here by (cases "h' = h") (simp_all add: arr)
  moreover have "\<exists>!p. is_at s' k' h' p" if "arrived s' h' = Some k'" for k' h'
    using that one[of h' k'] other[of h'] here by (cases "h' = h") (simp_all add: arr)
  ultimately show ?thesis using g by (simp add: rv_inv_def)
qed

lemma rv_inv_same:
  assumes inv: "rv_inv s" and same: "arrived s' = arrived s" "orphans s' = orphans s" "storing s' = storing s" "gone s' = gone s"
    and held: "\<And>w k h. claimers s' w = Some (Received k h) \<longleftrightarrow> claimers s w = Some (Received k h)"
  shows "rv_inv s'"
proof -
  have "is_at s' k h p \<longleftrightarrow> is_at s k h p" for k h p using same held by (cases p) simp_all
  then show ?thesis using inv same by (simp add: rv_inv_def)
qed

lemma at_unique: "rv_inv s \<Longrightarrow> is_at s k h p \<Longrightarrow> is_at s k' h p' \<Longrightarrow> k' = k \<and> p' = p"
  unfolding rv_inv_def by (metis option.inject)

lemma nowhere: "rv_inv s \<Longrightarrow> arrived s h = None \<Longrightarrow> \<not> is_at s k h p"
  unfolding rv_inv_def by (metis option.distinct(1))

lemma gone_arrived: "rv_inv s \<Longrightarrow> h \<in> gone s \<Longrightarrow> \<exists>k. arrived s h = Some k"
  by (auto simp: rv_inv_def)

lemma rv_inv_drop:
  assumes inv: "rv_inv s" and k: "orphans s k = Some (h, t)"
  shows "rv_inv (s\<lparr>orphans := (orphans s)(k := None), gone := insert h (gone s)\<rparr>)" (is "rv_inv ?s")
proof (rule rv_inv_move[OF inv, where h = h and k = k and ?p0.0 = Gone])
  have st: "is_at s k h Stored" using k by simp
  then have arr: "arrived s h = Some k" using inv unfolding rv_inv_def by blast
  then show "arrived s h = None \<or> arrived s h = Some k" "arrived ?s = (arrived s)(h \<mapsto> k)" by auto
  show "is_at ?s k' h p \<longleftrightarrow> k' = k \<and> p = Gone" for k' p
    using at_unique[OF inv st, of k' p] arr by (cases p) auto
  show "is_at ?s k' h' p \<longleftrightarrow> is_at s k' h' p" if "h' \<noteq> h" for k' h' p using that k by (cases p) auto
  show "\<forall>x \<in> gone ?s. arrived ?s x \<noteq> None" using gone_arrived[OF inv] arr by auto
qed

lemma rv_inv_store:
  assumes inv: "rv_inv s" and kh: "(k, h) \<in> storing s" and free: "orphans s k = None"
  shows "rv_inv (s\<lparr>storing := storing s - {(k, h)}, orphans := (orphans s)(k \<mapsto> (h, now))\<rparr>)" (is "rv_inv ?s")
proof (rule rv_inv_move[OF inv, where h = h and k = k and ?p0.0 = Stored])
  have st: "is_at s k h InTransit" using kh by simp
  then have arr: "arrived s h = Some k" using inv unfolding rv_inv_def by blast
  then show "arrived s h = None \<or> arrived s h = Some k" "arrived ?s = (arrived s)(h \<mapsto> k)" by auto
  show "is_at ?s k' h p \<longleftrightarrow> k' = k \<and> p = Stored" for k' p
    using at_unique[OF inv st, of k' p] arr by (cases p) auto
  show "is_at ?s k' h' p \<longleftrightarrow> is_at s k' h' p" if "h' \<noteq> h" for k' h' p using that free by (cases p) auto
  show "\<forall>h \<in> gone ?s. arrived ?s h \<noteq> None" using gone_arrived[OF inv] by auto
qed

lemma rv_inv_found:
  assumes inv: "rv_inv s" and k: "orphans s k = Some (h, t)" and w: "claimers s w = Some (Looking k)"
  shows "rv_inv (s\<lparr>orphans := (orphans s)(k := None), claimers := (claimers s)(w \<mapsto> Received k h)\<rparr>)" (is "rv_inv ?s")
proof (rule rv_inv_move[OF inv, where h = h and k = k and ?p0.0 = "Held w"])
  have st: "is_at s k h Stored" using k by simp
  then have arr: "arrived s h = Some k" using inv unfolding rv_inv_def by blast
  then show "arrived s h = None \<or> arrived s h = Some k" "arrived ?s = (arrived s)(h \<mapsto> k)" by auto
  show "is_at ?s k' h p \<longleftrightarrow> k' = k \<and> p = Held w" for k' p
    using at_unique[OF inv st, of k' p] arr by (cases p) auto
  show "is_at ?s k' h' p \<longleftrightarrow> is_at s k' h' p" if "h' \<noteq> h" for k' h' p using that k w by (cases p) auto
  show "\<forall>h \<in> gone ?s. arrived ?s h \<noteq> None" using gone_arrived[OF inv] by auto
qed

lemma rv_inv_arrive:
  assumes inv: "rv_inv s" and h: "arrived s h = None" and s': "arrived s' = (arrived s)(h \<mapsto> k)"
    and other: "\<And>k' h' p. h' \<noteq> h \<Longrightarrow> is_at s' k' h' p \<longleftrightarrow> is_at s k' h' p"
    and here: "\<And>k' p. \<not> is_at s k' h p \<Longrightarrow> is_at s' k' h p \<longleftrightarrow> k' = k \<and> p = p0" and g: "gone s' \<subseteq> insert h (gone s)"
  shows "rv_inv s'"
  by (rule rv_inv_move[OF inv s' _ other, where ?p0.0 = p0])
    (use h here nowhere[OF inv h] g gone_arrived[OF inv] in \<open>auto simp: s'\<close>)

lemma rv_step_inv: "rv_step s s' \<Longrightarrow> rv_inv s \<Longrightarrow> rv_inv s'"
proof (induction rule: rv_step.induct)
  case (deliver s h k w)
  then have "h \<notin> gone s" using gone_arrived[of s h] by auto
  then have "is_at (s\<lparr>arrived := (arrived s)(h \<mapsto> k), waiters := (waiters s)(k := None), claimers := (claimers s)(w \<mapsto> Received k h)\<rparr>) k' h' p \<longleftrightarrow>
      (if h' = h then is_at s k' h p \<or> k' = k \<and> p = Held w else is_at s k' h' p)" for k' h' p
    using deliver(3) by (cases p) auto
  then show ?case by (intro rv_inv_arrive[OF deliver.prems deliver.hyps(1), where k = k and ?p0.0 = "Held w"]) auto
next
  case (deliver_late s h k w)
  then have "h \<notin> gone s" using gone_arrived[of s h] by auto
  then have "is_at (s\<lparr>arrived := (arrived s)(h \<mapsto> k), waiters := (waiters s)(k := None), gone := insert h (gone s)\<rparr>) k' h' p \<longleftrightarrow>
      (if h' = h then is_at s k' h p \<or> k' = k \<and> p = Gone else is_at s k' h' p)" for k' h' p
    by (cases p) auto
  then show ?case by (intro rv_inv_arrive[OF deliver_late.prems deliver_late.hyps(1), where k = k and ?p0.0 = Gone]) auto
next
  case (no_waiter s h k)
  then have "h \<notin> gone s" using gone_arrived[of s h] by auto
  then have "is_at (s\<lparr>arrived := (arrived s)(h \<mapsto> k), storing := insert (k, h) (storing s)\<rparr>) k' h' p \<longleftrightarrow>
      (if h' = h then is_at s k' h p \<or> k' = k \<and> p = InTransit else is_at s k' h' p)" for k' h' p
    by (cases p) auto
  then show ?case by (intro rv_inv_arrive[OF no_waiter.prems no_waiter.hyps(1), where k = k and ?p0.0 = InTransit]) auto
next
  case (store k h s now)
  show ?case
  proof (cases "orphans s k")
    case None
    then show ?thesis using rv_inv_store[OF store.prems store.hyps None, of now] by simp
  next
    case (Some ot)
    obtain old t where ot: "ot = (old, t)" by (cases ot)
    have "rv_inv (s\<lparr>orphans := (orphans s)(k := None), gone := insert old (gone s)\<rparr>)"
      using rv_inv_drop[OF store.prems] Some ot by simp
    from rv_inv_same[OF rv_inv_store[OF this, of k h now]] show ?thesis using store.hyps Some ot by simp
  qed
next
  case (found s w k h t)
  then show ?case by (intro rv_inv_found)
next
  case (collect s k h t now)
  then show ?case by (intro rv_inv_drop)
qed (rule rv_inv_same, auto)+

text \<open>
  C35: however the steps of arriving streams, claims, timeouts and garbage collection interleave, every handle
  that has arrived is in exactly one place: on its way into the registry, stored in it, in the hands of one
  claim, or dropped; and a claim only ever receives a handle that arrived from its peer under its stream id.
\<close>

theorem handle_in_one_place:
  assumes "rv_path rv_init s"
  shows "(arrived s h = Some k \<longrightarrow> (\<exists>!p. is_at s k h p)) \<and> (claimers s w = Some (Received k h) \<longrightarrow> arrived s h = Some k)"
proof -
  have "rv_inv rv_init"
    unfolding rv_inv_def by (auto simp: rv_init_def elim: is_at.elims)
  moreover have "rv_path s0 s \<Longrightarrow> rv_inv s0 \<Longrightarrow> rv_inv s" for s0
    by (induction rule: rtranclp_induct) (auto intro: rv_step_inv)
  ultimately have inv: "rv_inv s" using assms by blast
  then have "is_at s k h (Held w) \<longrightarrow> arrived s h = Some k" unfolding rv_inv_def by blast
  then show ?thesis using inv unfolding rv_inv_def by simp
qed

theorem handle_in_one_place_witness:
  "let s = rv_init\<lparr>arrived := [1 \<mapsto> 2], storing := {(2, 1)}\<rparr> :: (nat, nat, nat) rendezvous
   in rv_path rv_init s \<and> (\<exists>!p. is_at s 2 1 p)"
proof -
  let ?s = "rv_init\<lparr>arrived := [1 \<mapsto> 2], storing := {(2, 1)}\<rparr> :: (nat, nat, nat) rendezvous"
  have "rv_step rv_init ?s" using rv_step.no_waiter[of "rv_init :: (nat, nat, nat) rendezvous" 1 2] by (simp add: rv_init_def)
  then have path: "rv_path rv_init ?s" ..
  from handle_in_one_place[OF path, of 1 2 0] have "\<exists>!p. is_at ?s 2 1 p" by simp
  with path show ?thesis by (simp only: Let_def simp_thms)
qed

section \<open>A stream and its claim that miss each other\<close>

datatype ('k, 'h, 'w) OsrOp = Register 'k 'h | Claim 'k 'w | GiveUp 'k | Collect

fun osr_step :: "instant \<times> ('k, 'h, 'w) OsrOp \<Rightarrow> ('k, 'h, 'w) OrphanStreamRegistry \<Rightarrow> ('k, 'h, 'w) OrphanStreamRegistry" where
  "osr_step (now, Register k h) s = snd (register_orphan now k h s)"
| "osr_step (now, Claim k w) s = snd (claim_or_wait k w s)"
| "osr_step (now, GiveUp k) s = give_up k s"
| "osr_step (now, Collect) s = snd (gc_expired now s)"

definition apart :: "('k, 'h, 'w) OrphanStreamRegistry \<Rightarrow> bool" where
  "apart s \<longleftrightarrow> keys (orphan_streams s) \<inter> keys (stream_waiters s) = {}"

interpretation osr: machine osr_step "\<lambda>_. True" apart
proof
  fix e :: "instant \<times> ('a, 'b, 'c) OsrOp" and s :: "('a, 'b, 'c) OrphanStreamRegistry"
  assume "apart s"
  moreover have "keys (filter P m) \<subseteq> keys m" for P and m :: "('a, 'b \<times> instant) hash_map" by (auto simp: keys_def)
  moreover have "map_of m k = Some v \<Longrightarrow> k \<in> keys m" for m :: "('a, 'd) hash_map" and k v
    by (metis map_of_keys option.distinct(1))
  ultimately show "apart (osr_step e s)"
    by (cases "(e, s)" rule: osr_step.cases)
      (fastforce simp: apart_def register_orphan_def claim_or_wait_def give_up_def gc_expired_def Let_def map_of_keys split: option.splits)+
qed

text \<open>
  C39: a claim and a stream with the same key can miss each other. When each operation runs to its end before
  the next begins, no key has both a stored stream and a waiting claim. But a claim that has looked for the
  stream before it is stored, and enlists after the stream has looked for a waiter, leaves the stream stored
  and the claim waiting; neither looks again, and the claim may time out although the stream is there.
\<close>

theorem rendezvous_missed:
  fixes k :: 'k and h :: 'h and w :: 'w
  shows "apart (fold osr_step ops osr_new) \<and>
    (\<exists>s :: ('k, 'h, 'w) rendezvous. rv_path rv_init s \<and> orphans s k = Some (h, now) \<and> waiters s k = Some w \<and>
      claimers s w = Some (Waiting k) \<and> storing s = {} \<and>
      rv_step s (s\<lparr>claimers := (claimers s)(w \<mapsto> Leaving k ClaimTimeout)\<rparr>))"
proof -
  let ?s1 = "rv_init\<lparr>claimed := {k}, claimers := [w \<mapsto> Looking k]\<rparr> :: ('k, 'h, 'w) rendezvous"
  let ?s2 = "?s1\<lparr>claimers := [w \<mapsto> Enlisting k]\<rparr>"
  let ?s3 = "?s2\<lparr>arrived := [h \<mapsto> k], storing := {(k, h)}\<rparr>"
  let ?s4 = "?s3\<lparr>storing := {}, orphans := [k \<mapsto> (h, now)]\<rparr>"
  let ?s5 = "?s4\<lparr>waiters := [k \<mapsto> w], claimers := [w \<mapsto> Waiting k]\<rparr>"
  have "rv_step rv_init ?s1" using rv_step.claim[of rv_init w k] by (simp add: rv_init_def)
  then have "rv_path rv_init ?s1" ..
  also have "rv_step ?s1 ?s2" using rv_step.not_found[of ?s1 w k] by (simp add: rv_init_def)
  also have "rv_step ?s2 ?s3" using rv_step.no_waiter[of ?s2 h k] by (simp add: rv_init_def)
  also have "rv_step ?s3 ?s4" using rv_step.store[of k h ?s3 now] by (simp add: rv_init_def)
  also have "rv_step ?s4 ?s5" using rv_step.enlist[of ?s4 w k] by (simp add: rv_init_def)
  finally have "rv_path rv_init ?s5" .
  moreover have "rv_step ?s5 (?s5\<lparr>claimers := (claimers ?s5)(w \<mapsto> Leaving k ClaimTimeout)\<rparr>)"
    by (rule rv_step.timed_out) simp
  moreover have "apart (fold osr_step ops osr_new)"
    using osr.fold_inv[of ops osr_new] by (simp add: apart_def osr_new_def list_all_iff)
  ultimately show ?thesis by (intro conjI exI[of _ ?s5]) simp_all
qed

end
