(* ===== verification/Interest_Manager.thy ===== *)
theory Interest_Manager
  imports Prelude "HOL-Library.List_Lexorder"
begin

text \<open>
  The tracking of interest in contracts, \<open>ring/interest.rs\<close>: which neighbours are interested in a contract and
  the summary each of them last reported, the reverse index by neighbour, the reasons for which the node
  itself is interested, the index of contracts by the hash that travels in interest messages, and the removals
  deferred after a disconnection. Contracts and peers are type parameters; \<open>idb\<close> is \<open>contract.id().as_bytes()\<close>
  and \<open>pkb\<close> the bytes of a peer's public key, which the sources take from other crates. The current instant
  is an argument. The set types of the code are lists without duplicates.
\<close>

unbundle bit_operations_syntax

section \<open>Constants and entries\<close>

definition INTEREST_HEARTBEAT_INTERVAL :: duration where
  "INTEREST_HEARTBEAT_INTERVAL = from_secs 300"

definition INTEREST_TTL :: duration where
  "INTEREST_TTL = from_secs (300 * 4)"

definition MAX_INTERESTED_PEERS_PER_CONTRACT :: nat where
  "MAX_INTERESTED_PEERS_PER_CONTRACT = 512"

definition INTEREST_DISCONNECT_GRACE_PERIOD :: duration where
  "INTEREST_DISCONNECT_GRACE_PERIOD = from_secs 90"

datatype SummaryMissingReason =
  NeverPopulated | ClearedByNoneReport | ClearedByResync | ClearedByDeltaApplyFailure

record PeerInterest =
  pi_summary :: "bytes option"
  summary_absence :: SummaryMissingReason
  last_refreshed :: instant
  is_upstream :: bool

definition pi_new :: "bytes option \<Rightarrow> bool \<Rightarrow> instant \<Rightarrow> PeerInterest" where
  "pi_new summary upstream now =
    \<lparr>pi_summary = summary, summary_absence = NeverPopulated, last_refreshed = now, is_upstream = upstream\<rparr>"

definition pi_refresh :: "instant \<Rightarrow> PeerInterest \<Rightarrow> PeerInterest" where
  "pi_refresh now i = i\<lparr>last_refreshed := now\<rparr>"

definition is_expired_at :: "instant \<Rightarrow> PeerInterest \<Rightarrow> bool" where
  "is_expired_at now i \<longleftrightarrow> now - last_refreshed i > INTEREST_TTL"

definition summary_missing_reason :: "PeerInterest \<Rightarrow> SummaryMissingReason option" where
  "summary_missing_reason i = (if pi_summary i = None then Some (summary_absence i) else None)"

definition set_summary :: "bytes \<Rightarrow> instant \<Rightarrow> PeerInterest \<Rightarrow> PeerInterest" where
  "set_summary summary now i = pi_refresh now (i\<lparr>pi_summary := Some summary\<rparr>)"

definition clear_summary :: "SummaryMissingReason \<Rightarrow> instant \<Rightarrow> PeerInterest \<Rightarrow> PeerInterest" where
  "clear_summary reason now i = pi_refresh now (i\<lparr>pi_summary := None, summary_absence := reason\<rparr>)"

text \<open>The counters of clients and subscribers stay far below the range of \<open>usize\<close>.\<close>

record LocalInterest =
  hosting :: bool
  local_client_count :: nat
  downstream_subscriber_count :: nat

definition li_default :: LocalInterest where
  "li_default = \<lparr>hosting = False, local_client_count = 0, downstream_subscriber_count = 0\<rparr>"

definition is_interested :: "LocalInterest \<Rightarrow> bool" where
  "is_interested li \<longleftrightarrow> hosting li \<or> local_client_count li > 0 \<or> downstream_subscriber_count li > 0"

definition li_add_client :: "LocalInterest \<Rightarrow> bool \<times> LocalInterest" where
  "li_add_client li =
    (local_client_count li = 0 \<and> \<not> hosting li \<and> downstream_subscriber_count li = 0,
     li\<lparr>local_client_count := local_client_count li + 1\<rparr>)"

definition li_remove_client :: "LocalInterest \<Rightarrow> bool \<times> LocalInterest" where
  "li_remove_client li =
    (let li' = li\<lparr>local_client_count := local_client_count li - 1\<rparr> in (\<not> is_interested li', li'))"

definition li_add_downstream :: "LocalInterest \<Rightarrow> bool \<times> LocalInterest" where
  "li_add_downstream li =
    (downstream_subscriber_count li = 0 \<and> local_client_count li = 0 \<and> \<not> hosting li,
     li\<lparr>downstream_subscriber_count := downstream_subscriber_count li + 1\<rparr>)"

definition li_remove_downstream :: "LocalInterest \<Rightarrow> bool \<times> LocalInterest" where
  "li_remove_downstream li =
    (let li' = li\<lparr>downstream_subscriber_count := downstream_subscriber_count li - 1\<rparr>
     in (\<not> is_interested li', li'))"

text \<open>FNV-1a over the bytes of the contract identifier, in 32-bit arithmetic that wraps.\<close>

definition contract_hash :: "('c \<Rightarrow> bytes) \<Rightarrow> 'c \<Rightarrow> 32 word" where
  "contract_hash idb c =
    fold (\<lambda>byte hash. (hash XOR (ucast byte :: 32 word)) * 16777619) (idb c) 2166136261"

definition summary_indicates_stale_peer :: "bytes \<Rightarrow> bytes \<Rightarrow> bool option \<Rightarrow> bool" where
  "summary_indicates_stale_peer ours theirs delta_indicates_change =
    (if ours = theirs then False
     else case delta_indicates_change of None \<Rightarrow> True | Some b \<Rightarrow> b)"

section \<open>The manager\<close>

record ('c, 'p) InterestManager =
  interested_peers :: "('c, ('p, PeerInterest) hash_map) hash_map"
  peer_contracts :: "('p, 'c list) hash_map"
  local_interests :: "('c, LocalInterest) hash_map"
  contract_hash_index :: "(32 word, 'c list) hash_map"
  summary_notify_timestamps :: "('c, instant) hash_map"
  pending_removals :: "('p, instant) hash_map"
  delta_sends :: nat
  full_state_sends :: nat
  delta_bytes_saved :: nat
  resync_requests_received :: nat

definition im_new :: "('c, 'p) InterestManager" where
  "im_new = \<lparr>interested_peers = [], peer_contracts = [], local_interests = [], contract_hash_index = [],
    summary_notify_timestamps = [], pending_removals = [], delta_sends = 0, full_state_sends = 0,
    delta_bytes_saved = 0, resync_requests_received = 0\<rparr>"

definition record_delta_send :: "nat \<Rightarrow> nat \<Rightarrow> ('c, 'p) InterestManager \<Rightarrow> ('c, 'p) InterestManager" where
  "record_delta_send state_size delta_size s =
    s\<lparr>delta_sends := wrap_add64 (delta_sends s) 1,
      delta_bytes_saved := wrap_add64 (delta_bytes_saved s) (state_size - delta_size)\<rparr>"

definition record_full_state_send :: "('c, 'p) InterestManager \<Rightarrow> ('c, 'p) InterestManager" where
  "record_full_state_send s = s\<lparr>full_state_sends := wrap_add64 (full_state_sends s) 1\<rparr>"

definition record_resync_request_received :: "('c, 'p) InterestManager \<Rightarrow> ('c, 'p) InterestManager" where
  "record_resync_request_received s =
    s\<lparr>resync_requests_received := wrap_add64 (resync_requests_received s) 1\<rparr>"

text \<open>\<open>entry(k).or_default()\<close> on a map whose values are collections.\<close>

definition or_default :: "('k, 'v list) hash_map \<Rightarrow> 'k \<Rightarrow> 'v list" where
  "or_default m k = (case map_of m k of None \<Rightarrow> [] | Some v \<Rightarrow> v)"

subsection \<open>The hash index\<close>

definition index_contract_hash ::
    "('c \<Rightarrow> bytes) \<Rightarrow> 'c \<Rightarrow> ('c, 'p) InterestManager \<Rightarrow> ('c, 'p) InterestManager" where
  "index_contract_hash idb c s =
    (let hash = contract_hash idb c; entry = or_default (contract_hash_index s) hash
     in s\<lparr>contract_hash_index :=
          AList.update hash (if c \<in> set entry then entry else entry @ [c]) (contract_hash_index s)\<rparr>)"

definition unindex_contract_hash ::
    "('c \<Rightarrow> bytes) \<Rightarrow> 'c \<Rightarrow> ('c, 'p) InterestManager \<Rightarrow> ('c, 'p) InterestManager" where
  "unindex_contract_hash idb c s =
    (let hash = contract_hash idb c
     in case map_of (contract_hash_index s) hash of
          None \<Rightarrow> s
        | Some entry \<Rightarrow>
            let entry' = filter (\<lambda>d. d \<noteq> c) entry
            in s\<lparr>contract_hash_index :=
                 (if entry' = [] then AList.delete hash (contract_hash_index s)
                  else AList.update hash entry' (contract_hash_index s))\<rparr>)"

definition has_local_interest :: "('c, 'p) InterestManager \<Rightarrow> 'c \<Rightarrow> bool" where
  "has_local_interest s c =
    (case map_of (local_interests s) c of None \<Rightarrow> False | Some li \<Rightarrow> is_interested li)"

definition cleanup_contract_if_no_interest ::
    "('c \<Rightarrow> bytes) \<Rightarrow> 'c \<Rightarrow> ('c, 'p) InterestManager \<Rightarrow> ('c, 'p) InterestManager" where
  "cleanup_contract_if_no_interest idb c s =
    (if \<not> contains_key (interested_peers s) c \<and> \<not> has_local_interest s c
     then let s' = unindex_contract_hash idb c s
          in s'\<lparr>summary_notify_timestamps := AList.delete c (summary_notify_timestamps s')\<rparr>
     else s)"

definition lookup_by_hash :: "('c, 'p) InterestManager \<Rightarrow> 32 word \<Rightarrow> 'c list" where
  "lookup_by_hash s hash = or_default (contract_hash_index s) hash"

definition get_all_interest_hashes :: "('c, 'p) InterestManager \<Rightarrow> 32 word list" where
  "get_all_interest_hashes s = sort (map fst (contract_hash_index s))"

definition get_matching_contracts ::
    "('c \<Rightarrow> bytes) \<Rightarrow> ('c, 'p) InterestManager \<Rightarrow> 32 word list \<Rightarrow> 'c list" where
  "get_matching_contracts idb s hashes =
    sort_key idb (concat (map snd (filter (\<lambda>(h, cs). h \<in> set hashes) (contract_hash_index s))))"

subsection \<open>Interest of peers\<close>

definition add_peer_entry :: "('c \<Rightarrow> bytes) \<Rightarrow> 'c \<Rightarrow> 'p \<Rightarrow> PeerInterest \<Rightarrow>
    ('c, 'p) InterestManager \<Rightarrow> ('c, 'p) InterestManager" where
  "add_peer_entry idb c p i s =
    (let entry = or_default (interested_peers s) c
     in index_contract_hash idb c
          (s\<lparr>interested_peers := AList.update c (AList.update p i entry) (interested_peers s),
             peer_contracts := AList.update p (List.insert c (or_default (peer_contracts s) p)) (peer_contracts s)\<rparr>))"

definition register_peer_interest :: "('c \<Rightarrow> bytes) \<Rightarrow> instant \<Rightarrow> 'c \<Rightarrow> 'p \<Rightarrow> bytes option \<Rightarrow> bool \<Rightarrow>
    ('c, 'p) InterestManager \<Rightarrow> bool \<times> ('c, 'p) InterestManager" where
  "register_peer_interest idb now c p summary upstream s =
    (let entry = or_default (interested_peers s) c; is_new = (\<not> contains_key entry p)
     in if is_new \<and> length entry \<ge> MAX_INTERESTED_PEERS_PER_CONTRACT
        then (False, s\<lparr>interested_peers := AList.update c entry (interested_peers s)\<rparr>)
        else (is_new, add_peer_entry idb c p (pi_new summary upstream now) s))"

definition remove_peer_interest ::
    "('c \<Rightarrow> bytes) \<Rightarrow> 'c \<Rightarrow> 'p \<Rightarrow> ('c, 'p) InterestManager \<Rightarrow> bool \<times> ('c, 'p) InterestManager" where
  "remove_peer_interest idb c p s =
    (case map_of (interested_peers s) c of
       None \<Rightarrow> (False, s)
     | Some entry \<Rightarrow>
         let removed = contains_key entry p;
             entry' = AList.delete p entry;
             s1 = s\<lparr>interested_peers := AList.update c entry' (interested_peers s)\<rparr>;
             s2 = (if removed then
                     case map_of (peer_contracts s1) p of
                       None \<Rightarrow> s1
                     | Some cs \<Rightarrow>
                         let cs' = removeAll c cs
                         in s1\<lparr>peer_contracts := (if cs' = [] then AList.delete p (peer_contracts s1)
                                                  else AList.update p cs' (peer_contracts s1))\<rparr>
                   else s1);
             s3 = (if entry' = []
                   then cleanup_contract_if_no_interest idb c
                          (s2\<lparr>interested_peers := AList.delete c (interested_peers s2)\<rparr>)
                   else s2)
         in (removed, s3))"

text \<open>\<open>get_mut\<close> on the entry of a contract, then on that of a peer.\<close>

definition modify_peer_interest :: "(PeerInterest \<Rightarrow> PeerInterest) \<Rightarrow> 'c \<Rightarrow> 'p \<Rightarrow>
    ('c, 'p) InterestManager \<Rightarrow> ('c, 'p) InterestManager" where
  "modify_peer_interest f c p s =
    (case map_of (interested_peers s) c of
       None \<Rightarrow> s
     | Some entry \<Rightarrow>
         (case map_of entry p of
            None \<Rightarrow> s
          | Some i \<Rightarrow> s\<lparr>interested_peers := AList.update c (AList.update p (f i) entry) (interested_peers s)\<rparr>))"

definition update_peer_summary ::
    "instant \<Rightarrow> 'c \<Rightarrow> 'p \<Rightarrow> bytes \<Rightarrow> ('c, 'p) InterestManager \<Rightarrow> ('c, 'p) InterestManager" where
  "update_peer_summary now c p summary = modify_peer_interest (set_summary summary now) c p"

definition clear_peer_summary :: "instant \<Rightarrow> 'c \<Rightarrow> 'p \<Rightarrow> SummaryMissingReason \<Rightarrow>
    ('c, 'p) InterestManager \<Rightarrow> ('c, 'p) InterestManager" where
  "clear_peer_summary now c p reason = modify_peer_interest (clear_summary reason now) c p"

definition refresh_peer_interest ::
    "instant \<Rightarrow> 'c \<Rightarrow> 'p \<Rightarrow> ('c, 'p) InterestManager \<Rightarrow> ('c, 'p) InterestManager" where
  "refresh_peer_interest now c p = modify_peer_interest (pi_refresh now) c p"

definition upsert_peer_summary :: "('c \<Rightarrow> bytes) \<Rightarrow> instant \<Rightarrow> 'c \<Rightarrow> 'p \<Rightarrow> bytes \<Rightarrow>
    ('c, 'p) InterestManager \<Rightarrow> bool \<times> ('c, 'p) InterestManager" where
  "upsert_peer_summary idb now c p summary s =
    (let entry = or_default (interested_peers s) c
     in case map_of entry p of
          Some i \<Rightarrow> (True, s\<lparr>interested_peers :=
                       AList.update c (AList.update p (set_summary summary now i) entry) (interested_peers s)\<rparr>)
        | None \<Rightarrow>
            if length entry \<ge> MAX_INTERESTED_PEERS_PER_CONTRACT
            then (False, s\<lparr>interested_peers := AList.update c entry (interested_peers s)\<rparr>)
            else (True, add_peer_entry idb c p (pi_new (Some summary) False now) s))"

definition get_peer_interest :: "('c, 'p) InterestManager \<Rightarrow> 'c \<Rightarrow> 'p \<Rightarrow> PeerInterest option" where
  "get_peer_interest s c p =
    (case map_of (interested_peers s) c of None \<Rightarrow> None | Some entry \<Rightarrow> map_of entry p)"

definition get_peer_summary :: "('c, 'p) InterestManager \<Rightarrow> 'c \<Rightarrow> 'p \<Rightarrow> bytes option" where
  "get_peer_summary s c p =
    (case map_of (interested_peers s) c of
       None \<Rightarrow> None
     | Some entry \<Rightarrow> (case map_of entry p of None \<Rightarrow> None | Some i \<Rightarrow> pi_summary i))"

definition get_interested_peers ::
    "('p \<Rightarrow> bytes) \<Rightarrow> ('c, 'p) InterestManager \<Rightarrow> 'c \<Rightarrow> ('p \<times> PeerInterest) list" where
  "get_interested_peers pkb s c = sort_key (\<lambda>(p, i). pkb p) (or_default (interested_peers s) c)"

definition get_contracts_for_peer :: "('c, 'p) InterestManager \<Rightarrow> 'p \<Rightarrow> 'c list" where
  "get_contracts_for_peer s p = or_default (peer_contracts s) p"

text \<open>An absent time stamp is entered 101 ms in the past, so that the test on it succeeds.\<close>

definition should_send_summary_notification ::
    "instant \<Rightarrow> 'c \<Rightarrow> ('c, 'p) InterestManager \<Rightarrow> bool \<times> ('c, 'p) InterestManager" where
  "should_send_summary_notification now c s =
    (let due = (case map_of (summary_notify_timestamps s) c of
                  None \<Rightarrow> True | Some t \<Rightarrow> now - t \<ge> from_millis 100)
     in (due, if due then s\<lparr>summary_notify_timestamps := AList.update c now (summary_notify_timestamps s)\<rparr> else s))"

subsection \<open>Disconnection and expiry\<close>

fun remove_interests :: "('c \<Rightarrow> bytes) \<Rightarrow> 'p \<Rightarrow> 'c list \<Rightarrow> ('c, 'p) InterestManager \<Rightarrow>
    nat \<times> ('c, 'p) InterestManager" where
  "remove_interests idb p [] s = (0, s)"
| "remove_interests idb p (c # cs) s =
    (let (removed, s') = remove_peer_interest idb c p s; (n, s'') = remove_interests idb p cs s'
     in ((if removed then n + 1 else n), s''))"

definition remove_all_peer_interests ::
    "('c \<Rightarrow> bytes) \<Rightarrow> 'p \<Rightarrow> ('c, 'p) InterestManager \<Rightarrow> nat \<times> ('c, 'p) InterestManager" where
  "remove_all_peer_interests idb p s = remove_interests idb p (or_default (peer_contracts s) p) s"

definition schedule_deferred_removal ::
    "instant \<Rightarrow> 'p \<Rightarrow> ('c, 'p) InterestManager \<Rightarrow> ('c, 'p) InterestManager" where
  "schedule_deferred_removal now p s =
    s\<lparr>pending_removals := AList.update p (now + INTEREST_DISCONNECT_GRACE_PERIOD) (pending_removals s)\<rparr>"

definition cancel_deferred_removal ::
    "'p \<Rightarrow> ('c, 'p) InterestManager \<Rightarrow> bool \<times> ('c, 'p) InterestManager" where
  "cancel_deferred_removal p s =
    (contains_key (pending_removals s) p, s\<lparr>pending_removals := AList.delete p (pending_removals s)\<rparr>)"

fun execute_removals :: "('c \<Rightarrow> bytes) \<Rightarrow> 'p list \<Rightarrow> ('c, 'p) InterestManager \<Rightarrow>
    nat \<times> ('c, 'p) InterestManager" where
  "execute_removals idb [] s = (0, s)"
| "execute_removals idb (p # ps) s =
    (if contains_key (pending_removals s) p
     then let (_, s') = remove_all_peer_interests idb p
                (s\<lparr>pending_removals := AList.delete p (pending_removals s)\<rparr>);
              (n, s'') = execute_removals idb ps s'
          in (n + 1, s'')
     else execute_removals idb ps s)"

definition execute_pending_removals ::
    "('c \<Rightarrow> bytes) \<Rightarrow> instant \<Rightarrow> ('c, 'p) InterestManager \<Rightarrow> nat \<times> ('c, 'p) InterestManager" where
  "execute_pending_removals idb now s =
    execute_removals idb (map fst (filter (\<lambda>(p, deadline). now \<ge> deadline) (pending_removals s))) s"

definition expired_interests :: "('c \<Rightarrow> bytes) \<Rightarrow> ('p \<Rightarrow> bytes) \<Rightarrow> instant \<Rightarrow>
    ('c, 'p) InterestManager \<Rightarrow> ('c \<times> 'p) list" where
  "expired_interests idb pkb now s =
    concat (map (\<lambda>(c, entry). map (Pair c)
        (sort_key pkb (map fst (filter (\<lambda>(p, i). is_expired_at now i) entry))))
      (sort_key (\<lambda>(c, entry). idb c) (interested_peers s)))"

definition sweep_expired_interests :: "('c \<Rightarrow> bytes) \<Rightarrow> ('p \<Rightarrow> bytes) \<Rightarrow> instant \<Rightarrow>
    ('c, 'p) InterestManager \<Rightarrow> ('c \<times> 'p) list \<times> ('c, 'p) InterestManager" where
  "sweep_expired_interests idb pkb now s =
    (let expired = expired_interests idb pkb now s
     in (expired, fold (\<lambda>(c, p) s. snd (remove_peer_interest idb c p s)) expired s))"

subsection \<open>Interest of the node itself\<close>

definition local_or_default :: "('c, 'p) InterestManager \<Rightarrow> 'c \<Rightarrow> LocalInterest" where
  "local_or_default s c = (case map_of (local_interests s) c of None \<Rightarrow> li_default | Some li \<Rightarrow> li)"

definition register_local_interest ::
    "('c \<Rightarrow> bytes) \<Rightarrow> 'c \<Rightarrow> ('c, 'p) InterestManager \<Rightarrow> ('c, 'p) InterestManager" where
  "register_local_interest idb c s =
    index_contract_hash idb c
      (s\<lparr>local_interests := AList.update c (local_or_default s c) (local_interests s)\<rparr>)"

definition register_local_hosting ::
    "('c \<Rightarrow> bytes) \<Rightarrow> 'c \<Rightarrow> ('c, 'p) InterestManager \<Rightarrow> bool \<times> ('c, 'p) InterestManager" where
  "register_local_hosting idb c s =
    (let li = local_or_default s c
     in (\<not> is_interested li,
         index_contract_hash idb c
           (s\<lparr>local_interests := AList.update c (li\<lparr>hosting := True\<rparr>) (local_interests s)\<rparr>)))"

text \<open>What \<open>unregister_local_hosting\<close>, \<open>remove_local_client\<close> and \<open>remove_downstream_subscriber\<close> do with the
  outcome of the change they make to the entry.\<close>

definition drop_local_reason :: "('c \<Rightarrow> bytes) \<Rightarrow> (LocalInterest \<Rightarrow> bool \<times> LocalInterest) \<Rightarrow> 'c \<Rightarrow>
    ('c, 'p) InterestManager \<Rightarrow> bool \<times> ('c, 'p) InterestManager" where
  "drop_local_reason idb f c s =
    (case map_of (local_interests s) c of
       None \<Rightarrow> (False, s)
     | Some li \<Rightarrow>
         let (lost_interest, li') = f li
         in (lost_interest,
             if lost_interest
             then cleanup_contract_if_no_interest idb c
                    (s\<lparr>local_interests := AList.delete c (local_interests s)\<rparr>)
             else s\<lparr>local_interests := AList.update c li' (local_interests s)\<rparr>))"

definition unregister_local_hosting ::
    "('c \<Rightarrow> bytes) \<Rightarrow> 'c \<Rightarrow> ('c, 'p) InterestManager \<Rightarrow> bool \<times> ('c, 'p) InterestManager" where
  "unregister_local_hosting idb =
    drop_local_reason idb (\<lambda>li. let li' = li\<lparr>hosting := False\<rparr> in (\<not> is_interested li', li'))"

definition add_local_client ::
    "('c \<Rightarrow> bytes) \<Rightarrow> 'c \<Rightarrow> ('c, 'p) InterestManager \<Rightarrow> bool \<times> ('c, 'p) InterestManager" where
  "add_local_client idb c s =
    (let (became_interested, li) = li_add_client (local_or_default s c)
     in (became_interested,
         index_contract_hash idb c (s\<lparr>local_interests := AList.update c li (local_interests s)\<rparr>)))"

definition remove_local_client ::
    "('c \<Rightarrow> bytes) \<Rightarrow> 'c \<Rightarrow> ('c, 'p) InterestManager \<Rightarrow> bool \<times> ('c, 'p) InterestManager" where
  "remove_local_client idb = drop_local_reason idb li_remove_client"

definition add_downstream_subscriber ::
    "('c \<Rightarrow> bytes) \<Rightarrow> 'c \<Rightarrow> ('c, 'p) InterestManager \<Rightarrow> bool \<times> ('c, 'p) InterestManager" where
  "add_downstream_subscriber idb c s =
    (let (became_interested, li) = li_add_downstream (local_or_default s c)
     in (became_interested,
         index_contract_hash idb c (s\<lparr>local_interests := AList.update c li (local_interests s)\<rparr>)))"

definition remove_downstream_subscriber ::
    "('c \<Rightarrow> bytes) \<Rightarrow> 'c \<Rightarrow> ('c, 'p) InterestManager \<Rightarrow> bool \<times> ('c, 'p) InterestManager" where
  "remove_downstream_subscriber idb = drop_local_reason idb li_remove_downstream"

definition remove_evicted_in_use ::
    "('c \<Rightarrow> bytes) \<Rightarrow> 'c \<Rightarrow> 'p list \<Rightarrow> nat \<Rightarrow> ('c, 'p) InterestManager \<Rightarrow> ('c, 'p) InterestManager" where
  "remove_evicted_in_use idb c downstream_peers clients s =
    ((\<lambda>s. snd (remove_local_client idb c s)) ^^ clients)
      (fold (\<lambda>p s. snd (remove_downstream_subscriber idb c (snd (remove_peer_interest idb c p s))))
        downstream_peers s)"

definition cleanup_local_interest :: "'c \<Rightarrow> ('c, 'p) InterestManager \<Rightarrow> ('c, 'p) InterestManager" where
  "cleanup_local_interest c s =
    (case map_of (local_interests s) c of
       None \<Rightarrow> s
     | Some li \<Rightarrow> if is_interested li then s else s\<lparr>local_interests := AList.delete c (local_interests s)\<rparr>)"

end
