(* ===== verification/Interest_Properties.thy ===== *)
theory Interest_Properties
  imports Interest_Manager
begin

text \<open>
  The interest manager refines a plain map from contract and peer to the entry of the peer, together with the
  deadlines of deferred removals: the reverse index, the hash index and the removal of empty entries cannot be
  observed. The flags returned by the operations on the node's own interest are the changes of that interest.
\<close>

section \<open>The state and its views\<close>

abbreviation tracked :: "('c, 'p) InterestManager \<Rightarrow> 'c \<Rightarrow> 'p set" where
  "tracked s c \<equiv> keys (or_default (interested_peers s) c)"

abbreviation indexed :: "('c \<Rightarrow> bytes) \<Rightarrow> ('c, 'p) InterestManager \<Rightarrow> 'c \<Rightarrow> bool" where
  "indexed idb s c \<equiv> c \<in> set (lookup_by_hash s (contract_hash idb c))"

text \<open>No list stored in a map is empty or has duplicates.\<close>

definition buckets_ok :: "('k, 'v list) hash_map \<Rightarrow> bool" where
  "buckets_ok m \<longleftrightarrow> map_ok m \<and> (\<forall>k v. map_of m k = Some v \<longrightarrow> v \<noteq> [] \<and> distinct v)"

definition peers_ok :: "('c, ('p, PeerInterest) hash_map) hash_map \<Rightarrow> bool" where
  "peers_ok m \<longleftrightarrow> map_ok m \<and>
    (\<forall>c e. map_of m c = Some e \<longrightarrow> e \<noteq> [] \<and> map_ok e \<and> length e \<le> MAX_INTERESTED_PEERS_PER_CONTRACT)"

definition hash_index_ok :: "('c \<Rightarrow> bytes) \<Rightarrow> (32 word, 'c list) hash_map \<Rightarrow> bool" where
  "hash_index_ok idb m \<longleftrightarrow> buckets_ok m \<and>
    (\<forall>h cs. map_of m h = Some cs \<longrightarrow> (\<forall>c \<in> set cs. contract_hash idb c = h))"

definition im_ok :: "('c \<Rightarrow> bytes) \<Rightarrow> ('c, 'p) InterestManager \<Rightarrow> bool" where
  "im_ok idb s \<longleftrightarrow> peers_ok (interested_peers s) \<and> buckets_ok (peer_contracts s) \<and>
    map_ok (local_interests s) \<and> hash_index_ok idb (contract_hash_index s) \<and> map_ok (pending_removals s) \<and>
    (\<forall>c p. p \<in> tracked s c \<longleftrightarrow> c \<in> set (get_contracts_for_peer s p)) \<and>
    (\<forall>c. tracked s c \<noteq> {} \<or> has_local_interest s c \<longrightarrow> indexed idb s c)"

section \<open>Collections in maps\<close>

lemma or_default_Nil [simp]: "or_default [] k = []"
  by (simp add: or_default_def)

lemma or_default_update [simp]: "or_default (AList.update k v m) k' = (if k' = k then v else or_default m k')"
  by (simp add: or_default_def)

lemma or_default_delete [simp]: "or_default (AList.delete k m) k' = (if k' = k then [] else or_default m k')"
  by (simp add: or_default_def)

lemma or_default_Some: "map_of m k = Some v \<Longrightarrow> or_default m k = v"
  by (simp add: or_default_def)

lemma or_default_None: "map_of m k = None \<Longrightarrow> or_default m k = []"
  by (simp add: or_default_def)

lemma update_same: "map_of m k = Some v \<Longrightarrow> AList.update k v m = m"
  by (induction m) (auto split: if_splits)

text \<open>What the code does after it has taken elements out of a list in a map.\<close>

lemma buckets_ok_shrink: "buckets_ok m \<Longrightarrow> distinct v \<Longrightarrow>
    buckets_ok (if v = [] then AList.delete k m else AList.update k v m)"
  by (auto simp: buckets_ok_def)

lemma or_default_shrink: "or_default (if v = [] then AList.delete k m else AList.update k v m) k' =
    (if k' = k then v else or_default m k')"
  by simp

lemma buckets_ok_update: "buckets_ok m \<Longrightarrow> v \<noteq> [] \<Longrightarrow> distinct v \<Longrightarrow> buckets_ok (AList.update k v m)"
  by (auto simp: buckets_ok_def)

lemma distinct_or_default: "buckets_ok m \<Longrightarrow> distinct (or_default m k)"
  by (cases "map_of m k") (auto simp: buckets_ok_def or_default_def)

lemma peers_ok_entry: "peers_ok m \<Longrightarrow> map_ok (or_default m c) \<and> length (or_default m c) \<le> MAX_INTERESTED_PEERS_PER_CONTRACT"
  by (cases "map_of m c") (auto simp: peers_ok_def or_default_def MAX_INTERESTED_PEERS_PER_CONTRACT_def)

lemma peers_ok_update: "peers_ok m \<Longrightarrow> map_ok e \<Longrightarrow> e \<noteq> [] \<Longrightarrow>
    length e \<le> MAX_INTERESTED_PEERS_PER_CONTRACT \<Longrightarrow> peers_ok (AList.update c e m)"
  by (auto simp: peers_ok_def)

lemma peers_ok_delete: "peers_ok m \<Longrightarrow> peers_ok (AList.delete c m)"
  by (auto simp: peers_ok_def)

lemma keys_peers_ok: "peers_ok m \<Longrightarrow> c \<in> keys m \<longleftrightarrow> keys (or_default m c) \<noteq> {}"
  using map_of_keys[of m c]
  by (cases "map_of m c") (auto simp: peers_ok_def or_default_def keys_def)

lemma keys_empty_iff: "keys e = {} \<longleftrightarrow> e = []"
  by (simp add: keys_def)

section \<open>The hash index\<close>

lemma bucket_hash: "hash_index_ok idb m \<Longrightarrow> c \<in> set (or_default m h) \<Longrightarrow> contract_hash idb c = h"
  by (cases "map_of m h") (auto simp: hash_index_ok_def or_default_def)

lemma bucket_distinct: "hash_index_ok idb m \<Longrightarrow> distinct (or_default m h)"
  by (simp add: hash_index_ok_def distinct_or_default)

lemma hash_index_shrink:
  assumes "hash_index_ok idb m" "distinct v" "\<forall>c \<in> set v. contract_hash idb c = h"
  shows "hash_index_ok idb (if v = [] then AList.delete h m else AList.update h v m)"
  using assms buckets_ok_shrink[of m v h] by (simp add: hash_index_ok_def)

lemma index_fields [simp]:
  "interested_peers (index_contract_hash idb c s) = interested_peers s"
  "peer_contracts (index_contract_hash idb c s) = peer_contracts s"
  "local_interests (index_contract_hash idb c s) = local_interests s"
  "pending_removals (index_contract_hash idb c s) = pending_removals s"
  by (simp_all add: index_contract_hash_def Let_def)

lemma lookup_index: "set (lookup_by_hash (index_contract_hash idb c s) h) =
    (if h = contract_hash idb c then insert c (set (lookup_by_hash s h)) else set (lookup_by_hash s h))"
  by (auto simp: lookup_by_hash_def index_contract_hash_def Let_def)

lemma index_ok:
  assumes ok: "hash_index_ok idb (contract_hash_index s)"
  shows "hash_index_ok idb (contract_hash_index (index_contract_hash idb c s))"
proof -
  define h where "h = contract_hash idb c"
  define v where "v = or_default (contract_hash_index s) h"
  let ?w = "if c \<in> set v then v else v @ [c]"
  have "distinct ?w" using bucket_distinct[OF ok, of h] by (simp add: v_def)
  moreover have "\<forall>d \<in> set ?w. contract_hash idb d = h"
    using bucket_hash[OF ok, of _ h] by (auto simp: v_def[symmetric] h_def[symmetric])
  moreover have "?w \<noteq> []" by auto
  ultimately have "hash_index_ok idb (AList.update h ?w (contract_hash_index s))"
    using hash_index_shrink[OF ok, of ?w h] by presburger
  then show ?thesis
    by (cases "c \<in> set v") (simp_all add: index_contract_hash_def Let_def v_def[symmetric] h_def[symmetric])
qed

lemma unindex_fields [simp]:
  "interested_peers (unindex_contract_hash idb c s) = interested_peers s"
  "peer_contracts (unindex_contract_hash idb c s) = peer_contracts s"
  "local_interests (unindex_contract_hash idb c s) = local_interests s"
  "pending_removals (unindex_contract_hash idb c s) = pending_removals s"
  by (simp_all add: unindex_contract_hash_def Let_def split: option.splits)

lemma lookup_unindex: "lookup_by_hash (unindex_contract_hash idb c s) h =
    (if h = contract_hash idb c then filter (\<lambda>d. d \<noteq> c) (lookup_by_hash s h) else lookup_by_hash s h)"
proof (cases "map_of (contract_hash_index s) (contract_hash idb c)")
  case (Some v)
  then show ?thesis
    by (simp add: lookup_by_hash_def unindex_contract_hash_def Let_def or_default_shrink or_default_Some del: or_default_update or_default_delete)
qed (simp add: lookup_by_hash_def unindex_contract_hash_def Let_def or_default_None)

lemma unindex_ok:
  assumes ok: "hash_index_ok idb (contract_hash_index s)"
  shows "hash_index_ok idb (contract_hash_index (unindex_contract_hash idb c s))"
proof -
  define h where "h = contract_hash idb c"
  show ?thesis
  proof (cases "map_of (contract_hash_index s) h")
    case (Some v)
    have "\<forall>d \<in> set (filter (\<lambda>d. d \<noteq> c) v). contract_hash idb d = h"
      using bucket_hash[OF ok, of _ h] or_default_Some[OF Some] by simp
    moreover have "distinct (filter (\<lambda>d. d \<noteq> c) v)"
      using bucket_distinct[OF ok, of h] or_default_Some[OF Some] by simp
    ultimately show ?thesis using hash_index_shrink[OF ok, of "filter (\<lambda>d. d \<noteq> c) v" h] Some
      by (simp add: unindex_contract_hash_def Let_def h_def[symmetric])
  qed (simp add: unindex_contract_hash_def Let_def ok h_def[symmetric])
qed

lemma cleanup_fields [simp]:
  "interested_peers (cleanup_contract_if_no_interest idb c s) = interested_peers s"
  "peer_contracts (cleanup_contract_if_no_interest idb c s) = peer_contracts s"
  "local_interests (cleanup_contract_if_no_interest idb c s) = local_interests s"
  "pending_removals (cleanup_contract_if_no_interest idb c s) = pending_removals s"
  by (simp_all add: cleanup_contract_if_no_interest_def Let_def)

lemma lookup_cleanup: "set (lookup_by_hash (cleanup_contract_if_no_interest idb c s) h) =
    (if h = contract_hash idb c \<and> c \<notin> keys (interested_peers s) \<and> \<not> has_local_interest s c
     then set (lookup_by_hash s h) - {c} else set (lookup_by_hash s h))"
proof -
  have frame: "lookup_by_hash (s\<lparr>summary_notify_timestamps := x\<rparr>) = lookup_by_hash s" for s :: "('a, 'b) InterestManager" and x
    by (simp add: lookup_by_hash_def fun_eq_iff)
  show ?thesis
    by (cases "c \<notin> keys (interested_peers s) \<and> \<not> has_local_interest s c")
      (auto simp: cleanup_contract_if_no_interest_def Let_def contains_key_iff frame lookup_unindex)
qed

lemma cleanup_ok: "hash_index_ok idb (contract_hash_index s) \<Longrightarrow>
    hash_index_ok idb (contract_hash_index (cleanup_contract_if_no_interest idb c s))"
  by (simp add: cleanup_contract_if_no_interest_def Let_def unindex_ok)

lemma local_cong: "local_interests s = local_interests s' \<Longrightarrow> has_local_interest s = has_local_interest s'"
  by (simp add: has_local_interest_def fun_eq_iff)

section \<open>Every operation keeps the state well formed\<close>

lemma im_okI:
  assumes "peers_ok (interested_peers s)" "buckets_ok (peer_contracts s)" "map_ok (local_interests s)"
    "hash_index_ok idb (contract_hash_index s)" "map_ok (pending_removals s)"
    "\<And>c p. p \<in> tracked s c \<longleftrightarrow> c \<in> set (get_contracts_for_peer s p)"
    "\<And>c. tracked s c \<noteq> {} \<or> has_local_interest s c \<Longrightarrow> indexed idb s c"
  shows "im_ok idb s"
  using assms unfolding im_ok_def by blast

lemma im_okD:
  assumes "im_ok idb s"
  shows "peers_ok (interested_peers s)" "buckets_ok (peer_contracts s)" "map_ok (local_interests s)"
    "hash_index_ok idb (contract_hash_index s)" "map_ok (pending_removals s)"
    "p \<in> tracked s c \<longleftrightarrow> c \<in> set (get_contracts_for_peer s p)"
    "tracked s c \<noteq> {} \<Longrightarrow> indexed idb s c" "has_local_interest s c \<Longrightarrow> indexed idb s c"
  using assms unfolding im_ok_def by blast+

lemma im_ok_new: "im_ok idb im_new"
  by (simp add: im_ok_def im_new_def peers_ok_def buckets_ok_def hash_index_ok_def get_contracts_for_peer_def
      has_local_interest_def)

text \<open>A field the invariant does not mention, and the hash index made larger.\<close>

lemma im_ok_cong: "im_ok idb s \<Longrightarrow> interested_peers s' = interested_peers s \<Longrightarrow>
    peer_contracts s' = peer_contracts s \<Longrightarrow> local_interests s' = local_interests s \<Longrightarrow>
    contract_hash_index s' = contract_hash_index s \<Longrightarrow> map_ok (pending_removals s') \<Longrightarrow> im_ok idb s'"
  by (simp add: im_ok_def get_contracts_for_peer_def has_local_interest_def lookup_by_hash_def)

lemma indexed_index: "indexed idb (index_contract_hash idb c s) d \<longleftrightarrow> d = c \<or> indexed idb s d"
  by (auto simp: lookup_index)

lemma indexed_cong: "contract_hash_index s' = contract_hash_index s \<Longrightarrow> indexed idb s' c = indexed idb s c"
  by (simp add: lookup_by_hash_def)

lemma add_peer_entry_ok:
  assumes ok: "im_ok idb s"
    and room: "p \<in> tracked s c \<or> length (or_default (interested_peers s) c) < MAX_INTERESTED_PEERS_PER_CONTRACT"
  shows "im_ok idb (add_peer_entry idb c p i s)"
proof -
  note d = im_okD[OF ok]
  let ?e = "or_default (interested_peers s) c"
  let ?s = "s\<lparr>interested_peers := AList.update c (AList.update p i ?e) (interested_peers s),
      peer_contracts := AList.update p (List.insert c (or_default (peer_contracts s) p)) (peer_contracts s)\<rparr>"
  have e: "map_ok ?e" "length ?e \<le> MAX_INTERESTED_PEERS_PER_CONTRACT" using peers_ok_entry[OF d(1)] by auto
  have "length (AList.update p i ?e) \<le> MAX_INTERESTED_PEERS_PER_CONTRACT"
    using length_update[OF e(1), of p i] room e(2) by (auto split: if_splits)
  moreover have "AList.update p i ?e \<noteq> []" using keys_update[of p i ?e] keys_Nil by force
  ultimately have "peers_ok (interested_peers ?s)" using d(1) e(1) by (simp add: peers_ok_update)
  moreover have "buckets_ok (peer_contracts ?s)" using d(2) distinct_or_default[OF d(2), of p]
    by (auto intro: buckets_ok_update simp: List.insert_def)
  ultimately show ?thesis unfolding add_peer_entry_def Let_def
  proof (intro im_okI, simp_all only: index_fields)
    show "hash_index_ok idb (contract_hash_index (index_contract_hash idb c ?s))" using d(4) by (simp add: index_ok)
    show "q \<in> keys (or_default (interested_peers ?s) b) \<longleftrightarrow> b \<in> set (get_contracts_for_peer (index_contract_hash idb c ?s) q)" for b q
      using d(6)[of q b] by (auto simp: get_contracts_for_peer_def)
    show "indexed idb (index_contract_hash idb c ?s) b"
      if "keys (or_default (interested_peers ?s) b) \<noteq> {} \<or> has_local_interest (index_contract_hash idb c ?s) b" for b
      using that d(7,8)[of b] indexed_cong[of ?s s b idb]
      by (auto simp: indexed_index has_local_interest_def split: if_splits)
  qed (use d(3,5) in simp_all)
qed

lemma remove_peer_interest_untracked: "im_ok idb s \<Longrightarrow> p \<notin> tracked s c \<Longrightarrow> snd (remove_peer_interest idb c p s) = s \<and>
    \<not> fst (remove_peer_interest idb c p s)"
proof (cases "map_of (interested_peers s) c")
  case (Some e)
  assume ok: "im_ok idb s" and "p \<notin> tracked s c"
  then have "p \<notin> keys e" "e \<noteq> []" using Some im_okD(1)[OF ok] by (auto simp: or_default_Some peers_ok_def)
  then show ?thesis using Some
    by (simp add: remove_peer_interest_def Let_def contains_key_iff update_same)
qed (simp add: remove_peer_interest_def)

text \<open>The removal of a tracked peer, without the order in which the code makes its changes.\<close>

lemma remove_peer_interest_tracked:
  assumes ok: "im_ok idb s" and p: "p \<in> tracked s c"
  defines "e \<equiv> AList.delete p (or_default (interested_peers s) c)"
    and "cs \<equiv> removeAll c (or_default (peer_contracts s) p)"
  defines "s1 \<equiv> s\<lparr>peer_contracts := (if cs = [] then AList.delete p (peer_contracts s)
        else AList.update p cs (peer_contracts s)),
      interested_peers := (if e = [] then AList.delete c (interested_peers s)
        else AList.update c e (interested_peers s))\<rparr>"
  shows "remove_peer_interest idb c p s =
    (True, if e = [] then cleanup_contract_if_no_interest idb c s1 else s1)"
proof -
  obtain e0 where e0: "map_of (interested_peers s) c = Some e0"
    using p by (cases "map_of (interested_peers s) c") (auto simp: or_default_def)
  have "c \<in> set (or_default (peer_contracts s) p)" using im_okD(6)[OF ok] p by (simp add: get_contracts_for_peer_def)
  then obtain cs0 where cs0: "map_of (peer_contracts s) p = Some cs0"
    by (cases "map_of (peer_contracts s) p") (auto simp: or_default_def)
  have "p \<in> keys e0" "e = AList.delete p e0" "cs = removeAll c cs0"
    using p e0 cs0 by (simp_all add: e_def cs_def or_default_Some)
  then show ?thesis
    by (auto simp: remove_peer_interest_def Let_def contains_key_iff e0 cs0 s1_def)
qed

lemma get_peer_interest_alt: "get_peer_interest s c p = map_of (or_default (interested_peers s) c) p"
  by (simp add: get_peer_interest_def or_default_def split: option.splits)

lemma tracked_iff: "p \<in> tracked s c \<longleftrightarrow> get_peer_interest s c p \<noteq> None"
  by (simp add: get_peer_interest_alt map_of_keys)

lemma remove_peer_interest_ok:
  assumes ok: "im_ok idb s"
  shows "im_ok idb (snd (remove_peer_interest idb c p s))"
proof (cases "p \<in> tracked s c")
  case True
  note d = im_okD[OF ok]
  let ?e = "AList.delete p (or_default (interested_peers s) c)"
  let ?cs = "removeAll c (or_default (peer_contracts s) p)"
  define s1 where "s1 = s\<lparr>peer_contracts := (if ?cs = [] then AList.delete p (peer_contracts s)
        else AList.update p ?cs (peer_contracts s)),
      interested_peers := (if ?e = [] then AList.delete c (interested_peers s)
        else AList.update c ?e (interested_peers s))\<rparr>"
  define s2 where "s2 = (if ?e = [] then cleanup_contract_if_no_interest idb c s1 else s1)"
  have eq: "snd (remove_peer_interest idb c p s) = s2"
    using remove_peer_interest_tracked[OF ok True] by (simp add: s2_def s1_def)
  have e: "map_ok ?e" "length ?e \<le> MAX_INTERESTED_PEERS_PER_CONTRACT"
    using peers_ok_entry[OF d(1), of c] length_delete_le[of p "or_default (interested_peers s) c"]
    by (auto intro: order.trans)
  have peers: "peers_ok (interested_peers s1)" using d(1) e by (simp add: s1_def peers_ok_update peers_ok_delete)
  have "or_default (interested_peers s1) b = (if b = c then ?e else or_default (interested_peers s) b)" for b
    unfolding s1_def using or_default_shrink[of ?e c "interested_peers s" b] by simp
  then have tr: "tracked s1 b = (if b = c then tracked s c - {p} else tracked s b)" for b by simp
  have cs: "set (get_contracts_for_peer s1 q) =
      (if q = p then set (get_contracts_for_peer s p) - {c} else set (get_contracts_for_peer s q))" for q
    using or_default_shrink[of ?cs p "peer_contracts s" q] by (simp add: s1_def get_contracts_for_peer_def)
  have same: "contract_hash_index s1 = contract_hash_index s" "has_local_interest s1 = has_local_interest s"
    "local_interests s1 = local_interests s" "pending_removals s1 = pending_removals s"
    by (simp_all add: s1_def has_local_interest_def fun_eq_iff)
  have lk: "lookup_by_hash s1 = lookup_by_hash s" by (simp add: lookup_by_hash_def same fun_eq_iff)
  have idx: "indexed idb s2 b" if "tracked s1 b \<noteq> {} \<or> has_local_interest s b" for b
  proof -
    have "indexed idb s b" using that d(7,8)[of b] by (auto simp: tr split: if_splits)
    moreover have "b = c \<Longrightarrow> \<not> (c \<notin> keys (interested_peers s1) \<and> \<not> has_local_interest s1 c)"
      using that keys_peers_ok[OF peers, of c] by (auto simp: same)
    ultimately show ?thesis by (auto simp: s2_def lookup_cleanup same lk)
  qed
  have "im_ok idb s2"
  proof (rule im_okI)
    show "hash_index_ok idb (contract_hash_index s2)" using d(4) by (simp add: s2_def cleanup_ok same)
    show "buckets_ok (peer_contracts s2)"
      using buckets_ok_shrink[OF d(2) distinct_removeAll[OF distinct_or_default[OF d(2)]], of c p p]
      by (auto simp: s2_def s1_def split: if_splits)
    show "q \<in> tracked s2 b \<longleftrightarrow> b \<in> set (get_contracts_for_peer s2 q)" for b q
      using d(6)[of q b] tr[of b] cs[of q] by (auto simp: s2_def get_contracts_for_peer_def split: if_splits)
    show "indexed idb s2 b" if "tracked s2 b \<noteq> {} \<or> has_local_interest s2 b" for b
      using that idx[of b] by (simp add: s2_def same local_cong[of "cleanup_contract_if_no_interest idb c s1" s1] split: if_splits)
  qed (use peers d(3,5) in \<open>simp_all add: s2_def same\<close>)
  then show ?thesis by (simp add: eq)
qed (use remove_peer_interest_untracked[OF ok] ok in simp)

lemma remove_peer_interest_effect:
  assumes ok: "im_ok idb s"
  shows "get_peer_interest (snd (remove_peer_interest idb c p s)) d q =
      (if d = c \<and> q = p then None else get_peer_interest s d q)" (is ?interest)
    and "fst (remove_peer_interest idb c p s) \<longleftrightarrow> get_peer_interest s c p \<noteq> None" (is ?removed)
    and "local_interests (snd (remove_peer_interest idb c p s)) = local_interests s" (is ?loc)
    and "pending_removals (snd (remove_peer_interest idb c p s)) = pending_removals s" (is ?pending)
    and "set (lookup_by_hash (snd (remove_peer_interest idb c p s)) h) - {c} = set (lookup_by_hash s h) - {c}" (is ?lookup)
proof -
  note tr = remove_peer_interest_tracked[OF ok, of p c]
  note untr = remove_peer_interest_untracked[OF ok, of p c]
  show ?interest
  proof (cases "p \<in> tracked s c")
    case True
    let ?e = "AList.delete p (or_default (interested_peers s) c)"
    have "interested_peers (snd (remove_peer_interest idb c p s)) =
        (if ?e = [] then AList.delete c (interested_peers s) else AList.update c ?e (interested_peers s))"
      by (simp add: tr[OF True])
    then show ?thesis by (simp only: get_peer_interest_alt or_default_shrink) simp
  next
    case False
    then have "get_peer_interest s c p = None" using tracked_iff by fast
    then show ?thesis using untr[OF False] by auto
  qed
  show ?removed using tr untr tracked_iff[of p s c] by (cases "p \<in> tracked s c") auto
  show ?loc using tr untr by (cases "p \<in> tracked s c") auto
  show ?pending using tr untr by (cases "p \<in> tracked s c") auto
  have frame: "lookup_by_hash (s\<lparr>peer_contracts := x, interested_peers := y\<rparr>) = lookup_by_hash s" for x y
    by (simp add: lookup_by_hash_def fun_eq_iff)
  show ?lookup
  proof (cases "p \<in> tracked s c")
    case True
    show ?thesis unfolding tr[OF True] snd_conv
      by (simp only: if_distrib[of "\<lambda>s. set (lookup_by_hash s h) - {c}"] lookup_cleanup frame) simp
  qed (use untr in simp)
qed

text \<open>Entries replaced in place.\<close>

lemma modify_ok:
  assumes ok: "im_ok idb s" and i: "map_of (or_default (interested_peers s) c) p = Some i"
  shows "im_ok idb (s\<lparr>interested_peers :=
    AList.update c (AList.update p j (or_default (interested_peers s) c)) (interested_peers s)\<rparr>)"
proof -
  note d = im_okD[OF ok]
  let ?e = "or_default (interested_peers s) c"
  let ?s = "s\<lparr>interested_peers := AList.update c (AList.update p j ?e) (interested_peers s)\<rparr>"
  have p: "p \<in> keys ?e" using i map_of_keys[of ?e p] by auto
  have e: "map_ok ?e" "length ?e \<le> MAX_INTERESTED_PEERS_PER_CONTRACT" using peers_ok_entry[OF d(1)] by auto
  have "length (AList.update p j ?e) \<le> MAX_INTERESTED_PEERS_PER_CONTRACT"
    using length_update[OF e(1), of p j] p e(2) by simp
  moreover have "AList.update p j ?e \<noteq> []" using keys_update[of p j ?e] keys_Nil by force
  ultimately have "peers_ok (interested_peers ?s)" using d(1) e(1) by (simp add: peers_ok_update)
  moreover have "tracked ?s b = tracked s b" for b using p by auto
  moreover have "has_local_interest ?s = has_local_interest s" "lookup_by_hash ?s = lookup_by_hash s"
    "get_contracts_for_peer ?s = get_contracts_for_peer s"
    by (simp_all add: has_local_interest_def lookup_by_hash_def get_contracts_for_peer_def fun_eq_iff)
  ultimately show ?thesis using d by (intro im_okI) (simp_all, blast)
qed

lemma modify_peer_interest_alt: "modify_peer_interest f c p s =
    (case map_of (or_default (interested_peers s) c) p of
       None \<Rightarrow> s
     | Some i \<Rightarrow> s\<lparr>interested_peers :=
         AList.update c (AList.update p (f i) (or_default (interested_peers s) c)) (interested_peers s)\<rparr>)"
  by (simp add: modify_peer_interest_def or_default_def split: option.splits)

lemma modify_peer_interest_ok: "im_ok idb s \<Longrightarrow> im_ok idb (modify_peer_interest f c p s)"
  by (simp add: modify_peer_interest_alt modify_ok split: option.splits)

lemma modify_peer_interest_effect:
  "get_peer_interest (modify_peer_interest f c p s) d q =
    (if d = c \<and> q = p then map_option f (get_peer_interest s c p) else get_peer_interest s d q)"
  "local_interests (modify_peer_interest f c p s) = local_interests s"
  "pending_removals (modify_peer_interest f c p s) = pending_removals s"
  "lookup_by_hash (modify_peer_interest f c p s) = lookup_by_hash s"
  by (auto simp: modify_peer_interest_alt get_peer_interest_alt lookup_by_hash_def split: option.splits)

section \<open>The node's own interest\<close>

lemma add_local_ok:
  assumes ok: "im_ok idb s"
  shows "im_ok idb (index_contract_hash idb c (s\<lparr>local_interests := AList.update c li (local_interests s)\<rparr>))"
proof (rule im_okI, simp_all only: index_fields)
  note d = im_okD[OF ok]
  let ?s = "s\<lparr>local_interests := AList.update c li (local_interests s)\<rparr>"
  show "hash_index_ok idb (contract_hash_index (index_contract_hash idb c ?s))" using d(4) by (simp add: index_ok)
  show "p \<in> tracked ?s b \<longleftrightarrow> b \<in> set (get_contracts_for_peer (index_contract_hash idb c ?s) p)" for b p
    using d(6)[of p b] by (simp add: get_contracts_for_peer_def)
  show "indexed idb (index_contract_hash idb c ?s) b"
    if "tracked ?s b \<noteq> {} \<or> has_local_interest (index_contract_hash idb c ?s) b" for b
    using that d(7,8)[of b] indexed_cong[of ?s s b idb]
    by (auto simp: indexed_index has_local_interest_def split: if_splits)
qed (use im_okD[OF ok] in simp_all)

lemma update_local_ok:
  assumes ok: "im_ok idb s" and li: "is_interested li \<longrightarrow> has_local_interest s c"
  shows "im_ok idb (s\<lparr>local_interests := AList.update c li (local_interests s)\<rparr>)"
proof (rule im_okI)
  note d = im_okD[OF ok]
  let ?s = "s\<lparr>local_interests := AList.update c li (local_interests s)\<rparr>"
  show "p \<in> tracked ?s b \<longleftrightarrow> b \<in> set (get_contracts_for_peer ?s p)" for b p
    using d(6)[of p b] by (simp add: get_contracts_for_peer_def)
  have "has_local_interest ?s b \<Longrightarrow> has_local_interest s b" for b
    using li by (auto simp: has_local_interest_def split: if_splits)
  then show "indexed idb ?s b" if "tracked ?s b \<noteq> {} \<or> has_local_interest ?s b" for b
    using that d(7,8)[of b] indexed_cong[of ?s s b idb] by auto
qed (use im_okD[OF ok] in simp_all)

lemma drop_local_entry_ok:
  assumes ok: "im_ok idb s"
  shows "im_ok idb (cleanup_contract_if_no_interest idb c (s\<lparr>local_interests := AList.delete c (local_interests s)\<rparr>))"
proof (rule im_okI, simp_all only: cleanup_fields)
  note d = im_okD[OF ok]
  let ?s = "s\<lparr>local_interests := AList.delete c (local_interests s)\<rparr>"
  show "hash_index_ok idb (contract_hash_index (cleanup_contract_if_no_interest idb c ?s))"
    using d(4) by (simp add: cleanup_ok)
  show "p \<in> tracked ?s b \<longleftrightarrow> b \<in> set (get_contracts_for_peer (cleanup_contract_if_no_interest idb c ?s) p)" for b p
    using d(6)[of p b] by (simp add: get_contracts_for_peer_def)
  show "indexed idb (cleanup_contract_if_no_interest idb c ?s) b"
    if "tracked ?s b \<noteq> {} \<or> has_local_interest (cleanup_contract_if_no_interest idb c ?s) b" for b
  proof -
    have "indexed idb ?s b" using that d(7,8)[of b] indexed_cong[of ?s s b idb]
      by (auto simp: has_local_interest_def split: if_splits)
    moreover have "b = c \<Longrightarrow> c \<in> keys (interested_peers ?s)"
      using that keys_peers_ok[OF d(1), of c] by (auto simp: has_local_interest_def)
    ultimately show ?thesis by (auto simp: lookup_cleanup)
  qed
qed (use im_okD[OF ok] in simp_all)

text \<open>A change of the entry that can only take reasons away, and says whether none is left.\<close>

definition takes_reason :: "(LocalInterest \<Rightarrow> bool \<times> LocalInterest) \<Rightarrow> bool" where
  "takes_reason f \<longleftrightarrow> (\<forall>li. fst (f li) \<longleftrightarrow> \<not> is_interested (snd (f li))) \<and>
    (\<forall>li. is_interested (snd (f li)) \<longrightarrow> is_interested li)"

lemma takes_reason [simp]:
  "takes_reason li_remove_client" "takes_reason li_remove_downstream"
  "takes_reason (\<lambda>li. (\<not> is_interested (li\<lparr>hosting := False\<rparr>), li\<lparr>hosting := False\<rparr>))"
  by (auto simp: takes_reason_def li_remove_client_def li_remove_downstream_def Let_def is_interested_def)

lemma drop_local_reason_ok:
  assumes ok: "im_ok idb s" and f: "takes_reason f"
  shows "im_ok idb (snd (drop_local_reason idb f c s))"
proof (cases "map_of (local_interests s) c")
  case (Some li)
  obtain lost li' where fli: "f li = (lost, li')" by (cases "f li")
  have "is_interested li' \<longrightarrow> has_local_interest s c" using f fli Some
    by (force simp: takes_reason_def has_local_interest_def)
  then show ?thesis using Some fli drop_local_entry_ok[OF ok, of c] update_local_ok[OF ok, of li' c]
    by (simp add: drop_local_reason_def)
qed (simp add: drop_local_reason_def ok)

lemma drop_local_reason_fields [simp]:
  "interested_peers (snd (drop_local_reason idb f c s)) = interested_peers s"
  "pending_removals (snd (drop_local_reason idb f c s)) = pending_removals s"
  by (simp_all add: drop_local_reason_def split: option.splits prod.splits)

section \<open>Runs and their specification\<close>

datatype ('c, 'p) ImOp =
    RegisterPeer 'c 'p "bytes option" bool
  | RemovePeer 'c 'p
  | UpdateSummary 'c 'p bytes
  | ClearSummary 'c 'p SummaryMissingReason
  | UpsertSummary 'c 'p bytes
  | RefreshPeer 'c 'p
  | RemoveAll 'p
  | ScheduleRemoval 'p
  | CancelRemoval 'p
  | ExecutePending
  | Sweep
  | Notify 'c
  | RegisterLocal 'c
  | HostLocal 'c
  | UnhostLocal 'c
  | AddClient 'c
  | RemoveClient 'c
  | AddDownstream 'c
  | RemoveDownstream 'c
  | EvictedInUse 'c "'p list" nat

fun im_step :: "('c \<Rightarrow> bytes) \<Rightarrow> ('p \<Rightarrow> bytes) \<Rightarrow> instant \<times> ('c, 'p) ImOp \<Rightarrow>
    ('c, 'p) InterestManager \<Rightarrow> ('c, 'p) InterestManager" where
  "im_step idb pkb (now, RegisterPeer c p summary up) s = snd (register_peer_interest idb now c p summary up s)"
| "im_step idb pkb (now, RemovePeer c p) s = snd (remove_peer_interest idb c p s)"
| "im_step idb pkb (now, UpdateSummary c p summary) s = update_peer_summary now c p summary s"
| "im_step idb pkb (now, ClearSummary c p reason) s = clear_peer_summary now c p reason s"
| "im_step idb pkb (now, UpsertSummary c p summary) s = snd (upsert_peer_summary idb now c p summary s)"
| "im_step idb pkb (now, RefreshPeer c p) s = refresh_peer_interest now c p s"
| "im_step idb pkb (now, RemoveAll p) s = snd (remove_all_peer_interests idb p s)"
| "im_step idb pkb (now, ScheduleRemoval p) s = schedule_deferred_removal now p s"
| "im_step idb pkb (now, CancelRemoval p) s = snd (cancel_deferred_removal p s)"
| "im_step idb pkb (now, ExecutePending) s = snd (execute_pending_removals idb now s)"
| "im_step idb pkb (now, Sweep) s = snd (sweep_expired_interests idb pkb now s)"
| "im_step idb pkb (now, Notify c) s = snd (should_send_summary_notification now c s)"
| "im_step idb pkb (now, RegisterLocal c) s = register_local_interest idb c s"
| "im_step idb pkb (now, HostLocal c) s = snd (register_local_hosting idb c s)"
| "im_step idb pkb (now, UnhostLocal c) s = snd (unregister_local_hosting idb c s)"
| "im_step idb pkb (now, AddClient c) s = snd (add_local_client idb c s)"
| "im_step idb pkb (now, RemoveClient c) s = snd (remove_local_client idb c s)"
| "im_step idb pkb (now, AddDownstream c) s = snd (add_downstream_subscriber idb c s)"
| "im_step idb pkb (now, RemoveDownstream c) s = snd (remove_downstream_subscriber idb c s)"
| "im_step idb pkb (now, EvictedInUse c ps n) s = remove_evicted_in_use idb c ps n s"

text \<open>The specification: who is interested in what, and the deadlines of deferred removals.\<close>

type_synonym ('c, 'p) interest_map = "'c \<Rightarrow> 'p \<rightharpoonup> PeerInterest"

definition spec_full :: "('c, 'p) interest_map \<Rightarrow> 'c \<Rightarrow> bool" where
  "spec_full m c \<longleftrightarrow> card (dom (m c)) \<ge> MAX_INTERESTED_PEERS_PER_CONTRACT"

definition spec_add :: "'c \<Rightarrow> 'p \<Rightarrow> PeerInterest \<Rightarrow> ('c, 'p) interest_map \<Rightarrow> ('c, 'p) interest_map" where
  "spec_add c p i m = (if m c p = None \<and> spec_full m c then m else m(c := (m c)(p \<mapsto> i)))"

definition spec_modify :: "(PeerInterest \<Rightarrow> PeerInterest) \<Rightarrow> 'c \<Rightarrow> 'p \<Rightarrow> ('c, 'p) interest_map \<Rightarrow> ('c, 'p) interest_map" where
  "spec_modify f c p m = m(c := (m c)(p := map_option f (m c p)))"

definition spec_keep :: "('c \<Rightarrow> 'p \<Rightarrow> PeerInterest \<Rightarrow> bool) \<Rightarrow> ('c, 'p) interest_map \<Rightarrow> ('c, 'p) interest_map" where
  "spec_keep P m = (\<lambda>c p. case m c p of None \<Rightarrow> None | Some i \<Rightarrow> if P c p i then Some i else None)"

fun interest_spec :: "instant \<times> ('c, 'p) ImOp \<Rightarrow> ('c, 'p) interest_map \<times> ('p \<rightharpoonup> instant) \<Rightarrow>
    ('c, 'p) interest_map \<times> ('p \<rightharpoonup> instant)" where
  "interest_spec (now, RegisterPeer c p summary up) (m, d) = (spec_add c p (pi_new summary up now) m, d)"
| "interest_spec (now, RemovePeer c p) (m, d) = (spec_keep (\<lambda>c' p' i. \<not> (c' = c \<and> p' = p)) m, d)"
| "interest_spec (now, UpdateSummary c p summary) (m, d) = (spec_modify (set_summary summary now) c p m, d)"
| "interest_spec (now, ClearSummary c p reason) (m, d) = (spec_modify (clear_summary reason now) c p m, d)"
| "interest_spec (now, UpsertSummary c p summary) (m, d) =
    ((if m c p = None then spec_add c p (pi_new (Some summary) False now) m
      else spec_modify (set_summary summary now) c p m), d)"
| "interest_spec (now, RefreshPeer c p) (m, d) = (spec_modify (pi_refresh now) c p m, d)"
| "interest_spec (now, RemoveAll p) (m, d) = (spec_keep (\<lambda>c' p' i. p' \<noteq> p) m, d)"
| "interest_spec (now, ScheduleRemoval p) (m, d) = (m, d(p \<mapsto> now + INTEREST_DISCONNECT_GRACE_PERIOD))"
| "interest_spec (now, CancelRemoval p) (m, d) = (m, d(p := None))"
| "interest_spec (now, ExecutePending) (m, d) =
    (spec_keep (\<lambda>c' p' i. case d p' of None \<Rightarrow> True | Some t \<Rightarrow> now < t) m,
     \<lambda>p. case d p of None \<Rightarrow> None | Some t \<Rightarrow> if now < t then Some t else None)"
| "interest_spec (now, Sweep) (m, d) = (spec_keep (\<lambda>c' p' i. \<not> is_expired_at now i) m, d)"
| "interest_spec (now, EvictedInUse c ps n) (m, d) = (spec_keep (\<lambda>c' p' i. \<not> (c' = c \<and> p' \<in> set ps)) m, d)"
| "interest_spec e (m, d) = (m, d)"

definition interest_view :: "('c, 'p) InterestManager \<Rightarrow> ('c, 'p) interest_map \<times> ('p \<rightharpoonup> instant)" where
  "interest_view s = (get_peer_interest s, map_of (pending_removals s))"

lemma spec_full_view: "im_ok idb s \<Longrightarrow>
    spec_full (get_peer_interest s) c \<longleftrightarrow> length (or_default (interested_peers s) c) \<ge> MAX_INTERESTED_PEERS_PER_CONTRACT"
  using peers_ok_entry[OF im_okD(1), of idb s c]
  by (simp add: spec_full_def get_peer_interest_alt[abs_def] length_map_ok keys_def dom_map_of_conv_image_fst)

lemma add_peer_entry_effect:
  "get_peer_interest (add_peer_entry idb c p i s) = (get_peer_interest s)(c := (get_peer_interest s c)(p \<mapsto> i))"
  "pending_removals (add_peer_entry idb c p i s) = pending_removals s"
  "local_interests (add_peer_entry idb c p i s) = local_interests s"
  "set (lookup_by_hash (add_peer_entry idb c p i s) h) =
    set (lookup_by_hash s h) \<union> (if h = contract_hash idb c then {c} else {})"
  by (auto simp: add_peer_entry_def Let_def get_peer_interest_alt fun_eq_iff lookup_index)
    (auto simp: lookup_by_hash_def)

lemma full_entry_same: "im_ok idb s \<Longrightarrow> length (or_default (interested_peers s) c) \<ge> MAX_INTERESTED_PEERS_PER_CONTRACT \<Longrightarrow>
    s\<lparr>interested_peers := AList.update c (or_default (interested_peers s) c) (interested_peers s)\<rparr> = s"
  by (cases "map_of (interested_peers s) c")
    (auto simp: or_default_def MAX_INTERESTED_PEERS_PER_CONTRACT_def update_same)

lemma register_alt:
  assumes "im_ok idb s"
  shows "register_peer_interest idb now c p summary up s =
    (if get_peer_interest s c p = None \<and> spec_full (get_peer_interest s) c then (False, s)
     else (get_peer_interest s c p = None, add_peer_entry idb c p (pi_new summary up now) s))"
  using full_entry_same[OF assms, of c]
  by (simp add: register_peer_interest_def Let_def spec_full_view[OF assms] contains_key_iff tracked_iff)

lemma upsert_alt:
  assumes "im_ok idb s"
  shows "upsert_peer_summary idb now c p summary s =
    (if get_peer_interest s c p \<noteq> None then (True, modify_peer_interest (set_summary summary now) c p s)
     else if spec_full (get_peer_interest s) c then (False, s)
     else (True, add_peer_entry idb c p (pi_new (Some summary) False now) s))"
  using full_entry_same[OF assms, of c]
  by (auto simp: upsert_peer_summary_def Let_def spec_full_view[OF assms] get_peer_interest_alt
      modify_peer_interest_alt split: option.splits)

lemma add_when_room_ok: "im_ok idb s \<Longrightarrow> \<not> (get_peer_interest s c p = None \<and> spec_full (get_peer_interest s) c) \<Longrightarrow>
    im_ok idb (add_peer_entry idb c p i s)"
  using tracked_iff[of p s c] spec_full_view[of idb s c] by (intro add_peer_entry_ok) auto

subsection \<open>Removals in a loop\<close>

lemma remove_interests_effect:
  "im_ok idb s \<Longrightarrow> remove_interests idb p cs s = (n, s') \<Longrightarrow>
    im_ok idb s' \<and> pending_removals s' = pending_removals s \<and> local_interests s' = local_interests s \<and>
    get_peer_interest s' = spec_keep (\<lambda>c q i. \<not> (c \<in> set cs \<and> q = p)) (get_peer_interest s) \<and>
    n = card {c \<in> set cs. get_peer_interest s c p \<noteq> None}"
proof (induction cs arbitrary: s n)
  case Nil
  then show ?case by (simp add: spec_keep_def fun_eq_iff split: option.splits)
next
  case (Cons c cs)
  obtain removed s1 where s1: "remove_peer_interest idb c p s = (removed, s1)" by (cases "remove_peer_interest idb c p s")
  obtain n1 s2 where s2: "remove_interests idb p cs s1 = (n1, s2)" by (cases "remove_interests idb p cs s1")
  have eq: "n = (if removed then n1 + 1 else n1)" "s' = s2" using Cons.prems(2) s1 s2 by auto
  have ok: "im_ok idb s1" using remove_peer_interest_ok[OF Cons.prems(1), of c p] s1 by simp
  note e = remove_peer_interest_effect[OF Cons.prems(1), of c p, unfolded s1 fst_conv snd_conv]
  note IH = Cons.IH[OF ok s2[folded eq(2)]]
  have "{d \<in> set (c # cs). get_peer_interest s d p \<noteq> None} =
      {d \<in> set cs. get_peer_interest s1 d p \<noteq> None} \<union> (if removed then {c} else {})"
    using e(2) by (auto simp: e(1))
  moreover have "c \<notin> {d \<in> set cs. get_peer_interest s1 d p \<noteq> None}" by (simp add: e(1))
  ultimately have "n = card {d \<in> set (c # cs). get_peer_interest s d p \<noteq> None}"
    using IH by (simp add: eq(1))
  then show ?case using IH e(3,4) by (auto simp: spec_keep_def fun_eq_iff e(1) split: option.splits)
qed

lemma remove_all_effect:
  assumes ok: "im_ok idb s" and r: "remove_all_peer_interests idb p s = (n, s')"
  shows "im_ok idb s' \<and> pending_removals s' = pending_removals s \<and> local_interests s' = local_interests s \<and>
    get_peer_interest s' = spec_keep (\<lambda>c q i. q \<noteq> p) (get_peer_interest s) \<and>
    n = card {c. get_peer_interest s c p \<noteq> None}"
proof -
  have mem: "c \<in> set (or_default (peer_contracts s) p) \<longleftrightarrow> get_peer_interest s c p \<noteq> None" for c
    using im_okD(6)[OF ok, of p c] tracked_iff[of p s c] by (simp add: get_contracts_for_peer_def)
  have "spec_keep (\<lambda>c q i. \<not> (c \<in> set (or_default (peer_contracts s) p) \<and> q = p)) (get_peer_interest s) =
      spec_keep (\<lambda>c q i. q \<noteq> p) (get_peer_interest s)"
    by (auto simp: spec_keep_def fun_eq_iff mem split: option.splits)
  then show ?thesis using remove_interests_effect[OF ok r[unfolded remove_all_peer_interests_def]]
    by (simp add: mem)
qed

lemma execute_removals_effect:
  "im_ok idb s \<Longrightarrow> distinct ps \<Longrightarrow> set ps \<subseteq> keys (pending_removals s) \<Longrightarrow> execute_removals idb ps s = (n, s') \<Longrightarrow>
    im_ok idb s' \<and> local_interests s' = local_interests s \<and> n = length ps \<and>
    map_of (pending_removals s') = (map_of (pending_removals s)) |` (- set ps) \<and>
    get_peer_interest s' = spec_keep (\<lambda>c q i. q \<notin> set ps) (get_peer_interest s)"
proof (induction ps arbitrary: s n)
  case Nil
  then show ?case by (simp add: spec_keep_def fun_eq_iff restrict_map_def split: option.splits)
next
  case (Cons p ps)
  let ?s0 = "s\<lparr>pending_removals := AList.delete p (pending_removals s)\<rparr>"
  obtain k s1 where s1: "remove_all_peer_interests idb p ?s0 = (k, s1)" by (cases "remove_all_peer_interests idb p ?s0")
  obtain n1 s2 where s2: "execute_removals idb ps s1 = (n1, s2)" by (cases "execute_removals idb ps s1")
  have "p \<in> keys (pending_removals s)" using Cons.prems(3) by simp
  then have eq: "n = n1 + 1" "s' = s2" using Cons.prems(4) s1 s2 by (auto simp: contains_key_iff)
  have ok0: "im_ok idb ?s0" using Cons.prems(1) im_okD(5)[OF Cons.prems(1)] by (auto intro: im_ok_cong)
  note e = remove_all_effect[OF ok0 s1]
  have "get_peer_interest ?s0 = get_peer_interest s" by (simp add: get_peer_interest_def fun_eq_iff)
  moreover have "set ps \<subseteq> keys (pending_removals s1)" using Cons.prems(2,3) e by auto
  ultimately show ?case using Cons.IH[OF conjunct1[OF e] _ _ s2[folded eq(2)]] Cons.prems(2) e
    by (auto simp: eq(1) spec_keep_def fun_eq_iff restrict_map_def split: option.splits)
qed

lemma remove_pairs_effect:
  "im_ok idb s \<Longrightarrow> s' = fold (\<lambda>(c, p) s. snd (remove_peer_interest idb c p s)) cps s \<Longrightarrow>
    im_ok idb s' \<and> pending_removals s' = pending_removals s \<and> local_interests s' = local_interests s \<and>
    get_peer_interest s' = spec_keep (\<lambda>c p i. (c, p) \<notin> set cps) (get_peer_interest s)"
proof (induction cps arbitrary: s)
  case Nil
  then show ?case by (simp add: spec_keep_def fun_eq_iff split: option.splits)
next
  case (Cons cp cps)
  obtain c p where cp: "cp = (c, p)" by (cases cp)
  note e = remove_peer_interest_effect[OF Cons.prems(1), of c p]
  from Cons.IH[OF remove_peer_interest_ok[OF Cons.prems(1)], of c p] Cons.prems(2)
  show ?case by (auto simp: cp e spec_keep_def fun_eq_iff split: option.splits)
qed

lemma evict_peers_effect:
  "im_ok idb s \<Longrightarrow>
    s' = fold (\<lambda>p s. snd (remove_downstream_subscriber idb c (snd (remove_peer_interest idb c p s)))) ps s \<Longrightarrow>
    im_ok idb s' \<and> pending_removals s' = pending_removals s \<and>
    get_peer_interest s' = spec_keep (\<lambda>d p i. \<not> (d = c \<and> p \<in> set ps)) (get_peer_interest s)"
proof (induction ps arbitrary: s)
  case Nil
  then show ?case by (simp add: spec_keep_def fun_eq_iff split: option.splits)
next
  case (Cons p ps)
  let ?s1 = "snd (remove_peer_interest idb c p s)"
  let ?s2 = "snd (remove_downstream_subscriber idb c ?s1)"
  note e = remove_peer_interest_effect[OF Cons.prems(1), of c p]
  have ok: "im_ok idb ?s2" using remove_peer_interest_ok[OF Cons.prems(1), of c p]
    by (simp add: remove_downstream_subscriber_def drop_local_reason_ok)
  have "get_peer_interest ?s2 = get_peer_interest ?s1" "pending_removals ?s2 = pending_removals ?s1"
    by (simp_all add: remove_downstream_subscriber_def get_peer_interest_def fun_eq_iff)
  with Cons.IH[OF ok] Cons.prems(2) show ?case
    by (auto simp: e spec_keep_def fun_eq_iff split: option.splits)
qed

lemma evict_clients_effect: "im_ok idb s \<Longrightarrow> s' = ((\<lambda>s. snd (remove_local_client idb c s)) ^^ n) s \<Longrightarrow>
    im_ok idb s' \<and> pending_removals s' = pending_removals s \<and> get_peer_interest s' = get_peer_interest s"
  by (induction n arbitrary: s')
    (auto simp: remove_local_client_def drop_local_reason_ok get_peer_interest_def fun_eq_iff)

lemma mem_expired:
  assumes ok: "im_ok idb s"
  shows "(c, p) \<in> set (expired_interests idb pkb now s) \<longleftrightarrow>
    (\<exists>i. get_peer_interest s c p = Some i \<and> is_expired_at now i)"
proof -
  note peers = im_okD(1)[OF ok]
  have "(c, p) \<in> set (expired_interests idb pkb now s) \<longleftrightarrow>
      (\<exists>e i. (c, e) \<in> set (interested_peers s) \<and> (p, i) \<in> set e \<and> is_expired_at now i)"
    by (force simp: expired_interests_def)
  also have "\<dots> \<longleftrightarrow> (\<exists>e i. map_of (interested_peers s) c = Some e \<and> map_of e p = Some i \<and> is_expired_at now i)"
  proof -
    have m: "(c, e) \<in> set (interested_peers s) \<longleftrightarrow> map_of (interested_peers s) c = Some e" for e
      using peers by (simp add: peers_ok_def map_ok_def map_of_eq_Some_iff)
    moreover have "(p, i) \<in> set e \<longleftrightarrow> map_of e p = Some i" if "map_of (interested_peers s) c = Some e" for e i
      using peers that by (simp add: peers_ok_def map_ok_def map_of_eq_Some_iff)
    ultimately show ?thesis by metis
  qed
  finally show ?thesis by (auto simp: get_peer_interest_def split: option.splits)
qed

lemma pending_due:
  assumes ok: "im_ok idb s"
  shows "p \<in> set (map fst (filter (\<lambda>(p, t). now \<ge> t) (pending_removals s))) \<longleftrightarrow>
    (\<exists>t. map_of (pending_removals s) p = Some t \<and> t \<le> now)"
proof -
  have "(p, t) \<in> set (pending_removals s) \<longleftrightarrow> map_of (pending_removals s) p = Some t" for t
    using im_okD(5)[OF ok] by (simp add: map_ok_def map_of_eq_Some_iff)
  then show ?thesis by force
qed

lemma execute_pending_effect:
  assumes ok: "im_ok idb s" and r: "execute_pending_removals idb now s = (n, s')"
  shows "im_ok idb s' \<and> interest_view s' = interest_spec (now, ExecutePending) (interest_view s) \<and>
    local_interests s' = local_interests s"
proof -
  define ps where "ps = map fst (filter (\<lambda>(p, t). now \<ge> t) (pending_removals s))"
  have "distinct ps" using im_okD(5)[OF ok] unfolding ps_def map_ok_def by (rule distinct_map_filter)
  moreover have "set ps \<subseteq> keys (pending_removals s)" by (auto simp: ps_def keys_def)
  moreover have "execute_removals idb ps s = (n, s')" using r by (simp add: execute_pending_removals_def ps_def)
  ultimately have e: "im_ok idb s'" "map_of (pending_removals s') = (map_of (pending_removals s)) |` (- set ps)"
    "get_peer_interest s' = spec_keep (\<lambda>c q i. q \<notin> set ps) (get_peer_interest s)"
    "local_interests s' = local_interests s"
    using execute_removals_effect[OF ok] by blast+
  have due: "p \<in> set ps \<longleftrightarrow> (\<exists>t. map_of (pending_removals s) p = Some t \<and> t \<le> now)" for p
    using pending_due[OF ok, of p now] by (simp only: ps_def)
  show ?thesis using e
    by (auto simp: interest_view_def spec_keep_def fun_eq_iff restrict_map_def due split: option.splits)
qed

lemmas im_op_defs = update_peer_summary_def clear_peer_summary_def refresh_peer_interest_def
  schedule_deferred_removal_def cancel_deferred_removal_def should_send_summary_notification_def
  register_local_interest_def register_local_hosting_def unregister_local_hosting_def
  add_local_client_def remove_local_client_def add_downstream_subscriber_def remove_downstream_subscriber_def

lemma add_local_view: "interest_view (index_contract_hash idb c (s\<lparr>local_interests := x\<rparr>)) = interest_view s"
  by (simp add: interest_view_def get_peer_interest_def fun_eq_iff)

lemma drop_local_view: "interest_view (snd (drop_local_reason idb f c s)) = interest_view s"
  by (simp add: interest_view_def get_peer_interest_def fun_eq_iff)

lemma modify_view: "interest_view (modify_peer_interest f c p s) =
    (spec_modify f c p (fst (interest_view s)), snd (interest_view s))"
  by (auto simp: interest_view_def spec_modify_def fun_eq_iff modify_peer_interest_effect)

lemma interest_spec_simple:
  "interest_spec (now, RegisterLocal c) v = v" "interest_spec (now, HostLocal c) v = v"
  "interest_spec (now, UnhostLocal c) v = v" "interest_spec (now, AddClient c) v = v"
  "interest_spec (now, RemoveClient c) v = v" "interest_spec (now, AddDownstream c) v = v"
  "interest_spec (now, RemoveDownstream c) v = v"
  "interest_spec (now, UpdateSummary c p summary) v = (spec_modify (set_summary summary now) c p (fst v), snd v)"
  "interest_spec (now, ClearSummary c p reason) v = (spec_modify (clear_summary reason now) c p (fst v), snd v)"
  "interest_spec (now, RefreshPeer c p) v = (spec_modify (pi_refresh now) c p (fst v), snd v)"
  by (cases v, simp)+

lemma im_step_refines:
  assumes ok: "im_ok idb s"
  shows "im_ok idb (im_step idb pkb (now, e) s) \<and>
    interest_view (im_step idb pkb (now, e) s) = interest_spec (now, e) (interest_view s)"
proof (cases e)
  case (RegisterPeer c p summary up)
  then show ?thesis using ok
    by (auto simp: register_alt[OF ok] add_when_room_ok interest_view_def add_peer_entry_effect spec_add_def)
next
  case (UpsertSummary c p summary)
  then show ?thesis using ok
    by (auto simp: upsert_alt[OF ok] add_when_room_ok interest_view_def add_peer_entry_effect spec_add_def
        modify_peer_interest_ok modify_peer_interest_effect spec_modify_def fun_eq_iff)
next
  case (RemovePeer c p)
  then show ?thesis using remove_peer_interest_ok[OF ok] remove_peer_interest_effect[OF ok]
    by (auto simp: interest_view_def spec_keep_def fun_eq_iff split: option.splits)
next
  case (RemoveAll p)
  obtain n s' where "remove_all_peer_interests idb p s = (n, s')" by (cases "remove_all_peer_interests idb p s")
  then show ?thesis using remove_all_effect[OF ok] RemoveAll by (simp add: interest_view_def)
next
  case ExecutePending
  obtain n s' where "execute_pending_removals idb now s = (n, s')" by (cases "execute_pending_removals idb now s")
  then show ?thesis using execute_pending_effect[OF ok] ExecutePending by simp
next
  case Sweep
  have "spec_keep (\<lambda>c p i. (c, p) \<notin> set (expired_interests idb pkb now s)) (get_peer_interest s) =
      spec_keep (\<lambda>c p i. \<not> is_expired_at now i) (get_peer_interest s)"
    by (auto simp: spec_keep_def fun_eq_iff mem_expired[OF ok] split: option.splits)
  then show ?thesis using remove_pairs_effect[OF ok refl, of "expired_interests idb pkb now s"] Sweep
    by (simp add: sweep_expired_interests_def Let_def interest_view_def)
next
  case (EvictedInUse c ps n)
  note peers = evict_peers_effect[OF ok refl, of c ps]
  show ?thesis using peers evict_clients_effect[OF conjunct1[OF peers] refl, of n c] EvictedInUse
    by (simp add: remove_evicted_in_use_def interest_view_def)
next
  case (ScheduleRemoval p)
  then show ?thesis using im_ok_cong[OF ok, of "schedule_deferred_removal now p s"] im_okD(5)[OF ok]
    by (simp add: schedule_deferred_removal_def interest_view_def get_peer_interest_def fun_eq_iff)
next
  case (CancelRemoval p)
  then show ?thesis using im_ok_cong[OF ok, of "snd (cancel_deferred_removal p s)"] im_okD(5)[OF ok]
    by (simp add: cancel_deferred_removal_def interest_view_def get_peer_interest_def fun_eq_iff)
next
  case (Notify c)
  then show ?thesis using im_ok_cong[OF ok, of "snd (should_send_summary_notification now c s)"] im_okD(5)[OF ok]
    by (simp add: should_send_summary_notification_def Let_def interest_view_def get_peer_interest_def fun_eq_iff)
qed (use ok in \<open>simp_all add: im_op_defs Let_def li_add_client_def li_add_downstream_def add_local_ok drop_local_reason_ok
      add_local_view drop_local_view modify_peer_interest_ok modify_view interest_spec_simple\<close>)

interpretation im: functional_refinement "im_step idb pkb" interest_spec interest_view "im_ok idb" for idb pkb
proof unfold_locales
  show "im_ok idb (im_step idb pkb e s)" "interest_view (im_step idb pkb e s) = interest_spec e (interest_view s)"
    if "im_ok idb s" for e and s :: "('a, 'b) InterestManager" and idb pkb
    using im_step_refines[OF that, of pkb "fst e" "snd e"] by simp_all
qed

lemma im_run_ok: "im_ok idb (fold (im_step idb pkb) es im_new)"
  by (rule im.mach.fold_inv) (simp_all add: list_all_iff im_ok_new)

lemma interest_view_new: "interest_view im_new = (\<lambda>_ _. None, \<lambda>_. None)"
  by (simp add: interest_view_def im_new_def get_peer_interest_def fun_eq_iff)

text \<open>
  C5: after any sequence of operations, with any clock, the manager is the plain map of the specification: who
  is interested in a contract, with which summary and refreshed when, and which removals are pending. The
  reverse index lists exactly the contracts a peer is interested in, so a disconnection misses none; no contract
  has more than 512 interested peers; and every contract in which a peer or the node itself is interested is
  found by its hash.
\<close>

theorem interest_refines_map:
  "let s = fold (im_step idb pkb) es im_new; v = fold interest_spec es (\<lambda>_ _. None, \<lambda>_. None)
   in interest_view s = v \<and> (\<forall>p. set (get_contracts_for_peer s p) = {c. fst v c p \<noteq> None}) \<and>
      (\<forall>c. card (dom (fst v c)) \<le> MAX_INTERESTED_PEERS_PER_CONTRACT) \<and>
      {c. dom (fst v c) \<noteq> {} \<or> has_local_interest s c} \<subseteq> {c. c \<in> set (lookup_by_hash s (contract_hash idb c))}"
proof -
  define s where "s = fold (im_step idb pkb) es im_new"
  have ok: "im_ok idb s" unfolding s_def by (rule im_run_ok)
  have v: "fold interest_spec es (\<lambda>_ _. None, \<lambda>_. None) = interest_view s"
    unfolding s_def by (subst im.run_view[OF im_ok_new]) (simp add: interest_view_new)
  have "set (get_contracts_for_peer s p) = {c. get_peer_interest s c p \<noteq> None}" for p
    using im_okD(6)[OF ok, of p] tracked_iff[of p s] by auto
  moreover have dom: "dom (get_peer_interest s c) = tracked s c" for c using tracked_iff by fast
  moreover have "card (tracked s c) \<le> MAX_INTERESTED_PEERS_PER_CONTRACT" for c
    using peers_ok_entry[OF im_okD(1)[OF ok], of c] length_map_ok by metis
  moreover have "{c. tracked s c \<noteq> {} \<or> has_local_interest s c} \<subseteq> {c. indexed idb s c}"
    using im_okD(7,8)[OF ok] by blast
  ultimately show ?thesis unfolding Let_def s_def[symmetric] v by (simp add: interest_view_def)
qed

theorem interest_refines_map_witness:
  "let es = [(0, RegisterPeer 7 1 None True), (1, RegisterPeer 8 1 None False), (2, RegisterPeer 8 2 None False),
        (3, RemoveAll 1)] :: (instant \<times> (nat, nat) ImOp) list;
       idb = (\<lambda>c. [of_nat c]); s = fold (im_step idb idb) es im_new
   in get_peer_interest s 7 1 = None \<and> get_peer_interest s 8 2 = Some (pi_new None False 2) \<and>
      set (get_contracts_for_peer s 1) = {}"
proof -
  let ?es = "[(0, RegisterPeer 7 1 None True), (1, RegisterPeer 8 1 None False), (2, RegisterPeer 8 2 None False),
        (3, RemoveAll 1)] :: (instant \<times> (nat, nat) ImOp) list"
  let ?v = "fst (fold interest_spec ?es (\<lambda>_ _. None, \<lambda>_. None))"
  let ?idb = "\<lambda>c :: nat. [of_nat c] :: bytes"
  have v: "?v 7 1 = None" "?v 8 2 = Some (pi_new None False 2)" "{c. ?v c 1 \<noteq> None} = {}"
    by (auto simp: spec_keep_def spec_add_def spec_full_def MAX_INTERESTED_PEERS_PER_CONTRACT_def split: option.splits)
  note r = interest_refines_map[of ?idb ?idb ?es, unfolded Let_def]
  have "get_peer_interest (fold (im_step ?idb ?idb) ?es im_new) = ?v"
    using r[THEN conjunct1] by (metis fst_conv interest_view_def)
  moreover have "set (get_contracts_for_peer (fold (im_step ?idb ?idb) ?es im_new) 1) = {}"
    using r[THEN conjunct2, THEN conjunct1, THEN spec, of 1] v(3) by simp
  ultimately show ?thesis using v(1,2) unfolding Let_def by metis
qed

section \<open>Announcements of the node's own interest\<close>

text \<open>The operations return whether the node became interested in the contract, or lost its interest; their
  callers announce it to the neighbours.\<close>

fun announces :: "('c \<Rightarrow> bytes) \<Rightarrow> ('c, 'p) ImOp \<Rightarrow> ('c, 'p) InterestManager \<Rightarrow> ('c \<times> bool) list" where
  "announces idb (HostLocal c) s = (if fst (register_local_hosting idb c s) then [(c, True)] else [])"
| "announces idb (AddClient c) s = (if fst (add_local_client idb c s) then [(c, True)] else [])"
| "announces idb (AddDownstream c) s = (if fst (add_downstream_subscriber idb c s) then [(c, True)] else [])"
| "announces idb (UnhostLocal c) s = (if fst (unregister_local_hosting idb c s) then [(c, False)] else [])"
| "announces idb (RemoveClient c) s = (if fst (remove_local_client idb c s) then [(c, False)] else [])"
| "announces idb (RemoveDownstream c) s = (if fst (remove_downstream_subscriber idb c s) then [(c, False)] else [])"
| "announces idb e s = []"

fun announcements :: "('c \<Rightarrow> bytes) \<Rightarrow> ('p \<Rightarrow> bytes) \<Rightarrow> (instant \<times> ('c, 'p) ImOp) list \<Rightarrow>
    ('c, 'p) InterestManager \<Rightarrow> ('c \<times> bool) list" where
  "announcements idb pkb [] s = []"
| "announcements idb pkb (e # es) s = announces idb (snd e) s @ announcements idb pkb es (im_step idb pkb e s)"

text \<open>\<open>register_local_interest\<close> has no caller; \<open>remove_evicted_in_use\<close> drops the flags of the calls it makes.\<close>

fun announcing :: "('c, 'p) ImOp \<Rightarrow> bool" where
  "announcing (RegisterLocal c) = False"
| "announcing (EvictedInUse c ps n) = False"
| "announcing e = True"

text \<open>Each announcement is a change from the one before, and the last one is the current state.\<close>

fun flips :: "bool \<Rightarrow> bool list \<Rightarrow> bool \<Rightarrow> bool" where
  "flips b [] b' = (b' = b)"
| "flips b (x # xs) b' = (x \<noteq> b \<and> flips x xs b')"

definition li_ok :: "('c, 'p) InterestManager \<Rightarrow> bool" where
  "li_ok s \<longleftrightarrow> (\<forall>c li. map_of (local_interests s) c = Some li \<longrightarrow> is_interested li)"

lemma add_local_edge:
  assumes "li_ok s" "is_interested li"
    and "s' = index_contract_hash idb c (s\<lparr>local_interests := AList.update c li (local_interests s)\<rparr>)"
  shows "li_ok s'" "has_local_interest s' d \<longleftrightarrow> d = c \<or> has_local_interest s d"
  using assms by (auto simp: li_ok_def has_local_interest_def)

lemma not_interested_default: "li_ok s \<Longrightarrow> \<not> is_interested (local_or_default s c) \<longleftrightarrow> \<not> has_local_interest s c"
  by (auto simp: li_ok_def local_or_default_def has_local_interest_def li_default_def is_interested_def split: option.splits)

lemma drop_local_edge:
  assumes ok: "li_ok s" and f: "takes_reason f" and r_def: "r = drop_local_reason idb f c s"
  shows "li_ok (snd r)" "has_local_interest (snd r) d \<longleftrightarrow> has_local_interest s d \<and> \<not> (d = c \<and> fst r)"
    "fst r \<Longrightarrow> has_local_interest s c"
proof -
  have "li_ok (snd r) \<and> (has_local_interest (snd r) d \<longleftrightarrow> has_local_interest s d \<and> \<not> (d = c \<and> fst r)) \<and>
      (fst r \<longrightarrow> has_local_interest s c)"
  proof (cases "map_of (local_interests s) c")
    case (Some li)
    obtain lost li' where fli: "f li = (lost, li')" by (cases "f li")
    have "lost \<longleftrightarrow> \<not> is_interested li'"
      using f[unfolded takes_reason_def, THEN conjunct1, THEN spec, of li] by (simp add: fli)
    moreover have "is_interested li" using ok Some by (simp add: li_ok_def)
    ultimately show ?thesis using Some fli ok
      by (cases lost) (auto simp: r_def drop_local_reason_def li_ok_def has_local_interest_def)
  qed (use ok in \<open>simp add: r_def drop_local_reason_def\<close>)
  then show "li_ok (snd r)" "has_local_interest (snd r) d \<longleftrightarrow> has_local_interest s d \<and> \<not> (d = c \<and> fst r)"
    "fst r \<Longrightarrow> has_local_interest s c" by auto
qed

lemma other_ops_local:
  assumes ok: "im_ok idb s"
  shows "local_interests (im_step idb pkb (now, RegisterPeer c p summary up) s) = local_interests s"
    "local_interests (im_step idb pkb (now, RemovePeer c p) s) = local_interests s"
    "local_interests (im_step idb pkb (now, UpsertSummary c p sm) s) = local_interests s"
    "local_interests (im_step idb pkb (now, RemoveAll p) s) = local_interests s"
    "local_interests (im_step idb pkb (now, ExecutePending) s) = local_interests s"
    "local_interests (im_step idb pkb (now, Sweep) s) = local_interests s"
proof -
  show "local_interests (im_step idb pkb (now, RemoveAll p) s) = local_interests s"
    using remove_all_effect[OF ok, of p] by (cases "remove_all_peer_interests idb p s") auto
  show "local_interests (im_step idb pkb (now, ExecutePending) s) = local_interests s"
    using execute_pending_effect[OF ok] by (cases "execute_pending_removals idb now s") auto
  show "local_interests (im_step idb pkb (now, Sweep) s) = local_interests s"
    using remove_pairs_effect[OF ok refl] by (simp add: sweep_expired_interests_def Let_def)
qed (simp_all add: register_alt[OF ok] upsert_alt[OF ok] add_peer_entry_effect modify_peer_interest_effect
    remove_peer_interest_effect[OF ok])

definition edge :: "('c, 'p) InterestManager \<Rightarrow> ('c \<times> bool) list \<Rightarrow> ('c, 'p) InterestManager \<Rightarrow> bool" where
  "edge s as s' \<longleftrightarrow> li_ok s' \<and>
    (\<forall>d. flips (has_local_interest s d) (map snd (filter (\<lambda>a. fst a = d) as)) (has_local_interest s' d))"

lemma edge_same: "li_ok s \<Longrightarrow> local_interests s' = local_interests s \<Longrightarrow> edge s [] s'"
  by (simp add: edge_def li_ok_def has_local_interest_def)

lemma edge_add:
  assumes "li_ok s" "is_interested li" "b \<longleftrightarrow> \<not> is_interested (local_or_default s c)"
  shows "edge s (if b then [(c, True)] else [])
    (index_contract_hash idb c (s\<lparr>local_interests := AList.update c li (local_interests s)\<rparr>))"
  using add_local_edge[OF assms(1,2) refl] not_interested_default[OF assms(1), of c] assms(3)
  by (auto simp: edge_def)

lemma edge_drop:
  assumes "li_ok s" "takes_reason f"
  shows "edge s (if fst (drop_local_reason idb f c s) then [(c, False)] else []) (snd (drop_local_reason idb f c s))"
  using drop_local_edge[OF assms refl, of idb c] by (auto simp: edge_def)

lemma step_edge:
  assumes ok: "im_ok idb s" and li: "li_ok s" and a: "announcing e"
  shows "edge s (announces idb e s) (im_step idb pkb (now, e) s)"
proof -
  have "is_interested (li\<lparr>hosting := True\<rparr>)" "is_interested (li\<lparr>local_client_count := n + 1\<rparr>)"
    "is_interested (li\<lparr>downstream_subscriber_count := n + 1\<rparr>)" for li n by (simp_all add: is_interested_def)
  note up = this
  show ?thesis
  proof (cases e)
    case (HostLocal c)
    then show ?thesis using edge_add[OF li up(1) refl, of c idb]
      by (simp add: register_local_hosting_def Let_def)
  next
    case (AddClient c)
    let ?li = "local_or_default s c"
    have "(local_client_count ?li = 0 \<and> \<not> hosting ?li \<and> downstream_subscriber_count ?li = 0) \<longleftrightarrow> \<not> is_interested ?li"
      by (auto simp: is_interested_def)
    from edge_add[OF li up(2)[where li = ?li and n = "local_client_count ?li"] this, of idb] show ?thesis using AddClient
      by (simp add: add_local_client_def li_add_client_def)
  next
    case (AddDownstream c)
    let ?li = "local_or_default s c"
    have "(downstream_subscriber_count ?li = 0 \<and> local_client_count ?li = 0 \<and> \<not> hosting ?li) \<longleftrightarrow> \<not> is_interested ?li"
      by (auto simp: is_interested_def)
    from edge_add[OF li up(3)[where li = ?li and n = "downstream_subscriber_count ?li"] this, of idb] show ?thesis using AddDownstream
      by (simp add: add_downstream_subscriber_def li_add_downstream_def)
  next
    case (UnhostLocal c)
    then show ?thesis using edge_drop[OF li takes_reason(3), of idb c] by (simp add: unregister_local_hosting_def Let_def)
  next
    case (RemoveClient c)
    then show ?thesis using edge_drop[OF li takes_reason(1), of idb c] by (simp add: remove_local_client_def)
  next
    case (RemoveDownstream c)
    then show ?thesis using edge_drop[OF li takes_reason(2), of idb c] by (simp add: remove_downstream_subscriber_def)
  qed (use a other_ops_local[OF ok] in \<open>auto intro!: edge_same[OF li] simp: im_op_defs Let_def modify_peer_interest_effect
      simp del: im_step.simps(1,2,5,7,10,11)\<close>)
qed

lemma li_ok_new: "li_ok im_new" "\<not> has_local_interest im_new c"
  by (simp_all add: li_ok_def im_new_def has_local_interest_def)

lemma flips_append: "flips a xs b \<Longrightarrow> flips b ys c \<Longrightarrow> flips a (xs @ ys) c"
  by (induction xs arbitrary: a) auto

lemma announcements_flip:
  "im_ok idb s \<Longrightarrow> li_ok s \<Longrightarrow> \<forall>e \<in> set es. announcing (snd e) \<Longrightarrow>
    flips (has_local_interest s c) (map snd (filter (\<lambda>a. fst a = c) (announcements idb pkb es s)))
      (has_local_interest (fold (im_step idb pkb) es s) c)"
proof (induction es arbitrary: s)
  case (Cons e es)
  let ?s1 = "im_step idb pkb e s"
  have "edge s (announces idb (snd e) s) ?s1"
    using step_edge[OF Cons.prems(1,2), of "snd e" pkb "fst e"] Cons.prems(3) by simp
  moreover have "im_ok idb ?s1" by (rule im.keeps_inv[OF Cons.prems(1)])
  ultimately show ?case using Cons.IH[of ?s1] Cons.prems(3) by (auto simp: edge_def intro: flips_append)
qed simp

text \<open>
  Over any run in which the node's own interest changes through clients, subscribers and hosting, the
  announcements made for a contract alternate between gained and lost, beginning with gained, and the last of
  them says whether the node is interested in the contract at the end; a contract never announced is not of
  interest. So neighbours that receive the announcements in order know the node's interest.
\<close>

theorem announcements_track_interest:
  assumes "\<forall>e \<in> set es. announcing (snd e)"
  shows "flips False (map snd (filter (\<lambda>a. fst a = c) (announcements idb pkb es im_new)))
    (has_local_interest (fold (im_step idb pkb) es im_new) c)"
  using announcements_flip[OF im_ok_new li_ok_new(1) assms, of c idb pkb] by (simp add: li_ok_new(2))

theorem announcements_track_interest_witness:
  "let es = [(0, AddClient 7), (1, HostLocal 7), (2, RemoveClient 7), (3, RegisterPeer 7 1 None True),
        (4, UnhostLocal 7), (5, AddDownstream (7 :: nat))] :: (instant \<times> (nat, nat) ImOp) list;
      idb = (\<lambda>c. [of_nat c])
   in flips False (map snd (filter (\<lambda>a. fst a = 7) (announcements idb idb es im_new)))
        (has_local_interest (fold (im_step idb idb) es im_new) 7) \<and>
      map snd (filter (\<lambda>a. fst a = 7) (announcements idb idb es im_new)) = [True, False, True]"
proof -
  let ?es = "[(0, AddClient 7), (1, HostLocal 7), (2, RemoveClient 7), (3, RegisterPeer 7 1 None True),
        (4, UnhostLocal 7), (5, AddDownstream (7 :: nat))] :: (instant \<times> (nat, nat) ImOp) list"
  let ?idb = "\<lambda>c :: nat. [of_nat c] :: bytes"
  have "map snd (filter (\<lambda>a. fst a = 7) (announcements ?idb ?idb ?es im_new)) = [True, False, True]"
    by code_simp
  moreover have "\<forall>e \<in> set ?es. announcing (snd e)" by simp
  ultimately show ?thesis unfolding Let_def by (intro conjI announcements_track_interest)
qed

end
