(* ===== verification/Delta_Incompat.thy ===== *)
theory Delta_Incompat
  imports Prelude
begin

text \<open>
  The memo of contracts that reject deltas, \<open>ring/delta_incompat.rs\<close>: strikes from the node's own failed
  applications and from resynchronisation requests that follow a delta it sent, the arming of the memo, its
  expiry and clean-up. Contracts and peer addresses are type parameters, the current instant is an argument.
\<close>

definition DELTA_INCOMPAT_TTL :: duration where
  "DELTA_INCOMPAT_TTL = from_secs (10 * 60)"

definition DELTA_ATTRIBUTION_WINDOW :: duration where
  "DELTA_ATTRIBUTION_WINDOW = from_secs 60"

definition INCOMPAT_TRIP_THRESHOLD :: nat where
  "INCOMPAT_TRIP_THRESHOLD = 3"

definition MAX_TRACKED_CONTRACTS :: nat where
  "MAX_TRACKED_CONTRACTS = 8192"

definition MAX_TRACKED_DELTA_SENDS :: nat where
  "MAX_TRACKED_DELTA_SENDS = 16384"

definition CONTRACT_CLEANUP_AGE :: duration where
  "CONTRACT_CLEANUP_AGE = from_secs (20 * 60)"

record 'a ContractEntry =
  local_strikes :: nat
  resync_strikes :: nat
  first_resync_peer :: "'a option"
  multi_peer_resync :: bool
  armed_until :: "instant option"
  last_event :: instant

definition entry_new :: "instant \<Rightarrow> 'a ContractEntry" where
  "entry_new now = \<lparr>local_strikes = 0, resync_strikes = 0, first_resync_peer = None,
    multi_peer_resync = False, armed_until = None, last_event = now\<rparr>"

definition effective_strikes :: "'a ContractEntry \<Rightarrow> nat" where
  "effective_strikes e = sat_add32 (local_strikes e) (if multi_peer_resync e then resync_strikes e else 0)"

record ('c, 'a) DeltaIncompat =
  di_contracts :: "('c, 'a ContractEntry) hash_map"
  contracts_size :: nat
  recent_delta_sends :: "('c \<times> 'a, instant) hash_map"
  sends_size :: nat
  armed_total :: nat
  suppressed_total :: nat

definition di_new :: "('c, 'a) DeltaIncompat" where
  "di_new = \<lparr>di_contracts = [], contracts_size = 0, recent_delta_sends = [], sends_size = 0,
    armed_total = 0, suppressed_total = 0\<rparr>"

definition record_delta_sent :: "instant \<Rightarrow> 'c \<Rightarrow> 'a \<Rightarrow> ('c, 'a) DeltaIncompat \<Rightarrow> ('c, 'a) DeltaIncompat" where
  "record_delta_sent now c peer s =
    (if contains_key (recent_delta_sends s) (c, peer)
     then s\<lparr>recent_delta_sends := AList.update (c, peer) now (recent_delta_sends s)\<rparr>
     else if sends_size s \<ge> MAX_TRACKED_DELTA_SENDS then s
     else s\<lparr>recent_delta_sends := AList.update (c, peer) now (recent_delta_sends s),
            sends_size := sends_size s + 1\<rparr>)"

definition armed_at :: "instant \<Rightarrow> 'a ContractEntry \<Rightarrow> bool" where
  "armed_at now e = (case armed_until e of None \<Rightarrow> False | Some until \<Rightarrow> until > now)"

text \<open>One strike on an entry, before the test whether it arms.\<close>

definition strike :: "instant \<Rightarrow> 'a option \<Rightarrow> 'a ContractEntry \<Rightarrow> 'a ContractEntry" where
  "strike now resync_peer e =
    (case resync_peer of
       Some peer \<Rightarrow>
         (let e1 = e\<lparr>resync_strikes := sat_add32 (resync_strikes e) 1\<rparr>
          in case first_resync_peer e1 of
               None \<Rightarrow> e1\<lparr>first_resync_peer := Some peer\<rparr>
             | Some first \<Rightarrow> if first \<noteq> peer then e1\<lparr>multi_peer_resync := True\<rparr> else e1)
     | None \<Rightarrow> e\<lparr>local_strikes := sat_add32 (local_strikes e) 1\<rparr>)\<lparr>last_event := now\<rparr>"

definition note_failure ::
    "'c \<Rightarrow> instant \<Rightarrow> 'a option \<Rightarrow> ('c, 'a) DeltaIncompat \<Rightarrow> ('c, 'a) DeltaIncompat" where
  "note_failure c now resync_peer s =
    (let found = map_of (di_contracts s) c
     in if found = None \<and> contracts_size s \<ge> MAX_TRACKED_CONTRACTS then s
        else
          let size = (if found = None then contracts_size s + 1 else contracts_size s);
              e = strike now resync_peer (case found of None \<Rightarrow> entry_new now | Some e0 \<Rightarrow> e0);
              trip = (effective_strikes e \<ge> INCOMPAT_TRIP_THRESHOLD);
              armed = (trip \<and> \<not> armed_at now e);
              e' = (if trip then e\<lparr>armed_until := Some (now + DELTA_INCOMPAT_TTL)\<rparr> else e)
          in s\<lparr>di_contracts := AList.update c e' (di_contracts s), contracts_size := size,
               armed_total := (if armed then wrap_add64 (armed_total s) 1 else armed_total s)\<rparr>)"

definition note_resync_request ::
    "instant \<Rightarrow> 'c \<Rightarrow> 'a \<Rightarrow> ('c, 'a) DeltaIncompat \<Rightarrow> bool \<times> ('c, 'a) DeltaIncompat" where
  "note_resync_request now c peer s =
    (case map_of (recent_delta_sends s) (c, peer) of
       None \<Rightarrow> (False, s)
     | Some sent_at \<Rightarrow>
         let s1 = s\<lparr>recent_delta_sends := AList.delete (c, peer) (recent_delta_sends s),
                    sends_size := sends_size s - 1\<rparr>
         in if now - sent_at > DELTA_ATTRIBUTION_WINDOW then (False, s1)
            else (True, note_failure c now (Some peer) s1))"

definition note_delta_apply_failed :: "instant \<Rightarrow> 'c \<Rightarrow> ('c, 'a) DeltaIncompat \<Rightarrow> ('c, 'a) DeltaIncompat" where
  "note_delta_apply_failed now c = note_failure c now None"

definition suppress_deltas :: "instant \<Rightarrow> 'c \<Rightarrow> ('c, 'a) DeltaIncompat \<Rightarrow> bool \<times> ('c, 'a) DeltaIncompat" where
  "suppress_deltas now c s =
    (let suppressed = (case map_of (di_contracts s) c of None \<Rightarrow> False | Some e \<Rightarrow> armed_at now e)
     in (suppressed,
         if suppressed then s\<lparr>suppressed_total := wrap_add64 (suppressed_total s) 1\<rparr> else s))"

definition record_delta_success :: "'c \<Rightarrow> ('c, 'a) DeltaIncompat \<Rightarrow> ('c, 'a) DeltaIncompat" where
  "record_delta_success c s =
    (if contains_key (di_contracts s) c
     then s\<lparr>di_contracts := AList.delete c (di_contracts s), contracts_size := contracts_size s - 1\<rparr>
     else s)"

definition keep_send :: "instant \<Rightarrow> instant \<Rightarrow> bool" where
  "keep_send now sent_at \<longleftrightarrow> now - sent_at \<le> DELTA_ATTRIBUTION_WINDOW"

definition keep_entry :: "instant \<Rightarrow> 'a ContractEntry \<Rightarrow> bool" where
  "keep_entry now e \<longleftrightarrow> armed_at now e \<or> now - last_event e \<le> CONTRACT_CLEANUP_AGE"

definition di_cleanup :: "instant \<Rightarrow> ('c, 'a) DeltaIncompat \<Rightarrow> ('c, 'a) DeltaIncompat" where
  "di_cleanup now s =
    s\<lparr>recent_delta_sends := filter (\<lambda>(k, t). keep_send now t) (recent_delta_sends s),
      sends_size := sends_size s - length (filter (\<lambda>(k, t). \<not> keep_send now t) (recent_delta_sends s)),
      di_contracts := filter (\<lambda>(k, e). keep_entry now e) (di_contracts s),
      contracts_size := contracts_size s - length (filter (\<lambda>(k, e). \<not> keep_entry now e) (di_contracts s))\<rparr>"

section \<open>Runs\<close>

datatype ('c, 'a) DiOp =
  DeltaSent 'c 'a | ResyncFrom 'c 'a | ApplyFailed 'c | Suppress 'c | DeltaSuccess 'c | DiCleanup

fun di_step :: "instant \<times> ('c, 'a) DiOp \<Rightarrow> ('c, 'a) DeltaIncompat \<Rightarrow> ('c, 'a) DeltaIncompat" where
  "di_step (now, DeltaSent c a) s = record_delta_sent now c a s"
| "di_step (now, ResyncFrom c a) s = snd (note_resync_request now c a s)"
| "di_step (now, ApplyFailed c) s = note_delta_apply_failed now c s"
| "di_step (now, Suppress c) s = snd (suppress_deltas now c s)"
| "di_step (now, DeltaSuccess c) s = record_delta_success c s"
| "di_step (now, DiCleanup) s = di_cleanup now s"

text \<open>The deltas sent in a history: the last one to a peer for a contract, if no request of the peer for
  the contract came after it.\<close>

fun sent_after :: "(instant \<times> ('c, 'a) DiOp) list \<Rightarrow> 'c \<Rightarrow> 'a \<Rightarrow> instant option" where
  "sent_after [] c a = None"
| "sent_after ((t, e) # h) c a =
    (if e = DeltaSent c a then Some t else if e = ResyncFrom c a then None else sent_after h c a)"

text \<open>
  The evidence of a history, newest event first, against a contract since the last success: \<open>None\<close> for an
  application that failed here, \<open>Some a\<close> for a request of \<open>a\<close> within the window after a delta sent to \<open>a\<close>.
\<close>

fun evidence :: "(instant \<times> ('c, 'a) DiOp) list \<Rightarrow> 'c \<Rightarrow> (instant \<times> 'a option) list" where
  "evidence [] c = []"
| "evidence ((t, e) # h) c =
    (case e of
       ApplyFailed d \<Rightarrow> if d = c then (t, None) # evidence h c else evidence h c
     | ResyncFrom d a \<Rightarrow>
         if d = c \<and> (case sent_after h c a of None \<Rightarrow> False | Some t0 \<Rightarrow> t - t0 \<le> DELTA_ATTRIBUTION_WINDOW)
         then (t, Some a) # evidence h c else evidence h c
     | DeltaSuccess d \<Rightarrow> if d = c then [] else evidence h c
     | _ \<Rightarrow> evidence h c)"

text \<open>What counts: own failures always, requests when they come from two peers at least.\<close>

definition own_failures :: "(instant \<times> 'a option) list \<Rightarrow> nat" where
  "own_failures xs = length (filter (\<lambda>x. snd x = None) xs)"

definition requests :: "(instant \<times> 'a option) list \<Rightarrow> nat" where
  "requests xs = length (filter (\<lambda>x. snd x \<noteq> None) xs)"

definition two_peers :: "(instant \<times> 'a option) list \<Rightarrow> bool" where
  "two_peers xs \<longleftrightarrow> (\<exists>t a u b. (t, Some a) \<in> set xs \<and> (u, Some b) \<in> set xs \<and> a \<noteq> b)"

definition weight :: "(instant \<times> 'a option) list \<Rightarrow> nat" where
  "weight xs = own_failures xs + (if two_peers xs then requests xs else 0)"

text \<open>An entry claims no more than the evidence shows.\<close>

definition entry_backed :: "'a ContractEntry \<Rightarrow> (instant \<times> 'a option) list \<Rightarrow> bool" where
  "entry_backed e xs \<longleftrightarrow> local_strikes e \<le> own_failures xs \<and> resync_strikes e \<le> requests xs \<and>
    (\<forall>a. first_resync_peer e = Some a \<longrightarrow> (\<exists>t. (t, Some a) \<in> set xs)) \<and>
    (multi_peer_resync e \<longrightarrow> two_peers xs) \<and>
    (\<forall>u. armed_until e = Some u \<longrightarrow> (\<exists>newer x older. xs = newer @ x # older \<and>
      INCOMPAT_TRIP_THRESHOLD \<le> weight (x # older) \<and> u = fst x + DELTA_INCOMPAT_TTL))"

definition di_sim :: "(instant \<times> ('c, 'a) DiOp) list \<Rightarrow> ('c, 'a) DeltaIncompat \<Rightarrow> bool" where
  "di_sim h s \<longleftrightarrow> map_ok (di_contracts s) \<and> map_ok (recent_delta_sends s) \<and>
    (\<forall>c a t. map_of (recent_delta_sends s) (c, a) = Some t \<longrightarrow> sent_after h c a = Some t) \<and>
    (\<forall>c e. map_of (di_contracts s) c = Some e \<longrightarrow> entry_backed e (evidence h c))"

lemma two_peers_mono: "two_peers xs \<Longrightarrow> two_peers (x # xs)"
  by (auto simp: two_peers_def)

lemma weight_mono: "weight xs \<le> weight (x # xs)"
  using two_peers_mono[of xs x] by (auto simp: weight_def own_failures_def requests_def)

lemma entry_backed_new: "entry_backed (entry_new now) xs"
  by (simp add: entry_backed_def entry_new_def)

lemma entry_backed_mono:
  assumes "entry_backed e xs"
  shows "entry_backed e (y # xs)"
proof -
  have "\<exists>newer x older. y # xs = newer @ x # older \<and> INCOMPAT_TRIP_THRESHOLD \<le> weight (x # older) \<and>
      u = fst x + DELTA_INCOMPAT_TTL" if "armed_until e = Some u" for u
    using assms that unfolding entry_backed_def by (metis append_Cons)
  then show ?thesis
    using assms two_peers_mono[of xs y] unfolding entry_backed_def own_failures_def requests_def by (auto intro: le_SucI)
qed

lemma sat_add32_Suc: "n \<le> m \<Longrightarrow> sat_add32 n (Suc 0) \<le> Suc m"
  by (simp add: sat_add32_def)

lemma strike_backed:
  assumes e: "entry_backed e xs"
  shows "entry_backed (strike now r e) ((now, r) # xs)"
proof (cases r)
  case None
  then show ?thesis using entry_backed_mono[OF e, of "(now, None)"] e
    by (simp add: strike_def entry_backed_def own_failures_def sat_add32_Suc)
next
  case (Some a)
  let ?xs = "(now, Some a) # xs"
  have 1: "entry_backed (e\<lparr>resync_strikes := sat_add32 (resync_strikes e) 1, last_event := now\<rparr>) ?xs"
    using entry_backed_mono[OF e, of "(now, Some a)"] e by (simp add: entry_backed_def requests_def sat_add32_Suc)
  show ?thesis
  proof (cases "first_resync_peer e")
    case None
    then show ?thesis using 1 Some by (auto simp: strike_def Let_def entry_backed_def)
  next
    case (Some b)
    then have "\<exists>t. (t, Some b) \<in> set xs" using e by (simp add: entry_backed_def)
    then have "b \<noteq> a \<Longrightarrow> two_peers ?xs" by (auto simp: two_peers_def)
    then show ?thesis using 1 Some \<open>r = Some a\<close> by (auto simp: strike_def Let_def entry_backed_def)
  qed
qed

lemma effective_le_weight: "entry_backed e xs \<Longrightarrow> effective_strikes e \<le> weight xs"
  by (auto simp: entry_backed_def effective_strikes_def weight_def sat_add32_def)

lemma arm_backed:
  assumes "entry_backed e (x # xs)" "effective_strikes e \<ge> INCOMPAT_TRIP_THRESHOLD"
  shows "entry_backed (e\<lparr>armed_until := Some (fst x + DELTA_INCOMPAT_TTL)\<rparr>) (x # xs)"
proof -
  have "\<exists>newer y older. x # xs = newer @ y # older \<and> INCOMPAT_TRIP_THRESHOLD \<le> weight (y # older) \<and>
      fst x + DELTA_INCOMPAT_TTL = fst y + DELTA_INCOMPAT_TTL"
    using assms(2) effective_le_weight[OF assms(1)] by (intro exI[of _ "[]"] exI[of _ x] exI[of _ xs]) simp
  then show ?thesis using assms(1) by (simp add: entry_backed_def)
qed

lemma note_failure_sends [simp]:
  "recent_delta_sends (note_failure c now r s) = recent_delta_sends s"
  by (simp add: note_failure_def Let_def)

lemma note_failure_backed:
  assumes ok: "map_ok (di_contracts s)"
    and backed: "\<And>d e. map_of (di_contracts s) d = Some e \<Longrightarrow> entry_backed e (ev d)"
    and ev': "ev' c = (now, r) # ev c" "\<And>d. d \<noteq> c \<Longrightarrow> ev' d = ev d"
  shows "map_ok (di_contracts (note_failure c now r s))"
    and "map_of (di_contracts (note_failure c now r s)) d = Some e \<Longrightarrow> entry_backed e (ev' d)"
proof -
  show "map_ok (di_contracts (note_failure c now r s))" using ok by (simp add: note_failure_def Let_def)
  let ?e0 = "case map_of (di_contracts s) c of None \<Rightarrow> entry_new now | Some e0 \<Rightarrow> e0"
  have "entry_backed ?e0 (ev c)" using backed[of c] entry_backed_new by (auto split: option.splits)
  then have st: "entry_backed (strike now r ?e0) (ev' c)" using strike_backed ev'(1) by metis
  have "entry_backed ((strike now r ?e0)\<lparr>armed_until := Some (now + DELTA_INCOMPAT_TTL)\<rparr>) (ev' c)"
    if "effective_strikes (strike now r ?e0) \<ge> INCOMPAT_TRIP_THRESHOLD"
    using arm_backed[OF st[unfolded ev'(1)] that] ev'(1) by simp
  moreover have "entry_backed e (ev' d)" if "map_of (di_contracts s) d = Some e"
    using backed[OF that] entry_backed_mono ev' by (cases "d = c") auto
  ultimately show "entry_backed e (ev' d)" if "map_of (di_contracts (note_failure c now r s)) d = Some e"
    using that st by (auto simp: note_failure_def Let_def split: if_splits)
qed

lemma di_sim_step:
  assumes sim: "di_sim h s"
  shows "di_sim ((now, e) # h) (di_step (now, e) s)"
proof -
  have ok: "map_ok (di_contracts s)" "map_ok (recent_delta_sends s)"
    and sent: "\<And>c a t. map_of (recent_delta_sends s) (c, a) = Some t \<Longrightarrow> sent_after h c a = Some t"
    and backed: "\<And>c e. map_of (di_contracts s) c = Some e \<Longrightarrow> entry_backed e (evidence h c)"
    using sim by (auto simp: di_sim_def)
  show ?thesis
  proof (cases e)
    case (DeltaSent c a)
    then show ?thesis using ok sent backed map_of_keys[of "recent_delta_sends s" "(c, a)"]
      by (auto simp: di_sim_def record_delta_sent_def contains_key_iff)
  next
    case (ApplyFailed c)
    note nf = note_failure_backed[OF ok(1), of "evidence h" "evidence ((now, e) # h)" c now None]
    show ?thesis using nf ok sent backed ApplyFailed by (auto simp: di_sim_def note_delta_apply_failed_def)
  next
    case (ResyncFrom c a)
    show ?thesis
    proof (cases "map_of (recent_delta_sends s) (c, a)")
      case None
      then show ?thesis using ResyncFrom ok sent backed
        by (auto simp: di_sim_def note_resync_request_def intro: entry_backed_mono)
    next
      case (Some t)
      let ?s1 = "s\<lparr>recent_delta_sends := AList.delete (c, a) (recent_delta_sends s), sends_size := sends_size s - 1\<rparr>"
      note nf = note_failure_backed[of ?s1 "evidence h" "evidence ((now, e) # h)" c now "Some a"]
      show ?thesis using nf Some ResyncFrom ok sent backed sent[OF Some]
        by (auto simp: di_sim_def note_resync_request_def Let_def)
    qed
  next
    case (DeltaSuccess c)
    then show ?thesis using ok sent backed map_of_keys[of "di_contracts s" c]
      by (auto simp: di_sim_def record_delta_success_def contains_key_iff)
  next
    case DiCleanup
    then show ?thesis using ok sent backed
      by (auto simp: di_sim_def di_cleanup_def map_of_filter split: option.splits if_splits)
  qed (use ok sent backed in \<open>auto simp: di_sim_def suppress_deltas_def Let_def\<close>)
qed

lemma di_sim_run: "di_sim h s \<Longrightarrow> di_sim (rev es @ h) (fold di_step es s)"
proof (induction es arbitrary: h s)
  case (Cons e es)
  have "di_sim (e # h) (di_step e s)" using di_sim_step[OF Cons.prems, of "fst e" "snd e"] by simp
  from Cons.IH[OF this] show ?case by simp
qed simp

text \<open>
  C27: deltas of a contract are suppressed only with cause. If they are suppressed after some run, then less than
  ten minutes ago the node took in a failure signal \<open>x\<close> for the contract, and the signals up to and including \<open>x\<close>, since
  the last delta of the contract that applied, held at least three strikes that count. Signals are applications of
  a delta that failed here and requests for resynchronisation from a peer to which a delta had been sent in the
  minute before; the former always count, the latter only if two different peers made such requests. So the
  requests of a single peer never suppress deltas without three own failures. The signal \<open>x\<close> itself need not count,
  and the strikes that count can be older than ten minutes.
\<close>

theorem suppression_has_evidence:
  assumes "fst (suppress_deltas now c (fold di_step es di_new))"
  shows "\<exists>newer x older. evidence (rev es) c = newer @ x # older \<and> now < fst x + DELTA_INCOMPAT_TTL \<and>
    3 \<le> weight (x # older) \<and> (\<not> two_peers (x # older) \<longrightarrow> 3 \<le> own_failures (x # older))"
proof -
  have "di_sim [] (di_new :: ('a, 'b) DeltaIncompat)" by (simp add: di_sim_def di_new_def)
  then have sim: "di_sim (rev es) (fold di_step es di_new)" using di_sim_run[of "[]" di_new es] by simp
  obtain e u where e: "map_of (di_contracts (fold di_step es di_new)) c = Some e" "armed_until e = Some u" "now < u"
    using assms by (auto simp: suppress_deltas_def Let_def armed_at_def split: option.splits)
  then have "entry_backed e (evidence (rev es) c)" using sim by (simp add: di_sim_def)
  then obtain newer x older where "evidence (rev es) c = newer @ x # older"
      "INCOMPAT_TRIP_THRESHOLD \<le> weight (x # older)" "u = fst x + DELTA_INCOMPAT_TTL"
    using e(2) by (auto simp: entry_backed_def)
  then show ?thesis using e(3) by (intro exI) (auto simp: INCOMPAT_TRIP_THRESHOLD_def weight_def split: if_splits)
qed

theorem suppression_has_evidence_witness:
  "let es = [(1, DeltaSent 7 1), (2, DeltaSent 7 2), (3, ResyncFrom 7 1), (4, ResyncFrom 7 2), (5, ApplyFailed 7)]
        :: (instant \<times> (nat, nat) DiOp) list
   in fst (suppress_deltas 6 7 (fold di_step es di_new)) \<and>
      (\<exists>newer x older. evidence (rev es) 7 = newer @ x # older \<and> 6 < fst x + DELTA_INCOMPAT_TTL \<and> 3 \<le> weight (x # older))"
proof -
  let ?es = "[(1, DeltaSent 7 1), (2, DeltaSent 7 2), (3, ResyncFrom 7 1), (4, ResyncFrom 7 2), (5, ApplyFailed 7)]
      :: (instant \<times> (nat, nat) DiOp) list"
  have "fst (suppress_deltas 6 7 (fold di_step ?es di_new))"
    by (simp add: suppress_deltas_def record_delta_sent_def note_resync_request_def note_delta_apply_failed_def
        note_failure_def strike_def entry_new_def effective_strikes_def armed_at_def di_new_def contains_key_def
        sat_add32_def u32_max_def wrap_add64_def from_secs_def DELTA_ATTRIBUTION_WINDOW_def DELTA_INCOMPAT_TTL_def
        INCOMPAT_TRIP_THRESHOLD_def MAX_TRACKED_CONTRACTS_def MAX_TRACKED_DELTA_SENDS_def)
  with suppression_has_evidence[OF this] show ?thesis unfolding Let_def by blast
qed

section \<open>The caps under concurrency\<close>

text \<open>
  \<open>record_delta_sent\<close> on a new key tests the counter, inserts and then increments, as three steps that other
  threads may come between; each thread holds the lock of its own shard only. The state is the number of
  entries, the counter, and how many threads stand before the insertion and before the increment.
\<close>

record sends_race =
  entries_n :: nat
  counter_n :: nat
  before_insert :: nat
  before_add :: nat

inductive sends_step :: "sends_race \<Rightarrow> sends_race \<Rightarrow> bool" where
  passes_test: "counter_n r < MAX_TRACKED_DELTA_SENDS \<Longrightarrow> sends_step r (r\<lparr>before_insert := before_insert r + 1\<rparr>)"
| inserts: "before_insert r = Suc n \<Longrightarrow>
    sends_step r (r\<lparr>before_insert := n, entries_n := entries_n r + 1, before_add := before_add r + 1\<rparr>)"
| adds: "before_add r = Suc n \<Longrightarrow> sends_step r (r\<lparr>before_add := n, counter_n := counter_n r + 1\<rparr>)"

definition sends_quiet :: "nat \<Rightarrow> sends_race" where
  "sends_quiet n = \<lparr>entries_n = n, counter_n = n, before_insert = 0, before_add = 0\<rparr>"

lemma sends_pass: "n < MAX_TRACKED_DELTA_SENDS \<Longrightarrow>
    sends_step\<^sup>*\<^sup>* (sends_quiet n) ((sends_quiet n)\<lparr>before_insert := k\<rparr>)"
proof (induction k)
  case (Suc k)
  then have "sends_step ((sends_quiet n)\<lparr>before_insert := k\<rparr>) ((sends_quiet n)\<lparr>before_insert := Suc k\<rparr>)"
    using passes_test[of "(sends_quiet n)\<lparr>before_insert := k\<rparr>"] by (simp add: sends_quiet_def)
  with Suc show ?case by (meson rtranclp.rtrancl_into_rtrancl)
qed (simp add: sends_quiet_def)

lemma sends_insert: "sends_step\<^sup>*\<^sup>* ((sends_quiet n)\<lparr>before_insert := k\<rparr>) (sends_quiet (n + k))"
proof (induction k arbitrary: n)
  case (Suc k)
  let ?a = "(sends_quiet n)\<lparr>before_insert := Suc k\<rparr>"
  let ?b = "(sends_quiet n)\<lparr>before_insert := k, entries_n := n + 1, before_add := 1\<rparr>"
  have "sends_step ?a ?b" using inserts[of ?a k] by (simp add: sends_quiet_def)
  moreover have "sends_step ?b ((sends_quiet (n + 1))\<lparr>before_insert := k\<rparr>)"
    using adds[of ?b 0] by (simp add: sends_quiet_def)
  ultimately have "sends_step\<^sup>*\<^sup>* ?a ((sends_quiet (n + 1))\<lparr>before_insert := k\<rparr>)" by simp
  with Suc[of "n + 1"] show ?case by simp
qed (simp add: sends_quiet_def)

text \<open>
  The cap on remembered delta sends is not strict under concurrency: for any \<open>k\<close>, \<open>k + 1\<close> threads that pass
  the test before any of them increments the counter leave \<open>k\<close> entries above the cap, with no operation
  under way.
\<close>

theorem delta_sends_cap_overshot:
  "sends_step\<^sup>*\<^sup>* (sends_quiet 0) (sends_quiet (MAX_TRACKED_DELTA_SENDS + k))"
proof -
  have one: "sends_step\<^sup>*\<^sup>* (sends_quiet n) (sends_quiet (n + j))" if "n < MAX_TRACKED_DELTA_SENDS" for n j
    using sends_pass[OF that, of j] sends_insert[of j n] by simp
  have "sends_step\<^sup>*\<^sup>* (sends_quiet 0) (sends_quiet (MAX_TRACKED_DELTA_SENDS - 1))"
    using one[of 0 "MAX_TRACKED_DELTA_SENDS - 1"] by (simp add: MAX_TRACKED_DELTA_SENDS_def)
  moreover have "sends_step\<^sup>*\<^sup>* (sends_quiet (MAX_TRACKED_DELTA_SENDS - 1)) (sends_quiet (MAX_TRACKED_DELTA_SENDS + k))"
    using one[of "MAX_TRACKED_DELTA_SENDS - 1" "k + 1"] by (simp add: MAX_TRACKED_DELTA_SENDS_def)
  ultimately show ?thesis by simp
qed

end
