(* ===== verification/Broken_Invariants.thy ===== *)
theory Broken_Invariants
  imports Prelude
begin

text \<open>
  The flags of contracts whose merge was found not to be idempotent, \<open>ring/broken_invariants.rs\<close>: the time to
  live that escalates while a contract keeps being caught, the persisted rows, the restart and the clean-up.
  Contracts are a type parameter; the current instant is an argument; an argument \<open>db\<close> says whether the data
  base carries out the write of an operation, which is best effort.
\<close>

definition BROKEN_INVARIANT_TTL :: duration where
  "BROKEN_INVARIANT_TTL = from_secs 300"

definition BROKEN_INVARIANT_TTL_CAP :: duration where
  "BROKEN_INVARIANT_TTL_CAP = from_secs (6 * 60 * 60)"

definition REFLAG_WINDOW_MULT :: nat where
  "REFLAG_WINDOW_MULT = 2"

definition IDENTITY_PROBE_COOLDOWN :: duration where
  "IDENTITY_PROBE_COOLDOWN = from_secs 60"

datatype BrokenInvariant = NonIdempotent

fun to_byte :: "BrokenInvariant \<Rightarrow> 8 word" where
  "to_byte NonIdempotent = 0"

definition from_byte :: "8 word \<Rightarrow> BrokenInvariant option" where
  "from_byte b = (if b = 0 then Some NonIdempotent else None)"

record FlagEntry =
  kind :: BrokenInvariant
  recorded_at :: instant
  ttl :: duration

text \<open>\<open>storage\<close> is absent until it is wired; its rows are the persisted flags.\<close>

record 'c BrokenInvariantsTracker =
  flags :: "('c, FlagEntry) hash_map"
  identity_probe_claims :: "('c, instant) hash_map"
  storage :: "('c, 8 word) hash_map option"

definition bi_new :: "'c BrokenInvariantsTracker" where
  "bi_new = \<lparr>flags = [], identity_probe_claims = [], storage = None\<rparr>"

definition try_claim_identity_probe ::
    "instant \<Rightarrow> 'c \<Rightarrow> 'c BrokenInvariantsTracker \<Rightarrow> bool \<times> 'c BrokenInvariantsTracker" where
  "try_claim_identity_probe now c s =
    (let granted = (case map_of (identity_probe_claims s) c of
                      None \<Rightarrow> True | Some t \<Rightarrow> now - t \<ge> IDENTITY_PROBE_COOLDOWN)
     in (granted,
         if granted then s\<lparr>identity_probe_claims := AList.update c now (identity_probe_claims s)\<rparr> else s))"

definition is_broken :: "instant \<Rightarrow> 'c \<Rightarrow> 'c BrokenInvariantsTracker \<Rightarrow> bool" where
  "is_broken now c s =
    (case map_of (flags s) c of None \<Rightarrow> False | Some e \<Rightarrow> now - recorded_at e < ttl e)"

definition next_ttl :: "instant \<Rightarrow> FlagEntry \<Rightarrow> duration" where
  "next_ttl now e =
    (let elapsed = now - recorded_at e; reflag_window = ttl e * REFLAG_WINDOW_MULT
     in if elapsed \<ge> reflag_window then BROKEN_INVARIANT_TTL
        else if elapsed \<ge> ttl e then min (ttl e * 2) BROKEN_INVARIANT_TTL_CAP
        else ttl e)"

definition bi_record :: "bool \<Rightarrow> instant \<Rightarrow> 'c \<Rightarrow> BrokenInvariant \<Rightarrow>
    'c BrokenInvariantsTracker \<Rightarrow> 'c BrokenInvariantsTracker" where
  "bi_record db now c k s =
    (case map_of (flags s) c of
       Some e \<Rightarrow> s\<lparr>flags := AList.update c \<lparr>kind = k, recorded_at = now, ttl = next_ttl now e\<rparr> (flags s)\<rparr>
     | None \<Rightarrow>
         s\<lparr>flags := AList.update c \<lparr>kind = k, recorded_at = now, ttl = BROKEN_INVARIANT_TTL\<rparr> (flags s),
           storage := (case storage s of
                         Some rows \<Rightarrow> Some (if db then AList.update c (to_byte k) rows else rows)
                       | None \<Rightarrow> None)\<rparr>)"

definition remove_from_storage :: "bool \<Rightarrow> 'c \<Rightarrow> 'c BrokenInvariantsTracker \<Rightarrow> 'c BrokenInvariantsTracker" where
  "remove_from_storage db c s =
    (case storage s of
       Some rows \<Rightarrow> s\<lparr>storage := Some (if db then AList.delete c rows else rows)\<rparr>
     | None \<Rightarrow> s)"

definition bi_clear :: "bool \<Rightarrow> 'c \<Rightarrow> 'c BrokenInvariantsTracker \<Rightarrow>
    BrokenInvariant option \<times> 'c BrokenInvariantsTracker" where
  "bi_clear db c s =
    (case map_of (flags s) c of
       None \<Rightarrow> (None, s)
     | Some e \<Rightarrow> (Some (kind e), remove_from_storage db c (s\<lparr>flags := AList.delete c (flags s)\<rparr>)))"

definition reclaimable :: "instant \<Rightarrow> FlagEntry \<Rightarrow> bool" where
  "reclaimable now e \<longleftrightarrow> now - recorded_at e \<ge> ttl e * REFLAG_WINDOW_MULT"

text \<open>\<open>remove_if\<close>: the test is made again at the removal.\<close>

definition reclaim :: "bool \<Rightarrow> instant \<Rightarrow> 'c \<Rightarrow> 'c BrokenInvariantsTracker \<Rightarrow> 'c BrokenInvariantsTracker" where
  "reclaim db now c s =
    (case map_of (flags s) c of
       Some e \<Rightarrow> if reclaimable now e then remove_from_storage db c (s\<lparr>flags := AList.delete c (flags s)\<rparr>) else s
     | None \<Rightarrow> s)"

definition bi_cleanup :: "bool \<Rightarrow> instant \<Rightarrow> 'c BrokenInvariantsTracker \<Rightarrow> 'c BrokenInvariantsTracker" where
  "bi_cleanup db now s =
    (let candidates = map fst (filter (\<lambda>(c, e). reclaimable now e) (flags s));
         s' = fold (reclaim db now) candidates s
     in s'\<lparr>identity_probe_claims :=
          filter (\<lambda>(c, t). now - t < IDENTITY_PROBE_COOLDOWN) (identity_probe_claims s')\<rparr>)"

definition set_storage :: "instant \<Rightarrow> ('c, 8 word) hash_map \<Rightarrow> 'c BrokenInvariantsTracker \<Rightarrow> 'c BrokenInvariantsTracker" where
  "set_storage now rows s =
    (if storage s \<noteq> None then s
     else fold (\<lambda>(c, b) s. case from_byte b of
                  Some k \<Rightarrow> s\<lparr>flags := AList.update c \<lparr>kind = k, recorded_at = now, ttl = BROKEN_INVARIANT_TTL\<rparr> (flags s)\<rparr>
                | None \<Rightarrow> s)
            rows (s\<lparr>storage := Some rows\<rparr>))"

definition clear_storage :: "'c BrokenInvariantsTracker \<Rightarrow> 'c BrokenInvariantsTracker" where
  "clear_storage s = s\<lparr>storage := None\<rparr>"

section \<open>Runs\<close>

datatype 'c BiOp = BiRecord 'c BrokenInvariant | BiClear 'c | BiClaim 'c | BiCleanup

fun bi_step :: "bool \<Rightarrow> instant \<times> 'c BiOp \<Rightarrow> 'c BrokenInvariantsTracker \<Rightarrow> 'c BrokenInvariantsTracker" where
  "bi_step db (now, BiRecord c k) s = bi_record db now c k s"
| "bi_step db (now, BiClear c) s = snd (bi_clear db c s)"
| "bi_step db (now, BiClaim c) s = snd (try_claim_identity_probe now c s)"
| "bi_step db (now, BiCleanup) s = bi_cleanup db now s"

lemma remove_from_storage_fields [simp]:
  "flags (remove_from_storage db c s) = flags s"
  "identity_probe_claims (remove_from_storage db c s) = identity_probe_claims s"
  by (simp_all add: remove_from_storage_def split: option.splits)

lemma reclaim_lookup: "map_of (flags (reclaim db now c s)) d =
    (case map_of (flags s) d of Some e \<Rightarrow> if d = c \<and> reclaimable now e then None else Some e | None \<Rightarrow> None)"
  by (auto simp: reclaim_def split: option.splits)

lemma reclaim_claims [simp]: "identity_probe_claims (reclaim db now c s) = identity_probe_claims s"
  by (simp add: reclaim_def split: option.splits)

lemma reclaim_all_lookup: "map_of (flags (fold (reclaim db now) cs s)) d =
    (case map_of (flags s) d of Some e \<Rightarrow> if d \<in> set cs \<and> reclaimable now e then None else Some e | None \<Rightarrow> None)"
  by (induction cs arbitrary: s) (auto simp: reclaim_lookup split: option.splits)

lemma reclaim_all_claims [simp]: "identity_probe_claims (fold (reclaim db now) cs s) = identity_probe_claims s"
  by (induction cs arbitrary: s) auto

definition bi_maps_ok :: "'c BrokenInvariantsTracker \<Rightarrow> bool" where
  "bi_maps_ok s \<longleftrightarrow> map_ok (flags s) \<and> map_ok (identity_probe_claims s)"

lemma bi_cleanup_lookup:
  assumes "bi_maps_ok s"
  shows "map_of (flags (bi_cleanup db now s)) d =
      (case map_of (flags s) d of Some e \<Rightarrow> if reclaimable now e then None else Some e | None \<Rightarrow> None)"
    and "map_of (identity_probe_claims (bi_cleanup db now s)) d =
      (case map_of (identity_probe_claims s) d of
         Some t \<Rightarrow> if now - t < IDENTITY_PROBE_COOLDOWN then Some t else None | None \<Rightarrow> None)"
proof -
  have "map_of (flags s) d = Some e \<Longrightarrow> reclaimable now e \<Longrightarrow> d \<in> fst ` {x \<in> set (flags s). case x of (c, e) \<Rightarrow> reclaimable now e}" for e
    by (force dest: map_of_SomeD)
  then show "map_of (flags (bi_cleanup db now s)) d =
      (case map_of (flags s) d of Some e \<Rightarrow> if reclaimable now e then None else Some e | None \<Rightarrow> None)"
    by (auto simp: bi_cleanup_def Let_def reclaim_all_lookup split: option.splits)
  show "map_of (identity_probe_claims (bi_cleanup db now s)) d =
      (case map_of (identity_probe_claims s) d of
         Some t \<Rightarrow> if now - t < IDENTITY_PROBE_COOLDOWN then Some t else None | None \<Rightarrow> None)"
    using assms by (simp add: bi_cleanup_def Let_def map_of_filter bi_maps_ok_def)
qed

lemma reclaim_ok: "bi_maps_ok s \<Longrightarrow> bi_maps_ok (reclaim db now c s)"
  by (simp add: bi_maps_ok_def reclaim_def split: option.splits)

lemma reclaim_all_ok: "bi_maps_ok s \<Longrightarrow> bi_maps_ok (fold (reclaim db now) cs s)"
  by (induction cs arbitrary: s) (auto intro: reclaim_ok)

lemma bi_step_ok: "bi_maps_ok s \<Longrightarrow> bi_maps_ok (bi_step db (now, e) s)"
proof (cases e)
  case BiCleanup
  assume "bi_maps_ok s"
  from reclaim_all_ok[OF this] show ?thesis using BiCleanup by (auto simp: bi_cleanup_def Let_def bi_maps_ok_def)
qed (auto simp: bi_maps_ok_def bi_record_def bi_clear_def try_claim_identity_probe_def Let_def split: option.splits)

section \<open>The clean-up cannot be observed\<close>

text \<open>The first state may lack entries that the second still has but that no longer matter.\<close>

definition bi_agree :: "instant \<Rightarrow> 'c BrokenInvariantsTracker \<Rightarrow> 'c BrokenInvariantsTracker \<Rightarrow> bool" where
  "bi_agree now s s' \<longleftrightarrow> bi_maps_ok s \<and> bi_maps_ok s' \<and>
    (\<forall>c. map_of (flags s) c = map_of (flags s') c \<or>
      map_of (flags s) c = None \<and> (\<exists>e. map_of (flags s') c = Some e \<and> reclaimable now e)) \<and>
    (\<forall>c. map_of (identity_probe_claims s) c = map_of (identity_probe_claims s') c \<or>
      map_of (identity_probe_claims s) c = None \<and>
      (\<exists>t. map_of (identity_probe_claims s') c = Some t \<and> now - t \<ge> IDENTITY_PROBE_COOLDOWN))"

lemma bi_agree_mono: "bi_agree t s s' \<Longrightarrow> t \<le> t' \<Longrightarrow> bi_agree t' s s'"
  by (fastforce simp: bi_agree_def reclaimable_def)

text \<open>What the detections find in force and whether the probes are granted.\<close>

fun bi_answers :: "bool \<Rightarrow> (instant \<times> 'c BiOp) list \<Rightarrow> 'c BrokenInvariantsTracker \<Rightarrow> bool list" where
  "bi_answers db [] s = []"
| "bi_answers db ((now, e) # es) s =
    (case e of
       BiClaim c \<Rightarrow> [fst (try_claim_identity_probe now c s)]
     | BiRecord c k \<Rightarrow> [is_broken now c s]
     | _ \<Rightarrow> []) @ bi_answers db es (bi_step db (now, e) s)"

lemma agree_broken: "bi_agree now s s' \<Longrightarrow> is_broken now c s = is_broken now c s'"
  unfolding bi_agree_def is_broken_def
  by (drule conjunct2, drule conjunct2, drule conjunct1, drule spec[of _ c])
    (auto simp: reclaimable_def REFLAG_WINDOW_MULT_def)

lemma agree_claim: "bi_agree now s s' \<Longrightarrow> fst (try_claim_identity_probe now c s) = fst (try_claim_identity_probe now c s')"
  unfolding bi_agree_def try_claim_identity_probe_def Let_def
  by (drule conjunct2, drule conjunct2, drule conjunct2, drule spec[of _ c]) auto

lemma agree_step:
  assumes ag: "bi_agree now s s'" and e: "e \<noteq> BiCleanup"
  shows "bi_agree now (bi_step db (now, e) s) (bi_step db (now, e) s')"
proof -
  have ok: "bi_maps_ok (bi_step db (now, e) s)" "bi_maps_ok (bi_step db (now, e) s')"
    using ag bi_step_ok by (auto simp: bi_agree_def)
  have fl: "map_of (flags s) c = map_of (flags s') c \<or>
      map_of (flags s) c = None \<and> (\<exists>e. map_of (flags s') c = Some e \<and> reclaimable now e)" for c
    using ag by (simp add: bi_agree_def)
  have cl: "map_of (identity_probe_claims s) c = map_of (identity_probe_claims s') c \<or>
      map_of (identity_probe_claims s) c = None \<and>
      (\<exists>t. map_of (identity_probe_claims s') c = Some t \<and> now - t \<ge> IDENTITY_PROBE_COOLDOWN)" for c
    using ag by (simp add: bi_agree_def)
  show ?thesis
  proof (cases e)
    case (BiRecord c k)
    have "reclaimable now x \<Longrightarrow> next_ttl now x = BROKEN_INVARIANT_TTL" for x
      by (simp add: reclaimable_def next_ttl_def Let_def)
    then have "map_of (flags (bi_step db (now, e) s)) c = map_of (flags (bi_step db (now, e) s')) c"
      using fl[of c] BiRecord by (auto simp: bi_record_def split: option.splits)
    then show ?thesis using ok fl cl BiRecord
      by (simp add: bi_agree_def bi_record_def split: option.splits)
  next
    case (BiClear c)
    have "map_of (flags (bi_step db (now, e) x)) d = (if d = c then None else map_of (flags x) d)"
      "identity_probe_claims (bi_step db (now, e) x) = identity_probe_claims x" for x :: "'a BrokenInvariantsTracker" and d
      using BiClear by (auto simp: bi_clear_def split: option.splits)
    then show ?thesis using ok fl cl by (simp add: bi_agree_def)
  next
    case (BiClaim c)
    have st: "flags (bi_step db (now, e) x) = flags x"
      "map_of (identity_probe_claims (bi_step db (now, e) x)) d =
        (if d = c \<and> fst (try_claim_identity_probe now c x) then Some now else map_of (identity_probe_claims x) d)"
      for x :: "'a BrokenInvariantsTracker" and d
      using BiClaim by (simp_all add: try_claim_identity_probe_def Let_def)
    show ?thesis using ok fl cl agree_claim[OF ag, of c] by (simp add: bi_agree_def st)
  qed (use e in simp)
qed

lemma agree_cleanup:
  assumes ag: "bi_agree now s s'"
  shows "bi_agree now (bi_cleanup db now s) s'"
proof -
  have ok: "bi_maps_ok s" using ag by (simp add: bi_agree_def)
  then have "bi_maps_ok (bi_cleanup db now s)" using bi_step_ok[OF ok, of db now BiCleanup] by simp
  moreover have "map_of (flags (bi_cleanup db now s)) c = map_of (flags s') c \<or>
      map_of (flags (bi_cleanup db now s)) c = None \<and> (\<exists>e. map_of (flags s') c = Some e \<and> reclaimable now e)" for c
    using ag[unfolded bi_agree_def, THEN conjunct2, THEN conjunct2, THEN conjunct1, THEN spec, of c]
    by (auto simp: bi_cleanup_lookup(1)[OF ok] split: option.splits)
  moreover have "map_of (identity_probe_claims (bi_cleanup db now s)) c = map_of (identity_probe_claims s') c \<or>
      map_of (identity_probe_claims (bi_cleanup db now s)) c = None \<and>
      (\<exists>t. map_of (identity_probe_claims s') c = Some t \<and> now - t \<ge> IDENTITY_PROBE_COOLDOWN)" for c
    using ag[unfolded bi_agree_def, THEN conjunct2, THEN conjunct2, THEN conjunct2, THEN spec, of c]
    by (cases "map_of (identity_probe_claims s') c") (auto simp: bi_cleanup_lookup(2)[OF ok] not_less split: if_splits)
  ultimately show ?thesis using ag by (simp add: bi_agree_def)
qed

lemma agree_run:
  "bi_agree t0 s s' \<Longrightarrow> sorted (t0 # map fst es) \<Longrightarrow> \<forall>e \<in> set es. fst e \<le> now \<Longrightarrow> t0 \<le> now \<Longrightarrow>
    bi_answers db es s = bi_answers db (filter (\<lambda>e. snd e \<noteq> BiCleanup) es) s' \<and>
    bi_agree now (fold (bi_step db) es s) (fold (bi_step db) (filter (\<lambda>e. snd e \<noteq> BiCleanup) es) s')"
proof (induction es arbitrary: t0 s s')
  case (Cons x es)
  obtain t e where x: "x = (t, e)" by (cases x)
  have ag: "bi_agree t s s'" using Cons.prems x by (auto intro: bi_agree_mono)
  show ?case
  proof (cases "e = BiCleanup")
    case True
    then show ?thesis using Cons.IH[OF agree_cleanup[OF ag, of db]] Cons.prems x by simp
  next
    case False
    then show ?thesis using Cons.IH[OF agree_step[OF ag False, of db]] Cons.prems x agree_broken[OF ag] agree_claim[OF ag]
      by (simp split: BiOp.splits)
  qed
qed (auto intro: bi_agree_mono)

text \<open>
  The periodic clean-up cannot be observed. Take any run in which time does not go back, and the same run
  without its clean-ups: every detection finds the same flag in force, every probe is granted or refused alike,
  and at any later time the same contracts are suppressed. So the entries the clean-up drops, escalation memory
  included, no longer matter.
\<close>

theorem broken_cleanup_invisible:
  assumes "sorted (map fst es)" "\<forall>e \<in> set es. fst e \<le> now"
  shows "bi_answers db es bi_new = bi_answers db (filter (\<lambda>e. snd e \<noteq> BiCleanup) es) bi_new \<and>
    (\<forall>c. is_broken now c (fold (bi_step db) es bi_new) =
      is_broken now c (fold (bi_step db) (filter (\<lambda>e. snd e \<noteq> BiCleanup) es) bi_new))"
proof -
  have ag: "bi_agree 0 (bi_new :: 'a BrokenInvariantsTracker) bi_new" by (simp add: bi_agree_def bi_maps_ok_def bi_new_def)
  have "sorted (0 # map fst es)" "0 \<le> now" using assms(1) by simp_all
  note r = agree_run[OF ag this(1) assms(2) this(2), of db]
  show ?thesis using r agree_broken[OF conjunct2[OF r]] by simp
qed

theorem broken_cleanup_invisible_witness:
  "let es = [(1, BiRecord 7 NonIdempotent), (from_secs 700, BiCleanup), (from_secs 701, BiRecord (7 :: nat) NonIdempotent)]
   in sorted (map fst es) \<and>
      bi_answers True es bi_new = bi_answers True (filter (\<lambda>e. snd e \<noteq> BiCleanup) es) bi_new"
proof -
  let ?es = "[(1, BiRecord 7 NonIdempotent), (from_secs 700, BiCleanup), (from_secs 701, BiRecord (7 :: nat) NonIdempotent)]"
  have "sorted (map fst ?es)" "\<forall>e \<in> set ?es. fst e \<le> from_secs 702" by (simp_all add: from_secs_def)
  with broken_cleanup_invisible[OF this, of True] show ?thesis unfolding Let_def by blast
qed

section \<open>Escalation\<close>

text \<open>Detections of one contract, each with the time since the one before.\<close>

fun caught :: "duration list \<Rightarrow> instant \<Rightarrow> 'c \<Rightarrow> 'c BrokenInvariantsTracker \<Rightarrow> 'c BrokenInvariantsTracker" where
  "caught [] t c s = s"
| "caught (d # ds) t c s = caught ds (t + d) c (bi_record True (t + d) c NonIdempotent s)"

text \<open>Each time the contract is caught again after its flag has expired and before the window closes.\<close>

fun oscillates :: "duration \<Rightarrow> duration list \<Rightarrow> bool" where
  "oscillates w [] = True"
| "oscillates w (d # ds) = (w \<le> d \<and> d < 2 * w \<and> oscillates (min (w * 2) BROKEN_INVARIANT_TTL_CAP) ds)"

definition escalated :: "nat \<Rightarrow> duration" where
  "escalated k = min (BROKEN_INVARIANT_TTL * 2 ^ k) BROKEN_INVARIANT_TTL_CAP"

lemma escalated_Suc: "min (escalated k * 2) BROKEN_INVARIANT_TTL_CAP = escalated (Suc k)"
  by (simp add: escalated_def min_def mult.assoc mult.commute)

lemma caught_ttl:
  assumes "map_of (flags s) c = Some \<lparr>kind = NonIdempotent, recorded_at = t, ttl = escalated k\<rparr>"
    and "oscillates (escalated k) ds"
  shows "map_of (flags (caught ds t c s)) c =
    Some \<lparr>kind = NonIdempotent, recorded_at = t + sum_list ds, ttl = escalated (k + length ds)\<rparr>"
  using assms
proof (induction ds arbitrary: s t k)
  case (Cons d ds)
  have "next_ttl (t + d) \<lparr>kind = NonIdempotent, recorded_at = t, ttl = escalated k\<rparr> = escalated (Suc k)"
    using Cons.prems(2) by (simp add: next_ttl_def Let_def REFLAG_WINDOW_MULT_def escalated_Suc)
  then have "map_of (flags (bi_record True (t + d) c NonIdempotent s)) c =
      Some \<lparr>kind = NonIdempotent, recorded_at = t + d, ttl = escalated (Suc k)\<rparr>"
    using Cons.prems(1) by (simp add: bi_record_def)
  from Cons.IH[OF this] show ?case using Cons.prems(2) by (simp add: escalated_Suc add.assoc)
qed simp

text \<open>
  A contract that is caught again each time its flag has expired, within the window that follows, is
  suppressed longer each time: after the first detection and \<open>length ds\<close> further ones the suppression lasts
  exactly five minutes doubled that often, at most six hours, counted from the last detection.
\<close>

theorem oscillator_escalates:
  assumes "map_of (flags s) c = None" "oscillates BROKEN_INVARIANT_TTL ds"
  shows "is_broken now c (caught ds t c (bi_record True t c NonIdempotent s)) \<longleftrightarrow>
    now - (t + sum_list ds) < min (from_secs 300 * 2 ^ length ds) (from_secs (6 * 60 * 60))"
proof -
  have e0: "escalated 0 = BROKEN_INVARIANT_TTL"
    by (simp add: escalated_def BROKEN_INVARIANT_TTL_def BROKEN_INVARIANT_TTL_CAP_def from_secs_def)
  have "map_of (flags (bi_record True t c NonIdempotent s)) c =
      Some \<lparr>kind = NonIdempotent, recorded_at = t, ttl = escalated 0\<rparr>" using assms(1) e0 by (simp add: bi_record_def)
  from caught_ttl[OF this] show ?thesis using assms(2) e0
    by (simp add: is_broken_def escalated_def BROKEN_INVARIANT_TTL_def BROKEN_INVARIANT_TTL_CAP_def)
qed

theorem oscillator_escalates_witness:
  "let ds = [from_secs 300, from_secs 700]; s = (bi_new :: nat BrokenInvariantsTracker)
   in is_broken (from_secs 1500) 7 (caught ds 0 7 (bi_record True 0 7 NonIdempotent s))"
proof -
  let ?ds = "[from_secs 300, from_secs 700]"
  have "map_of (flags (bi_new :: nat BrokenInvariantsTracker)) 7 = None" by (simp add: bi_new_def)
  moreover have "oscillates BROKEN_INVARIANT_TTL ?ds"
    by (simp add: BROKEN_INVARIANT_TTL_def BROKEN_INVARIANT_TTL_CAP_def from_secs_def)
  ultimately show ?thesis unfolding Let_def
    by (subst oscillator_escalates) (simp_all add: from_secs_def)
qed

section \<open>Restarts\<close>

definition rows_match :: "'c BrokenInvariantsTracker \<Rightarrow> bool" where
  "rows_match s \<longleftrightarrow> (case storage s of None \<Rightarrow> False
    | Some rows \<Rightarrow> map_ok rows \<and> keys rows = keys (flags s) \<and> (\<forall>c b. map_of rows c = Some b \<longrightarrow> b = 0))"

lemma rows_match_cong: "rows_match s \<Longrightarrow> flags s' = flags s \<Longrightarrow> storage s' = storage s \<Longrightarrow> rows_match s'"
  by (simp add: rows_match_def split: option.splits)

lemma remove_rows: "rows_match s \<Longrightarrow> rows_match (remove_from_storage True c (s\<lparr>flags := AList.delete c (flags s)\<rparr>))"
  by (auto simp: rows_match_def remove_from_storage_def split: option.splits if_splits)

lemma reclaim_rows: "rows_match s \<Longrightarrow> rows_match (reclaim True now c s)"
  by (simp add: reclaim_def remove_rows split: option.splits)

lemma reclaim_all_rows: "rows_match s \<Longrightarrow> rows_match (fold (reclaim True now) cs s)"
  by (induction cs arbitrary: s) (auto intro: reclaim_rows)

lemma bi_step_rows:
  assumes rows: "rows_match s"
  shows "rows_match (bi_step True e s)"
proof (cases e)
  case (Pair now op)
  show ?thesis
  proof (cases op)
    case (BiRecord c k)
    show ?thesis
    proof (cases "map_of (flags s) c")
      case None
      then show ?thesis using rows Pair BiRecord
        by (cases k) (auto simp: rows_match_def bi_record_def split: option.splits if_splits)
    next
      case (Some f)
      then have "c \<in> keys (flags s)" using map_of_keys[of "flags s" c] by auto
      then have "keys (flags (bi_step True e s)) = keys (flags s)" "storage (bi_step True e s) = storage s"
        using Some Pair BiRecord by (auto simp: bi_record_def)
      then show ?thesis using rows by (simp add: rows_match_def split: option.splits)
    qed
  next
    case (BiClear c)
    then show ?thesis using rows Pair remove_rows[OF rows, of c] by (simp add: bi_clear_def split: option.splits)
  next
    case (BiClaim c)
    then show ?thesis using rows Pair by (auto simp: try_claim_identity_probe_def Let_def intro: rows_match_cong)
  next
    case BiCleanup
    then show ?thesis using rows_match_cong[OF reclaim_all_rows[OF rows]] Pair by (simp add: bi_cleanup_def Let_def)
  qed
qed

interpretation bi_rows: machine "bi_step True" "\<lambda>_. True" rows_match
  by unfold_locales (rule bi_step_rows)

lemma hydrate_lookup:
  assumes "\<forall>(c, b) \<in> set rows. b = 0"
  shows "map_of (flags (fold (\<lambda>(c, b) s. case from_byte b of
        Some k \<Rightarrow> s\<lparr>flags := AList.update c \<lparr>kind = k, recorded_at = t, ttl = BROKEN_INVARIANT_TTL\<rparr> (flags s)\<rparr>
      | None \<Rightarrow> s) rows s)) c =
    (if c \<in> keys rows then Some \<lparr>kind = NonIdempotent, recorded_at = t, ttl = BROKEN_INVARIANT_TTL\<rparr>
     else map_of (flags s) c)"
  using assms by (induction rows arbitrary: s) (auto simp: from_byte_def)

text \<open>
  When the data base carries out every write, a restart loses no flag. Whatever was recorded, cleared and
  cleaned up before, the tracker that loads the persisted rows at time \<open>t\<close> suppresses exactly the contracts that
  had an entry, those suppressed at the restart among them, for five minutes from \<open>t\<close>.
\<close>

theorem restart_keeps_flags:
  "let s = fold (bi_step True) es (set_storage t0 [] bi_new);
       s' = set_storage t (the (storage s)) bi_new
   in (\<forall>now c. is_broken now c s' \<longleftrightarrow> c \<in> keys (flags s) \<and> now - t < from_secs 300) \<and>
      {c. is_broken t c s} \<subseteq> {c. is_broken t c s'}"
proof -
  define s where "s = fold (bi_step True) es (set_storage t0 [] bi_new)"
  have "rows_match (set_storage t0 [] bi_new :: 'a BrokenInvariantsTracker)"
    by (simp add: rows_match_def set_storage_def bi_new_def)
  then have "rows_match s" unfolding s_def by (intro bi_rows.fold_inv) (simp_all add: list_all_iff)
  then obtain rows where rows: "storage s = Some rows" "map_ok rows" "keys rows = keys (flags s)"
      "\<And>c b. map_of rows c = Some b \<Longrightarrow> b = 0" by (auto simp: rows_match_def split: option.splits)
  have "\<forall>(c, b) \<in> set rows. b = 0" using rows(2,4) by (auto simp: map_ok_def)
  then have "map_of (flags (set_storage t rows bi_new)) c =
      (if c \<in> keys (flags s) then Some \<lparr>kind = NonIdempotent, recorded_at = t, ttl = BROKEN_INVARIANT_TTL\<rparr> else None)" for c
    by (simp add: set_storage_def bi_new_def hydrate_lookup rows(3))
  then have b: "is_broken now c (set_storage t rows bi_new) \<longleftrightarrow> c \<in> keys (flags s) \<and> now - t < from_secs 300" for now c
    by (simp add: is_broken_def BROKEN_INVARIANT_TTL_def)
  have "is_broken t c s \<Longrightarrow> c \<in> keys (flags s)" for c
    using map_of_keys[of "flags s" c] by (auto simp: is_broken_def split: option.splits)
  then show ?thesis unfolding Let_def s_def[symmetric] by (auto simp: rows(1) b from_secs_def)
qed

end
