(* ===== verification/Interest_Sync.thy ===== *)
theory Interest_Sync
  imports Interest_Properties Ban_List Resync_Rate_Limit Merge_Backoff Delta_Incompat Broken_Invariants
begin

text \<open>
  The handler of interest messages, \<open>handle_interest_sync_message\<close> of \<open>node.rs\<close>, over the interest manager and
  the tables of the ring it consults. What the handler asks of the rest of the node (the contract handler, the
  state store, the connection table, the random source, the delta cache) is a record of functions on a world of
  an arbitrary type, threaded through the calls in the order of the code; a message is handled at one instant.
  Log lines and telemetry are left out.
\<close>

section \<open>Messages, node and environment\<close>

type_synonym SummaryEntry = "32 word \<times> bytes option"

datatype 'c InterestMessage =
    Interests "32 word list"
  | Summaries "SummaryEntry list"
  | ChangeInterests "32 word list" "32 word list"
  | ResyncRequest 'c
  | ResyncResponse 'c bytes bytes

text \<open>The answers of the contract handler to an update that the handler tells apart: applied with a change of
  the state, applied without, anything else.\<close>

datatype apply_outcome = AppliedChanged | AppliedUnchanged | ApplyError

record ('c, 'i, 'p, 'a, 'w) sync_env =
  key_id :: "'c \<Rightarrow> 'i"
  id_bytes :: "'i \<Rightarrow> bytes"
  get_peer_by_addr :: "'w \<Rightarrow> 'a \<Rightarrow> 'p option"
  should_summarize_or_broadcast :: "'w \<Rightarrow> 'c \<Rightarrow> bool"
  get_contract_summary :: "'c \<Rightarrow> 'w \<Rightarrow> bytes option \<times> 'w"
  get_contract_state :: "'c \<Rightarrow> 'w \<Rightarrow> bytes option \<times> 'w"
  contract_state_present :: "'w \<Rightarrow> 'c \<Rightarrow> bool"
  cached_staleness_verdict :: "'c \<Rightarrow> bytes \<Rightarrow> bytes \<Rightarrow> 'w \<Rightarrow> bool option \<times> 'w"
  peer_summary_has_pending_state :: "'c \<Rightarrow> bytes \<Rightarrow> bytes \<Rightarrow> 'w \<Rightarrow> bool option \<times> 'w"
  flush_pending_broadcast :: "'c \<Rightarrow> 'w \<Rightarrow> 'w"
  random_below :: "nat \<Rightarrow> 'w \<Rightarrow> nat \<times> 'w"
  update_query :: "'c \<Rightarrow> bytes \<Rightarrow> 'w \<Rightarrow> apply_outcome \<times> 'w"

text \<open>\<open>sync_events\<close> are the events \<open>SyncStateToPeer\<close> handed to the event loop, oldest first.\<close>

record ('c, 'i, 'p, 'a, 'w) sync_node =
  interest :: "('c, 'p) InterestManager"
  contract_ban_list :: "'i ContractBanList"
  broken_invariants :: "'i BrokenInvariantsTracker"
  delta_incompat :: "('i, 'a) DeltaIncompat"
  resync_response_limiter :: "('a \<times> 'i) TokenBucketLimiter"
  resync_response_global_limiter :: "'i TokenBucketLimiter"
  outstanding_resync_requests :: "('i, 'a) OutstandingResyncRequests"
  merge_backoff :: "('i, 'a) MergeBackoff"
  sync_events :: "('c \<times> bytes \<times> 'a) list"
  world :: 'w

abbreviation env_idb :: "('c, 'i, 'p, 'a, 'w) sync_env \<Rightarrow> 'c \<Rightarrow> bytes" where
  "env_idb env c \<equiv> id_bytes env (key_id env c)"

definition get_peer_key_from_addr ::
    "('c, 'i, 'p, 'a, 'w) sync_env \<Rightarrow> 'a \<Rightarrow> ('c, 'i, 'p, 'a, 'w) sync_node \<Rightarrow> 'p option" where
  "get_peer_key_from_addr env source n = get_peer_by_addr env (world n) source"

definition summary_if_hosted_or_in_use :: "('c, 'i, 'p, 'a, 'w) sync_env \<Rightarrow> 'c \<Rightarrow>
    ('c, 'i, 'p, 'a, 'w) sync_node \<Rightarrow> bytes option \<times> ('c, 'i, 'p, 'a, 'w) sync_node" where
  "summary_if_hosted_or_in_use env c n =
    (if should_summarize_or_broadcast env (world n) c
     then let (summary, w) = get_contract_summary env c (world n) in (summary, n\<lparr>world := w\<rparr>)
     else (None, n))"

section \<open>Interests\<close>

text \<open>Refresh the entry of the peer or register it; a new entry flushes a deferred broadcast.\<close>

definition note_interest :: "('c, 'i, 'p, 'a, 'w) sync_env \<Rightarrow> instant \<Rightarrow> 'c \<Rightarrow> 'p \<Rightarrow>
    ('c, 'i, 'p, 'a, 'w) sync_node \<Rightarrow> ('c, 'i, 'p, 'a, 'w) sync_node" where
  "note_interest env now c p n =
    (if get_peer_interest (interest n) c p \<noteq> None
     then n\<lparr>interest := refresh_peer_interest now c p (interest n)\<rparr>
     else let (is_new, m) = register_peer_interest (env_idb env) now c p None False (interest n);
              n1 = n\<lparr>interest := m\<rparr>
          in if is_new then n1\<lparr>world := flush_pending_broadcast env c (world n1)\<rparr> else n1)"

definition remove_unlisted :: "('c \<Rightarrow> bytes) \<Rightarrow> 'p \<Rightarrow> 32 word list \<Rightarrow>
    ('c, 'p) InterestManager \<Rightarrow> ('c, 'p) InterestManager" where
  "remove_unlisted idb p hashes s =
    fold (\<lambda>c s. if contract_hash idb c \<in> set hashes then s else snd (remove_peer_interest idb c p s))
      (get_contracts_for_peer s p) s"

fun summarize_matching :: "('c, 'i, 'p, 'a, 'w) sync_env \<Rightarrow> instant \<Rightarrow> 'p option \<Rightarrow> 'c list \<Rightarrow>
    ('c, 'i, 'p, 'a, 'w) sync_node \<Rightarrow> SummaryEntry list \<times> ('c, 'i, 'p, 'a, 'w) sync_node" where
  "summarize_matching env now pk [] n = ([], n)"
| "summarize_matching env now pk (c # cs) n =
    (let (summary, n1) = summary_if_hosted_or_in_use env c n;
         n2 = (case pk of None \<Rightarrow> n1 | Some p \<Rightarrow> note_interest env now c p n1);
         (entries, n3) = summarize_matching env now pk cs n2
     in ((contract_hash (env_idb env) c, summary) # entries, n3))"

definition answer_summaries :: "SummaryEntry list \<Rightarrow> 'c InterestMessage option" where
  "answer_summaries entries = (if entries = [] then None else Some (Summaries entries))"

definition handle_interests :: "('c, 'i, 'p, 'a, 'w) sync_env \<Rightarrow> instant \<Rightarrow> 'a \<Rightarrow> 32 word list \<Rightarrow>
    ('c, 'i, 'p, 'a, 'w) sync_node \<Rightarrow> 'c InterestMessage option \<times> ('c, 'i, 'p, 'a, 'w) sync_node" where
  "handle_interests env now source hashes n =
    (let pk = get_peer_key_from_addr env source n;
         n1 = (case pk of None \<Rightarrow> n
               | Some p \<Rightarrow> n\<lparr>interest := remove_unlisted (env_idb env) p hashes (interest n)\<rparr>);
         matching = get_matching_contracts (env_idb env) (interest n1) hashes;
         (entries, n2) = summarize_matching env now pk matching n1
     in (answer_summaries entries, n2))"

section \<open>Summaries\<close>

definition MAX_STALE_SYNCS_PER_SUMMARIES :: nat where
  "MAX_STALE_SYNCS_PER_SUMMARIES = 32"

definition stale_sync_emit_budget :: "nat \<Rightarrow> nat" where
  "stale_sync_emit_budget stale_contracts_len = min stale_contracts_len MAX_STALE_SYNCS_PER_SUMMARIES"

definition MAX_STALENESS_PROBES_PER_SUMMARIES :: nat where
  "MAX_STALENESS_PROBES_PER_SUMMARIES = 32"

datatype StalenessProbeAction = UseCached bool | RunProbe | BudgetExhaustedFallBack

definition plan_staleness_probe :: "bool option \<Rightarrow> nat \<Rightarrow> StalenessProbeAction" where
  "plan_staleness_probe cached probes_used =
    (case cached of
       Some has_change \<Rightarrow> UseCached has_change
     | None \<Rightarrow> if probes_used < MAX_STALENESS_PROBES_PER_SUMMARIES then RunProbe else BudgetExhaustedFallBack)"

text \<open>Whether the peer is stale for one contract, with the number of probes used.\<close>

definition judge_staleness :: "('c, 'i, 'p, 'a, 'w) sync_env \<Rightarrow> 'c \<Rightarrow> bytes option \<Rightarrow> bytes option \<Rightarrow> nat \<Rightarrow>
    'w \<Rightarrow> bool \<times> nat \<times> 'w" where
  "judge_staleness env c our_summary their_summary probes w =
    (case (our_summary, their_summary) of
       (Some ours, Some theirs) \<Rightarrow>
         let (verdict, probes', w') =
           (if ours = theirs then (None, probes, w)
            else let (cached, w1) = cached_staleness_verdict env c theirs ours w
                 in case plan_staleness_probe cached probes of
                      UseCached has_change \<Rightarrow> (Some has_change, probes, w1)
                    | RunProbe \<Rightarrow> (let (v, w2) = peer_summary_has_pending_state env c theirs ours w1 in (v, probes + 1, w2))
                    | BudgetExhaustedFallBack \<Rightarrow> (None, probes, w1))
         in (summary_indicates_stale_peer ours theirs verdict, probes', w')
     | _ \<Rightarrow> (False, probes, w))"

text \<open>One contract of one entry: the probes used, the contracts found stale so far, the node.\<close>

definition process_summary :: "('c, 'i, 'p, 'a, 'w) sync_env \<Rightarrow> instant \<Rightarrow> 'p \<Rightarrow> bytes option \<Rightarrow> 'c \<Rightarrow>
    nat \<times> 'c list \<times> ('c, 'i, 'p, 'a, 'w) sync_node \<Rightarrow> nat \<times> 'c list \<times> ('c, 'i, 'p, 'a, 'w) sync_node" where
  "process_summary env now p their_summary c st =
    (case st of (probes, stale, n) \<Rightarrow>
       if \<not> has_local_interest (interest n) c then (probes, stale, n)
       else
         let (our_summary, n1) = summary_if_hosted_or_in_use env c n;
             (is_stale, probes', w) = judge_staleness env c our_summary their_summary probes (world n1);
             n2 = n1\<lparr>world := w,
               interest := (case their_summary of
                   Some theirs \<Rightarrow> snd (upsert_peer_summary (env_idb env) now c p theirs (interest n1))
                 | None \<Rightarrow> clear_peer_summary now c p ClearedByNoneReport (interest n1))\<rparr>
         in (probes', if is_stale \<and> c \<notin> set stale then stale @ [c] else stale, n2))"

definition process_entry :: "('c, 'i, 'p, 'a, 'w) sync_env \<Rightarrow> instant \<Rightarrow> 'p \<Rightarrow> SummaryEntry \<Rightarrow>
    nat \<times> 'c list \<times> ('c, 'i, 'p, 'a, 'w) sync_node \<Rightarrow> nat \<times> 'c list \<times> ('c, 'i, 'p, 'a, 'w) sync_node" where
  "process_entry env now p entry st =
    (case (entry, st) of ((hash, their_summary), (probes, stale, n)) \<Rightarrow>
       fold (process_summary env now p their_summary) (lookup_by_hash (interest n) hash) st)"

fun emit_stale_syncs :: "('c, 'i, 'p, 'a, 'w) sync_env \<Rightarrow> instant \<Rightarrow> 'a \<Rightarrow> nat \<Rightarrow> nat \<Rightarrow> 'c list \<Rightarrow>
    ('c, 'i, 'p, 'a, 'w) sync_node \<Rightarrow> ('c, 'i, 'p, 'a, 'w) sync_node" where
  "emit_stale_syncs env now source emit_budget emitted [] n = n"
| "emit_stale_syncs env now source emit_budget emitted (c # cs) n =
    (if emitted \<ge> emit_budget then n
     else if is_banned now (key_id env c) (contract_ban_list n)
     then emit_stale_syncs env now source emit_budget emitted cs n
     else
       let (state, w) = get_contract_state env c (world n); n1 = n\<lparr>world := w\<rparr>
       in case state of
            None \<Rightarrow> emit_stale_syncs env now source emit_budget emitted cs n1
          | Some st \<Rightarrow> emit_stale_syncs env now source emit_budget (emitted + 1) cs
                        (n1\<lparr>sync_events := sync_events n1 @ [(c, st, source)]\<rparr>))"

definition handle_summaries :: "('c, 'i, 'p, 'a, 'w) sync_env \<Rightarrow> instant \<Rightarrow> 'a \<Rightarrow> SummaryEntry list \<Rightarrow>
    ('c, 'i, 'p, 'a, 'w) sync_node \<Rightarrow> ('c, 'i, 'p, 'a, 'w) sync_node" where
  "handle_summaries env now source entries n =
    (let (probes, stale, n1) = (case get_peer_key_from_addr env source n of
           None \<Rightarrow> (0, [], n)
         | Some p \<Rightarrow> fold (process_entry env now p) entries (0, [], n));
         total_stale = length stale;
         emit_budget = stale_sync_emit_budget total_stale;
         (order, n2) = (if total_stale > emit_budget
            then let (start, w) = random_below env total_stale (world n1) in (rotate start stale, n1\<lparr>world := w\<rparr>)
            else (stale, n1))
     in emit_stale_syncs env now source emit_budget 0 order n2)"

section \<open>Changes of interest\<close>

definition remove_hash :: "('c \<Rightarrow> bytes) \<Rightarrow> 'p \<Rightarrow> 32 word \<Rightarrow> ('c, 'p) InterestManager \<Rightarrow> ('c, 'p) InterestManager" where
  "remove_hash idb p hash s = fold (\<lambda>c s. snd (remove_peer_interest idb c p s)) (lookup_by_hash s hash) s"

definition add_contract :: "('c, 'i, 'p, 'a, 'w) sync_env \<Rightarrow> instant \<Rightarrow> 'p \<Rightarrow> 32 word \<Rightarrow> 'c \<Rightarrow>
    SummaryEntry list \<times> ('c, 'i, 'p, 'a, 'w) sync_node \<Rightarrow> SummaryEntry list \<times> ('c, 'i, 'p, 'a, 'w) sync_node" where
  "add_contract env now p hash c st =
    (case st of (entries, n) \<Rightarrow>
       if \<not> has_local_interest (interest n) c then (entries, n)
       else let (summary, n') = summary_if_hosted_or_in_use env c (note_interest env now c p n)
            in (entries @ [(hash, summary)], n'))"

definition add_hash :: "('c, 'i, 'p, 'a, 'w) sync_env \<Rightarrow> instant \<Rightarrow> 'p \<Rightarrow> 32 word \<Rightarrow>
    SummaryEntry list \<times> ('c, 'i, 'p, 'a, 'w) sync_node \<Rightarrow> SummaryEntry list \<times> ('c, 'i, 'p, 'a, 'w) sync_node" where
  "add_hash env now p hash st =
    (case st of (entries, n) \<Rightarrow> fold (add_contract env now p hash) (lookup_by_hash (interest n) hash) st)"

definition handle_change_interests :: "('c, 'i, 'p, 'a, 'w) sync_env \<Rightarrow> instant \<Rightarrow> 'a \<Rightarrow>
    32 word list \<Rightarrow> 32 word list \<Rightarrow> ('c, 'i, 'p, 'a, 'w) sync_node \<Rightarrow>
    'c InterestMessage option \<times> ('c, 'i, 'p, 'a, 'w) sync_node" where
  "handle_change_interests env now source added removed n =
    (case get_peer_key_from_addr env source n of
       None \<Rightarrow> (None, n)
     | Some p \<Rightarrow>
         let n1 = n\<lparr>interest := fold (remove_hash (env_idb env) p) removed (interest n)\<rparr>;
             (entries, n2) = fold (add_hash env now p) added ([], n1)
         in (answer_summaries entries, n2))"

section \<open>Resynchronisation\<close>

definition handle_resync_request :: "('c, 'i, 'p, 'a, 'w) sync_env \<Rightarrow> instant \<Rightarrow> 'a \<Rightarrow> 'c \<Rightarrow>
    ('c, 'i, 'p, 'a, 'w) sync_node \<Rightarrow> 'c InterestMessage option \<times> ('c, 'i, 'p, 'a, 'w) sync_node" where
  "handle_resync_request env now source key n =
    (let i = key_id env key;
         n1 = n\<lparr>interest := record_resync_request_received (interest n),
                delta_incompat := snd (note_resync_request now i source (delta_incompat n))\<rparr>
     in if is_broken now i (broken_invariants n1) then (None, n1)
        else if \<not> contract_state_present env (world n1) key then (None, n1)
        else
          let (ok, l) = tbl_check_and_record now (source, i) (resync_response_limiter n1);
              n2 = n1\<lparr>resync_response_limiter := l\<rparr>
          in if \<not> ok then (None, n2)
             else
               let (ok_global, g) = tbl_check_and_record now i (resync_response_global_limiter n2);
                   n3 = n2\<lparr>resync_response_global_limiter := g\<rparr>
               in if \<not> ok_global then (None, n3)
                  else
                    let n4 = (case get_peer_key_from_addr env source n3 of
                                None \<Rightarrow> n3
                              | Some p \<Rightarrow> n3\<lparr>interest := clear_peer_summary now key p ClearedByResync (interest n3)\<rparr>);
                        (state, w) = get_contract_state env key (world n4);
                        n5 = n4\<lparr>world := w\<rparr>
                    in case state of
                         None \<Rightarrow> (None, n5)
                       | Some st \<Rightarrow>
                           let (summary, w') = get_contract_summary env key (world n5); n6 = n5\<lparr>world := w'\<rparr>
                           in case summary of
                                None \<Rightarrow> (None, n6)
                              | Some sm \<Rightarrow> (Some (ResyncResponse key st sm), n6))"

definition handle_resync_response :: "('c, 'i, 'p, 'a, 'w) sync_env \<Rightarrow> instant \<Rightarrow> 'a \<Rightarrow> 'c \<Rightarrow> bytes \<Rightarrow> bytes \<Rightarrow>
    ('c, 'i, 'p, 'a, 'w) sync_node \<Rightarrow> ('c, 'i, 'p, 'a, 'w) sync_node" where
  "handle_resync_response env now source key state_bytes summary_bytes n =
    (let i = key_id env key;
         (solicited, orr) = orr_consume now i source (outstanding_resync_requests n);
         n1 = n\<lparr>outstanding_resync_requests := orr\<rparr>
     in if \<not> solicited then n1
        else
          let (outcome, w) = update_query env key state_bytes (world n1);
              n2 = n1\<lparr>world := w\<rparr>;
              n3 = (if outcome = AppliedChanged
                    then n2\<lparr>merge_backoff := invalidate_payload_memo i (merge_backoff n2)\<rparr> else n2)
          in case get_peer_key_from_addr env source n3 of
               None \<Rightarrow> n3
             | Some p \<Rightarrow> n3\<lparr>interest := snd (upsert_peer_summary (env_idb env) now key p summary_bytes (interest n3))\<rparr>)"

fun handle_interest_sync_message :: "('c, 'i, 'p, 'a, 'w) sync_env \<Rightarrow> instant \<Rightarrow> 'a \<Rightarrow> 'c InterestMessage \<Rightarrow>
    ('c, 'i, 'p, 'a, 'w) sync_node \<Rightarrow> 'c InterestMessage option \<times> ('c, 'i, 'p, 'a, 'w) sync_node" where
  "handle_interest_sync_message env now source (Interests hashes) n = handle_interests env now source hashes n"
| "handle_interest_sync_message env now source (Summaries entries) n =
    (None, handle_summaries env now source entries n)"
| "handle_interest_sync_message env now source (ChangeInterests added removed) n =
    handle_change_interests env now source added removed n"
| "handle_interest_sync_message env now source (ResyncRequest key) n = handle_resync_request env now source key n"
| "handle_interest_sync_message env now source (ResyncResponse key state_bytes summary_bytes) n =
    (None, handle_resync_response env now source key state_bytes summary_bytes n)"

end
