(* ===== verification/Message_Exchange.thy ===== *)
theory Message_Exchange
  imports Main
begin

text \<open>
  Two nodes that answer each other's messages. An exchange is one message, its answer, the answer to that, and
  so on; it ends when the answers of a protocol descend in rank.
\<close>

text \<open>
  The message of the first node is handled by the second, its answer by the first, and so on for as long as
  there is an answer. The number counts the answers; the nodes are those of the start, in the same order.
\<close>

partial_function (option) exchange :: "('m \<Rightarrow> 's \<Rightarrow> 'm option \<times> 's) \<Rightarrow> ('m \<Rightarrow> 's \<Rightarrow> 'm option \<times> 's) \<Rightarrow> 'm \<Rightarrow> 's \<Rightarrow> 's \<Rightarrow>
    (nat \<times> 's \<times> 's) option" where
  "exchange at_first at_second m a b =
    (case at_second m b of
       (None, b') \<Rightarrow> Some (0, a, b')
     | (Some answer, b') \<Rightarrow>
         Option.bind (exchange at_second at_first answer b' a) (\<lambda>(k, b'', a'). Some (k + 1, a', b'')))"

locale answering =
  fixes handle :: "'e \<Rightarrow> 'm \<Rightarrow> 's \<Rightarrow> 'm option \<times> 's"
    and rank :: "'m \<Rightarrow> nat"
  assumes answer_rank: "handle e m s = (Some answer, s') \<Longrightarrow> rank answer < rank m"
begin

lemma ends: "\<exists>k a' b'. exchange (handle e) (handle f) m a b = Some (k, a', b') \<and> k \<le> rank m"
proof (induction "rank m" arbitrary: m a b e f rule: less_induct)
  case less
  show ?case
  proof (cases "fst (handle f m b)")
    case None
    then show ?thesis by (subst exchange.simps) (auto split: prod.splits)
  next
    case (Some answer)
    then obtain b' where r: "handle f m b = (Some answer, b')" by (metis prod.collapse)
    obtain k b'' a' where "exchange (handle f) (handle e) answer b' a = Some (k, b'', a')" "k \<le> rank answer"
      using less[OF answer_rank[OF r]] by blast
    then show ?thesis using answer_rank[OF r] by (subst exchange.simps) (simp add: r)
  qed
qed

end

end
