(* ===== verification/Interest_Sync_Properties.thy ===== *)
theory Interest_Sync_Properties
  imports Interest_Sync Message_Exchange "HOL-Library.Sublist"
begin

text \<open>
  What the messages of the interest protocol do: the list of interests replaces what was known of the peer, the
  increments change exactly what they name, the heals are bounded and targeted, responses to resynchronisation
  are applied at most once per request; and two nodes without interest of their own keep each other's entries
  alive.
\<close>

section \<open>Effects on the manager\<close>

lemma summary_query_fields [simp]:
  "interest (snd (summary_if_hosted_or_in_use env c n)) = interest n"
  "contract_ban_list (snd (summary_if_hosted_or_in_use env c n)) = contract_ban_list n"
  "sync_events (snd (summary_if_hosted_or_in_use env c n)) = sync_events n"
  "outstanding_resync_requests (snd (summary_if_hosted_or_in_use env c n)) = outstanding_resync_requests n"
  "merge_backoff (snd (summary_if_hosted_or_in_use env c n)) = merge_backoff n"
  by (simp_all add: summary_if_hosted_or_in_use_def split: prod.splits)

text \<open>The entry of a peer after it has named the contract.\<close>

definition noted :: "instant \<Rightarrow> ('c, 'p) interest_map \<Rightarrow> 'c \<Rightarrow> 'p \<Rightarrow> PeerInterest option" where
  "noted now m c p = (case m c p of
     Some i \<Rightarrow> Some (pi_refresh now i)
   | None \<Rightarrow> if spec_full m c then None else Some (pi_new None False now))"

lemma note_interest_effect:
  assumes ok: "im_ok (env_idb env) (interest n)"
  shows "im_ok (env_idb env) (interest (note_interest env now c p n))" (is ?ok)
    and "get_peer_interest (interest (note_interest env now c p n)) =
      (get_peer_interest (interest n))(c := (get_peer_interest (interest n) c)(p := noted now (get_peer_interest (interest n)) c p))" (is ?get)
    and "local_interests (interest (note_interest env now c p n)) = local_interests (interest n)" (is ?loc)
    and "set (lookup_by_hash (interest (note_interest env now c p n)) h) =
      set (lookup_by_hash (interest n) h) \<union> (set (lookup_by_hash (interest (note_interest env now c p n)) h) \<inter> {c})" (is ?lookup)
proof -
  let ?m = "get_peer_interest (interest n)"
  have "?ok \<and> ?get \<and> ?loc \<and> ?lookup"
  proof (cases "?m c p")
    case (Some i)
    then show ?thesis using ok
      by (auto simp: note_interest_def refresh_peer_interest_def modify_peer_interest_ok modify_peer_interest_effect
          noted_def fun_eq_iff)
  next
    case None
    show ?thesis
    proof (cases "spec_full ?m c")
      case True
      then show ?thesis using None ok by (auto simp: note_interest_def register_alt[OF ok] noted_def fun_eq_iff)
    next
      case False
      then have "im_ok (env_idb env) (add_peer_entry (env_idb env) c p (pi_new None False now) (interest n))"
        using ok by (intro add_when_room_ok) auto
      then show ?thesis using None False
        by (auto simp: note_interest_def register_alt[OF ok] add_peer_entry_effect noted_def)
    qed
  qed
  then show ?ok ?get ?loc ?lookup by auto
qed

lemma noted_noted: "m' c = (m c)(p := noted now m c p) \<Longrightarrow> noted now m' c p = noted now m c p"
proof (cases "m c p = None \<and> spec_full m c")
  case True
  moreover assume "m' c = (m c)(p := noted now m c p)"
  ultimately have "m' c = m c" by (auto simp: noted_def fun_eq_iff)
  then show ?thesis by (simp add: noted_def spec_full_def)
qed (auto simp: noted_def pi_new_def pi_refresh_def split: option.splits)

lemma summarize_matching_effect:
  "im_ok (env_idb env) (interest n) \<Longrightarrow> summarize_matching env now (Some p) cs n = (entries, n') \<Longrightarrow>
    im_ok (env_idb env) (interest n') \<and> local_interests (interest n') = local_interests (interest n) \<and>
    map fst entries = map (contract_hash (env_idb env)) cs \<and>
    get_peer_interest (interest n') = (\<lambda>d q. if q = p \<and> d \<in> set cs then noted now (get_peer_interest (interest n)) d p
      else get_peer_interest (interest n) d q)"
proof (induction cs arbitrary: n entries)
  case (Cons c cs)
  obtain summary n1 where n1: "summary_if_hosted_or_in_use env c n = (summary, n1)" by (cases "summary_if_hosted_or_in_use env c n")
  then have same: "interest n1 = interest n" using summary_query_fields(1)[of env c n] by simp
  obtain es n3 where n3: "summarize_matching env now (Some p) cs (note_interest env now c p n1) = (es, n3)"
    by (cases "summarize_matching env now (Some p) cs (note_interest env now c p n1)")
  have eq: "entries = (contract_hash (env_idb env) c, summary) # es" "n3 = n'" using Cons.prems(2) n1 n3 by auto
  have ok1: "im_ok (env_idb env) (interest n1)" using Cons.prems(1) same by simp
  note e = note_interest_effect[OF ok1, of now c p]
  note IH = Cons.IH[OF e(1) n3[unfolded eq(2)]]
  let ?m = "get_peer_interest (interest n)"
  let ?m1 = "?m(c := (?m c)(p := noted now ?m c p))"
  have m1: "get_peer_interest (interest (note_interest env now c p n1)) = ?m1" using e(2) by (simp add: same)
  have "noted now ?m1 d p = noted now ?m d p" for d
    using noted_noted[of ?m1 c ?m p now] by (cases "d = c") (auto simp: noted_def spec_full_def)
  then show ?case using IH e(3) by (auto simp: eq(1) same m1 fun_eq_iff)
qed simp

lemma remove_unlisted_effect:
  assumes ok: "im_ok idb s"
  shows "im_ok idb (remove_unlisted idb p hashes s)"
    and "local_interests (remove_unlisted idb p hashes s) = local_interests s"
    and "get_peer_interest (remove_unlisted idb p hashes s) =
      spec_keep (\<lambda>c q i. \<not> (q = p \<and> contract_hash idb c \<notin> set hashes)) (get_peer_interest s)"
    and "h \<in> set hashes \<Longrightarrow> set (lookup_by_hash (remove_unlisted idb p hashes s) h) = set (lookup_by_hash s h)"
proof -
  let ?f = "\<lambda>c s. if contract_hash idb c \<in> set hashes then s else snd (remove_peer_interest idb c p s)"
  have run: "im_ok idb (fold ?f cs s) \<and> local_interests (fold ?f cs s) = local_interests s \<and>
      get_peer_interest (fold ?f cs s) =
        spec_keep (\<lambda>c q i. \<not> (q = p \<and> c \<in> set cs \<and> contract_hash idb c \<notin> set hashes)) (get_peer_interest s) \<and>
      (\<forall>h \<in> set hashes. set (lookup_by_hash (fold ?f cs s) h) = set (lookup_by_hash s h))" if "im_ok idb s" for cs s
    using that
  proof (induction cs arbitrary: s)
    case Nil
    then show ?case by (simp add: spec_keep_def fun_eq_iff split: option.splits)
  next
    case (Cons c cs)
    show ?case
    proof (cases "contract_hash idb c \<in> set hashes")
      case True
      then show ?thesis using Cons.IH[OF Cons.prems] by (auto simp: spec_keep_def fun_eq_iff split: option.splits)
    next
      case False
      let ?s1 = "snd (remove_peer_interest idb c p s)"
      note ok1 = remove_peer_interest_ok[OF Cons.prems, of c p]
      note e = remove_peer_interest_effect[OF Cons.prems, of c p]
      have "set (lookup_by_hash ?s1 h) = set (lookup_by_hash s h)" if "h \<in> set hashes" for h
      proof -
        have "c \<notin> set (lookup_by_hash x h)" if "im_ok idb x" for x
          using bucket_hash[OF im_okD(4)[OF that], of c h] False \<open>h \<in> set hashes\<close> by (auto simp: lookup_by_hash_def)
        from this[OF Cons.prems] this[OF ok1] show ?thesis using e(5)[of h] by simp
      qed
      then show ?thesis using Cons.IH[OF ok1] e(3) False
        by (auto simp: e(1) spec_keep_def fun_eq_iff split: option.splits)
    qed
  qed
  have mem: "c \<in> set (get_contracts_for_peer s p) \<longleftrightarrow> get_peer_interest s c p \<noteq> None" for c
    using im_okD(6)[OF ok, of p c] tracked_iff[of p s c] by simp
  note r = run[OF ok, of "get_contracts_for_peer s p", folded remove_unlisted_def]
  show "im_ok idb (remove_unlisted idb p hashes s)" "local_interests (remove_unlisted idb p hashes s) = local_interests s"
    using r by auto
  show "h \<in> set hashes \<Longrightarrow> set (lookup_by_hash (remove_unlisted idb p hashes s) h) = set (lookup_by_hash s h)"
    using r by auto
  show "get_peer_interest (remove_unlisted idb p hashes s) =
      spec_keep (\<lambda>c q i. \<not> (q = p \<and> contract_hash idb c \<notin> set hashes)) (get_peer_interest s)"
    using r by (auto simp: mem spec_keep_def fun_eq_iff split: option.splits)
qed

lemma mem_matching:
  assumes "hash_index_ok idb (contract_hash_index s)"
  shows "c \<in> set (get_matching_contracts idb s hashes) \<longleftrightarrow> contract_hash idb c \<in> set hashes \<and> indexed idb s c"
proof -
  have "map_ok (contract_hash_index s)" using assms by (simp add: hash_index_ok_def buckets_ok_def)
  then have m: "(h, cs) \<in> set (contract_hash_index s) \<longleftrightarrow> map_of (contract_hash_index s) h = Some cs" for h cs
    by (simp add: map_ok_def map_of_eq_Some_iff)
  have "c \<in> set (get_matching_contracts idb s hashes) \<longleftrightarrow>
      (\<exists>h cs. map_of (contract_hash_index s) h = Some cs \<and> h \<in> set hashes \<and> c \<in> set cs)"
    by (force simp: get_matching_contracts_def m[symmetric])
  also have "\<dots> \<longleftrightarrow> (\<exists>h \<in> set hashes. c \<in> set (lookup_by_hash s h))"
    by (force simp: lookup_by_hash_def or_default_def split: option.splits)
  also have "\<dots> \<longleftrightarrow> contract_hash idb c \<in> set hashes \<and> indexed idb s c"
    using bucket_hash[OF assms, of c] by (auto simp: lookup_by_hash_def)
  finally show ?thesis .
qed

section \<open>The list of interests replaces what was known\<close>

lemma handle_interests_effect:
  assumes ok: "im_ok (env_idb env) (interest n)" and p: "get_peer_key_from_addr env source n = Some p"
    and r: "handle_interests env now source hashes n = (answer, n')"
  defines "m \<equiv> get_peer_interest (interest n)"
  shows "im_ok (env_idb env) (interest n') \<and> local_interests (interest n') = local_interests (interest n) \<and>
    get_peer_interest (interest n') = (\<lambda>c q.
      if q \<noteq> p then m c q
      else if contract_hash (env_idb env) c \<notin> set hashes then None
      else if indexed (env_idb env) (interest n) c then noted now m c p else None) \<and>
    (case answer of Some (Summaries entries) \<Rightarrow> set (map fst entries) =
       contract_hash (env_idb env) ` {c. contract_hash (env_idb env) c \<in> set hashes \<and> indexed (env_idb env) (interest n) c}
     | Some _ \<Rightarrow> False
     | None \<Rightarrow> {c. contract_hash (env_idb env) c \<in> set hashes \<and> indexed (env_idb env) (interest n) c} = {})"
proof -
  let ?idb = "env_idb env"
  let ?s1 = "remove_unlisted ?idb p hashes (interest n)"
  let ?cs = "get_matching_contracts ?idb ?s1 hashes"
  note e1 = remove_unlisted_effect[OF ok, where p = p and hashes = hashes]
  obtain entries n2 where n2: "summarize_matching env now (Some p) ?cs (n\<lparr>interest := ?s1\<rparr>) = (entries, n2)"
    by (cases "summarize_matching env now (Some p) ?cs (n\<lparr>interest := ?s1\<rparr>)")
  have eq: "answer = answer_summaries entries" "n' = n2" using r p n2 by (simp_all add: handle_interests_def Let_def)
  have ok1: "im_ok ?idb (interest (n\<lparr>interest := ?s1\<rparr>))" using e1(1) by simp
  note e2 = summarize_matching_effect[OF ok1 n2, simplified]
  have mem: "c \<in> set ?cs \<longleftrightarrow> contract_hash ?idb c \<in> set hashes \<and> indexed ?idb (interest n) c" for c
    using mem_matching[OF im_okD(4)[OF e1(1)], of c hashes] e1(4)[of "contract_hash ?idb c"] by auto
  then have cs: "set ?cs = {c. contract_hash ?idb c \<in> set hashes \<and> indexed ?idb (interest n) c}" by auto
  have m1: "get_peer_interest ?s1 c q = (if q = p \<and> contract_hash ?idb c \<notin> set hashes then None else m c q)" for c q
    by (simp add: e1(3) spec_keep_def m_def split: option.splits)
  have nt: "noted now (get_peer_interest ?s1) c p = noted now m c p" if "contract_hash ?idb c \<in> set hashes" for c
  proof -
    have "get_peer_interest ?s1 c = m c" using that by (simp add: m1 fun_eq_iff)
    then show ?thesis by (simp add: noted_def spec_full_def)
  qed
  have "m c p = None" if "\<not> indexed ?idb (interest n) c" for c
    using im_okD(7)[OF ok, of c] that tracked_iff[of p "interest n" c] by (auto simp: m_def)
  then have get: "get_peer_interest (interest n') = (\<lambda>c q. if q \<noteq> p then m c q
      else if contract_hash ?idb c \<notin> set hashes then None
      else if indexed ?idb (interest n) c then noted now m c p else None)"
    using e2 nt by (auto simp: eq(2) mem m1 fun_eq_iff)
  have "map fst entries = map (contract_hash ?idb) ?cs" using e2 by simp
  then have "set (map fst entries) = contract_hash ?idb ` set ?cs" "entries = [] \<longleftrightarrow> set ?cs = {}"
    by (simp, metis map_is_Nil_conv set_empty)
  then have "case answer of Some (Summaries entries) \<Rightarrow> set (map fst entries) = contract_hash ?idb ` set ?cs
      | Some _ \<Rightarrow> False | None \<Rightarrow> set ?cs = {}" by (simp add: eq(1) answer_summaries_def)
  then show ?thesis unfolding cs using e2 e1(2) get eq(2) by simp
qed

text \<open>
  C6: a peer's list of interests replaces what was known of the peer. Afterwards the peer is interested in
  exactly the contracts of this node whose hash is in the list: an entry that was there keeps its summary and
  its direction and is refreshed, a contract without entry gets a fresh one unless 512 peers are interested in it
  already, and every other entry of the peer is gone. The entries of other peers and the node's own interest are
  untouched, and the answer carries a summary for each of these contracts.
\<close>

theorem interests_replace:
  assumes "im_ok (env_idb env) (interest n)" "get_peer_key_from_addr env source n = Some p"
    and "handle_interest_sync_message env now source (Interests hashes) n = (answer, n')"
  defines "shared \<equiv> {c. contract_hash (env_idb env) c \<in> set hashes \<and>
      c \<in> set (lookup_by_hash (interest n) (contract_hash (env_idb env) c))}"
  shows "(\<forall>c q. get_peer_interest (interest n') c q =
      (if q \<noteq> p then get_peer_interest (interest n) c q
       else if c \<in> shared
       then (case get_peer_interest (interest n) c p of
               Some i \<Rightarrow> Some (i\<lparr>last_refreshed := now\<rparr>)
             | None \<Rightarrow> if card (dom (get_peer_interest (interest n) c)) \<ge> 512 then None
                       else Some \<lparr>pi_summary = None, summary_absence = NeverPopulated, last_refreshed = now,
                                  is_upstream = False\<rparr>)
       else None)) \<and>
    im_ok (env_idb env) (interest n') \<and>
    (\<forall>c. has_local_interest (interest n') c = has_local_interest (interest n) c) \<and>
    (case answer of
       Some (Summaries entries) \<Rightarrow> set (map fst entries) = contract_hash (env_idb env) ` shared
     | Some _ \<Rightarrow> False
     | None \<Rightarrow> shared = {})"
proof -
  have r: "handle_interests env now source hashes n = (answer, n')" using assms(3) by simp
  note e = handle_interests_effect[OF assms(1,2) r, folded shared_def]
  have "get_peer_interest (interest n') c q =
      (if q \<noteq> p then get_peer_interest (interest n) c q
       else if c \<in> shared
       then (case get_peer_interest (interest n) c p of
               Some i \<Rightarrow> Some (i\<lparr>last_refreshed := now\<rparr>)
             | None \<Rightarrow> if card (dom (get_peer_interest (interest n) c)) \<ge> 512 then None
                       else Some \<lparr>pi_summary = None, summary_absence = NeverPopulated, last_refreshed = now,
                                  is_upstream = False\<rparr>)
       else None)" for c q
    using e by (simp add: shared_def noted_def spec_full_def MAX_INTERESTED_PEERS_PER_CONTRACT_def pi_new_def pi_refresh_def
        split: option.splits)
  then show ?thesis using e by (simp add: has_local_interest_def)
qed

section \<open>Summaries\<close>

lemma emit_fields [simp]:
  "interest (emit_stale_syncs env now source b k cs n) = interest n"
  "outstanding_resync_requests (emit_stale_syncs env now source b k cs n) = outstanding_resync_requests n"
  "merge_backoff (emit_stale_syncs env now source b k cs n) = merge_backoff n"
  "contract_ban_list (emit_stale_syncs env now source b k cs n) = contract_ban_list n"
  by (induction cs arbitrary: k n) (simp_all add: Let_def split: option.splits prod.splits)

text \<open>What the loop over the entries keeps, and what it knows of the contracts found stale.\<close>

definition summaries_inv :: "('c, 'i, 'p, 'a, 'w) sync_env \<Rightarrow> 'p \<Rightarrow> ('c, 'i, 'p, 'a, 'w) sync_node \<Rightarrow>
    nat \<times> 'c list \<times> ('c, 'i, 'p, 'a, 'w) sync_node \<Rightarrow> bool" where
  "summaries_inv env p n0 st \<longleftrightarrow> (case st of (probes, stale, n) \<Rightarrow>
    im_ok (env_idb env) (interest n) \<and> local_interests (interest n) = local_interests (interest n0) \<and>
    (\<forall>c q. q \<noteq> p \<or> \<not> has_local_interest (interest n0) c \<longrightarrow>
      get_peer_interest (interest n) c q = get_peer_interest (interest n0) c q) \<and>
    probes \<le> MAX_STALENESS_PROBES_PER_SUMMARIES \<and>
    distinct stale \<and> (\<forall>c \<in> set stale. has_local_interest (interest n0) c) \<and>
    contract_ban_list n = contract_ban_list n0 \<and> sync_events n = sync_events n0 \<and>
    outstanding_resync_requests n = outstanding_resync_requests n0 \<and> merge_backoff n = merge_backoff n0)"

lemma judge_probes: "probes \<le> MAX_STALENESS_PROBES_PER_SUMMARIES \<Longrightarrow>
    judge_staleness env c ours theirs probes w = (b, probes', w') \<Longrightarrow> probes' \<le> MAX_STALENESS_PROBES_PER_SUMMARIES"
  by (auto simp: judge_staleness_def plan_staleness_probe_def Let_def
      split: option.splits if_splits prod.splits StalenessProbeAction.splits)

lemma store_summary_effect:
  assumes ok: "im_ok idb s"
    and s'_def: "s' = (case theirs of Some t \<Rightarrow> snd (upsert_peer_summary idb now c p t s)
      | None \<Rightarrow> clear_peer_summary now c p ClearedByNoneReport s)"
  shows "im_ok idb s'" "local_interests s' = local_interests s"
    "d \<noteq> c \<or> q \<noteq> p \<Longrightarrow> get_peer_interest s' d q = get_peer_interest s d q"
proof -
  have up: "im_ok idb (snd (upsert_peer_summary idb now c p t s))"
      "local_interests (snd (upsert_peer_summary idb now c p t s)) = local_interests s"
      "d \<noteq> c \<or> q \<noteq> p \<Longrightarrow> get_peer_interest (snd (upsert_peer_summary idb now c p t s)) d q = get_peer_interest s d q" for t
    using ok by (auto simp: upsert_alt[OF ok] modify_peer_interest_ok add_when_room_ok modify_peer_interest_effect
        add_peer_entry_effect)
  show "im_ok idb s'" "local_interests s' = local_interests s"
    "d \<noteq> c \<or> q \<noteq> p \<Longrightarrow> get_peer_interest s' d q = get_peer_interest s d q"
    using up ok by (auto simp: s'_def clear_peer_summary_def modify_peer_interest_ok modify_peer_interest_effect
        split: option.splits)
qed

lemma process_summary_inv:
  assumes inv: "summaries_inv env p n0 st"
  shows "summaries_inv env p n0 (process_summary env now p theirs c st)"
proof -
  obtain probes stale n where st: "st = (probes, stale, n)" by (cases st)
  have loc: "has_local_interest (interest n) = has_local_interest (interest n0)"
    using inv by (auto simp: summaries_inv_def st has_local_interest_def fun_eq_iff)
  show ?thesis
  proof (cases "has_local_interest (interest n) c")
    case False
    then show ?thesis using inv by (simp add: process_summary_def st)
  next
    case True
    obtain ours n1 where n1: "summary_if_hosted_or_in_use env c n = (ours, n1)" by (cases "summary_if_hosted_or_in_use env c n")
    note same = summary_query_fields[of env c n, unfolded n1 snd_conv]
    obtain b probes' w where j: "judge_staleness env c ours theirs probes (world n1) = (b, probes', w)"
      by (cases "judge_staleness env c ours theirs probes (world n1)")
    define s2 where "s2 = (case theirs of
        Some t \<Rightarrow> snd (upsert_peer_summary (env_idb env) now c p t (interest n1))
      | None \<Rightarrow> clear_peer_summary now c p ClearedByNoneReport (interest n1))"
    have ok: "im_ok (env_idb env) (interest n1)" using inv same(1) by (simp add: summaries_inv_def st)
    note e = store_summary_effect[OF ok s2_def]
    have "probes' \<le> MAX_STALENESS_PROBES_PER_SUMMARIES" using judge_probes[OF _ j] inv by (simp add: summaries_inv_def st)
    moreover have "process_summary env now p theirs c st =
        (probes', if b \<and> c \<notin> set stale then stale @ [c] else stale, n1\<lparr>world := w, interest := s2\<rparr>)"
      using True n1 j by (simp add: process_summary_def st s2_def)
    moreover have "get_peer_interest s2 d q = get_peer_interest (interest n0) d q"
      if "q \<noteq> p \<or> \<not> has_local_interest (interest n0) d" for d q
      using that e(3)[of d q] inv True same(1) by (auto simp: summaries_inv_def st loc)
    ultimately show ?thesis using inv True e(1,2) same by (simp add: summaries_inv_def st loc)
  qed
qed

lemma process_entry_inv:
  assumes "summaries_inv env p n0 st"
  shows "summaries_inv env p n0 (process_entry env now p entry st)"
proof -
  have "summaries_inv env p n0 (fold (process_summary env now p theirs) cs st)" for theirs cs
    using assms by (induction cs arbitrary: st) (simp_all add: process_summary_inv)
  then show ?thesis by (cases st, cases entry) (simp add: process_entry_def)
qed

lemma process_entries_inv:
  assumes "im_ok (env_idb env) (interest n)"
  shows "summaries_inv env p n (fold (process_entry env now p) entries (0, [], n))"
proof -
  have "summaries_inv env p n (0, [], n)" using assms by (simp add: summaries_inv_def)
  moreover have "summaries_inv env p n (fold (process_entry env now p) entries st)" if "summaries_inv env p n st" for st
    using that by (induction entries arbitrary: st) (simp_all add: process_entry_inv)
  ultimately show ?thesis by blast
qed

text \<open>The loop and what follows it.\<close>

lemma handle_summaries_cases:
  assumes ok: "im_ok (env_idb env) (interest n)"
  obtains p probes stale n1 order n2 where
    "summaries_inv env p n (probes, stale, n1)"
    "interest n2 = interest n1" "contract_ban_list n2 = contract_ban_list n1" "sync_events n2 = sync_events n1"
    "outstanding_resync_requests n2 = outstanding_resync_requests n1" "merge_backoff n2 = merge_backoff n1"
    "order = stale \<or> (length stale > MAX_STALE_SYNCS_PER_SUMMARIES \<and>
      order = rotate (fst (random_below env (length stale) (world n1))) stale)"
    "handle_summaries env now source entries n =
      emit_stale_syncs env now source (stale_sync_emit_budget (length stale)) 0 order n2"
    "case get_peer_key_from_addr env source n of Some p' \<Rightarrow> p = p' | None \<Rightarrow> stale = [] \<and> n1 = n"
proof (cases "get_peer_key_from_addr env source n")
  case None
  show ?thesis
    by (rule that[of undefined 0 "[]" n n "[]"])
      (use ok None in \<open>simp_all add: summaries_inv_def handle_summaries_def stale_sync_emit_budget_def\<close>)
next
  case (Some p)
  obtain probes stale n1 where l: "fold (process_entry env now p) entries (0, [], n) = (probes, stale, n1)"
    by (cases "fold (process_entry env now p) entries (0, [], n)")
  note inv = process_entries_inv[OF ok, of p now entries, unfolded l]
  obtain start w where d: "random_below env (length stale) (world n1) = (start, w)"
    by (cases "random_below env (length stale) (world n1)")
  show ?thesis
  proof (cases "length stale > stale_sync_emit_budget (length stale)")
    case True
    then have "length stale > MAX_STALE_SYNCS_PER_SUMMARIES" by (simp add: stale_sync_emit_budget_def min_def split: if_splits)
    with True show ?thesis
      by (intro that[of p probes stale n1 "n1\<lparr>world := w\<rparr>" "rotate start stale"])
        (use inv Some l d in \<open>simp_all add: handle_summaries_def Let_def stale_sync_emit_budget_def\<close>)
  next
    case False
    then show ?thesis
      by (intro that[of p probes stale n1 n1 stale])
        (use inv Some l in \<open>simp_all add: handle_summaries_def Let_def\<close>)
  qed
qed

lemma emit_events:
  "\<exists>evs. sync_events (emit_stale_syncs env now source b k cs n) = sync_events n @ evs \<and> k + length evs \<le> max b k \<and>
    subseq (map fst evs) cs \<and>
    (\<forall>(c, st, a) \<in> set evs. a = source \<and> \<not> is_banned now (key_id env c) (contract_ban_list n))"
proof (induction cs arbitrary: k n)
  case (Cons c cs)
  obtain state w where g: "get_contract_state env c (world n) = (state, w)" by (cases "get_contract_state env c (world n)")
  consider "k \<ge> b" | "k < b" "is_banned now (key_id env c) (contract_ban_list n)"
    | "k < b" "\<not> is_banned now (key_id env c) (contract_ban_list n)" by linarith
  then show ?case
  proof cases
    case 2
    obtain evs where "sync_events (emit_stale_syncs env now source b k cs n) = sync_events n @ evs"
      "k + length evs \<le> max b k" "subseq (map fst evs) cs"
      "\<forall>(c, st, a) \<in> set evs. a = source \<and> \<not> is_banned now (key_id env c) (contract_ban_list n)"
      using Cons[of k n] by auto
    then show ?thesis using 2 by (intro exI[of _ evs]) auto
  next
    case 3
    show ?thesis
    proof (cases state)
      case None
      obtain evs where "sync_events (emit_stale_syncs env now source b k cs (n\<lparr>world := w\<rparr>)) = sync_events n @ evs"
        "k + length evs \<le> max b k" "subseq (map fst evs) cs"
        "\<forall>(c, st, a) \<in> set evs. a = source \<and> \<not> is_banned now (key_id env c) (contract_ban_list n)"
        using Cons[of k "n\<lparr>world := w\<rparr>"] by auto
      then show ?thesis using 3 None g by (intro exI[of _ evs]) auto
    next
      case (Some st)
      let ?n = "n\<lparr>world := w, sync_events := sync_events n @ [(c, st, source)]\<rparr>"
      obtain evs where "sync_events (emit_stale_syncs env now source b (k + 1) cs ?n) = sync_events ?n @ evs"
        "k + 1 + length evs \<le> max b (k + 1)" "subseq (map fst evs) cs"
        "\<forall>(c, st, a) \<in> set evs. a = source \<and> \<not> is_banned now (key_id env c) (contract_ban_list n)"
        using Cons[of "k + 1" ?n] by auto
      then show ?thesis using 3 Some g by (intro exI[of _ "(c, st, source) # evs"]) auto
    qed
  qed (intro exI[of _ "[]"], simp)
qed simp

text \<open>
  A count of the probes of contract code, kept anywhere in the world: a probe adds one to it, and nothing else the handler
  of summaries calls does.
\<close>

definition counts_probes :: "('c, 'i, 'p, 'a, 'w) sync_env \<Rightarrow> ('w \<Rightarrow> nat) \<Rightarrow> bool" where
  "counts_probes env runs \<longleftrightarrow>
    (\<forall>c x y w. runs (snd (peer_summary_has_pending_state env c x y w)) = runs w + 1 \<and>
      runs (snd (cached_staleness_verdict env c x y w)) = runs w) \<and>
    (\<forall>c w. runs (snd (get_contract_summary env c w)) = runs w \<and> runs (snd (get_contract_state env c w)) = runs w) \<and>
    (\<forall>k w. runs (snd (random_below env k w)) = runs w)"

lemma judge_runs:
  assumes "counts_probes env runs"
  shows "runs (snd (snd (judge_staleness env c ours theirs probes w))) + probes =
    runs w + fst (snd (judge_staleness env c ours theirs probes w))"
proof -
  have "runs w2 = runs w1 + 1" if "peer_summary_has_pending_state env c x y w1 = (v, w2)" for x y v w1 w2
    using assms that by (metis counts_probes_def snd_conv)
  moreover have "runs w2 = runs w1" if "cached_staleness_verdict env c x y w1 = (v, w2)" for x y v w1 w2
    using assms that by (metis counts_probes_def snd_conv)
  ultimately show ?thesis
    by (auto simp: judge_staleness_def Let_def split: option.split prod.split StalenessProbeAction.split)
qed

definition runs_counted :: "('w \<Rightarrow> nat) \<Rightarrow> nat \<Rightarrow> nat \<times> 'c list \<times> ('c, 'i, 'p, 'a, 'w) sync_node \<Rightarrow> bool" where
  "runs_counted runs k st \<longleftrightarrow> (case st of (probes, stale, n) \<Rightarrow> runs (world n) = k + probes)"

lemma process_entries_runs:
  assumes c: "counts_probes env runs" and "runs_counted runs k st"
  shows "runs_counted runs k (fold (process_entry env now p) entries st)"
proof -
  have summary: "runs (world (snd (summary_if_hosted_or_in_use env c n))) = runs (world n)" for c n
    using c by (simp add: summary_if_hosted_or_in_use_def counts_probes_def split_beta Let_def)
  have step: "runs_counted runs k (process_summary env now p theirs c st)" if "runs_counted runs k st" for theirs c st
    using that judge_runs[OF c, of c "fst (summary_if_hosted_or_in_use env c (snd (snd st)))" theirs "fst st"
        "world (snd (summary_if_hosted_or_in_use env c (snd (snd st))))"] summary[of c "snd (snd st)"]
    by (cases st) (simp add: runs_counted_def process_summary_def split_beta Let_def)
  have inner: "runs_counted runs k (fold (process_summary env now p theirs) cs st)" if "runs_counted runs k st" for theirs cs st
    using that by (induction cs arbitrary: st) (simp_all add: step)
  have "runs_counted runs k (process_entry env now p e st)" if "runs_counted runs k st" for e st
    using inner[OF that] by (simp add: process_entry_def split_beta)
  then show ?thesis using assms(2) by (induction entries arbitrary: st) simp_all
qed

lemma emit_runs: "counts_probes env runs \<Longrightarrow> runs (world (emit_stale_syncs env now source b k cs n)) = runs (world n)"
proof (induction cs arbitrary: k n)
  case (Cons c cs)
  then show ?case by (auto simp: counts_probes_def split_beta Let_def split: option.split)
qed simp

lemma handle_summaries_runs:
  assumes c: "counts_probes env runs" and ok: "im_ok (env_idb env) (interest n)"
  shows "runs (world (handle_summaries env now source entries n)) \<le> runs (world n) + 32"
proof (cases "get_peer_key_from_addr env source n")
  case None
  then show ?thesis by (simp add: handle_summaries_def stale_sync_emit_budget_def)
next
  case (Some p)
  obtain probes stale n1 where l: "fold (process_entry env now p) entries (0, [], n) = (probes, stale, n1)"
    by (cases "fold (process_entry env now p) entries (0, [], n)")
  have "runs (world n1) = runs (world n) + probes"
    using process_entries_runs[OF c, of "runs (world n)" "(0, [], n)" now p entries] by (simp add: runs_counted_def l)
  moreover have "probes \<le> 32"
    using process_entries_inv[OF ok, of p now entries] by (simp add: l summaries_inv_def MAX_STALENESS_PROBES_PER_SUMMARIES_def)
  moreover have "runs (snd (random_below env k w)) = runs w" for k w using c by (simp add: counts_probes_def)
  ultimately show ?thesis using Some l by (simp add: handle_summaries_def Let_def split_beta emit_runs[OF c])
qed

text \<open>
  C25: the heals a summaries message sets off are bounded and targeted: at most 32 events, all of them for the peer
  that sent the message, for different contracts, each of which the node is interested in and has not banned;
  at most 32 probes of contract code are run for the message, whatever it lists (by any count of the calls of
  \<open>peer_summary_has_pending_state\<close> that the other functions called leave alone), and entries of other peers are not touched.
\<close>

theorem heals_bounded_and_targeted:
  assumes "im_ok (env_idb env) (interest n)" "get_peer_key_from_addr env source n = Some p"
    and "handle_interest_sync_message env now source (Summaries entries) n = (answer, n')"
  shows "\<exists>evs. sync_events n' = sync_events n @ evs \<and> length evs \<le> 32 \<and> distinct (map fst evs) \<and>
      (\<forall>(c, st, a) \<in> set evs. a = source \<and> has_local_interest (interest n) c \<and>
        \<not> is_banned now (key_id env c) (contract_ban_list n)) \<and>
      (\<forall>runs. counts_probes env runs \<longrightarrow> runs (world n') \<le> runs (world n) + 32) \<and>
      (\<forall>c q. q \<noteq> p \<longrightarrow> get_peer_interest (interest n') c q = get_peer_interest (interest n) c q)"
proof -
  obtain p' probes stale n1 order n2 where h: "summaries_inv env p' n (probes, stale, n1)"
    "interest n2 = interest n1" "contract_ban_list n2 = contract_ban_list n1" "sync_events n2 = sync_events n1"
    "order = stale \<or> (length stale > MAX_STALE_SYNCS_PER_SUMMARIES \<and>
      order = rotate (fst (random_below env (length stale) (world n1))) stale)"
    "handle_summaries env now source entries n =
      emit_stale_syncs env now source (stale_sync_emit_budget (length stale)) 0 order n2"
    "case get_peer_key_from_addr env source n of Some q \<Rightarrow> p' = q | None \<Rightarrow> stale = [] \<and> n1 = n"
    by (rule handle_summaries_cases[OF assms(1), where source = source and now = now and entries = entries])
  have p': "p' = p" using h(7) assms(2) by simp
  have n': "n' = emit_stale_syncs env now source (stale_sync_emit_budget (length stale)) 0 order n2"
    using assms(3) h(6) by simp
  obtain evs where evs: "sync_events n' = sync_events n2 @ evs" "length evs \<le> stale_sync_emit_budget (length stale)"
    "subseq (map fst evs) order"
    "\<forall>(c, st, a) \<in> set evs. a = source \<and> \<not> is_banned now (key_id env c) (contract_ban_list n2)"
    using emit_events[of env now source "stale_sync_emit_budget (length stale)" 0 order n2] by (auto simp: n')
  have "distinct order" "set order = set stale" using h(1,5) by (auto simp: summaries_inv_def)
  moreover have "set (map fst evs) \<subseteq> set order" using list_emb_set[OF evs(3)] by blast
  ultimately have "distinct (map fst evs)" "fst ` set evs \<subseteq> set stale"
    using subseqs_distinctD[of "map fst evs" order] evs(3) by auto
  moreover have "length evs \<le> 32" using evs(2) by (simp add: stale_sync_emit_budget_def MAX_STALE_SYNCS_PER_SUMMARIES_def)
  moreover have "\<forall>runs. counts_probes env runs \<longrightarrow> runs (world n') \<le> runs (world n) + 32"
    using handle_summaries_runs[OF _ assms(1)] assms(3) by auto
  moreover have "interest n' = interest n1" by (simp add: n' h(2))
  ultimately show ?thesis using h(1,3,4) evs(1,4)
    by (intro exI[of _ evs]) (fastforce simp: summaries_inv_def p')
qed

section \<open>Changes of interest\<close>

lemma remove_hash_effect:
  assumes ok: "im_ok idb s"
  shows "im_ok idb (remove_hash idb p h s)" "local_interests (remove_hash idb p h s) = local_interests s"
    "get_peer_interest (remove_hash idb p h s) =
      spec_keep (\<lambda>c q i. \<not> (q = p \<and> contract_hash idb c = h)) (get_peer_interest s)"
proof -
  let ?cs = "lookup_by_hash s h"
  have fold_map: "fold (\<lambda>c s. snd (remove_peer_interest idb c p s)) cs s0 =
      fold (\<lambda>(c, p) s. snd (remove_peer_interest idb c p s)) (map (\<lambda>c. (c, p)) cs) s0" for cs s0
    by (induction cs arbitrary: s0) auto
  note e = remove_pairs_effect[OF ok refl, of "map (\<lambda>c. (c, p)) ?cs", folded fold_map, folded remove_hash_def]
  have "c \<in> set ?cs \<longleftrightarrow> contract_hash idb c = h" if "get_peer_interest s c p \<noteq> None" for c
    using bucket_hash[OF im_okD(4)[OF ok], of c h] im_okD(7)[OF ok, of c] that tracked_iff[of p s c]
    by (auto simp: lookup_by_hash_def)
  note mem = this
  have "spec_keep (\<lambda>c q i. (c, q) \<notin> set (map (\<lambda>c. (c, p)) ?cs)) (get_peer_interest s) c q =
      spec_keep (\<lambda>c q i. \<not> (q = p \<and> contract_hash idb c = h)) (get_peer_interest s) c q" for c q
    using mem[of c] by (cases "get_peer_interest s c q") (auto simp: spec_keep_def)
  then have "spec_keep (\<lambda>c q i. (c, q) \<notin> set (map (\<lambda>c. (c, p)) ?cs)) (get_peer_interest s) =
      spec_keep (\<lambda>c q i. \<not> (q = p \<and> contract_hash idb c = h)) (get_peer_interest s)" by (intro ext)
  then show "im_ok idb (remove_hash idb p h s)" "local_interests (remove_hash idb p h s) = local_interests s"
    "get_peer_interest (remove_hash idb p h s) =
      spec_keep (\<lambda>c q i. \<not> (q = p \<and> contract_hash idb c = h)) (get_peer_interest s)"
    using e by simp_all
qed

lemma remove_hashes_effect:
  "im_ok idb s \<Longrightarrow> im_ok idb (fold (remove_hash idb p) hs s) \<and>
    local_interests (fold (remove_hash idb p) hs s) = local_interests s \<and>
    get_peer_interest (fold (remove_hash idb p) hs s) =
      spec_keep (\<lambda>c q i. \<not> (q = p \<and> contract_hash idb c \<in> set hs)) (get_peer_interest s)"
proof (induction hs arbitrary: s)
  case (Cons h hs)
  note e = remove_hash_effect[OF Cons.prems, of p h]
  show ?case using Cons.IH[OF e(1)] e(2) by (auto simp: e(3) spec_keep_def fun_eq_iff split: option.splits)
qed (simp add: spec_keep_def fun_eq_iff split: option.splits)

text \<open>The state of the additions: the contracts of \<open>D\<close> have been named by the peer.\<close>

definition adds_inv :: "('c, 'i, 'p, 'a, 'w) sync_env \<Rightarrow> instant \<Rightarrow> 'p \<Rightarrow> ('c, 'p) InterestManager \<Rightarrow> 'c set \<Rightarrow>
    SummaryEntry list \<times> ('c, 'i, 'p, 'a, 'w) sync_node \<Rightarrow> bool" where
  "adds_inv env now p s0 D st \<longleftrightarrow> (case st of (entries, n) \<Rightarrow>
    im_ok (env_idb env) (interest n) \<and> local_interests (interest n) = local_interests s0 \<and>
    get_peer_interest (interest n) = (\<lambda>d q. if q = p \<and> d \<in> D then noted now (get_peer_interest s0) d p
      else get_peer_interest s0 d q) \<and>
    set (map fst entries) = contract_hash (env_idb env) ` D)"

lemma add_contract_inv:
  assumes inv: "adds_inv env now p s0 D st" and h: "h = contract_hash (env_idb env) c"
  shows "adds_inv env now p s0 (if has_local_interest s0 c then insert c D else D) (add_contract env now p h c st)"
proof -
  obtain entries n where st: "st = (entries, n)" by (cases st)
  have loc: "has_local_interest (interest n) c = has_local_interest s0 c"
    using inv by (simp add: adds_inv_def st has_local_interest_def)
  show ?thesis
  proof (cases "has_local_interest s0 c")
    case False
    then show ?thesis using inv loc by (simp add: add_contract_def st)
  next
    case True
    have ok: "im_ok (env_idb env) (interest n)" using inv by (simp add: adds_inv_def st)
    note e = note_interest_effect[OF ok, of now c p]
    obtain summary n' where n': "summary_if_hosted_or_in_use env c (note_interest env now c p n) = (summary, n')"
      by (cases "summary_if_hosted_or_in_use env c (note_interest env now c p n)")
    have same: "interest n' = interest (note_interest env now c p n)"
      using summary_query_fields(1)[of env c "note_interest env now c p n"] n' by simp
    let ?m0 = "get_peer_interest s0"
    define m where "m = get_peer_interest (interest n)"
    have m: "m d q = (if q = p \<and> d \<in> D then noted now ?m0 d p else ?m0 d q)" for d q
      using inv by (simp add: adds_inv_def st m_def)
    have nt: "noted now m c p = noted now ?m0 c p"
    proof (cases "c \<in> D")
      case True
      then have "m c = (?m0 c)(p := noted now ?m0 c p)" by (auto simp: fun_eq_iff m)
      then show ?thesis by (rule noted_noted)
    next
      case False
      then have "m c = ?m0 c" by (simp add: fun_eq_iff m)
      then show ?thesis by (simp add: noted_def spec_full_def)
    qed
    have "get_peer_interest (interest n') d q = (if q = p \<and> d \<in> insert c D then noted now ?m0 d p else ?m0 d q)" for d q
      unfolding same e(2) m_def[symmetric] using nt m[of d q] by (auto simp: m)
    then have "get_peer_interest (interest n') = (\<lambda>d q. if q = p \<and> d \<in> insert c D then noted now ?m0 d p else ?m0 d q)"
      by (intro ext)
    then show ?thesis using inv True e(1,3) loc n' same
      by (simp add: add_contract_def st adds_inv_def h)
  qed
qed

lemma add_hash_inv:
  assumes inv: "adds_inv env now p s0 D st" and ok: "im_ok (env_idb env) s0"
  shows "adds_inv env now p s0 (D \<union> {c. contract_hash (env_idb env) c = h \<and> has_local_interest s0 c}) (add_hash env now p h st)"
proof -
  let ?idb = "env_idb env"
  have run: "adds_inv env now p s0 (D \<union> {c \<in> set cs. has_local_interest s0 c}) (fold (add_contract env now p h) cs st)"
    if "adds_inv env now p s0 D st" "\<forall>c \<in> set cs. contract_hash ?idb c = h" for cs D st
    using that
  proof (induction cs arbitrary: D st)
    case (Cons c cs)
    have "adds_inv env now p s0 (if has_local_interest s0 c then insert c D else D) (add_contract env now p h c st)"
      using Cons.prems by (intro add_contract_inv) auto
    from Cons.IH[OF this] Cons.prems(2) have "adds_inv env now p s0
        ((if has_local_interest s0 c then insert c D else D) \<union> {c \<in> set cs. has_local_interest s0 c})
        (fold (add_contract env now p h) (c # cs) st)" by simp
    moreover have "(if has_local_interest s0 c then insert c D else D) \<union> {c \<in> set cs. has_local_interest s0 c} =
        D \<union> {x \<in> set (c # cs). has_local_interest s0 x}" by auto
    ultimately show ?case by (simp only:)
  qed simp
  obtain entries n where st: "st = (entries, n)" by (cases st)
  have n: "im_ok ?idb (interest n)" "has_local_interest (interest n) = has_local_interest s0"
    using inv by (auto simp: adds_inv_def st has_local_interest_def fun_eq_iff)
  have "\<forall>c \<in> set (lookup_by_hash (interest n) h). contract_hash ?idb c = h"
    using bucket_hash[OF im_okD(4)[OF n(1)]] by (auto simp: lookup_by_hash_def)
  moreover have "{c \<in> set (lookup_by_hash (interest n) h). has_local_interest s0 c} =
      {c. contract_hash ?idb c = h \<and> has_local_interest s0 c}"
    using im_okD(8)[OF n(1)] bucket_hash[OF im_okD(4)[OF n(1)], of _ h] n(2) by (auto simp: lookup_by_hash_def)
  ultimately show ?thesis using run[OF inv, of "lookup_by_hash (interest n) h"] by (simp add: add_hash_def st)
qed

lemma handle_change_effect:
  assumes ok: "im_ok (env_idb env) (interest n)" and p: "get_peer_key_from_addr env source n = Some p"
    and r: "handle_change_interests env now source added removed n = (answer, n')"
  defines "m \<equiv> spec_keep (\<lambda>c q i. \<not> (q = p \<and> contract_hash (env_idb env) c \<in> set removed)) (get_peer_interest (interest n))"
    and "D \<equiv> {c. contract_hash (env_idb env) c \<in> set added \<and> has_local_interest (interest n) c}"
  shows "im_ok (env_idb env) (interest n') \<and> local_interests (interest n') = local_interests (interest n) \<and>
    get_peer_interest (interest n') = (\<lambda>c q. if q = p \<and> c \<in> D then noted now m c p else m c q) \<and>
    (case answer of Some (Summaries entries) \<Rightarrow> set (map fst entries) = contract_hash (env_idb env) ` D
     | Some _ \<Rightarrow> False | None \<Rightarrow> D = {})"
proof -
  let ?idb = "env_idb env"
  let ?s1 = "fold (remove_hash ?idb p) removed (interest n)"
  note e1 = remove_hashes_effect[OF ok, of p removed]
  have m: "get_peer_interest ?s1 = m" using e1 by (simp add: m_def)
  have loc: "has_local_interest ?s1 = has_local_interest (interest n)" using e1 by (simp add: has_local_interest_def fun_eq_iff)
  obtain entries n2 where n2: "fold (add_hash env now p) added ([], n\<lparr>interest := ?s1\<rparr>) = (entries, n2)"
    by (cases "fold (add_hash env now p) added ([], n\<lparr>interest := ?s1\<rparr>)")
  have run: "adds_inv env now p ?s1 (D0 \<union> {c. contract_hash ?idb c \<in> set hs \<and> has_local_interest ?s1 c})
      (fold (add_hash env now p) hs st)" if "adds_inv env now p ?s1 D0 st" for hs D0 st
    using that
  proof (induction hs arbitrary: D0 st)
    case (Cons h hs)
    note IH = Cons.IH[OF add_hash_inv[OF Cons.prems conjunct1[OF e1], of h]]
    have "D0 \<union> {c. contract_hash ?idb c = h \<and> has_local_interest ?s1 c} \<union>
        {c. contract_hash ?idb c \<in> set hs \<and> has_local_interest ?s1 c} =
        D0 \<union> {c. contract_hash ?idb c \<in> set (h # hs) \<and> has_local_interest ?s1 c}" by auto
    with IH show ?case by simp
  qed simp
  have "adds_inv env now p ?s1 {} ([], n\<lparr>interest := ?s1\<rparr>)" using e1 by (simp add: adds_inv_def)
  from run[OF this, of added] have inv: "adds_inv env now p ?s1 D (entries, n2)" by (simp add: n2 loc D_def)
  have "answer = answer_summaries entries" "n' = n2" using r p n2 by (simp_all add: handle_change_interests_def Let_def)
  moreover have "entries = [] \<longleftrightarrow> D = {}" using inv by (auto simp: adds_inv_def)
  moreover have "local_interests ?s1 = local_interests (interest n)" using e1 by blast
  ultimately show ?thesis using inv[unfolded adds_inv_def m] by (simp add: answer_summaries_def)
qed

text \<open>
  A change of interests does what it names and nothing else. The removed hashes take away exactly the peer's
  entries with these hashes; then the added ones are noted for the contracts this node is itself interested in:
  an entry that is left keeps its summary and its direction and is refreshed, otherwise a fresh one is made
  unless 512 peers are interested already. Other peers are untouched, and the answer carries summaries for
  exactly the contracts noted.
\<close>

theorem change_interests_exact:
  assumes "im_ok (env_idb env) (interest n)" "get_peer_key_from_addr env source n = Some p"
    and "handle_interest_sync_message env now source (ChangeInterests added removed) n = (answer, n')"
  defines "named \<equiv> {c. contract_hash (env_idb env) c \<in> set added \<and> has_local_interest (interest n) c}"
    and "left \<equiv> \<lambda>c q. if q = p \<and> contract_hash (env_idb env) c \<in> set removed then None else get_peer_interest (interest n) c q"
  shows "(\<forall>c q. get_peer_interest (interest n') c q =
      (if q = p \<and> c \<in> named
       then (case left c p of
               Some i \<Rightarrow> Some (i\<lparr>last_refreshed := now\<rparr>)
             | None \<Rightarrow> if card (dom (left c)) \<ge> 512 then None
                       else Some \<lparr>pi_summary = None, summary_absence = NeverPopulated, last_refreshed = now,
                                  is_upstream = False\<rparr>)
       else left c q)) \<and>
    im_ok (env_idb env) (interest n') \<and>
    (\<forall>c. has_local_interest (interest n') c = has_local_interest (interest n) c) \<and>
    (case answer of
       Some (Summaries entries) \<Rightarrow> set (map fst entries) = contract_hash (env_idb env) ` named
     | Some _ \<Rightarrow> False
     | None \<Rightarrow> named = {})"
proof -
  have r: "handle_change_interests env now source added removed n = (answer, n')" using assms(3) by simp
  have "spec_keep (\<lambda>c q i. \<not> (q = p \<and> contract_hash (env_idb env) c \<in> set removed)) (get_peer_interest (interest n)) = left"
    by (auto simp: spec_keep_def left_def fun_eq_iff split: option.splits)
  note e = handle_change_effect[OF assms(1,2) r, folded named_def, unfolded this]
  have "noted now left c p = (case left c p of
               Some i \<Rightarrow> Some (i\<lparr>last_refreshed := now\<rparr>)
             | None \<Rightarrow> if card (dom (left c)) \<ge> 512 then None
                       else Some \<lparr>pi_summary = None, summary_absence = NeverPopulated, last_refreshed = now,
                                  is_upstream = False\<rparr>)" for c
    by (simp add: noted_def spec_full_def MAX_INTERESTED_PEERS_PER_CONTRACT_def pi_new_def pi_refresh_def split: option.splits)
  with e show ?thesis by (simp add: has_local_interest_def)
qed

lemma handle_summaries_effect:
  assumes ok: "im_ok (env_idb env) (interest n)"
  shows "im_ok (env_idb env) (interest (handle_summaries env now source entries n))"
    and "local_interests (interest (handle_summaries env now source entries n)) = local_interests (interest n)"
    and "\<not> has_local_interest (interest n) c \<Longrightarrow>
      get_peer_interest (interest (handle_summaries env now source entries n)) c q = get_peer_interest (interest n) c q"
proof -
  obtain p' probes stale n1 order n2 where h: "summaries_inv env p' n (probes, stale, n1)" "interest n2 = interest n1"
    "handle_summaries env now source entries n =
      emit_stale_syncs env now source (stale_sync_emit_budget (length stale)) 0 order n2"
    by (rule handle_summaries_cases[OF ok, where source = source and now = now and entries = entries])
  then show "im_ok (env_idb env) (interest (handle_summaries env now source entries n))"
    "local_interests (interest (handle_summaries env now source entries n)) = local_interests (interest n)"
    "\<not> has_local_interest (interest n) c \<Longrightarrow>
      get_peer_interest (interest (handle_summaries env now source entries n)) c q = get_peer_interest (interest n) c q"
    by (simp_all add: summaries_inv_def)
qed

section \<open>A peer speaks for itself only\<close>

lemma resync_request_received_effect:
  "im_ok idb s \<Longrightarrow> im_ok idb (record_resync_request_received s)"
  "local_interests (record_resync_request_received s) = local_interests s"
  "get_peer_interest (record_resync_request_received s) = get_peer_interest s"
  by (simp_all add: record_resync_request_received_def get_peer_interest_def fun_eq_iff im_ok_def
      get_contracts_for_peer_def has_local_interest_def lookup_by_hash_def)

text \<open>The manager is consistent, the node has the interests it had, and the entries of \<open>q\<close> are as they were.\<close>

definition keeps_entries :: "('c \<Rightarrow> bytes) \<Rightarrow> 'p \<Rightarrow> ('c, 'p) InterestManager \<Rightarrow> ('c, 'p) InterestManager \<Rightarrow> bool" where
  "keeps_entries idb q s s' \<longleftrightarrow> im_ok idb s' \<and> local_interests s' = local_interests s \<and>
    (\<forall>c. get_peer_interest s' c q = get_peer_interest s c q)"

lemma keeps_refl: "im_ok idb s \<Longrightarrow> keeps_entries idb q s s"
  by (simp add: keeps_entries_def)

lemma keeps_clear: "im_ok idb s \<Longrightarrow> p \<noteq> q \<Longrightarrow> keeps_entries idb q s (clear_peer_summary now c p r s)"
  by (simp add: keeps_entries_def clear_peer_summary_def modify_peer_interest_ok modify_peer_interest_effect)

lemma keeps_upsert: "im_ok idb s \<Longrightarrow> p \<noteq> q \<Longrightarrow> keeps_entries idb q s (snd (upsert_peer_summary idb now c p sm s))"
  using store_summary_effect[of idb s _ now c p "Some sm"] by (simp add: keeps_entries_def)

lemma matching_unknown_peer: "interest (snd (summarize_matching env now None cs n)) = interest n"
proof (induction cs arbitrary: n)
  case (Cons c cs)
  then show ?case using summary_query_fields(1)[of env c n] by (simp add: Let_def case_prod_beta)
qed simp

lemma keeps_resync_request:
  assumes ok: "im_ok (env_idb env) (interest n)" and q: "\<forall>w. get_peer_by_addr env w source \<noteq> Some q"
  shows "keeps_entries (env_idb env) q (interest n) (interest (snd (handle_resync_request env now source key n)))"
proof -
  let ?s = "record_resync_request_received (interest n)"
  have s: "keeps_entries (env_idb env) q (interest n) ?s"
    using ok by (simp add: keeps_entries_def resync_request_received_effect)
  have "keeps_entries (env_idb env) q (interest n) (clear_peer_summary now key p r ?s)"
    if "get_peer_by_addr env (world n) source = Some p" for p r
    using s keeps_clear[of "env_idb env" ?s p q now key r] that q by (auto simp: keeps_entries_def)
  with s show ?thesis
    by (auto simp: handle_resync_request_def Let_def get_peer_key_from_addr_def split: prod.splits option.splits)
qed

lemma keeps_resync_response:
  assumes ok: "im_ok (env_idb env) (interest n)" and q: "\<forall>w. get_peer_by_addr env w source \<noteq> Some q"
  shows "keeps_entries (env_idb env) q (interest n) (interest (handle_resync_response env now source key st sm n))"
proof -
  have "keeps_entries (env_idb env) q (interest n) (snd (upsert_peer_summary (env_idb env) now key p sm (interest n)))"
    if "get_peer_by_addr env w source = Some p" for p w
    using that q by (intro keeps_upsert[OF ok]) auto
  then show ?thesis using keeps_refl[OF ok]
    by (auto simp: handle_resync_response_def Let_def get_peer_key_from_addr_def split: prod.splits option.splits)
qed

lemma handle_summaries_other:
  assumes ok: "im_ok (env_idb env) (interest n)" and q: "get_peer_key_from_addr env source n \<noteq> Some q"
  shows "get_peer_interest (interest (handle_summaries env now source entries n)) c q = get_peer_interest (interest n) c q"
proof -
  obtain p' probes stale n1 order n2 where "summaries_inv env p' n (probes, stale, n1)" "interest n2 = interest n1"
    "handle_summaries env now source entries n =
      emit_stale_syncs env now source (stale_sync_emit_budget (length stale)) 0 order n2"
    "case get_peer_key_from_addr env source n of Some p \<Rightarrow> p' = p | None \<Rightarrow> stale = [] \<and> n1 = n"
    by (rule handle_summaries_cases[OF ok, where source = source and now = now and entries = entries])
  with q show ?thesis by (cases "get_peer_key_from_addr env source n") (simp_all add: summaries_inv_def)
qed

lemma keeps_message:
  assumes ok: "im_ok (env_idb env) (interest n)" and q: "\<forall>w. get_peer_by_addr env w source \<noteq> Some q"
  shows "keeps_entries (env_idb env) q (interest n) (interest (snd (handle_interest_sync_message env now source m n)))"
proof (cases m)
  case (Interests hashes)
  show ?thesis
  proof (cases "get_peer_key_from_addr env source n")
    case None
    then show ?thesis using ok matching_unknown_peer[of env now _ n]
      by (simp add: Interests handle_interests_def Let_def case_prod_beta keeps_refl)
  next
    case (Some p)
    obtain a n' where r: "handle_interests env now source hashes n = (a, n')" by (cases "handle_interests env now source hashes n")
    from handle_interests_effect[OF ok Some r] Some q show ?thesis
      by (auto simp: Interests r keeps_entries_def get_peer_key_from_addr_def)
  qed
next
  case (ChangeInterests added removed)
  show ?thesis
  proof (cases "get_peer_key_from_addr env source n")
    case (Some p)
    obtain a n' where r: "handle_change_interests env now source added removed n = (a, n')"
      by (cases "handle_change_interests env now source added removed n")
    from handle_change_effect[OF ok Some r] Some q show ?thesis
      by (auto simp: ChangeInterests r keeps_entries_def get_peer_key_from_addr_def spec_keep_def split: option.splits)
  qed (use ok in \<open>simp add: ChangeInterests handle_change_interests_def keeps_refl\<close>)
next
  case (Summaries entries)
  have "get_peer_key_from_addr env source n \<noteq> Some q" using q by (simp add: get_peer_key_from_addr_def)
  then show ?thesis using handle_summaries_effect[OF ok] handle_summaries_other[OF ok] by (simp add: Summaries keeps_entries_def)
qed (simp_all add: keeps_resync_request[OF ok q] keeps_resync_response[OF ok q])

text \<open>
  C7: a peer speaks for itself only. Whatever messages of the interest protocol arrive, in whatever order, from
  addresses none of which is that of peer \<open>q\<close>, the node keeps its own interests, the maps of the manager stay
  consistent, and what the node knows of the interests and summaries of \<open>q\<close> is what it was.
\<close>

theorem peer_speaks_for_itself:
  assumes "im_ok (env_idb env) (interest n)" "\<forall>(now, source, m) \<in> set ms. \<forall>w. get_peer_by_addr env w source \<noteq> Some q"
  shows "let n' = fold (\<lambda>(now, source, m) n. snd (handle_interest_sync_message env now source m n)) ms n
    in im_ok (env_idb env) (interest n') \<and> local_interests (interest n') = local_interests (interest n) \<and>
      (\<forall>c. get_peer_interest (interest n') c q = get_peer_interest (interest n) c q)"
  using assms
proof (induction ms arbitrary: n)
  case (Cons x ms)
  obtain now source m where x: "x = (now, source, m)" by (cases x)
  have "keeps_entries (env_idb env) q (interest n) (interest (snd (handle_interest_sync_message env now source m n)))"
    using Cons.prems by (intro keeps_message) (auto simp: x)
  then show ?case using Cons.IH[of "snd (handle_interest_sync_message env now source m n)"] Cons.prems(2)
    by (simp add: x keeps_entries_def Let_def del: handle_interest_sync_message.simps)
qed simp

section \<open>What the interest messages leave alone\<close>

lemma interest_ops_pending [simp]:
  "pending_removals (snd (remove_peer_interest idb c p s)) = pending_removals s"
  "pending_removals (refresh_peer_interest now c p s) = pending_removals s"
  "pending_removals (clear_peer_summary now c p r s) = pending_removals s"
  "pending_removals (snd (register_peer_interest idb now c p summary up s)) = pending_removals s"
  "pending_removals (snd (upsert_peer_summary idb now c p sm s)) = pending_removals s"
  by (simp_all add: remove_peer_interest_def refresh_peer_interest_def clear_peer_summary_def register_peer_interest_def
      upsert_peer_summary_def add_peer_entry_def modify_peer_interest_def Let_def split: option.splits prod.splits)

lemma fold_remove_pending [simp]:
  "pending_removals (remove_unlisted idb p hashes s) = pending_removals s"
  "pending_removals (fold (remove_hash idb p) hs s) = pending_removals s"
proof -
  have "pending_removals (fold (\<lambda>c s. if P c then s else snd (remove_peer_interest idb c p s)) cs s) = pending_removals s" for P cs s
    by (induction cs arbitrary: s) auto
  from this[of "\<lambda>_. False"] this show "pending_removals (remove_unlisted idb p hashes s) = pending_removals s"
    "pending_removals (fold (remove_hash idb p) hs s) = pending_removals s"
    by (simp_all add: remove_unlisted_def remove_hash_def) (induction hs arbitrary: s, simp_all add: remove_hash_def)
qed

text \<open>
  An observation of the node that depends neither on the world nor on the events emitted, and on the manager at
  most through the removals it has scheduled, is left alone by the messages about interests and summaries.
\<close>

locale sync_frame =
  fixes obs :: "('c, 'i, 'p, 'a, 'w) sync_node \<Rightarrow> 'x"
  assumes obs_world: "obs (n\<lparr>world := w\<rparr>) = obs n"
    and obs_events: "obs (n\<lparr>sync_events := evs\<rparr>) = obs n"
    and obs_interest: "pending_removals s = pending_removals (interest n) \<Longrightarrow> obs (n\<lparr>interest := s\<rparr>) = obs n"
begin

lemma query: "obs (snd (summary_if_hosted_or_in_use env c n)) = obs n"
  by (simp add: summary_if_hosted_or_in_use_def obs_world split: prod.splits)

lemma query_eq: "summary_if_hosted_or_in_use env c n = (x, n') \<Longrightarrow> obs n' = obs n"
  using query[of env c n] by simp

lemma noting: "obs (note_interest env now c p n) = obs n"
  by (simp add: note_interest_def Let_def case_prod_beta obs_world obs_interest)

lemma matching: "obs (snd (summarize_matching env now pk cs n)) = obs n"
proof (induction cs arbitrary: n)
  case (Cons c cs)
  obtain summary n1 where n1: "summary_if_hosted_or_in_use env c n = (summary, n1)" by (cases "summary_if_hosted_or_in_use env c n")
  let ?n2 = "case pk of None \<Rightarrow> n1 | Some p \<Rightarrow> note_interest env now c p n1"
  have "obs ?n2 = obs n" using query_eq[OF n1] by (simp add: noting split: option.splits)
  then show ?case using Cons[of ?n2] n1 by (cases "summarize_matching env now pk cs ?n2") simp
qed simp

lemma interests: "obs (snd (handle_interests env now source hashes n)) = obs n"
proof -
  let ?n1 = "case get_peer_key_from_addr env source n of None \<Rightarrow> n
      | Some p \<Rightarrow> n\<lparr>interest := remove_unlisted (env_idb env) p hashes (interest n)\<rparr>"
  have "obs ?n1 = obs n" by (simp add: obs_interest split: option.splits)
  then show ?thesis
    using matching[of env now "get_peer_key_from_addr env source n"
        "get_matching_contracts (env_idb env) (interest ?n1) hashes" ?n1]
    by (simp add: handle_interests_def Let_def case_prod_beta)
qed

lemma added: "obs (snd (fold (add_hash env now p) hs st)) = obs (snd st)"
proof -
  have "obs (snd (add_contract env now p h c st)) = obs (snd st)" for h c st
    by (cases st) (auto simp: add_contract_def noting split: prod.splits dest!: query_eq)
  then have "obs (snd (fold (add_contract env now p h) cs st)) = obs (snd st)" for h cs st
    by (induction cs arbitrary: st) auto
  then have "obs (snd (add_hash env now p h st)) = obs (snd st)" for h st by (simp add: add_hash_def case_prod_beta)
  then show ?thesis by (induction hs arbitrary: st) simp_all
qed

lemma changes: "obs (snd (handle_change_interests env now source added_hashes removed n)) = obs n"
proof (cases "get_peer_key_from_addr env source n")
  case (Some p)
  then show ?thesis
    using added[of env now p added_hashes "([], n\<lparr>interest := fold (remove_hash (env_idb env) p) removed (interest n)\<rparr>)"]
    by (simp add: handle_change_interests_def Let_def case_prod_beta obs_interest)
qed (simp add: handle_change_interests_def)

lemma one_summary: "obs (snd (snd (process_summary env now p theirs c st))) = obs (snd (snd st))"
proof (cases st)
  case (fields probes stale n)
  have "obs (n1\<lparr>world := w, interest := s\<rparr>) = obs n1" if "pending_removals s = pending_removals (interest n1)" for n1 w s
    using obs_interest[of s "n1\<lparr>world := w\<rparr>"] obs_world[of w n1] that by simp
  then show ?thesis
    by (auto simp: fields process_summary_def Let_def split: prod.splits option.splits dest!: query_eq)
qed

lemma emitted: "obs (emit_stale_syncs env now source budget k cs n) = obs n"
proof (induction cs arbitrary: k n)
  case (Cons c cs)
  then show ?case by (auto simp: obs_world obs_events Let_def split: prod.splits option.splits)
qed simp

lemma summaries: "obs (handle_summaries env now source entries n) = obs n"
proof -
  have "obs (snd (snd (fold (process_summary env now p theirs) cs st))) = obs (snd (snd st))" for p theirs cs st
    by (induction cs arbitrary: st) (simp_all add: one_summary)
  then have "obs (snd (snd (process_entry env now p e st))) = obs (snd (snd st))" for p e st
    by (simp add: process_entry_def case_prod_beta)
  then have "obs (snd (snd (fold (process_entry env now p) es st))) = obs (snd (snd st))" for p es st
    by (induction es arbitrary: st) simp_all
  from this[of _ entries "(0, [], n)"] show ?thesis
    by (simp add: handle_summaries_def Let_def case_prod_beta emitted obs_world split: option.splits)
qed

lemmas handlers = interests changes summaries

end

interpretation requests_frame: sync_frame outstanding_resync_requests
  by unfold_locales simp_all

interpretation pending_frame: sync_frame "\<lambda>n. pending_removals (interest n)"
  by unfold_locales simp_all

section \<open>Interest that outlives every reason for it\<close>

text \<open>The heartbeat of the first node to the second, with the answer it gets.\<close>

definition heartbeat :: "('c, 'i, 'p, 'a, 'w) sync_env \<Rightarrow> ('c, 'i, 'p, 'a, 'w) sync_env \<Rightarrow> 'a \<Rightarrow> 'a \<Rightarrow> instant \<Rightarrow>
    ('c, 'i, 'p, 'a, 'w) sync_node \<times> ('c, 'i, 'p, 'a, 'w) sync_node \<Rightarrow>
    ('c, 'i, 'p, 'a, 'w) sync_node \<times> ('c, 'i, 'p, 'a, 'w) sync_node" where
  "heartbeat envA envB addrA addrB now ns =
    (case ns of (a, b) \<Rightarrow>
       let hashes = get_all_interest_hashes (interest a)
       in if hashes = [] then (a, b)
          else
            let (answer, b') = handle_interest_sync_message envB now addrA (Interests hashes) b
            in (case answer of None \<Rightarrow> a | Some m \<Rightarrow> snd (handle_interest_sync_message envA now addrB m a), b'))"

text \<open>A round: both nodes run their sweep task, then each sends its heartbeat.\<close>

definition sweep_node :: "('c, 'i, 'p, 'a, 'w) sync_env \<Rightarrow> ('p \<Rightarrow> bytes) \<Rightarrow> instant \<Rightarrow>
    ('c, 'i, 'p, 'a, 'w) sync_node \<Rightarrow> ('c, 'i, 'p, 'a, 'w) sync_node" where
  "sweep_node env pkb now n =
    n\<lparr>interest := snd (sweep_expired_interests (env_idb env) pkb now
      (snd (execute_pending_removals (env_idb env) now (interest n))))\<rparr>"

definition heartbeat_round :: "('c, 'i, 'p, 'a, 'w) sync_env \<Rightarrow> ('c, 'i, 'p, 'a, 'w) sync_env \<Rightarrow> ('p \<Rightarrow> bytes) \<Rightarrow>
    'a \<Rightarrow> 'a \<Rightarrow> instant \<Rightarrow> ('c, 'i, 'p, 'a, 'w) sync_node \<times> ('c, 'i, 'p, 'a, 'w) sync_node \<Rightarrow>
    ('c, 'i, 'p, 'a, 'w) sync_node \<times> ('c, 'i, 'p, 'a, 'w) sync_node" where
  "heartbeat_round envA envB pkb addrA addrB now ns =
    (case ns of (a, b) \<Rightarrow>
       let (a1, b1) = heartbeat envA envB addrA addrB now (sweep_node envA pkb now a, sweep_node envB pkb now b);
           (b2, a2) = heartbeat envB envA addrB addrA now (b1, a1)
       in (a2, b2))"

text \<open>The node tracks the peer for the contract, refreshed at \<open>t\<close> or later, without own interest, and has not
  scheduled the removal of a disconnected peer.\<close>

definition zombie :: "('c, 'i, 'p, 'a, 'w) sync_env \<Rightarrow> 'c \<Rightarrow> 'p \<Rightarrow> instant \<Rightarrow> ('c, 'i, 'p, 'a, 'w) sync_node \<Rightarrow> bool" where
  "zombie env c p t n \<longleftrightarrow> im_ok (env_idb env) (interest n) \<and> \<not> has_local_interest (interest n) c \<and>
    pending_removals (interest n) = [] \<and>
    (\<exists>i. get_peer_interest (interest n) c p = Some i \<and> t \<le> last_refreshed i)"

lemma zombie_mono: "zombie env c p t n \<Longrightarrow> t' \<le> t \<Longrightarrow> zombie env c p t' n"
  by (auto simp: zombie_def intro: order.trans)

lemma zombie_indexed: "zombie env c p t n \<Longrightarrow> indexed (env_idb env) (interest n) c"
  using im_okD(7)[of "env_idb env" "interest n" c] tracked_iff[of p "interest n" c] by (auto simp: zombie_def)

lemma zombie_hash: "zombie env c p t n \<Longrightarrow> contract_hash (env_idb env) c \<in> set (get_all_interest_hashes (interest n))"
  using zombie_indexed[of env c p t n]
  by (auto simp: get_all_interest_hashes_def lookup_by_hash_def or_default_def split: option.splits dest: map_of_SomeD)
    (metis fst_conv imageI map_of_SomeD)

lemma zombie_sweep:
  assumes z: "zombie env c p t n" and "now - t \<le> INTEREST_TTL"
  shows "zombie env c p t (sweep_node env pkb now n)"
proof -
  have ok: "im_ok (env_idb env) (interest n)" using z by (simp add: zombie_def)
  note v = im_step_refines[OF ok, of pkb now Sweep]
  have none: "execute_pending_removals (env_idb env) now (interest n) = (0, interest n)" and
    sweep: "pending_removals (interest (sweep_node env pkb now n)) = []"
    using z remove_pairs_effect[OF ok refl]
    by (auto simp: zombie_def sweep_node_def execute_pending_removals_def sweep_expired_interests_def Let_def)
  have "has_local_interest (interest (sweep_node env pkb now n)) c = has_local_interest (interest n) c"
    using other_ops_local(6)[OF ok, of pkb now] by (simp add: sweep_node_def has_local_interest_def none)
  moreover have "get_peer_interest (interest (sweep_node env pkb now n)) =
      spec_keep (\<lambda>c p i. \<not> is_expired_at now i) (get_peer_interest (interest n))"
    using v by (simp add: sweep_node_def interest_view_def none)
  ultimately show ?thesis using z v assms(2) sweep
    by (auto simp: zombie_def sweep_node_def spec_keep_def is_expired_at_def none)
qed

lemma zombie_heartbeat:
  assumes a: "zombie envA c pB t a" and b: "zombie envB c pA u b"
    and idb: "env_idb envA = env_idb envB" and "\<forall>w. get_peer_by_addr envB w addrA = Some pA"
    and hb: "heartbeat envA envB addrA addrB now (a, b) = (a', b')"
  shows "zombie envA c pB t a'" "zombie envB c pA now b'"
proof -
  let ?hs = "get_all_interest_hashes (interest a)"
  have hs: "contract_hash (env_idb envB) c \<in> set ?hs" using zombie_hash[OF a] idb by simp
  obtain answer b1 where b1: "handle_interests envB now addrA ?hs b = (answer, b1)"
    by (cases "handle_interests envB now addrA ?hs b")
  have ok: "im_ok (env_idb envB) (interest b)" using b by (simp add: zombie_def)
  note e = handle_interests_effect[OF ok _ b1, of pA]
  have p: "get_peer_key_from_addr envB addrA b = Some pA" using assms(4) by (simp add: get_peer_key_from_addr_def)
  obtain i where i: "get_peer_interest (interest b) c pA = Some i" using b by (auto simp: zombie_def)
  have "get_peer_interest (interest b1) c pA = Some (pi_refresh now i)"
    using e[OF p] hs zombie_indexed[OF b] by (simp add: noted_def i)
  then have "zombie envB c pA now b1" using e[OF p] b pending_frame.interests[of envB now addrA ?hs b] b1 by (simp add: zombie_def has_local_interest_def pi_refresh_def)
  moreover have eq: "a' = (case answer of None \<Rightarrow> a | Some m \<Rightarrow> snd (handle_interest_sync_message envA now addrB m a))" "b' = b1"
    using hb hs b1 by (auto simp: heartbeat_def Let_def split: if_splits)
  ultimately show "zombie envB c pA now b'" by simp
  have "answer = None \<or> (\<exists>entries. answer = Some (Summaries entries))"
    using e[OF p] by (auto split: option.splits InterestMessage.splits)
  then show "zombie envA c pB t a'" using a handle_summaries_effect[where env = envA and n = a and now = now and source = addrB]
      pending_frame.summaries[of envA now addrB _ a]
    by (auto simp: eq(1) zombie_def has_local_interest_def)
qed

text \<open>Heartbeats at the instants of a list, the next at most the time to live after the one before.\<close>

fun spaced :: "instant \<Rightarrow> instant list \<Rightarrow> bool" where
  "spaced t [] = True"
| "spaced t (u # us) = (t \<le> u \<and> u - t \<le> INTEREST_TTL \<and> spaced u us)"

lemma zombie_round:
  assumes a: "zombie envA c pB t a" and b: "zombie envB c pA t b"
    and idb: "env_idb envA = env_idb envB"
    and pA: "\<forall>w. get_peer_by_addr envB w addrA = Some pA" and pB: "\<forall>w. get_peer_by_addr envA w addrB = Some pB"
    and r: "heartbeat_round envA envB pkb addrA addrB now (a, b) = (a', b')" and t: "t \<le> now" "now - t \<le> INTEREST_TTL"
  shows "zombie envA c pB now a' \<and> zombie envB c pA now b'"
proof -
  obtain a1 b1 where 1: "heartbeat envA envB addrA addrB now (sweep_node envA pkb now a, sweep_node envB pkb now b) = (a1, b1)"
    by (cases "heartbeat envA envB addrA addrB now (sweep_node envA pkb now a, sweep_node envB pkb now b)")
  obtain b2 a2 where 2: "heartbeat envB envA addrB addrA now (b1, a1) = (b2, a2)"
    by (cases "heartbeat envB envA addrB addrA now (b1, a1)")
  have eq: "a' = a2" "b' = b2" using r 1 2 by (simp_all add: heartbeat_round_def)
  note z1 = zombie_heartbeat[OF zombie_sweep[OF a t(2)] zombie_sweep[OF b t(2)] idb pA 1]
  note z2 = zombie_heartbeat[OF z1(2,1) idb[symmetric] pB 2]
  show ?thesis using z2 by (simp add: eq)
qed

text \<open>
  C31: interest that nobody has can last for ever. Take two connected nodes, neither interested in a contract
  itself, each holding an entry of the other for the contract that has not expired, with no removal of a
  disconnected peer scheduled. The hash list of a heartbeat
  names every contract in which any peer is interested, not only those of the node itself, so each heartbeat
  refreshes the entry on the other side: however many heartbeats follow, as long as they are at most the time to
  live apart, both entries survive every sweep and both nodes go on announcing the contract.
\<close>

theorem zombie_interest_sustained:
  assumes "im_ok (env_idb envA) (interest a)" "im_ok (env_idb envB) (interest b)"
    and "\<not> has_local_interest (interest a) c" "\<not> has_local_interest (interest b) c"
    and "get_peer_interest (interest a) c pB = Some i" "get_peer_interest (interest b) c pA = Some j"
    and "pending_removals (interest a) = []" "pending_removals (interest b) = []"
    and "t \<le> last_refreshed i" "t \<le> last_refreshed j" "spaced t ts"
    and "env_idb envA = env_idb envB"
    and "\<forall>w. get_peer_by_addr envB w addrA = Some pA" "\<forall>w. get_peer_by_addr envA w addrB = Some pB"
    and "fold (heartbeat_round envA envB pkb addrA addrB) ts (a, b) = (a', b')"
  shows "get_peer_interest (interest a') c pB \<noteq> None \<and> get_peer_interest (interest b') c pA \<noteq> None \<and>
    \<not> has_local_interest (interest a') c \<and> \<not> has_local_interest (interest b') c \<and>
    contract_hash (env_idb envA) c \<in> set (get_all_interest_hashes (interest a')) \<and>
    contract_hash (env_idb envB) c \<in> set (get_all_interest_hashes (interest b'))"
proof -
  have "\<exists>u. zombie envA c pB u a' \<and> zombie envB c pA u b'"
    if "zombie envA c pB t a" "zombie envB c pA t b" "spaced t ts"
      "fold (heartbeat_round envA envB pkb addrA addrB) ts (a, b) = (a', b')" for a b t ts
    using that
  proof (induction ts arbitrary: a b t)
    case (Cons u ts)
    obtain a1 b1 where r: "heartbeat_round envA envB pkb addrA addrB u (a, b) = (a1, b1)"
      by (cases "heartbeat_round envA envB pkb addrA addrB u (a, b)")
    from zombie_round[OF Cons.prems(1,2) assms(12-14) r] Cons.prems(3)
    show ?case using Cons.IH[of u a1 b1] Cons.prems(3,4) r by simp
  qed auto
  then obtain u where "zombie envA c pB u a'" "zombie envB c pA u b'"
    using assms by (fastforce simp: zombie_def)
  with zombie_hash[OF this(1)] zombie_hash[OF this(2)] show ?thesis by (auto simp: zombie_def)
qed

section \<open>Every exchange ends\<close>

fun sync_rank :: "'c InterestMessage \<Rightarrow> nat" where
  "sync_rank (Summaries entries) = 0"
| "sync_rank (ResyncResponse c st sm) = 0"
| "sync_rank m = 1"

definition sync_answer :: "('c, 'i, 'p, 'a, 'w) sync_env \<times> instant \<times> 'a \<Rightarrow> 'c InterestMessage \<Rightarrow>
    ('c, 'i, 'p, 'a, 'w) sync_node \<Rightarrow> 'c InterestMessage option \<times> ('c, 'i, 'p, 'a, 'w) sync_node" where
  "sync_answer e m n = (case e of (env, now, source) \<Rightarrow> handle_interest_sync_message env now source m n)"

interpretation sync: answering sync_answer sync_rank
proof (unfold_locales, goal_cases)
  case (1 e m n answer n')
  then show ?case
    by (cases m) (auto simp: sync_answer_def handle_interests_def handle_change_interests_def handle_resync_request_def
        answer_summaries_def Let_def split: prod.splits option.splits if_splits)
qed

text \<open>
  C8: every exchange ends: whatever message one node sends another and whatever the states of the two, the
  answers to answers come to an end, after one answer at the latest.
\<close>

theorem exchange_ends:
  "\<exists>k a' b'. exchange (sync_answer (envA, now, addrB)) (sync_answer (envB, now, addrA)) m a b = Some (k, a', b') \<and> k \<le> 1"
proof -
  have "sync_rank m \<le> 1" by (cases m) simp_all
  with sync.ends[of "(envA, now, addrB)" "(envB, now, addrA)" m a b] show ?thesis using order.trans by blast
qed

section \<open>Responses to resynchronisation\<close>

lemma handler_outstanding:
  "outstanding_resync_requests (snd (handle_interest_sync_message env now source m n)) =
    (case m of ResyncResponse key st sm \<Rightarrow> snd (orr_consume now (key_id env key) source (outstanding_resync_requests n))
     | _ \<Rightarrow> outstanding_resync_requests n)"
  by (cases m) (simp_all add: requests_frame.handlers handle_resync_request_def handle_resync_response_def Let_def
    split: prod.splits option.splits)

text \<open>What happens to a node: a message of a peer arrives, a request to a peer is recorded as it is sent, the
  table of requests is cleaned up.\<close>

datatype ('c, 'a) sync_event = Received 'a "'c InterestMessage" | Requested 'c 'a | OutstandingCleanup

fun sync_step :: "('c, 'i, 'p, 'a, 'w) sync_env \<Rightarrow> instant \<times> ('c, 'a) sync_event \<Rightarrow>
    ('c, 'i, 'p, 'a, 'w) sync_node \<Rightarrow> ('c, 'i, 'p, 'a, 'w) sync_node" where
  "sync_step env (now, Received source m) n = snd (handle_interest_sync_message env now source m n)"
| "sync_step env (now, Requested c target) n =
    n\<lparr>outstanding_resync_requests := snd (orr_record now (key_id env c) target (outstanding_resync_requests n))\<rparr>"
| "sync_step env (now, OutstandingCleanup) n =
    n\<lparr>outstanding_resync_requests := orr_cleanup now (outstanding_resync_requests n)\<rparr>"

text \<open>The event is a response of \<open>a\<close> for a contract of id \<open>i\<close> that gets past the test of the table.\<close>

fun solicited :: "('c, 'i, 'p, 'a, 'w) sync_env \<Rightarrow> 'i \<Rightarrow> 'a \<Rightarrow> instant \<times> ('c, 'a) sync_event \<Rightarrow>
    ('c, 'i, 'p, 'a, 'w) sync_node \<Rightarrow> bool" where
  "solicited env i a (now, Received source (ResyncResponse c st sm)) n \<longleftrightarrow> source = a \<and> key_id env c = i \<and>
    fst (orr_consume now i a (outstanding_resync_requests n))"
| "solicited env i a e n \<longleftrightarrow> False"

fun solicited_count :: "('c, 'i, 'p, 'a, 'w) sync_env \<Rightarrow> 'i \<Rightarrow> 'a \<Rightarrow> (instant \<times> ('c, 'a) sync_event) list \<Rightarrow>
    ('c, 'i, 'p, 'a, 'w) sync_node \<Rightarrow> nat" where
  "solicited_count env i a [] n = 0"
| "solicited_count env i a (e # es) n =
    (if solicited env i a e n then 1 else 0) + solicited_count env i a es (sync_step env e n)"

definition requested_count :: "('c, 'i, 'p, 'a, 'w) sync_env \<Rightarrow> 'i \<Rightarrow> 'a \<Rightarrow> (instant \<times> ('c, 'a) sync_event) list \<Rightarrow> nat" where
  "requested_count env i a es = length (filter (\<lambda>e. \<exists>c. snd e = Requested c a \<and> key_id env c = i) es)"

abbreviation open_request :: "('c, 'i, 'p, 'a, 'w) sync_node \<Rightarrow> 'i \<Rightarrow> 'a \<Rightarrow> nat" where
  "open_request n i a \<equiv> (if (i, a) \<in> keys (orr_entries (outstanding_resync_requests n)) then 1 else 0)"

lemma consume_keys: "keys (orr_entries (snd (orr_consume now i a s))) = keys (orr_entries s) - {(i, a)}"
  "fst (orr_consume now i a s) \<Longrightarrow> (i, a) \<in> keys (orr_entries s)"
  using map_of_keys[of "orr_entries s" "(i, a)"] by (auto simp: orr_consume_def split: option.splits)

lemma step_requests:
  "open_request (sync_step env e n) i a + (if solicited env i a e n then 1 else 0) \<le>
    open_request n i a + (if \<exists>c. snd e = Requested c a \<and> key_id env c = i then 1 else 0)"
proof -
  obtain now ev where e: "e = (now, ev)" by (cases e)
  show ?thesis
  proof (cases ev)
    case (Received source m)
    show ?thesis
    proof (cases m)
      case (ResyncResponse c st sm)
      have "outstanding_resync_requests (sync_step env e n) =
          snd (orr_consume now (key_id env c) source (outstanding_resync_requests n))"
        using handler_outstanding[of env now source m n] by (simp add: e Received ResyncResponse del: handle_interest_sync_message.simps)
      then show ?thesis using consume_keys[of now "key_id env c" source "outstanding_resync_requests n"]
        by (auto simp: e Received ResyncResponse simp del: sync_step.simps)
    qed (use handler_outstanding[of env now source m n] in
        \<open>simp_all add: e Received del: handle_interest_sync_message.simps\<close>)
  next
    case (Requested c target)
    then show ?thesis by (auto simp: e orr_record_def split: option.splits)
  next
    case OutstandingCleanup
    then show ?thesis by (auto simp: e orr_cleanup_def Let_def keys_def)
  qed
qed

lemma solicited_bound: "solicited_count env i a es n \<le> open_request n i a + requested_count env i a es"
proof (induction es arbitrary: n)
  case (Cons e es)
  have "requested_count env i a (e # es) =
      (if \<exists>c. snd e = Requested c a \<and> key_id env c = i then 1 else 0) + requested_count env i a es"
    by (simp add: requested_count_def)
  then show ?case unfolding solicited_count.simps
    using Cons[of "sync_step env e n"] step_requests[where env = env and e = e and n = n and i = i and a = a] by linarith
qed (simp add: requested_count_def)

text \<open>
  C26: states offered by a peer are merged only when they were asked for, and once per request. Over any sequence
  of messages, requests and clean-ups, starting with no request open, the responses of a peer for a contract that
  reach the contract handler are no more than the requests sent to that peer for it; and a response that does not
  get past the test leaves everything but the table of requests as it was.
\<close>

theorem responses_applied_once_per_request:
  assumes "orr_entries (outstanding_resync_requests n) = []"
  shows "solicited_count env i a es n \<le> requested_count env i a es \<and>
    (\<forall>n now c st sm. \<not> fst (orr_consume now (key_id env c) a (outstanding_resync_requests n)) \<longrightarrow>
      handle_interest_sync_message env now a (ResyncResponse c st sm) n =
        (None, n\<lparr>outstanding_resync_requests :=
          snd (orr_consume now (key_id env c) a (outstanding_resync_requests n))\<rparr>))"
  using solicited_bound[of env i a es n] assms
  by (auto simp: handle_resync_response_def Let_def split: prod.splits)

section \<open>Instances\<close>

text \<open>A node that stores nothing: contracts, ids, peers and addresses are numbers, the address of a peer is its key, and
  the world is the number of probes run.\<close>

definition bare_env :: "(nat, nat, nat, nat, nat) sync_env" where
  "bare_env = \<lparr>key_id = (\<lambda>c. c), id_bytes = (\<lambda>i. [of_nat i]), get_peer_by_addr = (\<lambda>w a. Some a),
    should_summarize_or_broadcast = (\<lambda>w c. c = 7), get_contract_summary = (\<lambda>c w. (Some [1], w)),
    get_contract_state = (\<lambda>c w. (Some [2], w)), contract_state_present = (\<lambda>w c. True),
    cached_staleness_verdict = (\<lambda>c x y w. (None, w)), peer_summary_has_pending_state = (\<lambda>c x y w. (Some True, w + 1)),
    flush_pending_broadcast = (\<lambda>c w. w), random_below = (\<lambda>k w. (0, w)), update_query = (\<lambda>c st w. (AppliedChanged, w))\<rparr>"

definition bare_node :: "(nat, nat) InterestManager \<Rightarrow> (nat, nat, nat, nat, nat) sync_node" where
  "bare_node s = \<lparr>interest = s, contract_ban_list = bl_new, broken_invariants = bi_new, delta_incompat = di_new,
    resync_response_limiter = new_response_limiter, resync_response_global_limiter = new_response_global_limiter,
    outstanding_resync_requests = orr_new, merge_backoff = mb_new, sync_events = [], world = 0\<rparr>"

definition bare_run :: "(instant \<times> (nat, nat) ImOp) list \<Rightarrow> (nat, nat) InterestManager" where
  "bare_run es = fold (im_step (env_idb bare_env) (\<lambda>p. [of_nat p])) es im_new"

lemma bare_run_ok: "im_ok (env_idb bare_env) (interest (bare_node (bare_run es)))"
  by (simp add: bare_node_def bare_run_def im_run_ok)

lemma bare_peer: "get_peer_key_from_addr bare_env a n = Some a"
  by (simp add: get_peer_key_from_addr_def bare_env_def)

lemmas bare_eval = bare_env_def bare_node_def bare_run_def im_new_def register_peer_interest_def add_peer_entry_def
  index_contract_hash_def or_default_def Let_def contains_key_def MAX_INTERESTED_PEERS_PER_CONTRACT_def
  contract_hash_def pi_new_def has_local_interest_def get_peer_interest_def lookup_by_hash_def
  register_local_hosting_def local_or_default_def li_default_def is_interested_def

theorem interests_replace_witness:
  "let n = bare_node (bare_run [(1, RegisterPeer 7 3 (Some [9]) True), (2, RegisterPeer 8 3 None False)]);
       h = contract_hash (env_idb bare_env);
       n' = snd (handle_interest_sync_message bare_env 5 3 (Interests [h 7]) n)
   in get_peer_interest (interest n') 7 3 =
        Some \<lparr>pi_summary = Some [9], summary_absence = NeverPopulated, last_refreshed = 5, is_upstream = True\<rparr> \<and>
      get_peer_interest (interest n') 8 3 = None"
proof -
  let ?es = "[(1, RegisterPeer 7 3 (Some [9]) True), (2, RegisterPeer 8 3 None False)] :: (instant \<times> (nat, nat) ImOp) list"
  let ?n = "bare_node (bare_run ?es)"
  let ?h = "contract_hash (env_idb bare_env)"
  have ne: "?h 8 \<noteq> ?h 7" by (simp add: bare_env_def contract_hash_def)
  have i: "get_peer_interest (interest ?n) 7 3 =
      Some \<lparr>pi_summary = Some [9], summary_absence = NeverPopulated, last_refreshed = 1, is_upstream = True\<rparr>"
    "7 \<in> set (lookup_by_hash (interest ?n) (?h 7))" by (simp_all add: bare_eval)
  obtain answer n' where r: "handle_interest_sync_message bare_env 5 3 (Interests [?h 7]) ?n = (answer, n')"
    by (cases "handle_interest_sync_message bare_env 5 3 (Interests [?h 7]) ?n")
  note * = interests_replace[OF bare_run_ok bare_peer r, THEN conjunct1, THEN spec, THEN spec, of _ 3]
  show ?thesis using *[of 7] *[of 8] i ne r by (simp add: Let_def del: handle_interest_sync_message.simps)
qed

theorem change_interests_exact_witness:
  "let n = bare_node (bare_run [(1, HostLocal 7), (2, RegisterPeer 8 3 None False)]);
       h = contract_hash (env_idb bare_env);
       n' = snd (handle_interest_sync_message bare_env 5 3 (ChangeInterests [h 7] [h 8]) n)
   in get_peer_interest (interest n') 7 3 \<noteq> None \<and> get_peer_interest (interest n') 8 3 = None"
proof -
  let ?es = "[(1, HostLocal 7), (2, RegisterPeer 8 3 None False)] :: (instant \<times> (nat, nat) ImOp) list"
  let ?n = "bare_node (bare_run ?es)"
  let ?h = "contract_hash (env_idb bare_env)"
  have ne: "?h 8 \<noteq> ?h 7" "?h 7 \<noteq> ?h 8" by (simp_all add: bare_env_def contract_hash_def)
  have i: "has_local_interest (interest ?n) 7" "get_peer_interest (interest ?n) 7 = (\<lambda>_. None)"
    by (simp_all add: bare_eval fun_eq_iff)
  obtain answer n' where r: "handle_interest_sync_message bare_env 5 3 (ChangeInterests [?h 7] [?h 8]) ?n = (answer, n')"
    by (cases "handle_interest_sync_message bare_env 5 3 (ChangeInterests [?h 7] [?h 8]) ?n")
  note * = change_interests_exact[OF bare_run_ok bare_peer r, THEN conjunct1, THEN spec, THEN spec, of _ 3]
  show ?thesis using *[of 7] *[of 8] i ne r by (simp add: Let_def del: handle_interest_sync_message.simps)
qed

theorem heals_bounded_and_targeted_witness:
  "let n = bare_node (bare_run [(1, HostLocal 7)]);
       h = contract_hash (env_idb bare_env);
       n' = snd (handle_interest_sync_message bare_env 5 3 (Summaries [(h 7, Some [9])]) n)
   in sync_events n' = [(7, [2], 3)] \<and> world n' = 1 \<and> world n' \<le> world n + 32 \<and>
      (\<forall>(c, st, a) \<in> set (sync_events n'). a = 3 \<and> has_local_interest (interest n) c)"
proof -
  let ?es = "[(1, HostLocal 7)] :: (instant \<times> (nat, nat) ImOp) list"
  let ?n = "bare_node (bare_run ?es)"
  let ?m = "Summaries [(contract_hash (env_idb bare_env) 7, Some [9])]"
  obtain answer n' where r: "handle_interest_sync_message bare_env 5 3 ?m ?n = (answer, n')"
    by (cases "handle_interest_sync_message bare_env 5 3 ?m ?n")
  have "sync_events ?n = []" by (simp add: bare_node_def)
  moreover have "counts_probes bare_env (\<lambda>w. w)" by (simp add: counts_probes_def bare_env_def)
  moreover have "sync_events n' = [(7, [2], 3)] \<and> world n' = 1"
    using r by (auto simp: bare_eval handle_summaries_def process_entry_def process_summary_def judge_staleness_def
        get_peer_key_from_addr_def summary_if_hosted_or_in_use_def plan_staleness_probe_def MAX_STALENESS_PROBES_PER_SUMMARIES_def
        summary_indicates_stale_peer_def stale_sync_emit_budget_def MAX_STALE_SYNCS_PER_SUMMARIES_def is_banned_def bl_new_def bl_with_max_def)
  ultimately show ?thesis using heals_bounded_and_targeted[OF bare_run_ok bare_peer r] r
    by (auto simp: Let_def simp del: handle_interest_sync_message.simps)
qed

theorem zombie_interest_sustained_witness:
  "let a = bare_node (bare_run [(1, RegisterPeer 8 2 None False)]); b = bare_node (bare_run [(1, RegisterPeer 8 1 None False)]);
       (a', b') = fold (heartbeat_round bare_env bare_env (\<lambda>p. [of_nat p]) 1 2) [from_secs 300, from_secs 600, from_secs 900] (a, b)
   in get_peer_interest (interest a') 8 2 \<noteq> None \<and> get_peer_interest (interest b') 8 1 \<noteq> None"
proof -
  let ?a = "bare_node (bare_run [(1, RegisterPeer 8 2 None False)])"
  let ?b = "bare_node (bare_run [(1, RegisterPeer 8 1 None False)])"
  let ?ts = "[from_secs 300, from_secs 600, from_secs 900]"
  let ?i = "\<lparr>pi_summary = None, summary_absence = NeverPopulated, last_refreshed = 1, is_upstream = False\<rparr>"
  obtain a' b' where r: "fold (heartbeat_round bare_env bare_env (\<lambda>p. [of_nat p]) 1 2) ?ts (?a, ?b) = (a', b')"
    by (cases "fold (heartbeat_round bare_env bare_env (\<lambda>p. [of_nat p]) 1 2) ?ts (?a, ?b)")
  have i: "get_peer_interest (interest ?a) 8 2 = Some ?i" "get_peer_interest (interest ?b) 8 1 = Some ?i"
    "\<not> has_local_interest (interest ?a) 8" "\<not> has_local_interest (interest ?b) 8"
    "pending_removals (interest ?a) = []" "pending_removals (interest ?b) = []" by (simp_all add: bare_eval)
  have "spaced 1 ?ts" by (simp add: INTEREST_TTL_def from_secs_def)
  moreover have "\<forall>w. get_peer_by_addr bare_env w 1 = Some 1" "\<forall>w. get_peer_by_addr bare_env w 2 = Some 2"
    by (simp_all add: bare_env_def)
  ultimately show ?thesis
    using zombie_interest_sustained[OF bare_run_ok bare_run_ok i(3,4,1,2,5,6) _ _ _ refl _ _ r, of 1] r by simp
qed

theorem peer_speaks_for_itself_witness:
  "let n = bare_node (bare_run [(1, RegisterPeer 7 3 (Some [9]) True), (2, HostLocal 7)]);
       h = contract_hash (env_idb bare_env) 7;
       ms = [(3, 4, Interests []), (4, 5, ChangeInterests [] [h]), (5, 4, Summaries [(h, Some [8])]),
             (6, 5, ResyncRequest 7), (7, 4, ResyncResponse 7 [2] [1])];
       n' = fold (\<lambda>(now, source, m) n. snd (handle_interest_sync_message bare_env now source m n)) ms n
   in get_peer_interest (interest n') 7 3 =
      Some \<lparr>pi_summary = Some [9], summary_absence = NeverPopulated, last_refreshed = 1, is_upstream = True\<rparr>"
proof -
  let ?n = "bare_node (bare_run [(1, RegisterPeer 7 3 (Some [9]) True), (2, HostLocal 7)])"
  let ?h = "contract_hash (env_idb bare_env) 7"
  let ?ms = "[(3, 4, Interests []), (4, 5, ChangeInterests [] [?h]), (5, 4, Summaries [(?h, Some [8])]),
             (6, 5, ResyncRequest 7), (7, 4, ResyncResponse 7 [2] [1])] :: (instant \<times> nat \<times> nat InterestMessage) list"
  have "\<forall>(now, source, m) \<in> set ?ms. \<forall>w. get_peer_by_addr bare_env w source \<noteq> Some 3" by (simp add: bare_env_def)
  note p = peer_speaks_for_itself[OF bare_run_ok this]
  have "get_peer_interest (interest ?n) 7 3 =
      Some \<lparr>pi_summary = Some [9], summary_absence = NeverPopulated, last_refreshed = 1, is_upstream = True\<rparr>"
    by (simp add: bare_eval)
  with p[of "[(1, RegisterPeer 7 3 (Some [9]) True), (2, HostLocal 7)]"] show ?thesis by (simp only: Let_def)
qed

theorem responses_applied_once_per_request_witness:
  "let n = bare_node im_new; es = [(1, Requested 7 3), (2, Received 3 (ResyncResponse 7 [2] [1])),
        (3, Received 3 (ResyncResponse 7 [2] [1]))]
   in solicited_count bare_env 7 3 es n \<le> requested_count bare_env 7 3 es \<and> requested_count bare_env 7 3 es = 1"
proof -
  let ?es = "[(1, Requested 7 3), (2, Received 3 (ResyncResponse 7 [2] [1])),
        (3, Received 3 (ResyncResponse 7 [2] [1]))] :: (instant \<times> (nat, nat) sync_event) list"
  have "orr_entries (outstanding_resync_requests (bare_node im_new)) = []" by (simp add: bare_node_def orr_new_def)
  note bound = responses_applied_once_per_request[OF this, of bare_env 7 3 ?es, THEN conjunct1]
  have "requested_count bare_env 7 3 ?es = 1" by (simp add: requested_count_def bare_env_def)
  with bound show ?thesis by (simp only: Let_def)
qed

end
