(* ===== verification/Ring_Location.thy ===== *)
theory Ring_Location
  imports Prelude Float64 "HOL-Library.Word"
begin

text \<open>
  Locations on the ring and the distances between them (\<open>ring/location.rs\<close>): the interval from 0 to 1 with its
  ends glued together, in binary64 arithmetic. Every location and every distance the code makes is in range,
  the distance is the length of the shorter arc up to one rounding, and the comparison that claims to be an
  equality is not one.
\<close>

unbundle bit_operations_syntax

section \<open>Locations\<close>

datatype Location = Location (as_f64: rat)

datatype Distance = Distance (distance_f64: rat)

datatype IpAddr = V4 "32 word" | V6 "16 word list"

record SocketAddr =
  ip :: IpAddr
  port :: "16 word"

definition distribute_hash :: "64 word \<Rightarrow> 64 word" where
  "distribute_hash x =
    (let h = x * 0x517cc1b727220a95;
         h = h XOR drop_bit 32 h;
         h = h * 0x4cf5ad432745937f;
         h = h XOR drop_bit 28 h;
         h = h * 0x2f38a814cad5c4ed
     in h XOR drop_bit 31 h)"

fun is_loopback :: "IpAddr \<Rightarrow> bool" where
  "is_loopback (V4 a) = (drop_bit 24 a = 127)"
| "is_loopback (V6 segments) = (segments = [0, 0, 0, 0, 0, 0, 0, 1])"

definition hash_location :: "64 word \<Rightarrow> Location" where
  "hash_location hash_input =
    Location (fdiv (nat_f64 (unat (distribute_hash hash_input))) (nat_f64 (2 ^ 64 - 1)))"

definition deterministic_loc :: "SocketAddr \<Rightarrow> Location" where
  "deterministic_loc addr =
    (case ip addr of
       V4 value \<Rightarrow>
         let masked_value = value AND 0xFFFFFF00
         in hash_location (if is_loopback (ip addr)
              then ucast masked_value OR push_bit 32 (ucast (port addr)) else ucast masked_value)
     | V6 segments \<Rightarrow>
         let combined_segments = push_bit 32 (ucast (segments ! 0)) OR push_bit 16 (ucast (segments ! 1)) OR ucast (segments ! 2)
         in hash_location (if is_loopback (ip addr) \<or> combined_segments = 0
              then combined_segments OR push_bit 48 (ucast (port addr)) else combined_segments))"

definition from_address :: "SocketAddr \<Rightarrow> Location" where
  "from_address addr = deterministic_loc addr"

definition location_new :: "rat \<Rightarrow> Location" where
  "location_new x = Location x"

text \<open>\<open>f64::rem_euclid(1.0)\<close>: the remainder of the truncated division, which is exact, made non-negative.\<close>

definition rem_euclid_1 :: "rat \<Rightarrow> rat" where
  "rem_euclid_1 x =
    (let r = (if 0 \<le> x then x - of_int \<lfloor>x\<rfloor> else x - of_int \<lceil>x\<rceil>)
     in if r < 0 then fadd r 1 else r)"

definition new_rounded :: "rat \<Rightarrow> Location" where
  "new_rounded x = location_new (rem_euclid_1 x)"

definition try_from :: "rat \<Rightarrow> Location option" where
  "try_from value = (if \<not> (0 \<le> value \<and> value \<le> 1) then None else Some (Location value))"

fun key_sum :: "8 word list \<Rightarrow> rat \<Rightarrow> rat \<Rightarrow> rat" where
  "key_sum [] value divisor = value"
| "key_sum (b # bs) value divisor =
    key_sum bs (fadd value (fdiv (nat_f64 (unat b)) divisor)) (fmul divisor 256)"

text \<open>\<^const>\<open>None\<close> is the panic of \<open>expect\<close>.\<close>

definition from_contract_key :: "8 word list \<Rightarrow> Location option" where
  "from_contract_key bytes = try_from (key_sum bytes 0 256)"

definition F64_EPSILON :: rat where
  "F64_EPSILON = 1 / 2 ^ 52"

definition location_eq :: "Location \<Rightarrow> Location \<Rightarrow> bool" where
  "location_eq a b \<longleftrightarrow> \<bar>fsub (as_f64 a) (as_f64 b)\<bar> < F64_EPSILON"

definition location_less :: "Location \<Rightarrow> Location \<Rightarrow> bool" where
  "location_less a b \<longleftrightarrow> as_f64 a < as_f64 b"

section \<open>Distances\<close>

definition distance_new :: "rat \<Rightarrow> Distance" where
  "distance_new value = (if value \<le> 1 / 2 then Distance value else Distance (fsub 1 value))"

definition distance :: "Location \<Rightarrow> Location \<Rightarrow> Distance" where
  "distance l other =
    (let d = \<bar>fsub (as_f64 l) (as_f64 other)\<bar>
     in if d < 1 / 2 then distance_new d else distance_new (fsub 1 d))"

definition signed_distance :: "Location \<Rightarrow> Location \<Rightarrow> rat" where
  "signed_distance l other =
    (let diff = fsub (as_f64 other) (as_f64 l)
     in if diff > 1 / 2 then fsub diff 1
        else if diff < - (1 / 2) then fadd diff 1
        else if diff = - (1 / 2) then 1 / 2
        else diff)"

definition distance_add :: "Distance \<Rightarrow> Distance \<Rightarrow> Distance" where
  "distance_add x y =
    (let d = fadd (distance_f64 x) (distance_f64 y)
     in if d > 1 / 2 then distance_new (fsub 1 d) else distance_new d)"

definition location_plus :: "Location \<Rightarrow> Distance \<Rightarrow> Location \<times> Location" where
  "location_plus l d = (Location (fsub (as_f64 l) (distance_f64 d)), Location (fadd (as_f64 l) (distance_f64 d)))"

definition distance_eq :: "Distance \<Rightarrow> Distance \<Rightarrow> bool" where
  "distance_eq a b \<longleftrightarrow> \<bar>fsub (distance_f64 a) (distance_f64 b)\<bar> < F64_EPSILON"

definition distance_less :: "Distance \<Rightarrow> Distance \<Rightarrow> bool" where
  "distance_less a b \<longleftrightarrow> distance_f64 a < distance_f64 b"

section \<open>Ranges\<close>

definition valid_location :: "Location \<Rightarrow> bool" where
  "valid_location l \<longleftrightarrow> is_f64 (as_f64 l) \<and> 0 \<le> as_f64 l \<and> as_f64 l \<le> 1"

definition valid_distance :: "Distance \<Rightarrow> bool" where
  "valid_distance d \<longleftrightarrow> is_f64 (distance_f64 d) \<and> 0 \<le> distance_f64 d \<and> distance_f64 d \<le> 1 / 2"

lemma f64_rnd_abs: "f64_rnd \<bar>x\<bar> = \<bar>f64_rnd x\<bar>"
  using f64_rnd_nonneg[of x] f64_rnd_nonneg[of "- x"] by (cases "0 \<le> x") (auto simp: f64_rnd_minus)

lemma fsub_swap: "fsub a b = - fsub b a"
  using f64_rnd_minus[of "b - a"] by (simp add: fsub_def)

lemma abs_fsub: "\<bar>fsub a b\<bar> = f64_rnd \<bar>a - b\<bar>"
  by (simp add: fsub_def f64_rnd_abs)

lemma rnd_unit: "0 \<le> x \<Longrightarrow> x \<le> 1 \<Longrightarrow> 0 \<le> f64_rnd x \<and> f64_rnd x \<le> 1"
  using f64_rnd_le[of x 1] f64_rnd_nonneg[of x] by simp

lemma gap_unit: "valid_location l \<Longrightarrow> valid_location m \<Longrightarrow>
    0 \<le> \<bar>fsub (as_f64 l) (as_f64 m)\<bar> \<and> \<bar>fsub (as_f64 l) (as_f64 m)\<bar> \<le> 1"
  unfolding abs_fsub by (intro rnd_unit) (auto simp: valid_location_def)

text \<open>The larger half of the ring is folded onto the smaller.\<close>

lemma fold_half: "1 / 2 \<le> d \<Longrightarrow> d \<le> 1 \<Longrightarrow> 0 \<le> fsub 1 d \<and> fsub 1 d \<le> 1 / 2"
  using f64_rnd_nonneg[of "1 - d"] f64_rnd_le[of "1 - d" "1 / 2"] by (simp add: fsub_def)

text \<open>Folding the larger half is exact.\<close>

lemma fold_exact:
  assumes "is_f64 d" "1 / 2 \<le> d" "d \<le> 1"
  shows "fsub 1 d = 1 - d"
proof (cases "d = 1")
  case False
  have "rexp d = - 1" using assms(2,3) False by (intro rexp_eqI) (simp_all add: pow2_def)
  then have d: "d = of_int (round_even (d / ulp d)) * pow2 (- 53)"
    using assms(1,2) by (simp add: is_f64_def f64_rnd_def ulp_def split: if_splits)
  let ?m = "2 ^ 53 - round_even (d / ulp d)"
  have one: "(1 :: rat) = of_int (2 ^ 53) * pow2 (- 53)" by (simp add: pow2_def)
  have "1 - d = of_int ?m * pow2 (- 53)" by (subst d, subst one) (simp only: of_int_diff left_diff_distrib)
  moreover have "\<bar>?m\<bar> \<le> 2 ^ 53"
  proof -
    have "0 \<le> round_even (d / ulp d)" using round_even_mono[of 0 "d / ulp d"] round_even_of_int[of 0] assms(2) by simp
    moreover have "0 \<le> ?m"
    proof -
      have "of_int 0 * pow2 (- 53) \<le> of_int ?m * pow2 (- 53)" using assms(3) \<open>1 - d = of_int ?m * pow2 (- 53)\<close> by simp
      then show ?thesis by (simp only: mult_le_cancel_right_pos[OF pow2_pos] of_int_le_iff)
    qed
    ultimately show ?thesis by simp
  qed
  ultimately have "is_f64 (1 - d)" using is_f64_scaled[of ?m "- 53"] by simp
  then show ?thesis by (simp add: fsub_def is_f64_def)
qed (simp add: fsub_def)

lemma distance_alt:
  assumes "valid_location l" "valid_location m"
  shows "distance l m = (let d = \<bar>fsub (as_f64 l) (as_f64 m)\<bar> in Distance (if d < 1 / 2 then d else fsub 1 d))"
  using gap_unit[OF assms] fold_half[of "\<bar>fsub (as_f64 l) (as_f64 m)\<bar>"]
  by (auto simp: distance_def Let_def distance_new_def)

lemma distance_valid: "valid_location l \<Longrightarrow> valid_location m \<Longrightarrow> valid_distance (distance l m)"
  using gap_unit[of l m] fold_half[of "\<bar>fsub (as_f64 l) (as_f64 m)\<bar>"]
  by (auto simp: distance_alt valid_distance_def Let_def abs_fsub) (simp_all add: fsub_def)

lemma distance_sym: "distance l m = distance m l"
  unfolding distance_def using fsub_swap[of "as_f64 l" "as_f64 m"] by simp

lemma signed_distance_abs:
  assumes "valid_location l" "valid_location m"
  shows "\<bar>signed_distance l m\<bar> = distance_f64 (distance l m)" "- (1 / 2) < signed_distance l m" "signed_distance l m \<le> 1 / 2"
proof -
  let ?diff = "fsub (as_f64 m) (as_f64 l)"
  have d: "\<bar>fsub (as_f64 l) (as_f64 m)\<bar> = \<bar>?diff\<bar>" using fsub_swap[of "as_f64 l" "as_f64 m"] by simp
  have b: "\<bar>?diff\<bar> \<le> 1" using gap_unit[OF assms] d by simp
  have half: "fsub 1 (1 / 2) = 1 / 2" using is_f64_half by (simp add: fsub_def is_f64_def)
  have dist: "distance_f64 (distance l m) = (if \<bar>?diff\<bar> < 1 / 2 then \<bar>?diff\<bar> else fsub 1 \<bar>?diff\<bar>)"
    using distance_alt[OF assms] by (simp add: d Let_def)
  have up: "fsub ?diff 1 = - fsub 1 ?diff" and down: "fadd ?diff 1 = fsub 1 (- ?diff)"
    using fsub_swap[of ?diff 1] by (simp_all add: fadd_def fsub_def add.commute)
  consider "?diff > 1 / 2" | "?diff < - (1 / 2)" | "?diff = - (1 / 2)" | "?diff = 1 / 2" | "- (1 / 2) < ?diff" "?diff < 1 / 2"
    by linarith
  then have "\<bar>signed_distance l m\<bar> = distance_f64 (distance l m) \<and> - (1 / 2) < signed_distance l m \<and> signed_distance l m \<le> 1 / 2"
  proof cases
    case 1
    then have "signed_distance l m = - fsub 1 ?diff" by (simp add: signed_distance_def Let_def up)
    moreover have "fsub 1 ?diff = 1 - ?diff" using 1 b by (intro fold_exact) (simp_all add: fsub_def)
    ultimately show ?thesis using 1 b dist by simp
  next
    case 2
    then have "signed_distance l m = fsub 1 (- ?diff)" by (simp add: signed_distance_def Let_def down)
    then show ?thesis using 2 fold_half[of "- ?diff"] b dist by simp
  next
    case 3
    then show ?thesis using dist half by (simp add: signed_distance_def)
  next
    case 4
    then show ?thesis using dist half unfolding signed_distance_def Let_def 4 by simp
  next
    case 5
    then have "\<bar>?diff\<bar> < 1 / 2" by linarith
    then show ?thesis using dist 5 by (simp add: signed_distance_def Let_def)
  qed
  then show "\<bar>signed_distance l m\<bar> = distance_f64 (distance l m)" "- (1 / 2) < signed_distance l m" "signed_distance l m \<le> 1 / 2"
    by simp_all
qed

lemma distance_add_valid: "valid_distance d \<Longrightarrow> valid_distance e \<Longrightarrow> valid_distance (distance_add d e)"
proof -
  assume "valid_distance d" "valid_distance e"
  then have b: "0 \<le> fadd (distance_f64 d) (distance_f64 e) \<and> fadd (distance_f64 d) (distance_f64 e) \<le> 1"
    unfolding fadd_def by (intro rnd_unit) (auto simp: valid_distance_def)
  then show ?thesis using fold_half[of "fadd (distance_f64 d) (distance_f64 e)"]
    by (auto simp: distance_add_def distance_new_def valid_distance_def Let_def) (simp_all add: fadd_def fsub_def)
qed

lemma hash_location_valid: "valid_location (hash_location h)"
proof -
  let ?n = "unat (distribute_hash h)"
  have n: "nat_f64 ?n \<le> nat_f64 (2 ^ 64 - 1)" by (intro nat_f64_mono) (use unsigned_less[of "distribute_hash h", where 'a = nat] in simp)
  have "nat_f64 1 \<le> nat_f64 (2 ^ 64 - 1)" by (intro nat_f64_mono) simp
  moreover have "nat_f64 1 = 1" using nat_f64_exact[of 1] by simp
  ultimately have "0 < nat_f64 (2 ^ 64 - 1)" by simp
  with n have "0 \<le> nat_f64 ?n / nat_f64 (2 ^ 64 - 1) \<and> nat_f64 ?n / nat_f64 (2 ^ 64 - 1) \<le> 1" by simp
  then show ?thesis using rnd_unit by (simp add: hash_location_def valid_location_def fdiv_def)
qed

lemma from_address_valid: "valid_location (from_address addr)"
  by (simp add: from_address_def deterministic_loc_def Let_def hash_location_valid split: IpAddr.splits)

lemma new_rounded_valid: "is_f64 x \<Longrightarrow> valid_location (new_rounded x)"
proof (cases "0 \<le> x")
  case True
  assume "is_f64 x"
  then have "is_f64 (x - of_int \<lfloor>x\<rfloor>)" using True by (rule is_f64_frac)
  moreover have "\<not> x - of_int \<lfloor>x\<rfloor> < 0" "x - of_int \<lfloor>x\<rfloor> \<le> 1" by linarith+
  ultimately show ?thesis using True
    by (simp add: new_rounded_def location_new_def rem_euclid_1_def valid_location_def Let_def)
next
  case False
  assume f: "is_f64 x"
  let ?r = "x - of_int \<lceil>x\<rceil>"
  have r: "?r \<le> 0" "- 1 < ?r" by linarith+
  have "0 \<le> fadd ?r 1 \<and> fadd ?r 1 \<le> 1" unfolding fadd_def using r by (intro rnd_unit) simp_all
  moreover have "is_f64 (fadd ?r 1)" by (simp add: fadd_def)
  moreover have "\<not> ?r < 0 \<Longrightarrow> ?r = 0" using r by linarith
  ultimately show ?thesis using False
    by (cases "?r < 0") (simp_all add: new_rounded_def location_new_def rem_euclid_1_def valid_location_def Let_def)
qed

text \<open>
  The sum over the bytes of a key: exact for six bytes, never above 1 afterwards, because what the later bytes
  add is less than half a unit in the last place of 1.
\<close>

definition key_cap :: "nat \<Rightarrow> rat" where
  "key_cap k = (if k \<le> 6 then 1 - 1 / 256 ^ k else 1)"

lemma key_cap_le: "key_cap k \<le> 1"
  by (simp add: key_cap_def)

lemma pow2_256: "pow2 (- (8 * int k)) = 1 / 256 ^ k" "pow2 (8 * int k) = 256 ^ k"
proof -
  have "(256 :: rat) ^ k = 2 ^ (8 * k)" by (simp add: power_mult)
  moreover have "nat (8 * int k) = 8 * k" by simp
  ultimately show "pow2 (- (8 * int k)) = 1 / 256 ^ k" "pow2 (8 * int k) = 256 ^ k" by (simp_all add: pow2_def)
qed

lemma is_f64_key:
  "k \<le> 128 \<Longrightarrow> n \<le> 2 ^ 53 \<Longrightarrow> is_f64 (of_nat n / 256 ^ k)" "is_f64 (256 ^ k)"
  using is_f64_scaled[of "int n" "- (8 * int k)"] is_f64_scaled[of 1 "8 * int k"] by (simp_all add: pow2_256)

lemma rnd_above_one: "0 \<le> x \<Longrightarrow> x \<le> 1 / 2 ^ 54 \<Longrightarrow> f64_rnd (1 + x) = 1"
  using f64_rnd_eqI[of 0 "1 + x" "2 ^ 52"] by (simp add: pow2_def field_simps)

lemma key_step:
  assumes v: "0 \<le> v" "v \<le> key_cap k" and b: "b \<le> 255"
  shows "f64_rnd (v + of_nat b / 256 ^ Suc k) \<le> key_cap (Suc k)"
proof -
  have b': "of_nat b / 256 ^ Suc k \<le> (255 :: rat) / 256 ^ Suc k"
    using b by (intro divide_right_mono) (simp_all add: of_nat_le_iff[of b 255, where 'a = rat, simplified])
  consider "k \<le> 5" | "k = 6" | "k \<ge> 7" by linarith
  then show ?thesis
  proof cases
    case 1
    have "(1 :: rat) / 256 ^ k = 255 / 256 ^ Suc k + 1 / 256 ^ Suc k" by (simp add: add_divide_distrib[symmetric])
    then have "v + of_nat b / 256 ^ Suc k \<le> 1 - 1 / 256 ^ Suc k" using v(2) b' 1 unfolding key_cap_def by simp
    moreover have "is_f64 (1 - 1 / 256 ^ Suc k)"
    proof -
      have "(256 :: nat) ^ Suc k \<le> 256 ^ 6" using 1 by (intro power_increasing) auto
      then have "256 ^ Suc k - 1 \<le> (2 ^ 53 :: nat)" by simp
      moreover have "(1 - 1 / 256 ^ Suc k :: rat) = of_nat (256 ^ Suc k - 1) / 256 ^ Suc k"
        by (simp add: of_nat_diff field_simps)
      ultimately show ?thesis using is_f64_key(1)[of "Suc k" "256 ^ Suc k - 1"] 1 by simp
    qed
    ultimately show ?thesis using f64_rnd_le[of "v + of_nat b / 256 ^ Suc k" "1 - 1 / 256 ^ Suc k"] 1 by (simp add: key_cap_def)
  next
    case 2
    have "v + of_nat b / 256 ^ Suc k \<le> 1" using v(2) b' 2 by (simp add: key_cap_def)
    then show ?thesis using f64_rnd_le[of _ 1] 2 by (simp add: key_cap_def)
  next
    case 3
    have "(256 :: rat) ^ 8 \<le> 256 ^ Suc k" using 3 by (intro power_increasing) auto
    then have "(255 :: rat) / 256 ^ Suc k \<le> 255 / 256 ^ 8" by (intro divide_left_mono) auto
    also have "\<dots> \<le> 1 / 2 ^ 54" by simp
    finally have "of_nat b / 256 ^ Suc k \<le> (1 / 2 ^ 54 :: rat)" using b' by (rule order.trans[rotated])
    then have "v + of_nat b / 256 ^ Suc k \<le> 1 + 1 / 2 ^ 54" using v(2) key_cap_le[of k] by (intro add_mono) simp_all
    then have "f64_rnd (v + of_nat b / 256 ^ Suc k) \<le> f64_rnd (1 + 1 / 2 ^ 54)" by (rule f64_rnd_mono)
    then show ?thesis using rnd_above_one[of "1 / 2 ^ 54"] 3 by (simp add: key_cap_def)
  qed
qed

lemma key_sum_unit:
  "0 \<le> v \<Longrightarrow> v \<le> key_cap k \<Longrightarrow> is_f64 v \<Longrightarrow> k + length bs \<le> 127 \<Longrightarrow>
    0 \<le> key_sum bs v (256 ^ Suc k) \<and> key_sum bs v (256 ^ Suc k) \<le> 1 \<and> is_f64 (key_sum bs v (256 ^ Suc k))"
proof (induction bs arbitrary: v k)
  case Nil
  then show ?case using key_cap_le[of k] by simp
next
  case (Cons b bs)
  have b: "unat b \<le> 255" using unsigned_less[of b, where 'a = nat] by simp
  have q: "fdiv (nat_f64 (unat b)) (256 ^ Suc k) = of_nat (unat b) / 256 ^ Suc k"
    using is_f64_key(1)[of "Suc k" "unat b"] b Cons.prems(4) nat_f64_exact[of "unat b"] by (simp add: fdiv_def is_f64_def)
  have d: "fmul (256 ^ Suc k) 256 = 256 ^ Suc (Suc k)"
    using is_f64_key(2)[of "Suc (Suc k)"] by (simp add: fmul_def is_f64_def mult.commute)
  let ?v = "f64_rnd (v + of_nat (unat b) / 256 ^ Suc k)"
  have "key_sum (b # bs) v (256 ^ Suc k) = key_sum bs ?v (256 ^ Suc (Suc k))"
    by (simp only: key_sum.simps q d) (simp add: fadd_def)
  moreover have "0 \<le> ?v" using Cons.prems(1) by (intro f64_rnd_nonneg add_nonneg_nonneg divide_nonneg_nonneg of_nat_0_le_iff) simp_all
  moreover have "?v \<le> key_cap (Suc k)" using key_step[OF Cons.prems(1,2) b] .
  ultimately show ?case using Cons.IH[of ?v "Suc k"] Cons.prems(4) by simp
qed

lemma from_contract_key_valid:
  assumes "length bs \<le> 127"
  shows "\<exists>l. from_contract_key bs = Some l \<and> valid_location l"
  using key_sum_unit[of 0 0 bs] assms by (simp add: from_contract_key_def try_from_def valid_location_def key_cap_def)

text \<open>
  C24: locations and distances stay in range. The location of any address is a double from 0 to 1; a contract key
  of 32 bytes always has one, so the \<open>expect\<close> in \<open>from_contract_key\<close> never panics; rounding any double onto the
  ring gives one. The distance of two locations is a double from 0 to one half, the same in both directions, and
  the size of their signed distance, which lies above minus one half; sums of distances stay in that range.
\<close>

theorem location_ranges:
  "(\<forall>addr. valid_location (from_address addr)) \<and>
   (\<forall>bs. length bs = 32 \<longrightarrow> (\<exists>l. from_contract_key bs = Some l \<and> valid_location l)) \<and>
   (\<forall>x. is_f64 x \<longrightarrow> valid_location (new_rounded x)) \<and>
   (\<forall>l m. valid_location l \<and> valid_location m \<longrightarrow> valid_distance (distance l m) \<and> distance l m = distance m l \<and>
      \<bar>signed_distance l m\<bar> = distance_f64 (distance l m) \<and> - (1 / 2) < signed_distance l m \<and> signed_distance l m \<le> 1 / 2) \<and>
   (\<forall>d e. valid_distance d \<and> valid_distance e \<longrightarrow> valid_distance (distance_add d e))"
  using from_address_valid from_contract_key_valid new_rounded_valid distance_valid distance_sym signed_distance_abs
    distance_add_valid by auto

theorem location_ranges_witness:
  "valid_location (Location (1 / 4)) \<and> valid_distance (distance (Location (1 / 4)) (Location 1)) \<and>
   (\<exists>l. from_contract_key (replicate 32 255) = Some l \<and> valid_location l)"
proof -
  have q: "is_f64 (1 / 4)" using is_f64_scaled[of 1 "- 2"] by (simp add: pow2_def)
  then have "valid_location (Location (1 / 4))" "valid_location (Location 1)" by (simp_all add: valid_location_def)
  moreover have "length (replicate 32 255) = 32" by simp
  ultimately show ?thesis using location_ranges by blast
qed

section \<open>The length of the arc\<close>

text \<open>The shorter of the two arcs between two points, exactly.\<close>

definition arc :: "Location \<Rightarrow> Location \<Rightarrow> rat" where
  "arc l m = (let d = \<bar>as_f64 l - as_f64 m\<bar> in min d (1 - d))"

lemma arc_triangle:
  assumes "valid_location l" "valid_location m" "valid_location k"
  shows "arc l k \<le> arc l m + arc m k"
  using assms unfolding arc_def valid_location_def Let_def by (auto simp: min_def abs_if split: if_splits)

lemma unit_rnd_error:
  assumes "0 \<le> x" "x \<le> 1"
  shows "\<bar>f64_rnd x - x\<bar> \<le> 1 / 2 ^ 54"
proof (cases "x = 0 \<or> x = 1")
  case False
  then have "x \<noteq> 0" "x < 1" using assms by auto
  have "rexp x \<le> - 1"
  proof -
    have "pow2 (rexp x) < pow2 0" using rexp_bounds(1)[OF \<open>x \<noteq> 0\<close>] \<open>x < 1\<close> assms(1) by (simp add: pow2_def)
    then show ?thesis by (simp add: pow2_strict)
  qed
  then have "ulp x \<le> pow2 (- 53)" unfolding ulp_def by (intro pow2_mono) simp
  also have "pow2 (- 53) = 1 / 2 ^ 53" by (simp add: pow2_def)
  finally show ?thesis using f64_rnd_error[of x] by simp
qed (auto simp: f64_rnd_numeral)

lemma distance_arc:
  assumes "valid_location l" "valid_location m"
  shows "\<bar>distance_f64 (distance l m) - arc l m\<bar> \<le> 1 / 2 ^ 54"
proof -
  let ?x = "\<bar>as_f64 l - as_f64 m\<bar>"
  have x: "0 \<le> ?x" "?x \<le> 1" using assms by (auto simp: valid_location_def)
  have d: "\<bar>f64_rnd ?x - ?x\<bar> \<le> 1 / 2 ^ 54" "0 \<le> f64_rnd ?x" "f64_rnd ?x \<le> 1"
    using unit_rnd_error[OF x] rnd_unit[OF x] by auto
  have "distance_f64 (distance l m) = min (f64_rnd ?x) (1 - f64_rnd ?x)"
    using distance_alt[OF assms] fold_exact[of "f64_rnd ?x"] d(3) by (auto simp: Let_def abs_fsub min_def)
  then show ?thesis using d(1) unfolding arc_def Let_def by (auto simp: min_def abs_if split: if_splits)
qed

text \<open>
  The distance is the length of the shorter arc up to one rounding, at most 2 to the power -54, and hence
  satisfies the triangle inequality up to three roundings.
\<close>

theorem distance_approximates_arc:
  assumes "valid_location l" "valid_location m" "valid_location k"
  shows "\<bar>distance_f64 (distance l m) - arc l m\<bar> \<le> 1 / 2 ^ 54 \<and>
    distance_f64 (distance l k) \<le> distance_f64 (distance l m) + distance_f64 (distance m k) + 3 / 2 ^ 54"
  using distance_arc[OF assms(1,2)] distance_arc[OF assms(2,3)] distance_arc[OF assms(1,3)] arc_triangle[OF assms]
  by linarith

theorem distance_approximates_arc_witness:
  "\<bar>distance_f64 (distance (Location 0) (Location 1)) - 0\<bar> \<le> 1 / 2 ^ 54 \<and>
   distance_f64 (distance (Location 0) (Location (1 / 2))) \<le>
     distance_f64 (distance (Location 0) (Location 1)) + distance_f64 (distance (Location 1) (Location (1 / 2))) + 3 / 2 ^ 54"
proof -
  have "valid_location (Location 0)" "valid_location (Location 1)" "valid_location (Location (1 / 2))"
    by (simp_all add: valid_location_def)
  from distance_approximates_arc[OF this] show ?thesis by (simp add: arc_def)
qed

section \<open>Comparison\<close>

lemma location_eps: "k \<le> 2 ^ 53 \<Longrightarrow> valid_location (Location (of_nat k / 2 ^ 53))"
  using is_f64_scaled[of "int k" "- 53"] by (simp add: valid_location_def pow2_def field_simps of_nat_le_iff[of k "2 ^ 53", where 'a = rat, simplified])

text \<open>
  The equality of locations is not an equivalence: there are three locations of which the first equals the
  second and the second the third, but not the first the third; and the order calls the first less than the
  second, which it equals.
\<close>

theorem location_eq_not_transitive:
  "\<exists>a b c. valid_location a \<and> valid_location b \<and> valid_location c \<and>
    location_eq a b \<and> location_eq b c \<and> \<not> location_eq a c \<and> location_less a b"
proof -
  let ?l = "\<lambda>k. Location (of_nat k / 2 ^ 53)"
  have one: "is_f64 (1 / 2 ^ 53)" "is_f64 (2 / 2 ^ 53)" 
    using is_f64_scaled[of 1 "- 53"] is_f64_scaled[of 2 "- 53"] by (simp_all add: pow2_def)
  have "location_eq (?l 0) (?l 1)" "location_eq (?l 1) (?l 2)" "\<not> location_eq (?l 0) (?l 2)" "location_less (?l 0) (?l 1)"
    using one by (simp_all add: location_eq_def location_less_def abs_fsub F64_EPSILON_def is_f64_def)
  then show ?thesis using location_eps[of 0] location_eps[of 1] location_eps[of 2] by (intro exI[of _ "?l 0"] exI[of _ "?l 1"] exI[of _ "?l 2"]) simp
qed

section \<open>Addresses\<close>

lemma xorshift_inj:
  fixes x y :: "64 word"
  assumes eq: "x XOR drop_bit n x = y XOR drop_bit n y" and n: "0 < n"
  shows "x = y"
proof (rule bit_eqI)
  have step: "bit x i = bit y i \<longleftrightarrow> bit x (n + i) = bit y (n + i)" if "i < 64" for i
    using arg_cong[OF eq, of "\<lambda>w. bit w i"] that by (auto simp: bit_xor_iff bit_drop_bit_eq)
  fix i
  show "bit x i = bit y i"
  proof (induction "64 - i" arbitrary: i rule: less_induct)
    case less
    show ?case
    proof (cases "i < 64")
      case True
      then show ?thesis using step[OF True] less[of "n + i"] n by simp
    next
      case False
      then show ?thesis using bit_imp_le_length[of x i] bit_imp_le_length[of y i] by auto
    qed
  qed
qed

lemma odd_mult_inj:
  fixes c d x y :: "64 word"
  assumes "c * d = 1" "x * c = y * c"
  shows "x = y"
  using arg_cong[OF assms(2), of "\<lambda>z. z * d"] assms(1) by (simp add: mult.assoc)

lemma mixing_factors:
  "(0x517cc1b727220a95 :: 64 word) * 0x2040003d780970bd = 1"
  "(0x4cf5ad432745937f :: 64 word) * 0xa81e14edd9de2c7f = 1"
  "(0x2f38a814cad5c4ed :: 64 word) * 0x354930355f1f38e5 = 1"
  by simp_all

lemma distribute_hash_inj: "inj distribute_hash"
proof (rule injI)
  fix x y
  assume "distribute_hash x = distribute_hash y"
  note h = this[unfolded distribute_hash_def Let_def]
  note 1 = odd_mult_inj[OF mixing_factors(3) xorshift_inj[OF h zero_less_numeral]]
  note 2 = odd_mult_inj[OF mixing_factors(2) xorshift_inj[OF 1 zero_less_numeral]]
  show "x = y" by (rule odd_mult_inj[OF mixing_factors(1) xorshift_inj[OF 2 zero_less_numeral]])
qed

lemma mask_low_byte: "(a :: 32 word) AND 0xFFFFFF00 = push_bit 8 (drop_bit 8 a)"
proof -
  have m: "(0xFFFFFF00 :: 32 word) = push_bit 8 (mask 24)" by (simp add: mask_eq_exp_minus_1 push_bit_eq_mult)
  show ?thesis unfolding m
    by (auto intro!: bit_eqI simp: bit_and_iff bit_push_bit_iff bit_mask_iff bit_drop_bit_eq)
qed

lemma loopback_network: "drop_bit 8 a = drop_bit 8 b \<Longrightarrow> is_loopback (V4 a) \<longleftrightarrow> is_loopback (V4 b)"
  using drop_bit_drop_bit[of 16 8 a] drop_bit_drop_bit[of 16 8 b] by simp

text \<open>
  The location of a peer is that of its network. Two IPv4 addresses outside the loop-back network that agree
  in their first three bytes have the same location whatever their last byte and their ports, and so have two
  IPv6 addresses that agree in their first three segments, unless these are zero. A host thus gains no choice of
  location from the addresses of its network. The hash that spreads the networks over the ring is a permutation
  of the 64-bit words, so no two networks collide before the final division.
\<close>

theorem location_of_network:
  "(\<forall>a b pa pb. drop_bit 8 a = drop_bit 8 b \<and> \<not> is_loopback (V4 a) \<longrightarrow>
      from_address \<lparr>ip = V4 a, port = pa\<rparr> = from_address \<lparr>ip = V4 b, port = pb\<rparr>) \<and>
   (\<forall>s t u xs ys pa pb. push_bit 32 (ucast s) OR push_bit 16 (ucast t) OR ucast u \<noteq> (0 :: 64 word) \<longrightarrow>
      from_address \<lparr>ip = V6 (s # t # u # xs), port = pa\<rparr> = from_address \<lparr>ip = V6 (s # t # u # ys), port = pb\<rparr>) \<and>
   bij distribute_hash"
proof -
  have "bij distribute_hash" using distribute_hash_inj by (simp add: finite_UNIV_inj_surj bij_def)
  then show ?thesis
    by (auto simp: from_address_def deterministic_loc_def mask_low_byte Let_def dest: loopback_network simp del: is_loopback.simps(1))
qed

theorem location_of_network_witness:
  "from_address \<lparr>ip = V4 0xC0000207, port = 4000\<rparr> = from_address \<lparr>ip = V4 0xC0000209, port = 4001\<rparr> \<and>
   from_address \<lparr>ip = V6 [0x2001, 0xdb8, 1, 0, 0, 0, 0, 1], port = 1\<rparr> =
     from_address \<lparr>ip = V6 [0x2001, 0xdb8, 1, 9, 9, 9, 9, 9], port = 2\<rparr>"
proof -
  have "drop_bit 8 (0xC0000207 :: 32 word) = drop_bit 8 0xC0000209 \<and> \<not> is_loopback (V4 0xC0000207)" by simp
  moreover have "push_bit 32 (ucast (0x2001 :: 16 word)) OR push_bit 16 (ucast (0xdb8 :: 16 word)) OR ucast (1 :: 16 word) \<noteq> (0 :: 64 word)"
    by simp
  ultimately show ?thesis using location_of_network by blast
qed

end
