(* ===== verification/Neighbor_Hosting.thy ===== *)
theory Neighbor_Hosting
  imports Prelude Message_Exchange "HOL-Library.Char_ord" "HOL-Library.List_Lexorder"
begin

text \<open>
  Which neighbours host which contracts (\<open>node/neighbor_hosting.rs\<close>): what a node advertises, and what it knows
  of the advertisements of its neighbours. Contract ids and peers are of any type; \<open>id_str\<close> is the printed form
  of an id and \<open>pkb\<close> the bytes of a public key, by which the code sorts what it takes from a hash map.
\<close>

datatype 'i NeighborHostingMessage =
    HostingAnnounce "'i list" "'i list" bool
  | HostingStateRequest
  | HostingStateResponse "'i list"

record 'i NeighborHostingResult =
  response :: "'i NeighborHostingMessage option"
  overlapping_contracts :: "'i list"

definition response_only :: "'i NeighborHostingMessage \<Rightarrow> 'i NeighborHostingResult" where
  "response_only m = \<lparr>response = Some m, overlapping_contracts = []\<rparr>"

definition empty_result :: "'i NeighborHostingResult" where
  "empty_result = \<lparr>response = None, overlapping_contracts = []\<rparr>"

text \<open>The set of the node's own contracts is listed, the sets of its neighbours are only asked for members.\<close>

record ('i, 'p) NeighborHostingManager =
  my_contracts :: "'i list"
  neighbor_contracts :: "('p, 'i set) hash_map"

definition nh_new :: "('i, 'p) NeighborHostingManager" where
  "nh_new = \<lparr>my_contracts = [], neighbor_contracts = []\<rparr>"

definition on_contract_hosted :: "'i \<Rightarrow> ('i, 'p) NeighborHostingManager \<Rightarrow>
    'i NeighborHostingMessage option \<times> ('i, 'p) NeighborHostingManager" where
  "on_contract_hosted i s =
    (if i \<in> set (my_contracts s) then (None, s)
     else (Some (HostingAnnounce [i] [] False), s\<lparr>my_contracts := i # my_contracts s\<rparr>))"

definition on_contract_unhosted :: "'i \<Rightarrow> ('i, 'p) NeighborHostingManager \<Rightarrow>
    'i NeighborHostingMessage option \<times> ('i, 'p) NeighborHostingManager" where
  "on_contract_unhosted i s =
    (if i \<in> set (my_contracts s)
     then (Some (HostingAnnounce [] [i] False), s\<lparr>my_contracts := removeAll i (my_contracts s)\<rparr>)
     else (None, s))"

definition contracts_for_peer :: "'p \<Rightarrow> ('i, 'p) NeighborHostingManager \<Rightarrow> 'i set" where
  "contracts_for_peer p s = (case map_of (neighbor_contracts s) p of None \<Rightarrow> {} | Some cs \<Rightarrow> cs)"

text \<open>The answer to contracts learnt of the neighbour: those that are new and hosted here as well.\<close>

definition reciprocate :: "'i list \<Rightarrow> 'i set \<Rightarrow> ('i, 'p) NeighborHostingManager \<Rightarrow> 'i NeighborHostingResult" where
  "reciprocate learnt previously_known s =
    (let overlapping = filter (\<lambda>i. i \<in> set (my_contracts s)) (filter (\<lambda>i. i \<notin> previously_known) learnt)
     in \<lparr>response = (if overlapping \<noteq> [] then Some (HostingAnnounce overlapping [] True) else None),
         overlapping_contracts = overlapping\<rparr>)"

fun handle_message :: "('i \<Rightarrow> string) \<Rightarrow> 'p \<Rightarrow> 'i NeighborHostingMessage \<Rightarrow> ('i, 'p) NeighborHostingManager \<Rightarrow>
    'i NeighborHostingResult \<times> ('i, 'p) NeighborHostingManager" where
  "handle_message id_str from (HostingAnnounce added removed is_response) s =
    (let previously_known = contracts_for_peer from s;
         s' = (case map_of (neighbor_contracts s) from of
                 Some cs \<Rightarrow> s\<lparr>neighbor_contracts :=
                   AList.update from ((cs \<union> set added) - set removed) (neighbor_contracts s)\<rparr>
               | None \<Rightarrow> if added \<noteq> []
                         then s\<lparr>neighbor_contracts := AList.update from (set added) (neighbor_contracts s)\<rparr>
                         else s)
     in if is_response then (empty_result, s') else (reciprocate added previously_known s', s'))"
| "handle_message id_str from HostingStateRequest s =
    (response_only (HostingStateResponse (sort_key id_str (my_contracts s))), s)"
| "handle_message id_str from (HostingStateResponse contracts) s =
    (let previously_known = contracts_for_peer from s;
         s' = s\<lparr>neighbor_contracts := AList.update from (set contracts) (neighbor_contracts s)\<rparr>
     in (reciprocate contracts previously_known s', s'))"

definition neighbors_with_contract_id :: "('p \<Rightarrow> bytes) \<Rightarrow> 'i \<Rightarrow> ('i, 'p) NeighborHostingManager \<Rightarrow> 'p list" where
  "neighbors_with_contract_id pkb i s =
    sort_key pkb (map fst (filter (\<lambda>(p, cs). i \<in> cs) (neighbor_contracts s)))"

definition on_peer_disconnected :: "'p \<Rightarrow> ('i, 'p) NeighborHostingManager \<Rightarrow> ('i, 'p) NeighborHostingManager" where
  "on_peer_disconnected p s = s\<lparr>neighbor_contracts := AList.delete p (neighbor_contracts s)\<rparr>"

definition on_ring_connection_established :: "'p \<Rightarrow> ('i, 'p) NeighborHostingManager \<Rightarrow> 'i NeighborHostingMessage option" where
  "on_ring_connection_established p s = Some HostingStateRequest"

definition initialize_from_hosting_cache :: "'i list \<Rightarrow> ('i, 'p) NeighborHostingManager \<Rightarrow> ('i, 'p) NeighborHostingManager" where
  "initialize_from_hosting_cache ids s = s\<lparr>my_contracts := fold List.insert ids (my_contracts s)\<rparr>"

definition is_hosted_locally :: "'i \<Rightarrow> ('i, 'p) NeighborHostingManager \<Rightarrow> bool" where
  "is_hosted_locally i s \<longleftrightarrow> i \<in> set (my_contracts s)"

definition local_hosted_count :: "('i, 'p) NeighborHostingManager \<Rightarrow> nat" where
  "local_hosted_count s = length (my_contracts s)"

definition neighbor_count :: "('i, 'p) NeighborHostingManager \<Rightarrow> nat" where
  "neighbor_count s = length (neighbor_contracts s)"

section \<open>What happens to a node\<close>

datatype ('i, 'p) hosting_event =
    Hosted 'i | Unhosted 'i | Arrived 'p "'i NeighborHostingMessage" | Disconnected 'p

text \<open>A step of the node, with the message it sends to neighbour \<open>q\<close>: announcements go to every neighbour, an
  answer to the neighbour that is answered.\<close>

fun hosting_step :: "('i \<Rightarrow> string) \<Rightarrow> 'p \<Rightarrow> ('i, 'p) hosting_event \<Rightarrow> ('i, 'p) NeighborHostingManager \<Rightarrow>
    'i NeighborHostingMessage list \<times> ('i, 'p) NeighborHostingManager" where
  "hosting_step id_str q (Hosted i) s = (case on_contract_hosted i s of (m, s') \<Rightarrow> (case m of None \<Rightarrow> [] | Some x \<Rightarrow> [x], s'))"
| "hosting_step id_str q (Unhosted i) s = (case on_contract_unhosted i s of (m, s') \<Rightarrow> (case m of None \<Rightarrow> [] | Some x \<Rightarrow> [x], s'))"
| "hosting_step id_str q (Arrived p m) s =
    (case handle_message id_str p m s of (r, s') \<Rightarrow>
       ((if p = q then (case response r of None \<Rightarrow> [] | Some x \<Rightarrow> [x]) else []), s'))"
| "hosting_step id_str q (Disconnected p) s = ([], on_peer_disconnected p s)"

fun hosting_run :: "('i \<Rightarrow> string) \<Rightarrow> 'p \<Rightarrow> ('i, 'p) hosting_event list \<Rightarrow> ('i, 'p) NeighborHostingManager \<Rightarrow>
    'i NeighborHostingMessage list \<times> ('i, 'p) NeighborHostingManager" where
  "hosting_run id_str q [] s = ([], s)"
| "hosting_run id_str q (e # es) s =
    (let (ms, s1) = hosting_step id_str q e s; (ms', s2) = hosting_run id_str q es s1 in (ms @ ms', s2))"

text \<open>The messages of a neighbour among the events, in order.\<close>

fun arrived_from :: "'p \<Rightarrow> ('i, 'p) hosting_event list \<Rightarrow> 'i NeighborHostingMessage list" where
  "arrived_from p [] = []"
| "arrived_from p (Arrived q m # es) = (if q = p then m # arrived_from p es else arrived_from p es)"
| "arrived_from p (e # es) = arrived_from p es"

section \<open>The view of a neighbour\<close>

text \<open>What a message does to the view of its sender, once there is one.\<close>

fun apply_view :: "'i NeighborHostingMessage \<Rightarrow> 'i set \<Rightarrow> 'i set" where
  "apply_view (HostingAnnounce added removed r) v = (v \<union> set added) - set removed"
| "apply_view HostingStateRequest v = v"
| "apply_view (HostingStateResponse cs) v = set cs"

lemma handle_message_own: "my_contracts (snd (handle_message id_str q m s)) = my_contracts s"
  by (cases m) (auto simp: Let_def split: option.splits)

lemma handle_message_other:
  "p \<noteq> q \<Longrightarrow> map_of (neighbor_contracts (snd (handle_message id_str q m s))) p = map_of (neighbor_contracts s) p"
  by (cases m) (auto simp: Let_def update_conv' split: option.splits)

lemma handle_message_known:
  "map_of (neighbor_contracts s) p = Some v \<Longrightarrow>
    map_of (neighbor_contracts (snd (handle_message id_str p m s))) p = Some (apply_view m v)"
  by (cases m) (auto simp: Let_def update_conv')

lemma response_view: "response (fst (handle_message id_str q m s)) = Some x \<Longrightarrow>
    apply_view x (set (my_contracts s)) = set (my_contracts s)"
  by (cases m) (auto simp: Let_def reciprocate_def response_only_def empty_result_def split: if_splits option.splits)

text \<open>The messages of a node, applied to its own contracts, follow its own contracts.\<close>

lemma step_view:
  assumes "hosting_step id_str q e s = (ms, s')"
  shows "fold apply_view ms (set (my_contracts s)) = set (my_contracts s')"
proof (cases e)
  case (Arrived p m)
  obtain r s1 where r: "handle_message id_str p m s = (r, s1)" by (cases "handle_message id_str p m s")
  have own: "my_contracts s1 = my_contracts s" using r handle_message_own[of id_str p m s] by simp
  have "ms = (if p = q then (case response r of None \<Rightarrow> [] | Some x \<Rightarrow> [x]) else [])" "s' = s1"
    using assms Arrived r by simp_all
  then show ?thesis using own response_view[of id_str p m s] r by (simp split: option.splits)
qed (use assms in \<open>auto simp: on_contract_hosted_def on_contract_unhosted_def on_peer_disconnected_def split: if_splits\<close>)

lemma hosting_run_view: "hosting_run id_str q es s = (ms, s') \<Longrightarrow> fold apply_view ms (set (my_contracts s)) = set (my_contracts s')"
proof (induction es arbitrary: s ms)
  case (Cons e es)
  obtain ms1 s1 where s: "hosting_step id_str q e s = (ms1, s1)" by (cases "hosting_step id_str q e s")
  obtain ms2 s2 where r: "hosting_run id_str q es s1 = (ms2, s2)" by (cases "hosting_run id_str q es s1")
  then have "s2 = s'" "ms = ms1 @ ms2" using Cons.prems s by simp_all
  with step_view[OF s] Cons.IH[of s1 ms2] r show ?case by simp
qed simp

text \<open>The view a node has of a neighbour follows the messages of the neighbour.\<close>

lemma step_known:
  assumes "map_of (neighbor_contracts s) p = Some v" "e \<noteq> Disconnected p"
  shows "map_of (neighbor_contracts (snd (hosting_step id_str q e s))) p = Some (fold apply_view (arrived_from p [e]) v)"
proof (cases e)
  case (Arrived p' m)
  then show ?thesis using assms handle_message_known[of s p v id_str m] handle_message_other[of p p' id_str m s]
    by (auto split: prod.splits)
qed (use assms in \<open>auto simp: on_contract_hosted_def on_contract_unhosted_def on_peer_disconnected_def delete_conv'\<close>)

lemma arrived_from_Cons: "arrived_from p (e # es) = arrived_from p [e] @ arrived_from p es"
  by (cases e) simp_all

lemma run_known:
  "map_of (neighbor_contracts s) p = Some v \<Longrightarrow> Disconnected p \<notin> set es \<Longrightarrow>
    map_of (neighbor_contracts (snd (hosting_run id_str q es s))) p = Some (fold apply_view (arrived_from p es) v)"
proof (induction es arbitrary: s v)
  case (Cons e es)
  obtain ms1 s1 where s: "hosting_step id_str q e s = (ms1, s1)" by (cases "hosting_step id_str q e s")
  have "map_of (neighbor_contracts s1) p = Some (fold apply_view (arrived_from p [e]) v)"
    using step_known[OF Cons.prems(1), of e id_str q] Cons.prems(2) s by auto
  from Cons.IH[OF this] Cons.prems(2) show ?case
    by (subst arrived_from_Cons) (simp add: s Let_def case_prod_beta)
qed simp

lemma run_snapshot:
  "arrived_from p es = HostingStateResponse cs # ms \<Longrightarrow> Disconnected p \<notin> set es \<Longrightarrow>
    map_of (neighbor_contracts (snd (hosting_run id_str q es s))) p = Some (fold apply_view ms (set cs))"
proof (induction es arbitrary: s)
  case (Cons e es)
  obtain ms1 s1 where s: "hosting_step id_str q e s = (ms1, s1)" by (cases "hosting_step id_str q e s")
  show ?case
  proof (cases "arrived_from p [e]")
    case Nil
    then show ?thesis using Cons.IH[of s1] Cons.prems arrived_from_Cons[of p e es] by (simp add: s Let_def case_prod_beta)
  next
    case (Cons m ms')
    then have e: "e = Arrived p (HostingStateResponse cs)" "arrived_from p es = ms"
      using Cons.prems(1) arrived_from_Cons[of p e es] by (cases e; auto split: if_splits)+
    then have "map_of (neighbor_contracts s1) p = Some (set cs)" using s by (auto simp: Let_def update_conv')
    from run_known[OF this, of es id_str q] e(2) Cons.prems(2) show ?thesis by (simp add: s Let_def case_prod_beta)
  qed
qed simp

text \<open>
  C9: advertisements are exact as long as nothing is lost. Let a node answer a request for its hosting state and
  then host and stop hosting contracts and answer whatever messages arrive, in any order. If what it sends to a
  neighbour arrives there in order, among whatever else happens to the neighbour short of losing the connection,
  then the neighbour knows exactly the contracts the node hosts. Since the answer replaces what was known, this
  holds from any state of the two: one request heals every loss before it.
\<close>

theorem advertised_view_exact:
  assumes "hosting_run id_str pB (Arrived pB HostingStateRequest # es) a = (ms, a')"
    and "arrived_from pA fs = ms" "Disconnected pA \<notin> set fs" "hosting_run id_str pA fs b = (ns, b')"
  shows "contracts_for_peer pA b' = set (my_contracts a')"
proof -
  obtain ms' where r: "hosting_run id_str pB es a = (ms', a')" and ms: "ms = HostingStateResponse (sort_key id_str (my_contracts a)) # ms'"
    using assms(1) by (auto simp: response_only_def Let_def split: prod.splits)
  have "map_of (neighbor_contracts b') pA = Some (fold apply_view ms' (set (my_contracts a)))"
    using run_snapshot[of pA fs "sort_key id_str (my_contracts a)" ms' id_str pA b] assms ms by simp
  then show ?thesis using hosting_run_view[OF r] by (simp add: contracts_for_peer_def)
qed

theorem advertised_view_exact_witness:
  "let a = (nh_new :: (nat, nat) NeighborHostingManager)\<lparr>my_contracts := [4, 7]\<rparr>;
       (ms, a') = hosting_run (\<lambda>i. replicate i CHR ''1'') 2 [Arrived 2 HostingStateRequest, Unhosted 4, Hosted 9] a;
       (ns, b') = hosting_run (\<lambda>i. replicate i CHR ''1'') 1 (Hosted 9 # map (Arrived (1 :: nat)) ms) nh_new
   in contracts_for_peer 1 b' = {7, 9}"
proof -
  let ?str = "\<lambda>i :: nat. replicate i CHR ''1''"
  let ?a = "(nh_new :: (nat, nat) NeighborHostingManager)\<lparr>my_contracts := [4, 7]\<rparr>"
  obtain ms a' where r: "hosting_run ?str 2 [Arrived 2 HostingStateRequest, Unhosted 4, Hosted 9] ?a = (ms, a')"
    by (cases "hosting_run ?str 2 [Arrived 2 HostingStateRequest, Unhosted 4, Hosted 9] ?a")
  obtain ns b' where r': "hosting_run ?str 1 (Hosted 9 # map (Arrived (1 :: nat)) ms) nh_new = (ns, b')"
    by (cases "hosting_run ?str 1 (Hosted 9 # map (Arrived (1 :: nat)) ms) nh_new")
  have "arrived_from 1 (Hosted 9 # map (Arrived (1 :: nat)) ms) = ms" by (induction ms) simp_all
  moreover have "Disconnected 1 \<notin> set (Hosted 9 # map (Arrived (1 :: nat)) ms)" by auto
  ultimately have "contracts_for_peer 1 b' = set (my_contracts a')" using advertised_view_exact[OF r _ _ r'] by blast
  moreover have "my_contracts (snd (hosting_run ?str 2 [Arrived 2 HostingStateRequest, Unhosted 4, Hosted 9] ?a)) = [9, 7]"
    by code_simp
  ultimately have "contracts_for_peer 1 b' = {7, 9}" using r by (simp add: insert_commute del: hosting_run.simps)
  then show ?thesis unfolding Let_def using r r' by (simp del: hosting_run.simps)
qed

section \<open>Exchanges\<close>

fun hosting_rank :: "'i NeighborHostingMessage \<Rightarrow> nat" where
  "hosting_rank (HostingAnnounce added removed is_response) = (if is_response then 0 else 1)"
| "hosting_rank HostingStateRequest = 2"
| "hosting_rank (HostingStateResponse cs) = 1"

definition hosting_answer :: "('i \<Rightarrow> string) \<times> 'p \<Rightarrow> 'i NeighborHostingMessage \<Rightarrow> ('i, 'p) NeighborHostingManager \<Rightarrow>
    'i NeighborHostingMessage option \<times> ('i, 'p) NeighborHostingManager" where
  "hosting_answer e m s = (case e of (id_str, from) \<Rightarrow> map_prod response id (handle_message id_str from m s))"

interpretation hosting: answering hosting_answer hosting_rank
proof
  fix e :: "('i \<Rightarrow> string) \<times> 'p" and m s answer s'
  assume "hosting_answer e m s = (Some answer, s')"
  then show "hosting_rank answer < hosting_rank m"
    by (cases m) (auto simp: hosting_answer_def Let_def reciprocate_def response_only_def empty_result_def
        split: prod.splits if_splits option.splits)
qed

text \<open>
  C20: the exchange that starts with a connection ends, after two answers at the latest, and both sides have
  learnt: the node that asked knows exactly what the other hosts, and the other knows of every contract the two
  share that was news to the first.
\<close>

theorem connection_exchange:
  "\<exists>k b' a'. exchange (hosting_answer (id_str, pA)) (hosting_answer (id_str, pB)) HostingStateRequest b a = Some (k, b', a') \<and>
    k \<le> 2 \<and> contracts_for_peer pA b' = set (my_contracts a) \<and>
    set (my_contracts a) \<inter> set (my_contracts b) - contracts_for_peer pA b \<subseteq> contracts_for_peer pB a'"
proof -
  define cs where "cs = sort_key id_str (my_contracts a)"
  define b1 where "b1 = b\<lparr>neighbor_contracts := AList.update pA (set cs) (neighbor_contracts b)\<rparr>"
  define r where "r = reciprocate cs (contracts_for_peer pA b) b1"
  let ?hA = "hosting_answer (id_str, pA) :: 'a NeighborHostingMessage \<Rightarrow> ('a, 'b) NeighborHostingManager \<Rightarrow> _"
  let ?hB = "hosting_answer (id_str, pB) :: 'a NeighborHostingMessage \<Rightarrow> ('a, 'b) NeighborHostingManager \<Rightarrow> _"
  have 1: "?hB HostingStateRequest a = (Some (HostingStateResponse cs), a)"
    by (simp add: hosting_answer_def response_only_def cs_def)
  have 2: "?hA (HostingStateResponse cs) b = (response r, b1)" by (simp add: hosting_answer_def Let_def r_def b1_def)
  have view: "contracts_for_peer pA b1 = set (my_contracts a)" by (simp add: contracts_for_peer_def update_conv' b1_def cs_def)
  have shared: "set (overlapping_contracts r) = set (my_contracts a) \<inter> set (my_contracts b) - contracts_for_peer pA b"
    by (auto simp: r_def reciprocate_def Let_def b1_def cs_def)
  show ?thesis
  proof (cases "overlapping_contracts r = []")
    case True
    then have "response r = None" by (simp add: r_def reciprocate_def Let_def)
    then have "exchange ?hB ?hA (HostingStateResponse cs) a b = Some (0, a, b1)" by (subst exchange.simps) (simp add: 2)
    then have "exchange ?hA ?hB HostingStateRequest b a = Some (1, b1, a)" by (subst exchange.simps) (simp add: 1)
    then show ?thesis using view shared True by auto
  next
    case False
    let ?m = "HostingAnnounce (overlapping_contracts r) [] True"
    have r: "response r = Some ?m" using False by (simp add: r_def reciprocate_def Let_def)
    obtain a' where 3: "?hB ?m a = (None, a')" by (simp add: hosting_answer_def Let_def empty_result_def)
    then have "exchange ?hA ?hB ?m b1 a = Some (0, b1, a')" by (subst exchange.simps) simp
    then have "exchange ?hB ?hA (HostingStateResponse cs) a b = Some (1, a', b1)" by (subst exchange.simps) (simp add: 2 r)
    then have "exchange ?hA ?hB HostingStateRequest b a = Some (2, b1, a')" by (subst exchange.simps) (simp add: 1)
    moreover have "set (overlapping_contracts r) \<subseteq> contracts_for_peer pB a'"
      using 3 False by (auto simp: hosting_answer_def Let_def contracts_for_peer_def update_conv' split: option.splits)
    ultimately show ?thesis using view shared by auto
  qed
qed

end
