(* ===== verification/Backoff.thy ===== *)
theory Backoff
  imports Float64
begin

text \<open>
  Exponential back-off (\<open>util/backoff.rs\<close>): the delay after a number of failures, and the tracker of back-offs per
  key with its eviction of the oldest entries. The random factor of the jitter is an argument \<open>jitter\<close>.
\<close>

record ExponentialBackoff =
  bo_base :: duration
  bo_max :: duration

definition backoff_delay :: "ExponentialBackoff \<Rightarrow> nat \<Rightarrow> duration" where
  "backoff_delay c attempt =
    (let d = duration_saturating_mul (bo_base c) (2 ^ min attempt 10) in if d > bo_max c then bo_max c else d)"

definition delay_for_failures :: "ExponentialBackoff \<Rightarrow> nat \<Rightarrow> duration" where
  "delay_for_failures c failures = (if failures = 0 then 0 else backoff_delay c (failures - 1))"

record BackoffEntry =
  bo_failures :: nat
  bo_last_failure :: instant
  bo_retry_after :: instant

record 'k TrackedBackoff =
  bo_entries :: "('k, BackoffEntry) hash_map"
  bo_config :: ExponentialBackoff
  bo_max_entries :: nat

definition tb_new :: "ExponentialBackoff \<Rightarrow> nat \<Rightarrow> 'k TrackedBackoff" where
  "tb_new c n = \<lparr>bo_entries = [], bo_config = c, bo_max_entries = n\<rparr>"

definition is_in_backoff :: "instant \<Rightarrow> 'k \<Rightarrow> 'k TrackedBackoff \<Rightarrow> bool" where
  "is_in_backoff now k t = (case map_of (bo_entries t) k of Some e \<Rightarrow> now < bo_retry_after e | None \<Rightarrow> False)"

definition remaining_backoff :: "instant \<Rightarrow> 'k \<Rightarrow> 'k TrackedBackoff \<Rightarrow> duration option" where
  "remaining_backoff now k t =
    (case map_of (bo_entries t) k of
       Some e \<Rightarrow> if now < bo_retry_after e then Some (bo_retry_after e - now) else None
     | None \<Rightarrow> None)"

text \<open>\<open>min_by_key\<close> gives the first of the entries with the least key.\<close>

fun oldest_entry :: "('k, BackoffEntry) hash_map \<Rightarrow> ('k \<times> BackoffEntry) option" where
  "oldest_entry [] = None"
| "oldest_entry (p # m) =
    (case oldest_entry m of
       None \<Rightarrow> Some p
     | Some q \<Rightarrow> if bo_last_failure (snd p) \<le> bo_last_failure (snd q) then Some p else Some q)"

lemma oldest_entry_None [simp]: "oldest_entry m = None \<longleftrightarrow> m = []"
  by (cases m) (auto split: option.splits if_splits)

lemma oldest_entry_in: "oldest_entry m = Some p \<Longrightarrow> p \<in> set m"
  by (induction m arbitrary: p) (auto split: option.splits if_splits)

lemma oldest_entry_key: "oldest_entry m = Some p \<Longrightarrow> fst p \<in> keys m"
  using oldest_entry_in[of m p] by (simp add: keys_def)

lemma length_delete_le: "length (AList.delete k m) \<le> length m"
  by (induction m) auto

lemma length_delete_less: "k \<in> keys m \<Longrightarrow> length (AList.delete k m) < length m"
  by (induction m) (auto simp: less_Suc_eq_le length_delete_le)

function evict_if_needed :: "'k TrackedBackoff \<Rightarrow> 'k TrackedBackoff" where
  "evict_if_needed t =
    (if length (bo_entries t) > bo_max_entries t
     then case oldest_entry (bo_entries t) of
            Some (key, _) \<Rightarrow> evict_if_needed (t\<lparr>bo_entries := AList.delete key (bo_entries t)\<rparr>)
          | None \<Rightarrow> t
     else t)"
  by pat_completeness auto
termination
  by (relation "measure (\<lambda>t. length (bo_entries t))")
    (auto intro!: length_delete_less dest!: oldest_entry_key)

declare evict_if_needed.simps [simp del]

definition fresh_entry :: "instant \<Rightarrow> BackoffEntry" where
  "fresh_entry now = \<lparr>bo_failures = 0, bo_last_failure = now, bo_retry_after = now\<rparr>"

definition record_failure :: "instant \<Rightarrow> rat \<Rightarrow> 'k \<Rightarrow> 'k TrackedBackoff \<Rightarrow> 'k TrackedBackoff" where
  "record_failure now jitter k t =
    (let e = (case map_of (bo_entries t) k of Some e \<Rightarrow> e | None \<Rightarrow> fresh_entry now);
         n = sat_add32 (bo_failures e) 1;
         backoff = mul_f64 (delay_for_failures (bo_config t) n) jitter
     in evict_if_needed (t\<lparr>bo_entries := AList.update k
          \<lparr>bo_failures = n, bo_last_failure = now, bo_retry_after = now + backoff\<rparr> (bo_entries t)\<rparr>))"

definition record_short_backoff :: "instant \<Rightarrow> rat \<Rightarrow> 'k \<Rightarrow> duration \<Rightarrow> 'k TrackedBackoff \<Rightarrow> 'k TrackedBackoff" where
  "record_short_backoff now jitter k d t =
    (let e = (case map_of (bo_entries t) k of Some e \<Rightarrow> e | None \<Rightarrow> fresh_entry now)
     in evict_if_needed (t\<lparr>bo_entries := AList.update k
          (e\<lparr>bo_last_failure := now, bo_retry_after := max (bo_retry_after e) (now + mul_f64 d jitter)\<rparr>) (bo_entries t)\<rparr>))"

definition record_success :: "'k \<Rightarrow> 'k TrackedBackoff \<Rightarrow> 'k TrackedBackoff" where
  "record_success k t = t\<lparr>bo_entries := AList.delete k (bo_entries t)\<rparr>"

definition failure_count :: "'k \<Rightarrow> 'k TrackedBackoff \<Rightarrow> nat" where
  "failure_count k t = (case map_of (bo_entries t) k of Some e \<Rightarrow> bo_failures e | None \<Rightarrow> 0)"

definition cleanup_expired :: "instant \<Rightarrow> 'k TrackedBackoff \<Rightarrow> 'k TrackedBackoff" where
  "cleanup_expired now t = t\<lparr>bo_entries :=
     filter (\<lambda>(_, e). \<not> (now \<ge> bo_retry_after e \<and> now - bo_last_failure e > bo_max (bo_config t))) (bo_entries t)\<rparr>"

definition tb_clear :: "'k TrackedBackoff \<Rightarrow> 'k TrackedBackoff" where
  "tb_clear t = t\<lparr>bo_entries := []\<rparr>"

definition keys_in_backoff :: "instant \<Rightarrow> 'k TrackedBackoff \<Rightarrow> 'k list" where
  "keys_in_backoff now t = map fst (filter (\<lambda>(_, e). now < bo_retry_after e) (bo_entries t))"

definition remove_expired_entries :: "instant \<Rightarrow> 'k TrackedBackoff \<Rightarrow> nat \<times> 'k TrackedBackoff" where
  "remove_expired_entries now t =
    (let kept = filter (\<lambda>(_, e). now < bo_retry_after e) (bo_entries t)
     in (length (bo_entries t) - length kept, t\<lparr>bo_entries := kept\<rparr>))"

section \<open>Eviction\<close>



lemma evict_none: "length (bo_entries t) \<le> bo_max_entries t \<Longrightarrow> evict_if_needed t = t"
  by (simp add: evict_if_needed.simps)

section \<open>Runs\<close>

datatype 'k backoff_event = Failed 'k rat | Throttled 'k rat duration | Succeeded 'k | CleanedUp | Pruned

fun backoff_step :: "instant \<times> 'k backoff_event \<Rightarrow> 'k TrackedBackoff \<Rightarrow> 'k TrackedBackoff" where
  "backoff_step (now, Failed k jitter) t = record_failure now jitter k t"
| "backoff_step (now, Throttled k jitter d) t = record_short_backoff now jitter k d t"
| "backoff_step (now, Succeeded k) t = record_success k t"
| "backoff_step (now, CleanedUp) t = cleanup_expired now t"
| "backoff_step (now, Pruned) t = snd (remove_expired_entries now t)"

text \<open>
  What a run means for a key, said in terms of the events only. The setbacks of a key are its failures and throttles
  that nothing has made obsolete, newest first. They block the key while the wait of the last failure is
  running, which doubles from the base with every earlier failure, ten times at most and not above the maximum; or
  while a throttle that came after it is.
\<close>

datatype setback = Failure instant rat | Throttle instant rat duration

fun setback_time :: "setback \<Rightarrow> instant" where
  "setback_time (Failure t j) = t"
| "setback_time (Throttle t j d) = t"

fun failures :: "setback list \<Rightarrow> nat" where
  "failures [] = 0"
| "failures (Failure t j # xs) = Suc (failures xs)"
| "failures (Throttle t j d # xs) = failures xs"

fun blocked :: "ExponentialBackoff \<Rightarrow> instant \<Rightarrow> setback list \<Rightarrow> bool" where
  "blocked c now [] = False"
| "blocked c now (Failure t j # xs) \<longleftrightarrow> now < t + mul_f64 (min (bo_max c) (bo_base c * 2 ^ min (failures xs) 10)) j"
| "blocked c now (Throttle t j d # xs) \<longleftrightarrow> now < t + mul_f64 d j \<or> blocked c now xs"

text \<open>
  A success makes all setbacks obsolete; so does the aggressive clean-up when the key is not blocked, and the
  conservative one when in addition the newest setback is older than the maximum.
\<close>

fun setbacks :: "ExponentialBackoff \<Rightarrow> 'k \<Rightarrow> (instant \<times> 'k backoff_event) list \<Rightarrow> setback list" where
  "setbacks c k [] = []"
| "setbacks c k ((t, Failed k' j) # h) = (if k' = k then Failure t j # setbacks c k h else setbacks c k h)"
| "setbacks c k ((t, Throttled k' j d) # h) = (if k' = k then Throttle t j d # setbacks c k h else setbacks c k h)"
| "setbacks c k ((t, Succeeded k') # h) = (if k' = k then [] else setbacks c k h)"
| "setbacks c k ((t, CleanedUp) # h) =
    (case setbacks c k h of
       [] \<Rightarrow> []
     | x # xs \<Rightarrow> if blocked c t (x # xs) \<or> t - setback_time x \<le> bo_max c then x # xs else [])"
| "setbacks c k ((t, Pruned) # h) = (if blocked c t (setbacks c k h) then setbacks c k h else [])"

fun event_key :: "'k backoff_event \<Rightarrow> 'k set" where
  "event_key (Failed k j) = {k}"
| "event_key (Throttled k j d) = {k}"
| "event_key _ = {}"

text \<open>What an entry says of the setbacks of its key.\<close>

definition entry_of :: "ExponentialBackoff \<Rightarrow> BackoffEntry option \<Rightarrow> setback list \<Rightarrow> bool" where
  "entry_of c oe xs =
    (case oe of
       None \<Rightarrow> xs = []
     | Some e \<Rightarrow> xs \<noteq> [] \<and> bo_failures e = min (failures xs) u32_max \<and> bo_last_failure e = setback_time (hd xs) \<and>
         (\<forall>now. now < bo_retry_after e \<longleftrightarrow> blocked c now xs))"

lemma cap_min: "m \<le> d \<Longrightarrow> (if m < min x d then m else min x d) = min m (x :: nat)"
  by (simp add: min_def)

lemma delay_exact:
  assumes "bo_max c \<le> duration_max"
  shows "delay_for_failures c (sat_add32 (min n u32_max) 1) = min (bo_max c) (bo_base c * 2 ^ min n 10)"
proof -
  have "sat_add32 (min n u32_max) 1 - 1 = min n (u32_max - 1)" "sat_add32 (min n u32_max) 1 \<noteq> 0"
    by (auto simp: sat_add32_def u32_max_def)
  moreover have "min (min n (u32_max - 1)) 10 = min n 10" by (simp add: u32_max_def)
  ultimately show ?thesis using cap_min[OF assms]
    by (simp only: delay_for_failures_def backoff_delay_def Let_def duration_saturating_mul_def if_False)
qed

lemma entry_failed:
  assumes "bo_max c \<le> duration_max" "entry_of c oe xs" "n = sat_add32 (case oe of Some e \<Rightarrow> bo_failures e | None \<Rightarrow> 0) 1"
  shows "entry_of c (Some \<lparr>bo_failures = n, bo_last_failure = now,
    bo_retry_after = now + mul_f64 (delay_for_failures c n) j\<rparr>) (Failure now j # xs)"
proof -
  have "n = sat_add32 (min (failures xs) u32_max) 1"
    using assms(2,3) by (cases oe) (simp_all add: entry_of_def)
  moreover have "sat_add32 (min (failures xs) u32_max) 1 = min (Suc (failures xs)) u32_max" by (simp add: sat_add32_def)
  ultimately show ?thesis using delay_exact[OF assms(1), of "failures xs"] by (simp add: entry_of_def)
qed

lemma entry_throttled:
  assumes "entry_of c oe xs" "e = (case oe of Some e \<Rightarrow> e | None \<Rightarrow> fresh_entry now)"
  shows "entry_of c (Some (e\<lparr>bo_last_failure := now, bo_retry_after := max (bo_retry_after e) (now + mul_f64 d j)\<rparr>))
    (Throttle now j d # xs)"
  using assms by (cases oe) (auto simp: entry_of_def fresh_entry_def less_max_iff_disj)

lemma entry_Some: "entry_of c (Some e) xs \<longleftrightarrow> (\<exists>x ys. xs = x # ys \<and> bo_failures e = min (failures xs) u32_max \<and>
    bo_last_failure e = setback_time x \<and> (\<forall>now. (now < bo_retry_after e) = blocked c now xs))"
  by (cases xs) (auto simp: entry_of_def)

lemma entry_cleaned:
  assumes "entry_of c oe xs"
  shows "entry_of c (case oe of None \<Rightarrow> None
      | Some e \<Rightarrow> if bo_retry_after e \<le> now \<longrightarrow> \<not> bo_max c < now - bo_last_failure e then Some e else None)
    (case xs of [] \<Rightarrow> [] | x # ys \<Rightarrow> if blocked c now (x # ys) \<or> now - setback_time x \<le> bo_max c then x # ys else [])"
proof (cases oe)
  case None
  then show ?thesis using assms by (simp add: entry_of_def)
next
  case (Some e)
  then obtain x ys where x: "xs = x # ys" "bo_last_failure e = setback_time x" "(now < bo_retry_after e) = blocked c now xs"
    using assms by (auto simp: entry_Some)
  then have "(bo_retry_after e \<le> now \<longrightarrow> \<not> bo_max c < now - bo_last_failure e) = (blocked c now xs \<or> now - setback_time x \<le> bo_max c)"
    by auto
  then show ?thesis using Some x(1) assms by (simp add: entry_of_def[of c None])
qed

definition roomy :: "'k set \<Rightarrow> 'k TrackedBackoff \<Rightarrow> bool" where
  "roomy K t \<longleftrightarrow> map_ok (bo_entries t) \<and> keys (bo_entries t) \<subseteq> K \<and> finite K \<and> card K \<le> bo_max_entries t"

lemma roomy_update: "roomy K t \<Longrightarrow> k \<in> K \<Longrightarrow>
    length (AList.update k e (bo_entries t)) \<le> bo_max_entries t"
  using card_mono[of K "insert k (keys (bo_entries t))"]
  by (auto simp: roomy_def length_map_ok map_ok_update)

lemma roomy_insert: "roomy K t \<Longrightarrow> k \<in> K \<Longrightarrow>
    evict_if_needed (t\<lparr>bo_entries := AList.update k e (bo_entries t)\<rparr>) = t\<lparr>bo_entries := AList.update k e (bo_entries t)\<rparr> \<and>
    roomy K (t\<lparr>bo_entries := AList.update k e (bo_entries t)\<rparr>)"
  using roomy_update[of K t k e] by (simp add: evict_none) (auto simp: roomy_def)

lemma roomy_filter: "roomy K t \<Longrightarrow> roomy K (t\<lparr>bo_entries := filter P (bo_entries t)\<rparr>)"
  by (auto simp: roomy_def keys_def)

definition backoff_sim :: "'k set \<Rightarrow> ExponentialBackoff \<Rightarrow> (instant \<times> 'k backoff_event) list \<Rightarrow> 'k TrackedBackoff \<Rightarrow> bool" where
  "backoff_sim K c h t \<longleftrightarrow> roomy K t \<and> bo_config t = c \<and> (\<forall>k. entry_of c (map_of (bo_entries t) k) (setbacks c k h))"

lemma backoff_sim_step:
  assumes sim: "backoff_sim K c h t" and K: "event_key (snd e) \<subseteq> K" and c: "bo_max c \<le> duration_max"
  shows "backoff_sim K c (e # h) (backoff_step e t)"
proof -
  obtain now ev where e: "e = (now, ev)" by (cases e)
  have roomy: "roomy K t" and config: "bo_config t = c"
    and entry: "\<And>k. entry_of c (map_of (bo_entries t) k) (setbacks c k h)" using sim by (auto simp: backoff_sim_def)
  have ok: "map_ok (bo_entries t)" using roomy by (simp add: roomy_def)
  show ?thesis
  proof (cases ev)
    case (Failed k j)
    let ?n = "sat_add32 (case map_of (bo_entries t) k of Some e \<Rightarrow> bo_failures e | None \<Rightarrow> 0) 1"
    have "backoff_step e t = t\<lparr>bo_entries := AList.update k \<lparr>bo_failures = ?n, bo_last_failure = now,
        bo_retry_after = now + mul_f64 (delay_for_failures c ?n) j\<rparr> (bo_entries t)\<rparr>"
      using roomy_insert[OF roomy, of k] K e Failed config
      by (auto simp: record_failure_def Let_def fresh_entry_def split: option.splits)
    then show ?thesis using roomy_insert[OF roomy, of k] K e Failed config entry entry_failed[OF c entry[of k] refl, of now j]
      by (auto simp: backoff_sim_def)
  next
    case (Throttled k j d)
    let ?e = "case map_of (bo_entries t) k of Some e \<Rightarrow> e | None \<Rightarrow> fresh_entry now"
    have "backoff_step e t = t\<lparr>bo_entries := AList.update k (?e\<lparr>bo_last_failure := now,
        bo_retry_after := max (bo_retry_after ?e) (now + mul_f64 d j)\<rparr>) (bo_entries t)\<rparr>"
      using roomy_insert[OF roomy, of k] K e Throttled by (simp add: record_short_backoff_def Let_def)
    then show ?thesis using roomy_insert[OF roomy, of k] K e Throttled config entry entry_throttled[OF entry[of k] refl, of now d j]
      by (auto simp: backoff_sim_def)
  next
    case (Succeeded k)
    then show ?thesis using roomy config entry e by (auto simp: record_success_def backoff_sim_def roomy_def entry_of_def)
  next
    case CleanedUp
    have "entry_of c (map_of (bo_entries (cleanup_expired now t)) k) (setbacks c k (e # h))" for k
      using entry_cleaned[OF entry[of k], of now] e CleanedUp config ok
      by (simp add: cleanup_expired_def map_of_filter)
    then show ?thesis using roomy_filter[OF roomy] config e CleanedUp by (simp add: backoff_sim_def cleanup_expired_def)
  next
    case Pruned
    have "entry_of c (map_of (bo_entries (snd (remove_expired_entries now t))) k) (setbacks c k (e # h))" for k
      using entry[of k] e Pruned ok
      by (auto simp: remove_expired_entries_def Let_def map_of_filter entry_of_def split: option.splits if_splits)
    then show ?thesis using roomy_filter[OF roomy] config e Pruned by (simp add: backoff_sim_def remove_expired_entries_def Let_def)
  qed
qed

lemma backoff_sim_run:
  "backoff_sim K c h t \<Longrightarrow> \<forall>e \<in> set es. event_key (snd e) \<subseteq> K \<Longrightarrow> bo_max c \<le> duration_max \<Longrightarrow>
    backoff_sim K c (rev es @ h) (fold backoff_step es t)"
proof (induction es arbitrary: h t)
  case (Cons e es)
  then show ?case using Cons.IH[of "e # h" "backoff_step e t"] backoff_sim_step[of K c h t e] by simp
qed simp

text \<open>
  C22: as long as no more keys fail than the tracker has room for, each key is judged by its own history. Over any run of
  failures, short throttles, successes and both clean-ups, the failure count of a key is the number of its failures
  that no success and no clean-up has made obsolete, and the key is in back-off exactly while the wait of the last of them
  runs, the base doubled for every earlier failure, ten times at most, up to the maximum and with the jitter applied, or
  a throttle that came after it runs. So a throttle never shortens a wait, but a failure replaces the wait of
  an earlier throttle.
\<close>

theorem backoff_per_key:
  assumes "card (\<Union>e \<in> set es. event_key (snd e)) \<le> n" and "bo_max c \<le> duration_max"
  shows "failure_count k (fold backoff_step es (tb_new c n)) = min (failures (setbacks c k (rev es))) u32_max \<and>
    (is_in_backoff now k (fold backoff_step es (tb_new c n)) \<longleftrightarrow> blocked c now (setbacks c k (rev es)))"
proof -
  let ?K = "\<Union>e \<in> set es. event_key (snd e)"
  have "finite (event_key x)" for x :: "'a backoff_event" by (cases x) auto
  then have "backoff_sim ?K c [] (tb_new c n)" using assms(1) by (simp add: backoff_sim_def roomy_def tb_new_def entry_of_def)
  from backoff_sim_run[OF this _ assms(2), of es]
  have "entry_of c (map_of (bo_entries (fold backoff_step es (tb_new c n))) k) (setbacks c k (rev es))"
    by (auto simp: backoff_sim_def)
  then show ?thesis by (auto simp: failure_count_def is_in_backoff_def entry_of_def split: option.splits)
qed

text \<open>The second failure of key 1 waits for twice the base, whatever key 2 does.\<close>

theorem backoff_per_key_witness:
  "let t = fold backoff_step [(10, Failed (1 :: nat) 1), (20, Failed 2 1), (30, Failed 1 1)] (tb_new \<lparr>bo_base = 5, bo_max = 100\<rparr> 2)
   in failure_count 1 t = 2 \<and> (is_in_backoff 35 1 t \<longleftrightarrow> 35 < 30 + mul_f64 10 1)"
proof -
  have "failure_count 1 (fold backoff_step [(10, Failed (1 :: nat) 1), (20, Failed 2 1), (30, Failed 1 1)] (tb_new \<lparr>bo_base = 5, bo_max = 100\<rparr> 2)) =
      min (failures (setbacks \<lparr>bo_base = 5, bo_max = 100\<rparr> 1 (rev [(10, Failed (1 :: nat) 1), (20, Failed 2 1), (30, Failed 1 1)]))) u32_max \<and>
    (is_in_backoff 35 1 (fold backoff_step [(10, Failed (1 :: nat) 1), (20, Failed 2 1), (30, Failed 1 1)] (tb_new \<lparr>bo_base = 5, bo_max = 100\<rparr> 2)) \<longleftrightarrow>
      blocked \<lparr>bo_base = 5, bo_max = 100\<rparr> 35 (setbacks \<lparr>bo_base = 5, bo_max = 100\<rparr> 1 (rev [(10, Failed (1 :: nat) 1), (20, Failed 2 1), (30, Failed 1 1)])))"
    by (rule backoff_per_key) (simp_all add: card_insert_if duration_max_def)
  then show ?thesis by (simp add: Let_def u32_max_def)
qed

section \<open>Eviction over a run\<close>










end
