(* ===== verification/Disk_Usage.thy ===== *)
theory Disk_Usage
  imports Prelude
begin

text \<open>
  The accounting of disk usage (\<open>ring/hosting/disk_usage.rs\<close>): the tracker of the bytes of contract states, code
  and compiled code, its admission checks, and the walks over directories that measure the last two. The
  directories are trees; reading the free space of the mount is a call to the operating system and left out.
\<close>

section \<open>Walking a directory\<close>

text \<open>
  An entry of a directory is a file with its name and length, a directory, or anything else. \<^const>\<open>None\<close> is an
  error of the operating system: of \<open>metadata\<close> for a file, of \<open>read_dir\<close> for a directory. An entry that fails or
  whose type cannot be read is an \<open>Other\<close>.
\<close>

datatype dir_entry = RegularFile string "nat option" | Directory "dir_entry list option" | Other

fun entry_bytes :: "(string \<Rightarrow> bool) \<Rightarrow> dir_entry \<Rightarrow> nat \<Rightarrow> nat" where
  "entry_bytes want (RegularFile name len) acc =
    (if want name then (case len of Some n \<Rightarrow> sat_add64 acc n | None \<Rightarrow> acc) else acc)"
| "entry_bytes want _ acc = acc"

fun is_dir :: "dir_entry \<Rightarrow> bool" where
  "is_dir (Directory _) = True"
| "is_dir _ = False"

lemma sizes_dirs: "size_list size (rev (filter is_dir es)) \<le> size_list size es"
  by (induction es) auto

function walk :: "(string \<Rightarrow> bool) \<Rightarrow> dir_entry list \<Rightarrow> nat \<Rightarrow> nat" where
  "walk want [] acc = acc"
| "walk want (Directory (Some es) # stack) acc =
    walk want (rev (filter is_dir es) @ stack) (fold (entry_bytes want) es acc)"
| "walk want (Directory None # stack) acc = walk want stack acc"
| "walk want (RegularFile n l # stack) acc = walk want stack acc"
| "walk want (Other # stack) acc = walk want stack acc"
  by pat_completeness auto
termination
  by (relation "measure (\<lambda>(want, stack, acc). size_list size stack)")
    (auto simp: size_list_append intro: le_less_trans[OF sizes_dirs])

definition du_walk :: "dir_entry \<Rightarrow> nat" where
  "du_walk dir = walk (\<lambda>_. True) [dir] 0"

text \<open>\<open>Path::extension\<close>: what follows the last dot, unless the name begins with it.\<close>

definition is_wasm :: "string \<Rightarrow> bool" where
  "is_wasm name \<longleftrightarrow>
    (let ext = rev (takeWhile (\<lambda>c. c \<noteq> CHR ''.'') (rev name)) in
     length ext + 1 < length name \<and> ext = ''wasm'')"

definition du_walk_wasm :: "dir_entry \<Rightarrow> nat" where
  "du_walk_wasm dir = walk is_wasm [dir] 0"

section \<open>The tracker\<close>

record 'k DiskUsageTracker =
  state_bytes :: nat
  wasm_bytes :: nat
  compile_cache_bytes :: nat
  seeded :: bool
  state_sizes :: "('k, nat) hash_map"

record DiskBudgetExceeded =
  projected_bytes :: nat
  over_budget_bytes :: nat

definition du_new :: "'k DiskUsageTracker" where
  "du_new = \<lparr>state_bytes = 0, wasm_bytes = 0, compile_cache_bytes = 0, seeded = False, state_sizes = []\<rparr>"

definition total_bytes :: "'k DiskUsageTracker \<Rightarrow> nat" where
  "total_bytes t = sat_add64 (sat_add64 (state_bytes t) (wasm_bytes t)) (compile_cache_bytes t)"

definition tracked_size :: "'k \<Rightarrow> ('k, nat) hash_map \<Rightarrow> nat" where
  "tracked_size k sizes = (case map_of sizes k of Some n \<Rightarrow> n | None \<Rightarrow> 0)"

definition merge_rows :: "('k \<times> nat) list \<Rightarrow> ('k, nat) hash_map \<Rightarrow> ('k, nat) hash_map" where
  "merge_rows rows sizes = fold (\<lambda>(k, n) m. if contains_key m k then m else AList.update k n m) rows sizes"

text \<open>The two directories are measured during the call.\<close>

definition seed :: "dir_entry \<Rightarrow> dir_entry \<Rightarrow> ('k \<times> nat) list \<Rightarrow> 'k DiskUsageTracker \<Rightarrow> 'k DiskUsageTracker" where
  "seed contracts_dir compile_cache_dir state_rows t =
    (if seeded t then t
     else let sizes = merge_rows state_rows (state_sizes t)
          in t\<lparr>seeded := True, state_sizes := sizes, state_bytes := fold (\<lambda>(_, v) acc. sat_add64 acc v) sizes 0,
               wasm_bytes := du_walk_wasm contracts_dir, compile_cache_bytes := du_walk compile_cache_dir\<rparr>)"

definition record_state_write :: "'k \<Rightarrow> nat \<Rightarrow> 'k DiskUsageTracker \<Rightarrow> 'k DiskUsageTracker" where
  "record_state_write k new_size t =
    (let old = tracked_size k (state_sizes t);
         t1 = t\<lparr>state_sizes := AList.update k new_size (state_sizes t)\<rparr>
     in if \<not> seeded t then t1
        else if new_size \<ge> old then t1\<lparr>state_bytes := wrap_add64 (state_bytes t) (new_size - old)\<rparr>
        else t1\<lparr>state_bytes := state_bytes t - (old - new_size)\<rparr>)"

definition record_state_removed :: "'k \<Rightarrow> 'k DiskUsageTracker \<Rightarrow> 'k DiskUsageTracker" where
  "record_state_removed k t =
    (let removed = tracked_size k (state_sizes t);
         t1 = t\<lparr>state_sizes := AList.delete k (state_sizes t)\<rparr>
     in if \<not> seeded t then t1 else if removed = 0 then t1 else t1\<lparr>state_bytes := state_bytes t - removed\<rparr>)"

definition record_wasm_write :: "nat \<Rightarrow> 'k DiskUsageTracker \<Rightarrow> 'k DiskUsageTracker" where
  "record_wasm_write blob_len t = (if \<not> seeded t then t else t\<lparr>wasm_bytes := wrap_add64 (wasm_bytes t) blob_len\<rparr>)"

definition record_wasm_removed :: "nat \<Rightarrow> 'k DiskUsageTracker \<Rightarrow> 'k DiskUsageTracker" where
  "record_wasm_removed blob_len t = (if \<not> seeded t then t else t\<lparr>wasm_bytes := wasm_bytes t - blob_len\<rparr>)"

definition budget_check :: "nat \<Rightarrow> nat \<Rightarrow> DiskBudgetExceeded + unit" where
  "budget_check projected budget =
    (if projected > budget then Inl \<lparr>projected_bytes = projected, over_budget_bytes = budget\<rparr> else Inr ())"

definition admit_state_write :: "'k \<Rightarrow> nat \<Rightarrow> nat \<Rightarrow> 'k DiskUsageTracker \<Rightarrow> DiskBudgetExceeded + unit" where
  "admit_state_write k new_size budget t =
    budget_check (sat_add64 (total_bytes t - tracked_size k (state_sizes t)) new_size) budget"

definition admit_state_update :: "'k \<Rightarrow> nat \<Rightarrow> nat \<Rightarrow> 'k DiskUsageTracker \<Rightarrow> DiskBudgetExceeded + unit" where
  "admit_state_update k new_size budget t =
    (if new_size \<le> tracked_size k (state_sizes t) then Inr () else admit_state_write k new_size budget t)"

definition admit_wasm_write :: "nat \<Rightarrow> nat \<Rightarrow> 'k DiskUsageTracker \<Rightarrow> DiskBudgetExceeded + unit" where
  "admit_wasm_write blob_len budget t = budget_check (sat_add64 (total_bytes t) blob_len) budget"

definition refresh_wasm :: "dir_entry \<Rightarrow> 'k DiskUsageTracker \<Rightarrow> 'k DiskUsageTracker" where
  "refresh_wasm contracts_dir t = t\<lparr>wasm_bytes := du_walk_wasm contracts_dir\<rparr>"

definition refresh_compile_cache :: "dir_entry \<Rightarrow> 'k DiskUsageTracker \<Rightarrow> 'k DiskUsageTracker" where
  "refresh_compile_cache compile_cache_dir t = t\<lparr>compile_cache_bytes := du_walk compile_cache_dir\<rparr>"

section \<open>The walks add up the files\<close>

fun wanted_bytes :: "(string \<Rightarrow> bool) \<Rightarrow> dir_entry \<Rightarrow> nat" where
  "wanted_bytes want (RegularFile name len) = (if want name then case_option 0 id len else 0)"
| "wanted_bytes want (Directory (Some es)) = sum_list (map (wanted_bytes want) es)"
| "wanted_bytes want (Directory None) = 0"
| "wanted_bytes want Other = 0"

lemma sat_add64_min: "sat_add64 (min x u64_max) n = min (x + n) u64_max"
  by (auto simp: sat_add64_def)

lemma fold_entry_bytes: "fold (entry_bytes want) es (min x u64_max) =
    min (x + sum_list (map (wanted_bytes want) (filter (\<lambda>e. \<not> is_dir e) es))) u64_max"
proof (induction es arbitrary: x)
  case (Cons e es)
  have "entry_bytes want e (min x u64_max) = min (x + (if is_dir e then 0 else wanted_bytes want e)) u64_max"
    by (cases e) (auto simp: sat_add64_min split: option.splits)
  then show ?case by (simp add: Cons.IH add.assoc)
qed simp

lemma sum_list_split: "sum_list (map f (filter P xs)) + sum_list (map f (filter (\<lambda>x. \<not> P x) xs)) = sum_list (map (f :: 'a \<Rightarrow> nat) xs)"
  by (induction xs) auto

lemma walk_sums: "walk want stack (min x u64_max) =
    min (x + sum_list (map (wanted_bytes want) (filter is_dir stack))) u64_max"
proof (induction want stack "min x u64_max" arbitrary: x rule: walk.induct)
  case (2 want es stack)
  let ?x = "x + sum_list (map (wanted_bytes want) (filter (\<lambda>e. \<not> is_dir e) es))"
  have "walk want (Directory (Some es) # stack) (min x u64_max) = walk want (rev (filter is_dir es) @ stack) (min ?x u64_max)"
    by (simp add: fold_entry_bytes)
  also have "\<dots> = min (?x + sum_list (map (wanted_bytes want) (filter is_dir (rev (filter is_dir es) @ stack)))) u64_max"
    by (rule "2.hyps") (rule fold_entry_bytes)
  also have "sum_list (map (wanted_bytes want) (filter is_dir (rev (filter is_dir es) @ stack))) =
      sum_list (map (wanted_bytes want) (filter is_dir es)) + sum_list (map (wanted_bytes want) (filter is_dir stack))"
    by (simp add: rev_filter[symmetric] rev_map[symmetric])
  finally show ?case using sum_list_split[of "wanted_bytes want" is_dir es] by (simp add: add.assoc add.commute add.left_commute)
qed auto

text \<open>
  The walks over a directory end and give the total length of the files below it, at any depth and
  whatever cannot be read left out: \<open>du_walk\<close> of all regular files, \<open>du_walk_wasm\<close> of those with the
  extension \<open>wasm\<close>, capped at the largest 64-bit number.
\<close>

theorem walks_measure: "du_walk (Directory es) = min (wanted_bytes (\<lambda>_. True) (Directory es)) u64_max \<and>
    du_walk_wasm (Directory es) = min (wanted_bytes is_wasm (Directory es)) u64_max"
  using walk_sums[of _ "[Directory es]" 0] by (simp add: du_walk_def du_walk_wasm_def)

section \<open>The counter is exact\<close>

datatype 'k store_event = Written 'k nat | Removed 'k

fun store_step :: "'k store_event \<Rightarrow> ('k \<rightharpoonup> nat) \<Rightarrow> 'k \<rightharpoonup> nat" where
  "store_step (Written k n) db = db(k \<mapsto> n)"
| "store_step (Removed k) db = db(k := None)"

fun track_step :: "'k store_event \<Rightarrow> 'k DiskUsageTracker \<Rightarrow> 'k DiskUsageTracker" where
  "track_step (Written k n) t = record_state_write k n t"
| "track_step (Removed k) t = record_state_removed k t"

fun event_bytes :: "'k store_event \<Rightarrow> nat" where
  "event_bytes (Written k n) = n"
| "event_bytes (Removed k) = 0"

text \<open>The bytes the tracker knows of, and its consistency with room for \<open>r\<close> more bytes.\<close>

definition known_bytes :: "'k DiskUsageTracker \<Rightarrow> nat" where
  "known_bytes t = value_sum (\<lambda>n. n) (state_sizes t)"

definition du_exact :: "nat \<Rightarrow> 'k DiskUsageTracker \<Rightarrow> bool" where
  "du_exact r t \<longleftrightarrow> map_ok (state_sizes t) \<and> known_bytes t + r < 2 ^ 64 \<and> (seeded t \<longrightarrow> state_bytes t = known_bytes t)"

lemma sum_update: "map_ok m \<Longrightarrow> value_sum (\<lambda>n. n) (AList.update k n m) + tracked_size k m = value_sum (\<lambda>n. n) m + n"
  by (induction m) (auto simp: tracked_size_def map_of_keys[symmetric] split: option.splits)

lemma sum_delete: "map_ok m \<Longrightarrow> value_sum (\<lambda>n. n) (AList.delete k m) + tracked_size k m = value_sum (\<lambda>n. n) m"
  by (induction m) (auto simp: tracked_size_def map_of_keys[symmetric] split: option.splits)

lemma track_exact:
  assumes "du_exact (event_bytes e + r) t"
  shows "du_exact r (track_step e t)"
proof (cases e)
  case (Written k n)
  have ok: "map_ok (state_sizes t)" using assms by (simp add: du_exact_def)
  show ?thesis using assms Written sum_update[OF ok, of k n] sum_delete[OF ok, of k] ok
    by (auto simp: du_exact_def known_bytes_def record_state_write_def Let_def wrap_add64_def)
next
  case (Removed k)
  have ok: "map_ok (state_sizes t)" using assms by (simp add: du_exact_def)
  show ?thesis using assms Removed sum_delete[OF ok, of k] ok
    by (auto simp: du_exact_def known_bytes_def record_state_removed_def Let_def)
qed

lemma track_run_exact: "du_exact (sum_list (map event_bytes es) + r) t \<Longrightarrow> du_exact r (fold track_step es t)"
  by (induction es arbitrary: t) (auto intro: track_exact simp: add.assoc)

lemma track_store: "map_of (state_sizes (track_step e t)) = store_step e (map_of (state_sizes t))"
  by (cases e) (auto simp: record_state_write_def record_state_removed_def Let_def)

lemma track_run_store: "map_of (state_sizes (fold track_step es t)) = fold store_step es (map_of (state_sizes t))"
  by (induction es arbitrary: t) (auto simp: track_store)

lemma track_seeded [simp]: "seeded (track_step e t) = seeded t"
  by (cases e) (auto simp: record_state_write_def record_state_removed_def Let_def)

lemma track_run_seeded [simp]: "seeded (fold track_step es t) = seeded t"
  by (induction es arbitrary: t) auto

lemma merge_rows_Cons: "merge_rows ((k, n) # rows) m = merge_rows rows (if contains_key m k then m else AList.update k n m)"
  by (simp add: merge_rows_def)

lemma merge_rows_lookup: "map_of (merge_rows rows m) k = (case map_of m k of Some v \<Rightarrow> Some v | None \<Rightarrow> map_of rows k)"
proof (induction rows arbitrary: m)
  case (Cons p rows)
  then show ?case by (cases p) (auto simp: merge_rows_Cons contains_key_def split: option.splits)
qed (simp add: merge_rows_def split: option.splits)

lemma merge_rows_ok: "map_ok m \<Longrightarrow> map_ok (merge_rows rows m) \<and>
    value_sum (\<lambda>n. n) (merge_rows rows m) \<le> value_sum (\<lambda>n. n) m + sum_list (map snd rows)"
proof (induction rows arbitrary: m)
  case (Cons p rows)
  obtain k n where p: "p = (k, n)" by (cases p)
  have "value_sum (\<lambda>n. n) (if contains_key m k then m else AList.update k n m) \<le> value_sum (\<lambda>n. n) m + n"
    using value_sum_update_new[of k m "\<lambda>n. n" n] by (auto simp: contains_key_iff)
  then show ?case using Cons.IH[of "if contains_key m k then m else AList.update k n m"] Cons.prems
    by (auto simp: p merge_rows_Cons)
qed (simp add: merge_rows_def)

lemma sat_sum: "fold (\<lambda>(_, v) acc. sat_add64 acc v) m (min x u64_max) = min (x + value_sum (\<lambda>n. n) m) u64_max"
  by (induction m arbitrary: x) (auto simp: sat_add64_min add.assoc)

lemma seed_props:
  assumes "du_exact (sum_list (map snd rows) + r) t" "\<not> seeded t"
  shows "du_exact r (seed cd ccd rows t)" "seeded (seed cd ccd rows t)"
    "map_of (state_sizes (seed cd ccd rows t)) = map_of rows ++ map_of (state_sizes t)"
proof -
  have "map_ok (state_sizes t)" using assms(1) by (simp add: du_exact_def)
  note rows = merge_rows_ok[OF this, of rows]
  then have "value_sum (\<lambda>n. n) (merge_rows rows (state_sizes t)) + r < 2 ^ 64"
    using assms(1) by (simp add: du_exact_def known_bytes_def)
  then show "du_exact r (seed cd ccd rows t)"
    using rows assms sat_sum[of "merge_rows rows (state_sizes t)" 0]
    by (auto simp: du_exact_def known_bytes_def seed_def Let_def u64_max_def)
qed (use assms in \<open>auto simp: seed_def Let_def merge_rows_lookup map_add_def split: option.splits\<close>)

fun is_write :: "'k store_event \<Rightarrow> bool" where
  "is_write (Written k n) = True"
| "is_write (Removed k) = False"

lemma store_writes_over: "list_all is_write es \<Longrightarrow> fold store_step es (db ++ m) = db ++ fold store_step es m"
proof (induction es arbitrary: m)
  case (Cons e es)
  then show ?case by (cases e) (auto simp: map_add_upd[symmetric] simp del: map_add_upd)
qed simp

lemma store_mono: "m \<subseteq>\<^sub>m db \<Longrightarrow> fold store_step es m \<subseteq>\<^sub>m fold store_step es db"
proof (induction es arbitrary: m db)
  case (Cons e es)
  then show ?case by (cases e) (auto simp: map_le_def intro!: Cons.IH)
qed simp

lemma map_add_absorb: "m \<subseteq>\<^sub>m db \<Longrightarrow> db ++ m = db"
  by (force simp: map_le_def map_add_def dom_def fun_eq_iff split: option.splits)

lemma known_bytes_sum: "map_ok m \<Longrightarrow> value_sum (\<lambda>n. n) m = sum (the \<circ> map_of m) (keys m)"
proof (induction m)
  case (Cons p m)
  have "sum (the \<circ> map_of (p # m)) (keys m) = sum (the \<circ> map_of m) (keys m)"
    using Cons.prems by (intro sum.cong) auto
  then show ?case using Cons by simp
qed simp

text \<open>
  C16: the accounting of contract states is exact although it starts in the middle of the traffic. The database
  holds \<open>db\<close> when the node starts. States are written and removed, the rows of the database are read, further
  states are written before the tracker is seeded with these rows, and any writes and removals
  follow, all of them reported to the tracker. Then the tracker knows the size of exactly the contracts in the
  database, and its counter is the sum of these sizes, provided the bytes add up to less than 2^64.
\<close>

theorem disk_accounting_exact:
  assumes rows: "map_of rows = fold store_step before db" and writes: "list_all is_write meanwhile"
    and small: "sum_list (map snd rows) + sum_list (map event_bytes (before @ meanwhile @ after)) < 2 ^ 64"
    and t: "t = fold track_step after (seed cd ccd rows (fold track_step (before @ meanwhile) du_new))"
  shows "map_of (state_sizes t) = fold store_step (before @ meanwhile @ after) db \<and>
    state_bytes t = sum (the \<circ> map_of (state_sizes t)) (keys (state_sizes t))"
proof -
  let ?t0 = "fold track_step (before @ meanwhile) (du_new :: 'a DiskUsageTracker)"
  let ?r = "sum_list (map event_bytes after) + 0"
  have "du_exact (sum_list (map event_bytes (before @ meanwhile)) + (sum_list (map snd rows) + ?r)) (du_new :: 'a DiskUsageTracker)"
    using small by (simp add: du_exact_def du_new_def known_bytes_def)
  then have t0: "du_exact (sum_list (map snd rows) + ?r) ?t0" by (rule track_run_exact)
  have ns: "\<not> seeded ?t0" by (simp add: du_new_def)
  note s = seed_props[OF t0 ns, of cd ccd]
  have fin: "du_exact 0 t" "seeded t" unfolding t using track_run_exact[OF s(1)] s(2) by simp_all
  have "map_of rows ++ fold store_step before Map.empty = map_of rows"
    unfolding rows by (intro map_add_absorb store_mono) simp
  then have "map_of (state_sizes (seed cd ccd rows ?t0)) = fold store_step meanwhile (map_of rows)"
    using store_writes_over[OF writes, of "map_of rows" "fold store_step before Map.empty"]
    unfolding s(3) track_run_store by (simp add: du_new_def)
  then have "map_of (state_sizes t) = fold store_step (before @ meanwhile @ after) db"
    unfolding t track_run_store by (simp add: rows)
  then show ?thesis using fin known_bytes_sum[of "state_sizes t"] by (simp add: du_exact_def known_bytes_def)
qed

theorem disk_accounting_exact_witness:
  "state_bytes (fold track_step [Removed 1] (seed (Directory None) (Directory None) [(1 :: nat, 10), (2, 20)]
     (fold track_step ([] @ [Written 2 25]) du_new))) = 25"
proof -
  let ?t = "fold track_step [Removed 1] (seed (Directory None) (Directory None) [(1 :: nat, 10), (2, 20)]
     (fold track_step ([] @ [Written 2 25]) du_new))"
  have "map_of (state_sizes ?t) = fold store_step ([] @ [Written 2 25] @ [Removed 1]) (map_of [(1, 10), (2, 20)]) \<and>
      state_bytes ?t = sum (the \<circ> map_of (state_sizes ?t)) (keys (state_sizes ?t))"
    by (rule disk_accounting_exact[OF _ _ _ refl]) simp_all
  moreover have "state_sizes ?t = [(2, 25)]"
    by (simp add: seed_def record_state_write_def record_state_removed_def merge_rows_def contains_key_def
      du_new_def tracked_size_def Let_def)
  ultimately show ?thesis by simp
qed

text \<open>
  A removal between the reading of the rows and the seed is lost: the row brings the contract back, and its
  bytes are counted although nothing of it is on the disk.
\<close>

lemma removal_before_seed_lost: "\<not> seeded t \<Longrightarrow> map_of rows k = Some n \<Longrightarrow>
    map_of (state_sizes (seed cd ccd rows (record_state_removed k t))) k = Some n"
  by (simp add: seed_def record_state_removed_def Let_def merge_rows_lookup)

section \<open>Admission keeps usage within the budget\<close>

datatype 'k disk_event = PutState 'k nat | UpdateState 'k nat | StoreCode nat | RemoveState 'k | RemoveCode nat

text \<open>Every write asks first and is recorded only when it was admitted.\<close>

definition admitted :: "DiskBudgetExceeded + unit \<Rightarrow> 'k DiskUsageTracker \<Rightarrow> 'k DiskUsageTracker \<Rightarrow> 'k DiskUsageTracker" where
  "admitted verdict t' t = (case verdict of Inr _ \<Rightarrow> t' | Inl _ \<Rightarrow> t)"

fun disk_step :: "nat \<Rightarrow> 'k disk_event \<Rightarrow> 'k DiskUsageTracker \<Rightarrow> 'k DiskUsageTracker" where
  "disk_step budget (PutState k n) t = admitted (admit_state_write k n budget t) (record_state_write k n t) t"
| "disk_step budget (UpdateState k n) t = admitted (admit_state_update k n budget t) (record_state_write k n t) t"
| "disk_step budget (StoreCode n) t = admitted (admit_wasm_write n budget t) (record_wasm_write n t) t"
| "disk_step budget (RemoveState k) t = record_state_removed k t"
| "disk_step budget (RemoveCode n) t = record_wasm_removed n t"

definition within_budget :: "nat \<Rightarrow> 'k DiskUsageTracker \<Rightarrow> bool" where
  "within_budget budget t \<longleftrightarrow> budget < u64_max \<and> seeded t \<and> du_exact 0 t \<and> total_bytes t \<le> budget"

lemma total_bytes_plain: "total_bytes t \<le> budget \<Longrightarrow> budget < u64_max \<Longrightarrow>
    total_bytes t = state_bytes t + wasm_bytes t + compile_cache_bytes t"
  by (auto simp: total_bytes_def sat_add64_def)

lemma admitted_iff: "admitted (budget_check x b) t' t = (if x \<le> b then t' else t)"
  by (simp add: admitted_def budget_check_def)

lemma tracked_le: "du_exact r t \<Longrightarrow> seeded t \<Longrightarrow> tracked_size k (state_sizes t) \<le> state_bytes t"
  using sum_delete[of "state_sizes t" k] by (simp add: du_exact_def known_bytes_def)

lemma write_within:
  assumes "within_budget b t" "state_bytes t - tracked_size k (state_sizes t) + n + wasm_bytes t + compile_cache_bytes t \<le> b"
  shows "within_budget b (record_state_write k n t)"
proof -
  have e: "du_exact 0 t" "seeded t" "b < u64_max" using assms(1) by (simp_all add: within_budget_def)
  have ok: "map_ok (state_sizes t)" "state_bytes t = known_bytes t" using e by (simp_all add: du_exact_def)
  note le = tracked_le[OF e(1,2), of k]
  have sb: "state_bytes (record_state_write k n t) = state_bytes t - tracked_size k (state_sizes t) + n"
    using le assms(2) e(2,3) by (auto simp: record_state_write_def Let_def wrap_add64_def u64_max_def)
  moreover have "known_bytes (record_state_write k n t) = state_bytes t - tracked_size k (state_sizes t) + n"
    using sum_update[OF ok(1), of k n] le ok(2) by (auto simp: record_state_write_def Let_def known_bytes_def)
  moreover have "wasm_bytes (record_state_write k n t) = wasm_bytes t"
    "compile_cache_bytes (record_state_write k n t) = compile_cache_bytes t" "seeded (record_state_write k n t)"
    "map_ok (state_sizes (record_state_write k n t))"
    using e(2) ok(1) by (simp_all add: record_state_write_def Let_def)
  ultimately show ?thesis using assms(2) e(3)
    by (simp add: within_budget_def du_exact_def total_bytes_def sat_add64_def u64_max_def)
qed

lemma removal_within: "within_budget b t \<Longrightarrow> within_budget b (record_state_removed k t)"
proof -
  assume a: "within_budget b t"
  then have "du_exact 0 (record_state_removed k t)" using track_exact[of "Removed k" 0 t] by (simp add: within_budget_def)
  then show ?thesis using a
    by (auto simp: within_budget_def record_state_removed_def Let_def total_bytes_def sat_add64_def)
qed

lemma disk_step_within:
  assumes "within_budget b t"
  shows "within_budget b (disk_step b e t)"
proof -
  have e: "b < u64_max" "seeded t" "du_exact 0 t" "total_bytes t \<le> b" using assms by (simp_all add: within_budget_def)
  note plain = total_bytes_plain[OF e(4,1)]
  note le = tracked_le[OF e(3,2)]
  show ?thesis
  proof (cases e)
    case (PutState k n)
    then show ?thesis using assms e(1) plain le[of k] write_within[OF assms, of k n]
      by (auto simp: admit_state_write_def admitted_iff sat_add64_def)
  next
    case (UpdateState k n)
    then show ?thesis using assms e(1,4) plain le[of k] write_within[OF assms, of k n]
      by (auto simp: admit_state_update_def admit_state_write_def admitted_iff sat_add64_def) (auto simp: admitted_def)
  next
    case (StoreCode n)
    then show ?thesis using assms e plain
      by (auto simp: admit_wasm_write_def admitted_iff record_wasm_write_def within_budget_def du_exact_def
        known_bytes_def total_bytes_def sat_add64_def wrap_add64_def u64_max_def)
  next
    case (RemoveCode n)
    then show ?thesis using assms
      by (auto simp: record_wasm_removed_def within_budget_def du_exact_def known_bytes_def total_bytes_def sat_add64_def)
  qed (use removal_within[OF assms] in simp)
qed

interpretation disk: machine "disk_step b" "\<lambda>_. True" "within_budget b" for b
  by unfold_locales (rule disk_step_within)

text \<open>
  C17: the admission checks hold the node to its disk budget. Once the counter is exact and the usage within the
  budget, no sequence of writes of states and code that are recorded only when they were admitted, updates that
  do not grow a state included, and of removals brings the usage above the budget.
\<close>

theorem admission_within_budget:
  assumes "seeded t" "du_exact 0 t" "total_bytes t \<le> budget" "budget < u64_max"
  shows "total_bytes (fold (disk_step budget) es t) \<le> budget"
  using disk.fold_inv[of es budget t] assms by (simp add: within_budget_def list_all_iff)

theorem admission_within_budget_witness:
  "total_bytes (fold (disk_step 100) [PutState (1 :: nat) 60, PutState 2 60, StoreCode 30, UpdateState 1 90]
     (seed (Directory None) (Directory None) [] du_new)) \<le> 100"
proof (rule admission_within_budget)
  show "du_exact 0 (seed (Directory None) (Directory None) [] (du_new :: nat DiskUsageTracker))"
    by (simp add: seed_def du_new_def merge_rows_def du_exact_def known_bytes_def)
qed (simp_all add: seed_def du_new_def merge_rows_def total_bytes_def sat_add64_def u64_max_def du_walk_def du_walk_wasm_def)

section \<open>Concurrent updates of the counter\<close>

text \<open>
  The map of sizes is changed under its lock, but the counter is adjusted after the lock was released: by one
  \<open>fetch_add\<close>, or by a load and a loop of compare-and-swap, which may fail for no reason. The adjustments
  that are due are the pending ones.
\<close>

datatype adjustment = ToAdd nat | ToSub nat | Swapping nat nat

record 'k du_race =
  counter :: nat
  sizes :: "('k, nat) hash_map"
  pending :: "adjustment multiset"

text \<open>\<open>du_run s w s'\<close>: a seeded tracker gets from \<open>s\<close> to \<open>s'\<close> while states of \<open>w\<close> bytes in total are written.\<close>

inductive du_run :: "'k du_race \<Rightarrow> nat \<Rightarrow> 'k du_race \<Rightarrow> bool" for s0 where
  start: "du_run s0 0 s0"
| grow: "du_run s0 w s \<Longrightarrow> tracked_size k (sizes s) \<le> n \<Longrightarrow>
    du_run s0 (w + n) (s\<lparr>sizes := AList.update k n (sizes s), pending := add_mset (ToAdd (n - tracked_size k (sizes s))) (pending s)\<rparr>)"
| shrink: "du_run s0 w s \<Longrightarrow> n < tracked_size k (sizes s) \<Longrightarrow>
    du_run s0 (w + n) (s\<lparr>sizes := AList.update k n (sizes s), pending := add_mset (ToSub (tracked_size k (sizes s) - n)) (pending s)\<rparr>)"
| remove: "du_run s0 w s \<Longrightarrow> tracked_size k (sizes s) \<noteq> 0 \<Longrightarrow>
    du_run s0 w (s\<lparr>sizes := AList.delete k (sizes s), pending := add_mset (ToSub (tracked_size k (sizes s))) (pending s)\<rparr>)"
| remove_empty: "du_run s0 w s \<Longrightarrow> tracked_size k (sizes s) = 0 \<Longrightarrow> du_run s0 w (s\<lparr>sizes := AList.delete k (sizes s)\<rparr>)"
| fetch_add: "du_run s0 w s \<Longrightarrow> pending s = add_mset (ToAdd a) P \<Longrightarrow>
    du_run s0 w (s\<lparr>counter := wrap_add64 (counter s) a, pending := P\<rparr>)"
| load: "du_run s0 w s \<Longrightarrow> pending s = add_mset (ToSub d) P \<Longrightarrow>
    du_run s0 w (s\<lparr>pending := add_mset (Swapping d (counter s)) P\<rparr>)"
| swap: "du_run s0 w s \<Longrightarrow> pending s = add_mset (Swapping d (counter s)) P \<Longrightarrow>
    du_run s0 w (s\<lparr>counter := counter s - d, pending := P\<rparr>)"
| retry: "du_run s0 w s \<Longrightarrow> pending s = add_mset (Swapping d cur) P \<Longrightarrow>
    du_run s0 w (s\<lparr>pending := add_mset (Swapping d (counter s)) P\<rparr>)"

fun to_add :: "adjustment \<Rightarrow> nat" where
  "to_add (ToAdd a) = a"
| "to_add _ = 0"

fun to_sub :: "adjustment \<Rightarrow> nat" where
  "to_sub (ToAdd a) = 0"
| "to_sub (ToSub d) = d"
| "to_sub (Swapping d cur) = d"

abbreviation adds :: "'k du_race \<Rightarrow> nat" where
  "adds s \<equiv> sum_mset (image_mset to_add (pending s))"

abbreviation subs :: "'k du_race \<Rightarrow> nat" where
  "subs s \<equiv> sum_mset (image_mset to_sub (pending s))"

definition idle_exact :: "'k du_race \<Rightarrow> bool" where
  "idle_exact s \<longleftrightarrow> map_ok (sizes s) \<and> pending s = {#} \<and> counter s = value_sum (\<lambda>n. n) (sizes s)"

lemma du_run_bounds:
  assumes "du_run s0 w s" "idle_exact s0" "counter s0 + w < 2 ^ 64"
  shows "map_ok (sizes s) \<and> value_sum (\<lambda>n. n) (sizes s) + subs s \<le> counter s + adds s \<and> counter s + adds s \<le> counter s0 + w"
  using assms
proof (induction rule: du_run.induct)
  case start
  then show ?case by (simp add: idle_exact_def)
next
  case (grow w s k n)
  then show ?case using sum_update[of "sizes s" k n] by auto
next
  case (shrink w s n k)
  then show ?case using sum_update[of "sizes s" k n] by auto
next
  case (remove w s k)
  then show ?case using sum_delete[of "sizes s" k] by auto
next
  case (remove_empty w s k)
  then show ?case using sum_delete[of "sizes s" k] by auto
next
  case (fetch_add w s a P)
  then show ?case by (auto simp: wrap_add64_def)
qed auto

text \<open>
  Whatever the interleaving of writes, removals and pending adjustments, the counter never falls behind: once
  nothing is pending it is at least the sum of the sizes, so that the budget is never overrun for a
  counter that is too low.
\<close>

theorem counter_never_behind:
  assumes "du_run s0 w s" "idle_exact s0" "counter s0 + w < 2 ^ 64" "pending s = {#}"
  shows "value_sum (\<lambda>n. n) (sizes s) \<le> counter s"
  using du_run_bounds[OF assms(1,2,3)] assms(4) by simp

theorem counter_never_behind_witness:
  "value_sum (\<lambda>n. n) (sizes \<lparr>counter = 7, sizes = [(1 :: nat, 7)], pending = {#}\<rparr>) \<le> counter \<lparr>counter = 7, sizes = [(1 :: nat, 7)], pending = {#}\<rparr>"
proof (rule counter_never_behind)
  let ?s0 = "\<lparr>counter = 0, sizes = [], pending = {#}\<rparr> :: nat du_race"
  have 1: "du_run ?s0 7 \<lparr>counter = 0, sizes = [(1, 7)], pending = {#ToAdd 7#}\<rparr>"
    using grow[OF start, of 1 ?s0 7] by (simp add: tracked_size_def)
  show "du_run ?s0 7 \<lparr>counter = 7, sizes = [(1, 7)], pending = {#}\<rparr>"
    using fetch_add[OF 1, of 7 "{#}"] by (simp add: wrap_add64_def)
qed (simp_all add: idle_exact_def)

text \<open>The run in which a removal overtakes the write it undoes.\<close>

lemma overtaken_write:
  assumes "n > 0" "n < 2 ^ 64" "pending s = {#}" "map_of (sizes s) k = None" "counter s = 0"
  shows "du_run s n (s\<lparr>counter := n, pending := {#}\<rparr>)"
proof -
  have k: "tracked_size k (sizes s) = 0" "k \<notin> keys (sizes s)" using assms(4) by (simp_all add: tracked_size_def map_of_keys[symmetric])
  let ?s1 = "s\<lparr>sizes := AList.update k n (sizes s), pending := {#ToAdd n#}\<rparr>"
  let ?s2 = "s\<lparr>pending := {#ToSub n, ToAdd n#}\<rparr>"
  have 1: "du_run s n ?s1" using grow[OF start, of k s n] k assms(3) by simp
  have "tracked_size k (sizes ?s1) = n" by (simp add: tracked_size_def)
  then have 2: "du_run s n ?s2" using remove[OF 1, of k] k assms(1) by simp
  have 3: "du_run s n (s\<lparr>pending := {#Swapping n 0, ToAdd n#}\<rparr>)" using load[OF 2, of n "{#ToAdd n#}"] assms(5) by simp
  have 4: "du_run s n (s\<lparr>counter := 0, pending := {#ToAdd n#}\<rparr>)" using swap[OF 3, of n "{#ToAdd n#}"] assms(5) by simp
  show ?thesis using fetch_add[OF 4, of n "{#}"] assms by (simp add: wrap_add64_def)
qed

text \<open>
  The counter can run ahead for good. When a contract of \<open>n\<close> bytes is removed between the change of the map
  and the \<open>fetch_add\<close> of its write, on a node that holds no other state, the subtraction stops at zero and the
  addition follows: nothing is pending, no contract is tracked, and the counter stands at \<open>n\<close>.
\<close>

theorem counter_runs_ahead:
  assumes "0 < n" "n < 2 ^ 64"
  shows "\<exists>s. du_run \<lparr>counter = 0, sizes = [], pending = {#}\<rparr> n s \<and> pending s = {#} \<and> sizes s = [] \<and> counter s = n"
  using overtaken_write[OF assms, of "\<lparr>counter = 0, sizes = [], pending = {#}\<rparr>" k] by auto

theorem counter_runs_ahead_witness:
  "\<exists>s. du_run \<lparr>counter = 0, sizes = [] :: (nat, nat) hash_map, pending = {#}\<rparr> 100 s \<and> pending s = {#} \<and> sizes s = [] \<and> counter s = 100"
  by (rule counter_runs_ahead) simp_all

end
