(* ===== verification/Hosting_Manager.thy ===== *)
theory Hosting_Manager
  imports Hosting_Cache Backoff Disk_Usage Ring_Location
begin

text \<open>
  The hosting manager (\<open>ring/hosting.rs\<close>): leases of upstream subscriptions, local clients and downstream
  subscribers of contracts, around the hosting cache, the subscription back-off and the disk tracker. A contract
  key of type \<open>'k\<close> has an instance id of type \<open>'i\<close>, under which the local clients are kept; clients and peers are of
  any type. The database and the demand estimator are external; the record \<open>hosting_env\<close> holds what the
  manager calls of them, and their states are the fields \<open>storage\<close> and \<open>demand_estimator\<close>.
\<close>

section \<open>Constants and types\<close>

definition INITIAL_SUBSCRIPTION_BACKOFF :: duration where
  "INITIAL_SUBSCRIPTION_BACKOFF = from_secs 15"

definition MAX_SUBSCRIPTION_BACKOFF :: duration where
  "MAX_SUBSCRIPTION_BACKOFF = from_secs (SUBSCRIPTION_LEASE_DURATION div 1000000000 div 4)"

definition MAX_SUBSCRIPTION_BACKOFF_ENTRIES :: nat where
  "MAX_SUBSCRIPTION_BACKOFF_ENTRIES = 4096"

definition MAX_DOWNSTREAM_SUBSCRIBERS_PER_CONTRACT :: nat where
  "MAX_DOWNSTREAM_SUBSCRIBERS_PER_CONTRACT = 512"

definition MAX_PHANTOM_REPAIR_ATTEMPTS :: nat where
  "MAX_PHANTOM_REPAIR_ATTEMPTS = 3"

definition PHANTOM_REPAIR_COOLDOWN :: duration where
  "PHANTOM_REPAIR_COOLDOWN = from_secs 60"

definition PHANTOM_ABSOLUTE_MAX_AGE :: duration where
  "PHANTOM_ABSOLUTE_MAX_AGE = SUBSCRIPTION_LEASE_DURATION * 4"

record SubscriptionLease =
  subscribed_since :: instant
  expires_at :: instant
  last_updated :: "instant option"

record PhantomRepairEntry =
  attempts :: nat
  last_attempt :: instant
  first_seen :: instant

datatype 'k PhantomRepair = Fetch 'k | Drop 'k

datatype AddSubscriberOutcome = NewAdd | Renewal | Rejected

record ('k, 'p) EvictedInUseTeardown =
  teardown_key :: 'k
  downstream_peers :: "'p list"
  local_client_count :: nat

text \<open>A row of the database; its code hash is part of the key here.\<close>

record HostingMetadata =
  last_access_ms :: nat
  meta_access_type :: nat
  meta_size_bytes :: nat
  meta_local_client_access :: bool

text \<open>
  \<^const>\<open>None\<close> as a key of a row or a state is a key that does not have 32 bytes; \<^const>\<open>None\<close> as the result of loading
  the rows, and \<^const>\<open>Inl\<close> as a state size, are errors of the database. Errors of writing are logged and ignored.
\<close>

record ('k, 'i, 'd, 's) hosting_env =
  cid :: "'k \<Rightarrow> 'i"
  key_location :: "'k \<Rightarrow> Location"
  predict :: "rat \<Rightarrow> 'd \<Rightarrow> rat"
  observe :: "rat \<Rightarrow> rat \<Rightarrow> 'd \<Rightarrow> 'd"
  store_hosting_metadata :: "'k \<Rightarrow> HostingMetadata \<Rightarrow> 's \<Rightarrow> 's"
  remove_hosting_metadata :: "'k \<Rightarrow> 's \<Rightarrow> 's"
  get_hosting_metadata :: "'k \<Rightarrow> 's \<Rightarrow> HostingMetadata option"
  get_state_size :: "'k \<Rightarrow> 's \<Rightarrow> unit + nat option"
  load_all_hosting_metadata :: "'s \<Rightarrow> ('k option \<times> HostingMetadata) list option"
  iter_all_state_keys :: "'s \<Rightarrow> 'i option list"

record ('k, 'i, 'c, 'p, 'd, 's) HostingManager =
  active_subscriptions :: "('k, SubscriptionLease) hash_map"
  client_subscriptions :: "('i, 'c list) hash_map"
  hosting_cache :: "'k HostingCache"
  demand_estimator :: 'd
  own_location :: "Location option"
  local_get_serves :: nat
  local_get_forwards :: nat
  downstream_subscribers :: "('k, ('p, instant) hash_map) hash_map"
  pending_subscription_requests :: "'k list"
  subscription_backoff :: "'k TrackedBackoff"
  storage :: "'s option"
  state_generation :: "('k, nat) hash_map"
  pending_reclamation :: "('k, nat) hash_map"
  phantom_repair :: "('k, PhantomRepairEntry) hash_map"
  disk_tracker :: "'k DiskUsageTracker option"
  ram_budget_bytes :: nat
  disk_pct :: "rat option"
  max_hosting_disk_bytes :: nat
  disk_budget_bytes :: nat

type_synonym ('k, 'i, 'c, 'p, 'd, 's) manager = "('k, 'i, 'c, 'p, 'd, 's) HostingManager"

definition hm_new :: "nat \<Rightarrow> 'd \<Rightarrow> ('k, 'i, 'c, 'p, 'd, 's) manager" where
  "hm_new budget estimator = \<lparr>active_subscriptions = [], client_subscriptions = [], hosting_cache = hc_new budget,
     demand_estimator = estimator, own_location = None, local_get_serves = 0, local_get_forwards = 0,
     downstream_subscribers = [], pending_subscription_requests = [],
     subscription_backoff = tb_new \<lparr>bo_base = INITIAL_SUBSCRIPTION_BACKOFF, bo_max = MAX_SUBSCRIPTION_BACKOFF\<rparr>
       MAX_SUBSCRIPTION_BACKOFF_ENTRIES,
     storage = None, state_generation = [], pending_reclamation = [], phantom_repair = [], disk_tracker = None,
     ram_budget_bytes = budget, disk_pct = Some (1 / 2), max_hosting_disk_bytes = DEFAULT_MAX_HOSTING_DISK_BYTES,
     disk_budget_bytes = u64_max\<rparr>"

section \<open>Generations, storage and the disk budget\<close>

definition state_generation_of :: "'k \<Rightarrow> ('k, 'i, 'c, 'p, 'd, 's) manager \<Rightarrow> nat" where
  "state_generation_of k m = (case map_of (state_generation m) k of Some g \<Rightarrow> g | None \<Rightarrow> 0)"

definition bump_state_generation :: "'k \<Rightarrow> ('k, 'i, 'c, 'p, 'd, 's) manager \<Rightarrow> nat \<times> ('k, 'i, 'c, 'p, 'd, 's) manager" where
  "bump_state_generation k m =
    (let next = (case map_of (state_generation m) k of Some g \<Rightarrow> sat_add64 g 1 | None \<Rightarrow> 1)
     in (next, m\<lparr>state_generation := AList.update k next (state_generation m)\<rparr>))"

definition forget_state_generation :: "'k \<Rightarrow> ('k, 'i, 'c, 'p, 'd, 's) manager \<Rightarrow> ('k, 'i, 'c, 'p, 'd, 's) manager" where
  "forget_state_generation k m = m\<lparr>state_generation := AList.delete k (state_generation m)\<rparr>"

definition refresh_cache_generation :: "'k \<Rightarrow> nat \<Rightarrow> ('k, 'i, 'c, 'p, 'd, 's) manager \<Rightarrow> ('k, 'i, 'c, 'p, 'd, 's) manager" where
  "refresh_cache_generation k g m = m\<lparr>hosting_cache := refresh_entry_generation k g (hosting_cache m)\<rparr>"

definition configure_disk_tracker :: "('k, 'i, 'c, 'p, 'd, 's) manager \<Rightarrow> ('k, 'i, 'c, 'p, 'd, 's) manager" where
  "configure_disk_tracker m = m\<lparr>disk_tracker := Some du_new\<rparr>"

definition configure_disk_budget :: "rat option \<Rightarrow> nat \<Rightarrow> ('k, 'i, 'c, 'p, 'd, 's) manager \<Rightarrow> ('k, 'i, 'c, 'p, 'd, 's) manager" where
  "configure_disk_budget pct cap m = m\<lparr>disk_pct := pct, max_hosting_disk_bytes := cap\<rparr>"

definition recompute_effective_budget :: "nat \<Rightarrow> ('k, 'i, 'c, 'p, 'd, 's) manager \<Rightarrow> nat option \<times> ('k, 'i, 'c, 'p, 'd, 's) manager" where
  "recompute_effective_budget available m =
    (case disk_tracker m of
       None \<Rightarrow> (None, m)
     | Some t \<Rightarrow>
         if \<not> seeded t then (None, m)
         else let disk_budget = disk_budget_for_clamped (total_bytes t) available (disk_pct m)
                    MIN_DEFAULT_HOSTING_BUDGET_BYTES (max_hosting_disk_bytes m);
                  effective = min (ram_budget_bytes m) disk_budget
              in (Some effective, m\<lparr>disk_budget_bytes := disk_budget, hosting_cache := set_budget_bytes effective (hosting_cache m)\<rparr>))"

text \<open>The three admission checks of the manager: no check without a seeded tracker.\<close>

definition with_budget :: "(nat \<Rightarrow> 'k DiskUsageTracker \<Rightarrow> DiskBudgetExceeded + unit) \<Rightarrow> ('k, 'i, 'c, 'p, 'd, 's) manager \<Rightarrow> DiskBudgetExceeded + unit" where
  "with_budget check m =
    (case disk_tracker m of
       None \<Rightarrow> Inr ()
     | Some t \<Rightarrow> if \<not> seeded t then Inr () else check (disk_budget_bytes m) t)"

definition hm_admit_state_write :: "'k \<Rightarrow> nat \<Rightarrow> ('k, 'i, 'c, 'p, 'd, 's) manager \<Rightarrow> DiskBudgetExceeded + unit" where
  "hm_admit_state_write k n m = with_budget (admit_state_write k n) m"

definition hm_admit_state_update :: "'k \<Rightarrow> nat \<Rightarrow> ('k, 'i, 'c, 'p, 'd, 's) manager \<Rightarrow> DiskBudgetExceeded + unit" where
  "hm_admit_state_update k n m = with_budget (admit_state_update k n) m"

definition hm_admit_wasm_write :: "nat \<Rightarrow> ('k, 'i, 'c, 'p, 'd, 's) manager \<Rightarrow> DiskBudgetExceeded + unit" where
  "hm_admit_wasm_write n m = with_budget (admit_wasm_write n) m"

definition seed_disk_tracker_if_absent :: "('k, 'i, 'd, 's) hosting_env \<Rightarrow> dir_entry \<Rightarrow> dir_entry \<Rightarrow>
    ('k, 'i, 'c, 'p, 'd, 's) manager \<Rightarrow> ('k, 'i, 'c, 'p, 'd, 's) manager" where
  "seed_disk_tracker_if_absent env contracts_dir compile_cache_dir m =
    (case (disk_tracker m, storage m) of
       (Some t, Some st) \<Rightarrow>
         if seeded t then m
         else (case load_all_hosting_metadata env st of
                 None \<Rightarrow> m
               | Some rows \<Rightarrow> m\<lparr>disk_tracker := Some (seed contracts_dir compile_cache_dir
                   (List.map_filter (\<lambda>(key, meta). map_option (\<lambda>k. (k, meta_size_bytes meta)) key) rows) t)\<rparr>)
     | _ \<Rightarrow> m)"

text \<open>The delegations to the tracker: recording of states and code, and the refreshes.\<close>

definition with_tracker :: "('k DiskUsageTracker \<Rightarrow> 'k DiskUsageTracker) \<Rightarrow> ('k, 'i, 'c, 'p, 'd, 's) manager \<Rightarrow> ('k, 'i, 'c, 'p, 'd, 's) manager" where
  "with_tracker f m = m\<lparr>disk_tracker := map_option f (disk_tracker m)\<rparr>"

definition hm_record_state_write :: "'k \<Rightarrow> nat \<Rightarrow> ('k, 'i, 'c, 'p, 'd, 's) manager \<Rightarrow> ('k, 'i, 'c, 'p, 'd, 's) manager" where
  "hm_record_state_write k n m = with_tracker (record_state_write k n) m"

definition hm_record_state_removed :: "'k \<Rightarrow> ('k, 'i, 'c, 'p, 'd, 's) manager \<Rightarrow> ('k, 'i, 'c, 'p, 'd, 's) manager" where
  "hm_record_state_removed k m = with_tracker (record_state_removed k) m"

definition hm_record_wasm_write :: "nat \<Rightarrow> ('k, 'i, 'c, 'p, 'd, 's) manager \<Rightarrow> ('k, 'i, 'c, 'p, 'd, 's) manager" where
  "hm_record_wasm_write n m = with_tracker (record_wasm_write n) m"

definition hm_record_wasm_removed :: "nat \<Rightarrow> ('k, 'i, 'c, 'p, 'd, 's) manager \<Rightarrow> ('k, 'i, 'c, 'p, 'd, 's) manager" where
  "hm_record_wasm_removed n m = with_tracker (record_wasm_removed n) m"

definition refresh_disk_usage :: "dir_entry \<Rightarrow> dir_entry \<Rightarrow> ('k, 'i, 'c, 'p, 'd, 's) manager \<Rightarrow> ('k, 'i, 'c, 'p, 'd, 's) manager" where
  "refresh_disk_usage contracts_dir compile_cache_dir m =
    with_tracker (refresh_compile_cache compile_cache_dir \<circ> refresh_wasm contracts_dir) m"

section \<open>Leases\<close>

definition set_storage :: "'s option \<Rightarrow> ('k, 'i, 'c, 'p, 'd, 's) manager \<Rightarrow> ('k, 'i, 'c, 'p, 'd, 's) manager" where
  "set_storage st m = m\<lparr>storage := st\<rparr>"

definition pending_reclamation_add :: "'k \<Rightarrow> nat \<Rightarrow> ('k, 'i, 'c, 'p, 'd, 's) manager \<Rightarrow> ('k, 'i, 'c, 'p, 'd, 's) manager" where
  "pending_reclamation_add k g m = m\<lparr>pending_reclamation := AList.update k g (pending_reclamation m)\<rparr>"

definition pending_reclamation_remove :: "'k \<Rightarrow> ('k, 'i, 'c, 'p, 'd, 's) manager \<Rightarrow> ('k, 'i, 'c, 'p, 'd, 's) manager" where
  "pending_reclamation_remove k m = m\<lparr>pending_reclamation := AList.delete k (pending_reclamation m)\<rparr>"

definition subscribe :: "instant \<Rightarrow> 'k \<Rightarrow> ('k, 'i, 'c, 'p, 'd, 's) manager \<Rightarrow> (bool \<times> instant) \<times> ('k, 'i, 'c, 'p, 'd, 's) manager" where
  "subscribe now k m =
    (let expires = now + SUBSCRIPTION_LEASE_DURATION
     in case map_of (active_subscriptions m) k of
          Some l \<Rightarrow> ((False, expires), m\<lparr>active_subscriptions := AList.update k (l\<lparr>expires_at := expires\<rparr>) (active_subscriptions m)\<rparr>)
        | None \<Rightarrow> ((True, expires), m\<lparr>active_subscriptions := AList.update k
            \<lparr>subscribed_since = now, expires_at = expires, last_updated = None\<rparr> (active_subscriptions m)\<rparr>))"

definition renew_subscription :: "instant \<Rightarrow> 'k \<Rightarrow> ('k, 'i, 'c, 'p, 'd, 's) manager \<Rightarrow> bool \<times> ('k, 'i, 'c, 'p, 'd, 's) manager" where
  "renew_subscription now k m =
    (case map_of (active_subscriptions m) k of
       Some l \<Rightarrow> (True, m\<lparr>active_subscriptions := AList.update k
         (l\<lparr>expires_at := now + SUBSCRIPTION_LEASE_DURATION\<rparr>) (active_subscriptions m)\<rparr>)
     | None \<Rightarrow> (False, m))"

definition unsubscribe :: "'k \<Rightarrow> ('k, 'i, 'c, 'p, 'd, 's) manager \<Rightarrow> ('k, 'i, 'c, 'p, 'd, 's) manager" where
  "unsubscribe k m = m\<lparr>active_subscriptions := AList.delete k (active_subscriptions m)\<rparr>"

definition is_subscribed :: "instant \<Rightarrow> 'k \<Rightarrow> ('k, 'i, 'c, 'p, 'd, 's) manager \<Rightarrow> bool" where
  "is_subscribed now k m = (case map_of (active_subscriptions m) k of Some l \<Rightarrow> expires_at l > now | None \<Rightarrow> False)"

definition get_subscribed_contracts :: "('k, 'i, 'd, 's) hosting_env \<Rightarrow> instant \<Rightarrow> ('k, 'i :: linorder, 'c, 'p, 'd, 's) manager \<Rightarrow> 'k list" where
  "get_subscribed_contracts env now m =
    sort_key (cid env) (map fst (filter (\<lambda>(_, l). expires_at l > now) (active_subscriptions m)))"

definition record_contract_update :: "instant \<Rightarrow> 'k \<Rightarrow> ('k, 'i, 'c, 'p, 'd, 's) manager \<Rightarrow> ('k, 'i, 'c, 'p, 'd, 's) manager" where
  "record_contract_update now k m =
    (case map_of (active_subscriptions m) k of
       Some l \<Rightarrow> m\<lparr>active_subscriptions := AList.update k (l\<lparr>last_updated := Some now\<rparr>) (active_subscriptions m)\<rparr>
     | None \<Rightarrow> m)"

definition force_subscription_renewal :: "'k \<Rightarrow> ('k, 'i, 'c, 'p, 'd, 's) manager \<Rightarrow> ('k, 'i, 'c, 'p, 'd, 's) manager" where
  "force_subscription_renewal k m = m\<lparr>active_subscriptions := AList.delete k (active_subscriptions m)\<rparr>"

definition expire_stale_subscriptions :: "instant \<Rightarrow> ('k, 'i, 'c, 'p, 'd, 's) manager \<Rightarrow> 'k list \<times> ('k, 'i, 'c, 'p, 'd, 's) manager" where
  "expire_stale_subscriptions now m =
    (map fst (filter (\<lambda>(_, l). expires_at l \<le> now) (active_subscriptions m)),
     m\<lparr>active_subscriptions := filter (\<lambda>(_, l). \<not> expires_at l \<le> now) (active_subscriptions m)\<rparr>)"

section \<open>Local clients and downstream subscribers\<close>

definition clients_of :: "'i \<Rightarrow> ('k, 'i, 'c, 'p, 'd, 's) manager \<Rightarrow> 'c list" where
  "clients_of i m = (case map_of (client_subscriptions m) i of Some cs \<Rightarrow> cs | None \<Rightarrow> [])"

definition add_client_subscription :: "'i \<Rightarrow> 'c \<Rightarrow> ('k, 'i, 'c, 'p, 'd, 's) manager \<Rightarrow> bool \<times> ('k, 'i, 'c, 'p, 'd, 's) manager" where
  "add_client_subscription i c m =
    (clients_of i m = [], m\<lparr>client_subscriptions := AList.update i (List.insert c (clients_of i m)) (client_subscriptions m)\<rparr>)"

definition remove_client_subscription :: "'i \<Rightarrow> 'c \<Rightarrow> ('k, 'i, 'c, 'p, 'd, 's) manager \<Rightarrow> bool \<times> ('k, 'i, 'c, 'p, 'd, 's) manager" where
  "remove_client_subscription i c m =
    (case map_of (client_subscriptions m) i of
       None \<Rightarrow> (False, m)
     | Some cs \<Rightarrow>
         let cs' = removeAll c cs
         in if cs' = [] then (True, m\<lparr>client_subscriptions := AList.delete i (client_subscriptions m)\<rparr>)
            else (False, m\<lparr>client_subscriptions := AList.update i cs' (client_subscriptions m)\<rparr>))"

definition has_client_subscriptions :: "'i \<Rightarrow> ('k, 'i, 'c, 'p, 'd, 's) manager \<Rightarrow> bool" where
  "has_client_subscriptions i m \<longleftrightarrow> clients_of i m \<noteq> []"

definition peers_of :: "'k \<Rightarrow> ('k, 'i, 'c, 'p, 'd, 's) manager \<Rightarrow> ('p, instant) hash_map" where
  "peers_of k m = (case map_of (downstream_subscribers m) k of Some ps \<Rightarrow> ps | None \<Rightarrow> [])"

definition has_downstream_subscribers :: "'k \<Rightarrow> ('k, 'i, 'c, 'p, 'd, 's) manager \<Rightarrow> bool" where
  "has_downstream_subscribers k m \<longleftrightarrow> peers_of k m \<noteq> []"

definition contract_in_use :: "('k, 'i, 'd, 's) hosting_env \<Rightarrow> 'k \<Rightarrow> ('k, 'i, 'c, 'p, 'd, 's) manager \<Rightarrow> bool" where
  "contract_in_use env k m \<longleftrightarrow> has_client_subscriptions (cid env k) m \<or> has_downstream_subscribers k m"

definition local_and_downstream_counts :: "('k, 'i, 'd, 's) hosting_env \<Rightarrow> ('k, 'i, 'c, 'p, 'd, 's) manager \<Rightarrow> 'k \<Rightarrow> nat \<times> nat" where
  "local_and_downstream_counts env m k = (length (clients_of (cid env k) m), length (peers_of k m))"

definition maybe_record_abandonment :: "('k, 'i, 'd, 's) hosting_env \<Rightarrow> instant \<Rightarrow> 'k \<Rightarrow> ('k, 'i, 'c, 'p, 'd, 's) manager \<Rightarrow> ('k, 'i, 'c, 'p, 'd, 's) manager" where
  "maybe_record_abandonment env now k m =
    (if \<not> contract_in_use env k m then m\<lparr>hosting_cache := record_abandonment now k (hosting_cache m)\<rparr> else m)"

definition remove_client_from_all_subscriptions :: "('k, 'i :: linorder, 'd, 's) hosting_env \<Rightarrow> instant \<Rightarrow> 'c \<Rightarrow> ('k, 'i, 'c, 'p, 'd, 's) manager \<Rightarrow> 'k list \<times> ('k, 'i, 'c, 'p, 'd, 's) manager" where
  "remove_client_from_all_subscriptions env now c m =
    fold (\<lambda>i (affected, m).
        let m1 = snd (remove_client_subscription i c m)
        in case find (\<lambda>(k, _). cid env k = i) (active_subscriptions m1) of
             Some (k, _) \<Rightarrow> (affected @ [k], maybe_record_abandonment env now k m1)
           | None \<Rightarrow> (affected, m1))
      (sort (map fst (filter (\<lambda>(_, cs). c \<in> set cs) (client_subscriptions m)))) ([], m)"

definition add_downstream_subscriber :: "instant \<Rightarrow> 'k \<Rightarrow> 'p \<Rightarrow> ('k, 'i, 'c, 'p, 'd, 's) manager \<Rightarrow> AddSubscriberOutcome \<times> ('k, 'i, 'c, 'p, 'd, 's) manager" where
  "add_downstream_subscriber now k p m =
    (let ps = peers_of k m;
         is_new = (\<not> contains_key ps p);
         m1 = m\<lparr>downstream_subscribers := AList.update k ps (downstream_subscribers m)\<rparr>
     in if is_new \<and> length ps \<ge> MAX_DOWNSTREAM_SUBSCRIBERS_PER_CONTRACT then (Rejected, m1)
        else (if is_new then NewAdd else Renewal,
              m\<lparr>downstream_subscribers := AList.update k (AList.update p now ps) (downstream_subscribers m)\<rparr>))"

definition renew_downstream_subscriber :: "instant \<Rightarrow> 'k \<Rightarrow> 'p \<Rightarrow> ('k, 'i, 'c, 'p, 'd, 's) manager \<Rightarrow> bool \<times> ('k, 'i, 'c, 'p, 'd, 's) manager" where
  "renew_downstream_subscriber now k p m =
    (if contains_key (peers_of k m) p
     then (True, m\<lparr>downstream_subscribers := AList.update k (AList.update p now (peers_of k m)) (downstream_subscribers m)\<rparr>)
     else (False, m))"

text \<open>The peers of a contract are put back, or the contract is removed when none is left (\<open>remove_if\<close>).\<close>

definition set_peers :: "'k \<Rightarrow> ('p, instant) hash_map \<Rightarrow> ('k, 'i, 'c, 'p, 'd, 's) manager \<Rightarrow> ('k, 'i, 'c, 'p, 'd, 's) manager" where
  "set_peers k ps m = m\<lparr>downstream_subscribers :=
     (if ps = [] then AList.delete k (downstream_subscribers m) else AList.update k ps (downstream_subscribers m))\<rparr>"

definition remove_downstream_subscriber :: "('k, 'i, 'd, 's) hosting_env \<Rightarrow> instant \<Rightarrow> 'k \<Rightarrow> 'p \<Rightarrow> ('k, 'i, 'c, 'p, 'd, 's) manager \<Rightarrow> bool \<times> ('k, 'i, 'c, 'p, 'd, 's) manager" where
  "remove_downstream_subscriber env now k p m =
    (if contains_key (peers_of k m) p
     then (True, maybe_record_abandonment env now k (set_peers k (AList.delete p (peers_of k m)) m))
     else (False, m))"

definition downstream_subscriber_peers :: "instant \<Rightarrow> 'k \<Rightarrow> ('k, 'i, 'c, 'p, 'd, 's) manager \<Rightarrow> 'p list" where
  "downstream_subscriber_peers now k m = map fst (filter (\<lambda>(_, t). now - t < SUBSCRIPTION_LEASE_DURATION) (peers_of k m))"

definition expire_downstream_of :: "('k, 'i, 'd, 's) hosting_env \<Rightarrow> instant \<Rightarrow> 'k \<Rightarrow> ('k \<times> nat) list \<times> ('k, 'i, 'c, 'p, 'd, 's) manager \<Rightarrow> ('k \<times> nat) list \<times> ('k, 'i, 'c, 'p, 'd, 's) manager" where
  "expire_downstream_of env now k = (\<lambda>(expired_counts, m).
    case map_of (downstream_subscribers m) k of
      None \<Rightarrow> (expired_counts, m)
    | Some ps \<Rightarrow>
        let kept = filter (\<lambda>(_, t). now - t < SUBSCRIPTION_LEASE_DURATION) ps;
            expired = length ps - length kept;
            m1 = set_peers k kept m
        in (if expired > 0 then expired_counts @ [(k, expired)] else expired_counts,
            if kept = [] then maybe_record_abandonment env now k m1 else m1))"

definition expire_stale_downstream_subscribers :: "('k, 'i, 'd, 's) hosting_env \<Rightarrow> instant \<Rightarrow> ('k, 'i, 'c, 'p, 'd, 's) manager \<Rightarrow> ('k \<times> nat) list \<times> ('k, 'i, 'c, 'p, 'd, 's) manager" where
  "expire_stale_downstream_subscribers env now m =
    fold (expire_downstream_of env now) (map fst (downstream_subscribers m)) ([], m)"

definition should_unsubscribe_upstream :: "('k, 'i, 'd, 's) hosting_env \<Rightarrow> 'k \<Rightarrow> ('k, 'i, 'c, 'p, 'd, 's) manager \<Rightarrow> bool" where
  "should_unsubscribe_upstream env k m \<longleftrightarrow> \<not> has_client_subscriptions (cid env k) m \<and> \<not> has_downstream_subscribers k m"

section \<open>Contracts in use without a state\<close>

definition contract_state_present :: "('k, 'i, 'd, 's) hosting_env \<Rightarrow> 'k \<Rightarrow> ('k, 'i, 'c, 'p, 'd, 's) manager \<Rightarrow> bool" where
  "contract_state_present env k m =
    (case storage m of
       Some st \<Rightarrow> (case get_state_size env k st of Inr n \<Rightarrow> n \<noteq> None | Inl _ \<Rightarrow> True)
     | None \<Rightarrow> True)"

definition phantom_in_use_count :: "('k, 'i, 'd, 's) hosting_env \<Rightarrow> ('k, 'i, 'c, 'p, 'd, 's) manager \<Rightarrow> nat" where
  "phantom_in_use_count env m = length (filter (\<lambda>(k, _). \<not> contract_state_present env k m) (downstream_subscribers m))"

text \<open>One contract of the sweep; \<open>fetches\<close> counts the fetches of the sweep so far.\<close>

definition repair_phantom :: "('k, 'i, 'd, 's) hosting_env \<Rightarrow> instant \<Rightarrow> nat \<Rightarrow> 'k \<Rightarrow> 'k PhantomRepair list \<times> nat \<times> ('k, 'i, 'c, 'p, 'd, 's) manager \<Rightarrow> 'k PhantomRepair list \<times> nat \<times> ('k, 'i, 'c, 'p, 'd, 's) manager" where
  "repair_phantom env now max_fetches k = (\<lambda>(actions, fetches, m).
    if contract_state_present env k m then (actions, fetches, m\<lparr>phantom_repair := AList.delete k (phantom_repair m)\<rparr>)
    else if k \<in> set (pending_subscription_requests m) then (actions, fetches, m)
    else case map_of (phantom_repair m) k of
      Some e \<Rightarrow>
        if attempts e \<ge> MAX_PHANTOM_REPAIR_ATTEMPTS
        then if now - first_seen e \<ge> PHANTOM_ABSOLUTE_MAX_AGE
             then (actions @ [Drop k], fetches, m\<lparr>phantom_repair := AList.delete k (phantom_repair m)\<rparr>)
             else (actions, fetches, m)
        else if now - last_attempt e < PHANTOM_REPAIR_COOLDOWN then (actions, fetches, m)
        else if fetches < max_fetches
             then (actions @ [Fetch k], fetches + 1, m\<lparr>phantom_repair :=
                     AList.update k (e\<lparr>attempts := attempts e + 1, last_attempt := now\<rparr>) (phantom_repair m)\<rparr>)
             else (actions, fetches, m)
    | None \<Rightarrow>
        if fetches < max_fetches
        then (actions @ [Fetch k], fetches + 1, m\<lparr>phantom_repair :=
                AList.update k \<lparr>attempts = 1, last_attempt = now, first_seen = now\<rparr> (phantom_repair m)\<rparr>)
        else (actions, fetches, m))"

definition reconcile_phantom_in_use :: "('k, 'i, 'd, 's) hosting_env \<Rightarrow> instant \<Rightarrow> nat \<Rightarrow> ('k, 'i, 'c, 'p, 'd, 's) manager \<Rightarrow> 'k PhantomRepair list \<times> ('k, 'i, 'c, 'p, 'd, 's) manager" where
  "reconcile_phantom_in_use env now max_fetches m =
    (let ks = map fst (downstream_subscribers m);
         m1 = m\<lparr>phantom_repair := filter (\<lambda>(k, _). k \<in> set ks) (phantom_repair m)\<rparr>;
         (actions, _, m2) = fold (repair_phantom env now max_fetches) ks ([], 0, m1)
     in (actions, m2))"

definition drop_phantom_downstream :: "('k, 'i, 'd, 's) hosting_env \<Rightarrow> instant \<Rightarrow> 'k \<Rightarrow> ('k, 'i, 'c, 'p, 'd, 's) manager \<Rightarrow> nat \<times> ('k, 'i, 'c, 'p, 'd, 's) manager" where
  "drop_phantom_downstream env now k m =
    (let removed = length (peers_of k m);
         m1 = m\<lparr>downstream_subscribers := AList.delete k (downstream_subscribers m)\<rparr>;
         m2 = (if removed > 0 then maybe_record_abandonment env now k m1 else m1)
     in (removed, m2\<lparr>phantom_repair := AList.delete k (phantom_repair m2)\<rparr>))"

section \<open>Accesses and evictions\<close>

definition set_own_location :: "Location \<Rightarrow> ('k, 'i, 'c, 'p, 'd, 's) manager \<Rightarrow> ('k, 'i, 'c, 'p, 'd, 's) manager" where
  "set_own_location l m = m\<lparr>own_location := Some l\<rparr>"

definition record_local_get_serve :: "('k, 'i, 'c, 'p, 'd, 's) manager \<Rightarrow> ('k, 'i, 'c, 'p, 'd, 's) manager" where
  "record_local_get_serve m = m\<lparr>local_get_serves := wrap_add64 (local_get_serves m) 1\<rparr>"

definition record_local_get_forward :: "('k, 'i, 'c, 'p, 'd, 's) manager \<Rightarrow> ('k, 'i, 'c, 'p, 'd, 's) manager" where
  "record_local_get_forward m = m\<lparr>local_get_forwards := wrap_add64 (local_get_forwards m) 1\<rparr>"

definition distance_and_demand :: "('k, 'i, 'd, 's) hosting_env \<Rightarrow> 'k \<Rightarrow> ('k, 'i, 'c, 'p, 'd, 's) manager \<Rightarrow> rat option \<times> rat" where
  "distance_and_demand env k m =
    (let d = map_option (\<lambda>l. distance_f64 (distance l (key_location env k))) (own_location m)
     in (d, case d of Some x \<Rightarrow> predict env x (demand_estimator m) | None \<Rightarrow> NEUTRAL_DEMAND))"

definition observe_rate :: "('k, 'i, 'd, 's) hosting_env \<Rightarrow> rat option \<Rightarrow> rat option \<Rightarrow> ('k, 'i, 'c, 'p, 'd, 's) manager \<Rightarrow> ('k, 'i, 'c, 'p, 'd, 's) manager" where
  "observe_rate env d rate m =
    (case (d, rate) of (Some x, Some r) \<Rightarrow> m\<lparr>demand_estimator := observe env x r (demand_estimator m)\<rparr> | _ \<Rightarrow> m)"

definition teardown_evicted_in_use_contract :: "('k, 'i, 'd, 's) hosting_env \<Rightarrow> 'k \<Rightarrow> ('k, 'i, 'c, 'p, 'd, 's) manager \<Rightarrow> ('k, 'p) EvictedInUseTeardown \<times> ('k, 'i, 'c, 'p, 'd, 's) manager" where
  "teardown_evicted_in_use_contract env k m =
    (\<lparr>teardown_key = k, downstream_peers = map fst (peers_of k m), local_client_count = length (clients_of (cid env k) m)\<rparr>,
     unsubscribe k (m\<lparr>downstream_subscribers := AList.delete k (downstream_subscribers m),
                       client_subscriptions := AList.delete (cid env k) (client_subscriptions m)\<rparr>))"

fun teardown_all :: "('k, 'i, 'd, 's) hosting_env \<Rightarrow> 'k list \<Rightarrow> ('k, 'i, 'c, 'p, 'd, 's) manager \<Rightarrow> ('k, 'p) EvictedInUseTeardown list \<times> ('k, 'i, 'c, 'p, 'd, 's) manager" where
  "teardown_all env [] m = ([], m)"
| "teardown_all env (k # ks) m =
    (let (t, m1) = teardown_evicted_in_use_contract env k m; (ts, m2) = teardown_all env ks m1 in (t # ts, m2))"

definition access_type_u8 :: "AccessType \<Rightarrow> nat" where
  "access_type_u8 a = (case a of Get \<Rightarrow> 0 | Put \<Rightarrow> 1 | Subscribe \<Rightarrow> 2)"

definition persist :: "('s \<Rightarrow> 's) \<Rightarrow> ('k, 'i, 'c, 'p, 'd, 's) manager \<Rightarrow> ('k, 'i, 'c, 'p, 'd, 's) manager" where
  "persist f m = m\<lparr>storage := map_option f (storage m)\<rparr>"

definition record_contract_access :: "('k :: linorder, 'i, 'd, 's) hosting_env \<Rightarrow> instant \<Rightarrow> nat \<Rightarrow> 'k \<Rightarrow> nat \<Rightarrow> AccessType \<Rightarrow> ('k, 'i, 'c, 'p, 'd, 's) manager \<Rightarrow>
    ('k RecordAccessResult \<times> ('k, 'p) EvictedInUseTeardown list) \<times> ('k, 'i, 'c, 'p, 'd, 's) manager" where
  "record_contract_access env now now_ms k bytes access m =
    (let (d, demand) = distance_and_demand env k m;
         (result, cache) = record_access_with_demand now k bytes access (state_generation_of k m) demand
           (local_and_downstream_counts env m) (hosting_cache m);
         (torn, m1) = teardown_all env (evicted_in_use result) (m\<lparr>hosting_cache := cache\<rparr>);
         m2 = observe_rate env d (observed_read_rate result) m1;
         meta = \<lparr>last_access_ms = now_ms, meta_access_type = access_type_u8 access, meta_size_bytes = bytes,
                 meta_local_client_access = has_local_client_access k (hosting_cache m2)\<rparr>
     in ((result, torn), persist (fold (remove_hosting_metadata env) (map fst (evicted result)) \<circ> store_hosting_metadata env k meta) m2))"

definition is_hosting_contract :: "'k \<Rightarrow> ('k, 'i, 'c, 'p, 'd, 's) manager \<Rightarrow> bool" where
  "is_hosting_contract k m \<longleftrightarrow> contains_key (contracts (hosting_cache m)) k"

definition should_summarize_or_broadcast :: "('k, 'i, 'd, 's) hosting_env \<Rightarrow> 'k \<Rightarrow> ('k, 'i, 'c, 'p, 'd, 's) manager \<Rightarrow> bool" where
  "should_summarize_or_broadcast env k m \<longleftrightarrow>
    (is_hosting_contract k m \<or> contract_in_use env k m) \<and> contract_state_present env k m"

definition is_receiving_updates :: "('k, 'i, 'd, 's) hosting_env \<Rightarrow> instant \<Rightarrow> 'k \<Rightarrow> ('k, 'i, 'c, 'p, 'd, 's) manager \<Rightarrow> bool" where
  "is_receiving_updates env now k m \<longleftrightarrow> is_subscribed now k m \<or> has_client_subscriptions (cid env k) m"

definition hm_mark_local_client_access :: "('k, 'i, 'd, 's) hosting_env \<Rightarrow> instant \<Rightarrow> 'k \<Rightarrow> ('k, 'i, 'c, 'p, 'd, 's) manager \<Rightarrow> ('k, 'i, 'c, 'p, 'd, 's) manager" where
  "hm_mark_local_client_access env now k m =
    (let already_set = has_local_client_access k (hosting_cache m);
         m1 = m\<lparr>hosting_cache := mark_local_client_access now k (hosting_cache m)\<rparr>
     in if already_set then m1
        else persist (\<lambda>st. case get_hosting_metadata env k st of
                             Some meta \<Rightarrow> store_hosting_metadata env k (meta\<lparr>meta_local_client_access := True\<rparr>) st
                           | None \<Rightarrow> st) m1)"

definition touch_hosting :: "('k, 'i, 'd, 's) hosting_env \<Rightarrow> instant \<Rightarrow> 'k \<Rightarrow> ('k, 'i, 'c, 'p, 'd, 's) manager \<Rightarrow> ('k, 'i, 'c, 'p, 'd, 's) manager" where
  "touch_hosting env now k m =
    (let (d, demand) = distance_and_demand env k m;
         (rate, cache) = touch_with_demand now k demand (hosting_cache m)
     in observe_rate env d rate (m\<lparr>hosting_cache := cache\<rparr>))"

definition sweep_expired_hosting_with_cost :: "('k :: linorder, 'i, 'd, 's) hosting_env \<Rightarrow> instant \<Rightarrow> 'k CostAxisPressure list \<Rightarrow> ('k, 'i, 'c, 'p, 'd, 's) manager \<Rightarrow>
    (('k \<times> nat) list \<times> ('k, 'p) EvictedInUseTeardown list) \<times> ('k, 'i, 'c, 'p, 'd, 's) manager" where
  "sweep_expired_hosting_with_cost env now cost_axes m =
    (let (vs, c1) = sweep_expired now (local_and_downstream_counts env m) AtCapacity (hosting_cache m);
         (ws, c2) = (if cost_axes = [] then ([], c1)
                     else evict_cost_pressure now (local_and_downstream_counts env m) cost_axes c1);
         evicted = vs @ ws;
         (torn, m1) = teardown_all env (map victim (filter was_in_use evicted)) (m\<lparr>hosting_cache := c2\<rparr>);
         expired = map (\<lambda>v. (victim v, victim_generation v)) evicted
     in ((expired, torn), persist (fold (remove_hosting_metadata env) (map fst expired)) m1))"

section \<open>Subscription requests and renewals\<close>

definition can_request_subscription :: "instant \<Rightarrow> 'k \<Rightarrow> ('k, 'i, 'c, 'p, 'd, 's) manager \<Rightarrow> bool" where
  "can_request_subscription now k m \<longleftrightarrow>
    k \<notin> set (pending_subscription_requests m) \<and> \<not> is_in_backoff now k (subscription_backoff m)"

definition mark_subscription_pending :: "'k \<Rightarrow> ('k, 'i, 'c, 'p, 'd, 's) manager \<Rightarrow> bool \<times> ('k, 'i, 'c, 'p, 'd, 's) manager" where
  "mark_subscription_pending k m =
    (k \<notin> set (pending_subscription_requests m),
     m\<lparr>pending_subscription_requests := List.insert k (pending_subscription_requests m)\<rparr>)"

definition complete_subscription_request :: "instant \<Rightarrow> rat \<Rightarrow> 'k \<Rightarrow> bool \<Rightarrow> ('k, 'i, 'c, 'p, 'd, 's) manager \<Rightarrow> ('k, 'i, 'c, 'p, 'd, 's) manager" where
  "complete_subscription_request now jitter k success m =
    m\<lparr>pending_subscription_requests := removeAll k (pending_subscription_requests m),
      subscription_backoff := (if success then record_success k else record_failure now jitter k) (subscription_backoff m)\<rparr>"

definition contracts_needing_renewal :: "('k, 'i :: linorder, 'd, 's) hosting_env \<Rightarrow> instant \<Rightarrow> ('k, 'i, 'c, 'p, 'd, 's) manager \<Rightarrow> 'k list" where
  "contracts_needing_renewal env now m =
    (let threshold = now + SUBSCRIPTION_RENEWAL_INTERVAL;
         active = active_subscriptions m;
         cached = map fst (contracts (hosting_cache m));
         soon = map fst (filter (\<lambda>(k, l). expires_at l \<le> threshold \<and> expires_at l > now \<and> contract_in_use env k m) active);
         unsubscribed = List.map_filter (\<lambda>(i, _).
           if \<exists>(k, l) \<in> set active. cid env k = i \<and> expires_at l > now then None
           else find (\<lambda>k. cid env k = i) cached) (client_subscriptions m);
         accessed = filter (\<lambda>k. has_recent_local_client_access now k SUBSCRIPTION_LEASE_DURATION (hosting_cache m) \<and>
           \<not> is_subscribed now k m) cached
     in sort_key (cid env) (remdups (soon @ unsubscribed @ accessed)))"

section \<open>Loading after a restart\<close>

definition access_type_of_u8 :: "nat \<Rightarrow> AccessType" where
  "access_type_of_u8 n = (if n = 1 then Put else if n = 2 then Subscribe else Get)"

definition load_row :: "('k, 'i, 'd, 's) hosting_env \<Rightarrow> instant \<Rightarrow> nat \<Rightarrow> ('k, 'i, 'c, 'p, 'd, 's) manager \<Rightarrow> 'k option \<times> HostingMetadata \<Rightarrow> 'k HostingCache \<Rightarrow> 'k HostingCache" where
  "load_row env now now_ms m = (\<lambda>(key, meta) cache.
    case key of
      None \<Rightarrow> cache
    | Some k \<Rightarrow> load_persisted_entry_with_demand now k (meta_size_bytes meta) (access_type_of_u8 (meta_access_type meta))
        (from_millis (now_ms - last_access_ms meta)) (meta_local_client_access meta) (snd (distance_and_demand env k m)) cache)"

text \<open>A state without a row: it gets one, with the key that \<open>code_hash_lookup\<close> completes.\<close>

definition migrate_state :: "('k, 'i, 'd, 's) hosting_env \<Rightarrow> ('i \<Rightarrow> 'k option) \<Rightarrow> instant \<Rightarrow> nat \<Rightarrow> ('k, 'i, 'c, 'p, 'd, 's) manager \<Rightarrow> 'i \<Rightarrow> nat \<times> 'k HostingCache \<times> 's \<Rightarrow> nat \<times> 'k HostingCache \<times> 's" where
  "migrate_state env code_hash_lookup now now_ms m i = (\<lambda>(migrated, cache, st).
    case code_hash_lookup i of
      None \<Rightarrow> (migrated, cache, st)
    | Some k \<Rightarrow>
        let size = (case get_state_size env k st of Inr (Some n) \<Rightarrow> n | _ \<Rightarrow> 0)
        in (migrated + 1,
            load_persisted_entry_with_demand now k size Get 0 False (snd (distance_and_demand env k m)) cache,
            store_hosting_metadata env k \<lparr>last_access_ms = now_ms, meta_access_type = 0, meta_size_bytes = size,
              meta_local_client_access = False\<rparr> st))"

definition load_from_storage :: "('k, 'i, 'd, 's) hosting_env \<Rightarrow> ('i \<Rightarrow> 'k option) \<Rightarrow> instant \<Rightarrow> nat \<Rightarrow> 's \<Rightarrow> ('k, 'i, 'c, 'p, 'd, 's) manager \<Rightarrow> (nat \<times> 's \<times> ('k, 'i, 'c, 'p, 'd, 's) manager) option" where
  "load_from_storage env code_hash_lookup now now_ms st m =
    (case load_all_hosting_metadata env st of
       None \<Rightarrow> None
     | Some rows \<Rightarrow>
         let loaded = List.map_filter fst rows;
             cache = fold (load_row env now now_ms m) rows (hosting_cache m);
             missing = filter (\<lambda>i. i \<notin> cid env ` set loaded) (List.map_filter id (iter_all_state_keys env st));
             (migrated, cache, st) = fold (migrate_state env code_hash_lookup now now_ms m) missing (0, cache, st)
         in Some (length loaded + migrated, st, m\<lparr>hosting_cache := finalize_loading cache\<rparr>))"

end
