(* ===== verification/Hosting_Manager_Properties.thy ===== *)
theory Hosting_Manager_Properties
  imports Hosting_Manager Hosting_Properties
begin

text \<open>
  What the hosting manager guarantees: which subscriptions it renews, what an eviction leaves behind, how often it
  tries to repair a contract that is in use without a state; and where it falls short of its documentation.
\<close>

section \<open>Renewals\<close>

lemma find_in_SomeD: "find P xs = Some x \<Longrightarrow> x \<in> set xs \<and> P x"
  by (induction xs) (auto split: if_splits)

lemma find_unique: "x \<in> set xs \<Longrightarrow> P x \<Longrightarrow> (\<And>y. y \<in> set xs \<Longrightarrow> P y \<Longrightarrow> x = y) \<Longrightarrow> find P xs = Some x"
proof (induction xs)
  case (Cons a xs)
  then show ?case by (cases "P a") (fastforce)+
qed simp

lemma in_map_filter: "y \<in> set (List.map_filter f xs) \<longleftrightarrow> (\<exists>x \<in> set xs. f x = Some y)"
  by (induction xs) (auto simp: List.map_filter_simps split: option.splits)

lemma in_map_filter_fst: "y \<in> set (List.map_filter (\<lambda>(i, _). g i) xs) \<longleftrightarrow> (\<exists>i. (\<exists>c. (i, c) \<in> set xs) \<and> g i = Some y)"
  by (auto simp: in_map_filter intro: rev_bexI)

lemma map_ok_in_set: "map_ok m \<Longrightarrow> (k, v) \<in> set m \<longleftrightarrow> map_of m k = Some v"
  by (simp add: map_ok_def)

lemma in_fst_filter: "k \<in> set (map fst (filter (\<lambda>(k, v). P k v) m)) \<longleftrightarrow> (\<exists>v. (k, v) \<in> set m \<and> P k v)"
  by force

text \<open>The maps are maps, and no contract is kept with an empty set of clients or subscribers.\<close>

definition manager_ok :: "('k, 'i, 'c, 'p, 'd, 's) manager \<Rightarrow> bool" where
  "manager_ok m \<longleftrightarrow> map_ok (active_subscriptions m) \<and> map_ok (client_subscriptions m) \<and> map_ok (contracts (hosting_cache m)) \<and>
    map_ok (downstream_subscribers m) \<and> (\<forall>i cs. map_of (client_subscriptions m) i = Some cs \<longrightarrow> cs \<noteq> []) \<and>
    (\<forall>k ps. map_of (downstream_subscribers m) k = Some ps \<longrightarrow> ps \<noteq> [] \<and> map_ok ps)"

text \<open>
  C15: exactly the subscriptions somebody needs are renewed. Where contracts have distinct instance ids, a contract
  is listed for renewal if and only if its lease is alive and runs out within the renewal interval while
  a local client or a downstream subscriber uses the contract, or it has no live lease, is hosted, and has a
  local client or was accessed by one within the last lease duration.
\<close>

theorem renewal_exact:
  assumes "manager_ok m" "inj (cid env)"
  shows "k \<in> set (contracts_needing_renewal env now m) \<longleftrightarrow>
    (if is_subscribed now k m
     then contract_in_use env k m \<and> expires_at (the (map_of (active_subscriptions m) k)) \<le> now + SUBSCRIPTION_RENEWAL_INTERVAL
     else is_hosting_contract k m \<and>
       (has_client_subscriptions (cid env k) m \<or> has_recent_local_client_access now k SUBSCRIPTION_LEASE_DURATION (hosting_cache m)))"
proof -
  let ?active = "active_subscriptions m" and ?cached = "map fst (contracts (hosting_cache m))"
  have ok: "map_ok ?active" "map_ok (client_subscriptions m)" using assms(1) by (simp_all add: manager_ok_def)
  have soon: "k \<in> set (map fst (filter (\<lambda>(k, l). expires_at l \<le> now + SUBSCRIPTION_RENEWAL_INTERVAL \<and> expires_at l > now \<and>
        contract_in_use env k m) ?active)) \<longleftrightarrow> is_subscribed now k m \<and> contract_in_use env k m \<and>
        expires_at (the (map_of ?active k)) \<le> now + SUBSCRIPTION_RENEWAL_INTERVAL"
    unfolding in_fst_filter using ok(1) by (auto simp: is_subscribed_def map_ok_in_set split: option.splits)
  have live: "(\<exists>(k', l) \<in> set ?active. cid env k' = cid env k \<and> expires_at l > now) \<longleftrightarrow> is_subscribed now k m"
    using assms(2) ok(1) by (auto simp: is_subscribed_def inj_eq map_ok_in_set split: option.splits)
  have clients: "(\<exists>cs. (i, cs) \<in> set (client_subscriptions m)) \<longleftrightarrow> has_client_subscriptions i m" for i
    using assms(1) ok(2) by (fastforce simp: has_client_subscriptions_def clients_of_def manager_ok_def map_ok_in_set split: option.splits)
  have found: "find (\<lambda>k'. cid env k' = i) ?cached = Some k \<longleftrightarrow> i = cid env k \<and> is_hosting_contract k m" for i
  proof -
    have "k \<in> set ?cached \<Longrightarrow> find (\<lambda>k'. cid env k' = cid env k) ?cached = Some k"
      using assms(2) by (intro find_unique) (auto simp: inj_eq)
    then show ?thesis using find_in_SomeD[of "\<lambda>k'. cid env k' = i" ?cached k]
      by (auto simp: is_hosting_contract_def contains_key_iff keys_def)
  qed
  have "k \<in> set (List.map_filter (\<lambda>(i, _). if \<exists>(k', l) \<in> set ?active. cid env k' = i \<and> expires_at l > now then None
        else find (\<lambda>k'. cid env k' = i) ?cached) (client_subscriptions m)) \<longleftrightarrow>
      has_client_subscriptions (cid env k) m \<and> \<not> is_subscribed now k m \<and> is_hosting_contract k m"
    unfolding in_map_filter_fst clients using live found by (auto split: if_splits)
  then show ?thesis using soon
    by (auto simp: contracts_needing_renewal_def Let_def is_hosting_contract_def contains_key_iff keys_def)
qed

definition served_pair :: "(nat, nat, nat, nat, unit, unit) manager" where
  "served_pair = (hm_new 1000 ())\<lparr>
     hosting_cache := (hc_new 1000)\<lparr>contracts := [(1, new_entry 0 0 10 Get 0 1 0), (2, new_entry 0 0 10 Get 0 1 0)]\<rparr>,
     client_subscriptions := [(1, [7])], downstream_subscribers := [(2, [(5, 0)])]\<rparr>"

definition plain_env :: "(nat, nat, unit, unit) hosting_env" where
  "plain_env = \<lparr>cid = id, key_location = (\<lambda>_. Location 0), predict = (\<lambda>_ _. 1), observe = (\<lambda>_ _ _. ()),
     store_hosting_metadata = (\<lambda>_ _ _. ()), remove_hosting_metadata = (\<lambda>_ _. ()), get_hosting_metadata = (\<lambda>_ _. None),
     get_state_size = (\<lambda>_ _. Inr None), load_all_hosting_metadata = (\<lambda>_. Some []), iter_all_state_keys = (\<lambda>_. [])\<rparr>"

lemma served_pair_ok: "manager_ok served_pair" "inj (cid plain_env)"
  by (auto simp: manager_ok_def served_pair_def hm_new_def plain_env_def)

theorem renewal_exact_witness:
  "1 \<in> set (contracts_needing_renewal plain_env 100 served_pair) \<and> 2 \<notin> set (contracts_needing_renewal plain_env 100 served_pair)"
  unfolding renewal_exact[OF served_pair_ok]
  by (simp add: is_subscribed_def served_pair_def hm_new_def plain_env_def is_hosting_contract_def contains_key_def
    has_client_subscriptions_def clients_of_def has_recent_local_client_access_def new_entry_def)

section \<open>A lease that has lapsed\<close>

datatype ('k, 'i, 'c, 'p) hm_event =
    Subscribed 'k | Unsubscribed 'k | Updated 'k | LeasesExpired
  | ClientAdded 'i 'c | ClientRemoved 'i 'c | ClientGone 'c
  | PeerAdded 'k 'p | PeerRemoved 'k 'p | PeersExpired
  | Accessed 'k nat AccessType nat | Touched 'k | LocallyAccessed 'k | Swept "'k CostAxisPressure list"
  | Requested 'k | Completed 'k bool rat | PhantomsRepaired nat | PhantomDropped 'k

fun hm_step :: "('k :: linorder, 'i :: linorder, 'd, 's) hosting_env \<Rightarrow> instant \<times> ('k, 'i, 'c, 'p) hm_event \<Rightarrow>
    ('k, 'i, 'c, 'p, 'd, 's) manager \<Rightarrow> ('k, 'i, 'c, 'p, 'd, 's) manager" where
  "hm_step env (now, Subscribed k) m = snd (subscribe now k m)"
| "hm_step env (now, Unsubscribed k) m = unsubscribe k m"
| "hm_step env (now, Updated k) m = record_contract_update now k m"
| "hm_step env (now, LeasesExpired) m = snd (expire_stale_subscriptions now m)"
| "hm_step env (now, ClientAdded i c) m = snd (add_client_subscription i c m)"
| "hm_step env (now, ClientRemoved i c) m = snd (remove_client_subscription i c m)"
| "hm_step env (now, ClientGone c) m = snd (remove_client_from_all_subscriptions env now c m)"
| "hm_step env (now, PeerAdded k p) m = snd (add_downstream_subscriber now k p m)"
| "hm_step env (now, PeerRemoved k p) m = snd (remove_downstream_subscriber env now k p m)"
| "hm_step env (now, PeersExpired) m = snd (expire_stale_downstream_subscribers env now m)"
| "hm_step env (now, Accessed k bytes access ms) m = snd (record_contract_access env now ms k bytes access m)"
| "hm_step env (now, Touched k) m = touch_hosting env now k m"
| "hm_step env (now, LocallyAccessed k) m = hm_mark_local_client_access env now k m"
| "hm_step env (now, Swept axes) m = snd (sweep_expired_hosting_with_cost env now axes m)"
| "hm_step env (now, Requested k) m = snd (mark_subscription_pending k m)"
| "hm_step env (now, Completed k success jitter) m = complete_subscription_request now jitter k success m"
| "hm_step env (now, PhantomsRepaired n) m = snd (reconcile_phantom_in_use env now n m)"
| "hm_step env (now, PhantomDropped k) m = snd (drop_phantom_downstream env now k m)"

text \<open>The cache operations leave the last local access of a contract alone, or forget it.\<close>

definition no_local_access_added :: "'k HostingCache \<Rightarrow> 'k HostingCache \<Rightarrow> bool" where
  "no_local_access_added c c' \<longleftrightarrow> (map_ok (contracts c) \<longrightarrow> map_ok (contracts c')) \<and>
    (\<forall>k e'. map_of (contracts c') k = Some e' \<longrightarrow> local_client_last_access e' = None \<or>
      (\<exists>e. map_of (contracts c) k = Some e \<and> local_client_last_access e' = local_client_last_access e))"

lemma no_local_refl [simp]: "no_local_access_added c c"
  by (auto simp: no_local_access_added_def)

lemma no_local_trans: "no_local_access_added c d \<Longrightarrow> no_local_access_added d e \<Longrightarrow> no_local_access_added c e"
  by (fastforce simp: no_local_access_added_def)

lemma no_local_same: "contracts c' = contracts c \<Longrightarrow> no_local_access_added c c'"
  by (auto simp: no_local_access_added_def)

lemma no_local_delete: "contracts c' = AList.delete k (contracts c) \<Longrightarrow> no_local_access_added c c'"
  by (auto simp: no_local_access_added_def split: if_splits)

lemma no_local_update: "contracts c' = AList.update k e (contracts c) \<Longrightarrow>
    local_client_last_access e = None \<or> (\<exists>e0. map_of (contracts c) k = Some e0 \<and> local_client_last_access e = local_client_last_access e0) \<Longrightarrow>
    no_local_access_added c c'"
  by (auto simp: no_local_access_added_def split: if_splits)

lemma no_local_loop: "hc_evict_loop now p cs c = (vs, c') \<Longrightarrow> no_local_access_added c c'"
proof (induction cs arbitrary: c vs c')
  case (Cons x cs)
  obtain k l d s where x: "x = (k, l, d, s)" by (cases x)
  show ?case
  proof (cases "current_bytes c \<le> budget_bytes c")
    case False
    show ?thesis
    proof (cases "map_of (contracts c) k")
      case (Some e)
      let ?c = "evict_entry now p k (l + d > 0) e c"
      have "no_local_access_added ?c c'" using Cons.prems False Some by (auto simp: x Let_def intro: Cons.IH split: prod.splits)
      then show ?thesis using no_local_trans[OF no_local_delete[of ?c k c]] by simp
    qed (use Cons False in \<open>auto simp: x\<close>)
  qed (use Cons in \<open>auto simp: x\<close>)
qed simp

lemma no_local_evict: "evict_over_budget now cnt p protected c = (vs, c') \<Longrightarrow> no_local_access_added c c'"
  by (auto simp: evict_over_budget_def intro: no_local_loop split: if_splits)

lemma no_local_shed: "shed_offenders os c = (vs, c') \<Longrightarrow> no_local_access_added c c'"
proof (induction os arbitrary: c vs c')
  case (Cons x os)
  obtain k r where x: "x = (k, r)" by (cases x)
  show ?case
  proof (cases "map_of (contracts c) k")
    case (Some e)
    let ?c = "c\<lparr>contracts := AList.delete k (contracts c), current_bytes := current_bytes c - size_bytes e,
      cost_evictions_total := sat_add64 (cost_evictions_total c) 1\<rparr>"
    have "no_local_access_added ?c c'" using Cons.prems Some by (auto simp: x Let_def intro: Cons.IH split: prod.splits)
    then show ?thesis using no_local_trans[OF no_local_delete[of ?c k c]] by simp
  qed (use Cons in \<open>auto simp: x\<close>)
qed simp

lemma no_local_cost: "evict_cost_pressure now cnt axes c = (vs, c') \<Longrightarrow> no_local_access_added c c'"
proof (induction axes arbitrary: c vs c')
  case (Cons a axes)
  obtain us d where a: "evict_axis now cnt a c = (us, d)" by fastforce
  have "no_local_access_added c d"
    using a by (auto simp: evict_axis_def intro: no_local_shed split: option.splits if_splits)
  then show ?case using Cons a by (auto simp: Let_def intro: no_local_trans split: prod.splits)
qed simp

lemma next_seq_contracts [simp]: "contracts (snd (next_seq c)) = contracts c"
  by (simp add: next_seq_def)

lemma no_local_access: "record_access_with_demand now k bytes access g demand cnt c = (r, c') \<Longrightarrow> no_local_access_added c c'"
proof -
  assume a: "record_access_with_demand now k bytes access g demand cnt c = (r, c')"
  obtain seq c1 where s: "next_seq c = (seq, c1)" by fastforce
  have c1: "contracts c1 = contracts c" using s next_seq_contracts[of c] by simp
  show ?thesis
  proof (cases "map_of (contracts c) k")
    case (Some e0)
    let ?e = "refreshed_entry now seq bytes access g demand (eviction_floor c1) e0"
    have "contracts c' = AList.update k ?e (contracts c)"
      using a Some c1 s by (auto simp: record_access_with_demand_def Let_def split: if_splits)
    then show ?thesis by (rule no_local_update) (auto simp: Some refreshed_entry_def Let_def)
  next
    case None
    let ?e = "new_entry now seq bytes access g demand (eviction_floor c1)"
    let ?d = "c1\<lparr>contracts := AList.update k ?e (contracts c1), current_bytes := sat_add64 (current_bytes c1) bytes\<rparr>"
    obtain vs c2 where e: "evict_over_budget now cnt AtCapacity (Some k) ?d = (vs, c2)" by fastforce
    have "c' = c2" using a None c1 s e by (simp add: record_access_with_demand_def Let_def)
    moreover have "no_local_access_added c ?d" by (rule no_local_update[where k = k and e = ?e]) (simp_all add: c1 new_entry_def)
    ultimately show ?thesis using no_local_evict[OF e] by (auto intro: no_local_trans)
  qed
qed

lemma no_local_touch: "touch_with_demand now k demand c = (r, c') \<Longrightarrow> no_local_access_added c c'"
  by (auto simp: touch_with_demand_def next_seq_def Let_def split: option.splits
    intro: no_local_update[where k = k] no_local_same)

lemma no_local_update_entry: "(\<And>e. local_client_last_access (f e) = local_client_last_access e) \<Longrightarrow>
    no_local_access_added c (update_entry k f c)"
  by (auto simp: update_entry_def split: option.splits intro: no_local_update[where k = k])

lemma no_local_abandon: "no_local_access_added c (record_abandonment now k c)"
proof -
  have "no_local_access_added c (snd (next_seq c))" by (rule no_local_same) simp
  then show ?thesis
    by (auto simp: record_abandonment_def Let_def case_prod_beta intro: no_local_trans intro!: no_local_update_entry)
qed

lemma fold_snd_inv: "(\<And>x a m. P m \<Longrightarrow> P (snd (f x (a, m)))) \<Longrightarrow> P m \<Longrightarrow> P (snd (fold f xs (a, m)))"
  by (induction xs arbitrary: a m) (auto, metis prod.collapse)

lemma abandonment_fields [simp]:
  "active_subscriptions (maybe_record_abandonment env now k m) = active_subscriptions m"
  "client_subscriptions (maybe_record_abandonment env now k m) = client_subscriptions m"
  "downstream_subscribers (maybe_record_abandonment env now k m) = downstream_subscribers m"
  by (simp_all add: maybe_record_abandonment_def)

lemma abandonment_cache: "no_local_access_added (hosting_cache m) (hosting_cache (maybe_record_abandonment env now k m))"
  by (simp add: maybe_record_abandonment_def no_local_abandon)

lemma rate_fields [simp]:
  "active_subscriptions (observe_rate env d r m) = active_subscriptions m"
  "client_subscriptions (observe_rate env d r m) = client_subscriptions m"
  "downstream_subscribers (observe_rate env d r m) = downstream_subscribers m"
  "hosting_cache (observe_rate env d r m) = hosting_cache m"
  by (auto simp: observe_rate_def split: option.splits)

lemma persist_fields [simp]:
  "active_subscriptions (persist f m) = active_subscriptions m"
  "client_subscriptions (persist f m) = client_subscriptions m"
  "downstream_subscribers (persist f m) = downstream_subscribers m"
  "hosting_cache (persist f m) = hosting_cache m"
  by (simp_all add: persist_def)

lemma teardown_all_fields [simp]:
  "active_subscriptions (snd (teardown_all env ks m)) = without ks (active_subscriptions m)"
  "client_subscriptions (snd (teardown_all env ks m)) = without (map (cid env) ks) (client_subscriptions m)"
  "downstream_subscribers (snd (teardown_all env ks m)) = without ks (downstream_subscribers m)"
  "hosting_cache (snd (teardown_all env ks m)) = hosting_cache m"
  by (induction ks arbitrary: m)
    (simp_all add: teardown_evicted_in_use_contract_def unsubscribe_def Let_def case_prod_beta without_delete)

lemma repair_fields:
  "active_subscriptions (snd (snd (repair_phantom env now n k (as, f, m)))) = active_subscriptions m"
  "client_subscriptions (snd (snd (repair_phantom env now n k (as, f, m)))) = client_subscriptions m"
  "downstream_subscribers (snd (snd (repair_phantom env now n k (as, f, m)))) = downstream_subscribers m"
  "hosting_cache (snd (snd (repair_phantom env now n k (as, f, m)))) = hosting_cache m"
  "storage (snd (snd (repair_phantom env now n k (as, f, m)))) = storage m"
  "pending_subscription_requests (snd (snd (repair_phantom env now n k (as, f, m)))) = pending_subscription_requests m"
  by (auto simp: repair_phantom_def split: option.splits)

lemma fold_triple_field: "(\<And>x a b m. g (snd (snd (f x (a, b, m)))) = g m) \<Longrightarrow> g (snd (snd (fold f xs (a, b, m)))) = g m"
proof (induction xs arbitrary: a b m)
  case (Cons x xs)
  then show ?case by (cases "f x (a, b, m)") (auto, metis snd_conv)
qed simp

lemmas repair_fold_fields [simp] = repair_fields[THEN fold_triple_field]

lemma reconcile_fields [simp]:
  "active_subscriptions (snd (reconcile_phantom_in_use env now n m)) = active_subscriptions m"
  "client_subscriptions (snd (reconcile_phantom_in_use env now n m)) = client_subscriptions m"
  "downstream_subscribers (snd (reconcile_phantom_in_use env now n m)) = downstream_subscribers m"
  "hosting_cache (snd (reconcile_phantom_in_use env now n m)) = hosting_cache m"
  "storage (snd (reconcile_phantom_in_use env now n m)) = storage m"
  "pending_subscription_requests (snd (reconcile_phantom_in_use env now n m)) = pending_subscription_requests m"
  by (simp_all add: reconcile_phantom_in_use_def Let_def case_prod_beta)

lemma peers_of_ok: "manager_ok m \<Longrightarrow> map_ok (peers_of k m)"
  by (auto simp: manager_ok_def peers_of_def split: option.splits)

lemma map_ok_no_local: "no_local_access_added c c' \<Longrightarrow> map_ok (contracts c) \<Longrightarrow> map_ok (contracts c')"
  by (simp add: no_local_access_added_def)

lemma abandonment_ok: "manager_ok m \<Longrightarrow> manager_ok (maybe_record_abandonment env now k m)"
  by (simp add: manager_ok_def map_ok_no_local[OF abandonment_cache])

lemma set_peers_ok: "manager_ok m \<Longrightarrow> map_ok ps \<Longrightarrow> manager_ok (set_peers k ps m)"
  by (auto simp: manager_ok_def set_peers_def split: if_splits)

lemma remove_client_ok: "manager_ok m \<Longrightarrow> manager_ok (snd (remove_client_subscription i c m))"
  by (auto simp: manager_ok_def remove_client_subscription_def Let_def split: option.splits if_splits)

lemma client_gone_ok: "manager_ok m \<Longrightarrow> manager_ok (snd (remove_client_from_all_subscriptions env now c m))"
  unfolding remove_client_from_all_subscriptions_def
  by (rule fold_snd_inv) (auto simp: Let_def intro: remove_client_ok abandonment_ok split: option.splits)

lemma expire_peers_ok: "manager_ok m \<Longrightarrow> manager_ok (snd (expire_stale_downstream_subscribers env now m))"
  unfolding expire_stale_downstream_subscribers_def
proof (rule fold_snd_inv)
  fix k a and m :: "('a, 'b, 'c, 'd, 'e, 'f) manager"
  assume ok: "manager_ok m"
  have "map_of (downstream_subscribers m) k = Some ps \<Longrightarrow> map_ok ps" for ps using ok by (simp add: manager_ok_def)
  then show "manager_ok (snd (expire_downstream_of env now k (a, m)))" using ok
    by (auto simp: expire_downstream_of_def Let_def intro!: abandonment_ok set_peers_ok split: option.splits)
qed

lemma teardown_ok: "manager_ok m \<Longrightarrow> map_ok (contracts c) \<Longrightarrow> manager_ok (snd (teardown_all env ks (m\<lparr>hosting_cache := c\<rparr>)))"
  by (auto simp: manager_ok_def map_of_without split: if_splits)

lemma observe_ok [simp]: "manager_ok (observe_rate env d r m) \<longleftrightarrow> manager_ok m"
  by (simp add: manager_ok_def)

lemma persist_ok [simp]: "manager_ok (persist f m) \<longleftrightarrow> manager_ok m"
  by (simp add: manager_ok_def)

lemma hm_access_cache:
  assumes "record_contract_access env now ms k bytes access m = ((r, torn), m')"
  obtains cache f d where "no_local_access_added (hosting_cache m) cache"
    "m' = persist f (observe_rate env d (observed_read_rate r) (snd (teardown_all env (evicted_in_use r) (m\<lparr>hosting_cache := cache\<rparr>))))"
proof -
  obtain d demand where d: "distance_and_demand env k m = (d, demand)" by fastforce
  obtain r' cache where c: "record_access_with_demand now k bytes access (state_generation_of k m) demand
      (local_and_downstream_counts env m) (hosting_cache m) = (r', cache)" by fastforce
  show ?thesis using assms no_local_access[OF c]
    by (intro that) (auto simp: record_contract_access_def d c Let_def case_prod_beta)
qed

lemma hm_sweep_cache:
  assumes "sweep_expired_hosting_with_cost env now axes m = ((x, torn), m')"
  obtains cache f ks where "no_local_access_added (hosting_cache m) cache"
    "m' = persist f (snd (teardown_all env ks (m\<lparr>hosting_cache := cache\<rparr>)))"
proof -
  let ?cnt = "local_and_downstream_counts env m"
  obtain vs c1 where c1: "sweep_expired now ?cnt AtCapacity (hosting_cache m) = (vs, c1)" by fastforce
  obtain ws c2 where c2: "(if axes = [] then ([], c1) else evict_cost_pressure now ?cnt axes c1) = (ws, c2)" by fastforce
  have "no_local_access_added (hosting_cache m) c1" using c1 by (auto simp: sweep_expired_def intro: no_local_evict)
  moreover have "no_local_access_added c1 c2" using c2 by (auto intro: no_local_cost split: if_splits)
  ultimately have "no_local_access_added (hosting_cache m) c2" by (rule no_local_trans)
  then show ?thesis using assms
    by (intro that) (auto simp: sweep_expired_hosting_with_cost_def c1 c2 Let_def case_prod_beta)
qed

lemma hm_step_ok:
  assumes "manager_ok m"
  shows "manager_ok (hm_step env (now, e) m)"
proof (cases e)
  case (Accessed k bytes access ms)
  obtain r torn m' where a: "record_contract_access env now ms k bytes access m = ((r, torn), m')" by (cases "record_contract_access env now ms k bytes access m") auto
  obtain cache f d where c: "no_local_access_added (hosting_cache m) cache"
    "m' = persist f (observe_rate env d (observed_read_rate r) (snd (teardown_all env (evicted_in_use r) (m\<lparr>hosting_cache := cache\<rparr>))))"
    using hm_access_cache[OF a] .
  have "manager_ok m'" unfolding c(2) using teardown_ok[OF assms map_ok_no_local[OF c(1)]] assms by (simp add: manager_ok_def[of m])
  then show ?thesis using Accessed a by simp
next
  case (Swept axes)
  obtain x torn m' where a: "sweep_expired_hosting_with_cost env now axes m = ((x, torn), m')" by (cases "sweep_expired_hosting_with_cost env now axes m") auto
  obtain cache f ks where c: "no_local_access_added (hosting_cache m) cache"
    "m' = persist f (snd (teardown_all env ks (m\<lparr>hosting_cache := cache\<rparr>)))"
    using hm_sweep_cache[OF a] .
  have "manager_ok m'" unfolding c(2) using teardown_ok[OF assms map_ok_no_local[OF c(1)]] assms by (simp add: manager_ok_def[of m])
  then show ?thesis using Swept a by simp
next
  case (Touched k)
  then show ?thesis using assms map_ok_no_local[OF no_local_touch]
    by (auto simp: touch_hosting_def Let_def manager_ok_def split: prod.splits)
next
  case (PeerAdded k p)
  have "peers_of k m = [] \<or> map_of (downstream_subscribers m) k = Some (peers_of k m)" by (auto simp: peers_of_def split: option.splits)
  then show ?thesis using assms PeerAdded peers_of_ok[OF assms, of k]
    by (auto simp: add_downstream_subscriber_def Let_def manager_ok_def MAX_DOWNSTREAM_SUBSCRIBERS_PER_CONTRACT_def)
next
  case (PeerRemoved k p)
  then show ?thesis using assms peers_of_ok[OF assms, of k]
    by (auto simp: remove_downstream_subscriber_def intro!: abandonment_ok set_peers_ok)
next
  case (PhantomDropped k)
  then show ?thesis using assms abandonment_ok[of "m\<lparr>downstream_subscribers := AList.delete k (downstream_subscribers m)\<rparr>" env now k]
    by (auto simp: drop_phantom_downstream_def Let_def manager_ok_def)
qed (use assms in \<open>auto simp: client_gone_ok expire_peers_ok remove_client_ok\<close>,
  auto simp: manager_ok_def subscribe_def unsubscribe_def record_contract_update_def expire_stale_subscriptions_def Let_def
    add_client_subscription_def hm_mark_local_client_access_def mark_local_client_access_def update_entry_def
    mark_subscription_pending_def complete_subscription_request_def List.insert_def split: option.splits if_splits)

lemma hm_step_ok_pair: "manager_ok m \<Longrightarrow> manager_ok (hm_step env e m)"
  using hm_step_ok[of m env "fst e" "snd e"] by simp

interpretation managed: machine "hm_step env" "\<lambda>_. True" manager_ok for env
  by unfold_locales (rule hm_step_ok_pair)

text \<open>No live lease, no local client, no recent local access.\<close>

definition lapsed :: "('k, 'i, 'd, 's) hosting_env \<Rightarrow> instant \<Rightarrow> 'k \<Rightarrow> ('k, 'i, 'c, 'p, 'd, 's) manager \<Rightarrow> bool" where
  "lapsed env now k m \<longleftrightarrow> (\<forall>l. map_of (active_subscriptions m) k = Some l \<longrightarrow> expires_at l \<le> now) \<and>
    map_of (client_subscriptions m) (cid env k) = None \<and>
    (\<forall>e t. map_of (contracts (hosting_cache m)) k = Some e \<longrightarrow> local_client_last_access e = Some t \<longrightarrow> SUBSCRIPTION_LEASE_DURATION \<le> now - t)"

text \<open>The events that could bring the contract back: a subscription, a local client, a local access.\<close>

fun revives :: "('k, 'i, 'd, 's) hosting_env \<Rightarrow> 'k \<Rightarrow> ('k, 'i, 'c, 'p) hm_event \<Rightarrow> bool" where
  "revives env k (Subscribed k') \<longleftrightarrow> k' = k"
| "revives env k (ClientAdded i c) \<longleftrightarrow> i = cid env k"
| "revives env k (LocallyAccessed k') \<longleftrightarrow> k' = k"
| "revives env k _ \<longleftrightarrow> False"

lemma lapsed_mono: "lapsed env now k m \<Longrightarrow> now \<le> now' \<Longrightarrow> lapsed env now' k m"
  by (fastforce simp: lapsed_def)

lemma lapsed_change:
  assumes "lapsed env now k m" "map_of (active_subscriptions m') k = None \<or> map_of (active_subscriptions m') k = map_of (active_subscriptions m) k"
    "map_of (client_subscriptions m') (cid env k) = None \<or> map_of (client_subscriptions m') (cid env k) = map_of (client_subscriptions m) (cid env k)"
    "no_local_access_added (hosting_cache m) (hosting_cache m')"
  shows "lapsed env now k m'"
  using assms unfolding lapsed_def no_local_access_added_def by (metis option.distinct(1))

lemma lapsed_client_removed: "lapsed env now k m \<Longrightarrow> lapsed env now k (snd (remove_client_subscription i c m))"
  by (auto simp: lapsed_def remove_client_subscription_def Let_def split: option.splits)

lemma lapsed_abandonment: "lapsed env now k m \<Longrightarrow> lapsed env now k (maybe_record_abandonment env' t k' m)"
  by (erule lapsed_change) (simp_all add: abandonment_cache)

lemma lapsed_peers: "lapsed env now k m \<Longrightarrow> lapsed env now k (set_peers k' ps m)"
  by (simp add: lapsed_def set_peers_def)

lemma lapsed_client_gone: "lapsed env now k m \<Longrightarrow> lapsed env now k (snd (remove_client_from_all_subscriptions env now c m))"
  unfolding remove_client_from_all_subscriptions_def
  by (rule fold_snd_inv) (auto simp: Let_def intro: lapsed_client_removed lapsed_abandonment split: option.splits)

lemma lapsed_peers_expired: "lapsed env now k m \<Longrightarrow> lapsed env now k (snd (expire_stale_downstream_subscribers env now m))"
  unfolding expire_stale_downstream_subscribers_def
  by (rule fold_snd_inv) (auto simp: expire_downstream_of_def Let_def intro!: lapsed_abandonment lapsed_peers split: option.splits)

lemma lapsed_evictions:
  assumes "lapsed env now k m" "manager_ok m" "no_local_access_added (hosting_cache m) cache"
  shows "lapsed env now k (snd (teardown_all env ks (m\<lparr>hosting_cache := cache\<rparr>)))"
  using assms by (intro lapsed_change[OF assms(1)]) (auto simp: map_of_without manager_ok_def)

lemma lapsed_step:
  assumes "lapsed env now k m" "manager_ok m" "\<not> revives env k e"
  shows "lapsed env now k (hm_step env (now, e) m)"
proof (cases e)
  case (Accessed k' bytes access ms)
  obtain r torn m' where a: "record_contract_access env now ms k' bytes access m = ((r, torn), m')" by (cases "record_contract_access env now ms k' bytes access m") auto
  obtain cache f d where c: "no_local_access_added (hosting_cache m) cache"
    "m' = persist f (observe_rate env d (observed_read_rate r) (snd (teardown_all env (evicted_in_use r) (m\<lparr>hosting_cache := cache\<rparr>))))"
    using hm_access_cache[OF a] .
  show ?thesis using lapsed_evictions[OF assms(1,2) c(1), of "evicted_in_use r"] Accessed a c(2) by (simp add: lapsed_def)
next
  case (Swept axes)
  obtain x torn m' where a: "sweep_expired_hosting_with_cost env now axes m = ((x, torn), m')" by (cases "sweep_expired_hosting_with_cost env now axes m") auto
  obtain cache f ks where c: "no_local_access_added (hosting_cache m) cache"
    "m' = persist f (snd (teardown_all env ks (m\<lparr>hosting_cache := cache\<rparr>)))"
    using hm_sweep_cache[OF a] .
  show ?thesis using lapsed_evictions[OF assms(1,2) c(1), of ks] Swept a c(2) by (simp add: lapsed_def)
next
  case (Touched k')
  obtain d demand where d: "distance_and_demand env k' m = (d, demand)" by fastforce
  obtain r cache where t: "touch_with_demand now k' demand (hosting_cache m) = (r, cache)" by fastforce
  show ?thesis using Touched d t no_local_touch[OF t] by (intro lapsed_change[OF assms(1)]) (simp_all add: touch_hosting_def)
next
  case (LocallyAccessed k')
  then show ?thesis using assms(1,3)
    by (auto simp: hm_mark_local_client_access_def mark_local_client_access_def update_entry_def lapsed_def Let_def split: option.splits if_splits)
next
  case (PeerRemoved k' p)
  then show ?thesis using assms(1) by (auto simp: remove_downstream_subscriber_def intro!: lapsed_abandonment lapsed_peers)
next
  case (PhantomDropped k')
  then show ?thesis using assms(1)
    lapsed_abandonment[of env now k "m\<lparr>downstream_subscribers := AList.delete k' (downstream_subscribers m)\<rparr>" env now k']
    by (auto simp: drop_phantom_downstream_def Let_def lapsed_def)
qed (use assms in \<open>auto simp: lapsed_client_gone lapsed_client_removed lapsed_peers_expired\<close>,
  auto simp: lapsed_def manager_ok_def subscribe_def unsubscribe_def record_contract_update_def expire_stale_subscriptions_def Let_def
    add_client_subscription_def add_downstream_subscriber_def map_of_filter
    mark_subscription_pending_def complete_subscription_request_def split: option.splits if_splits)

lemma lapsed_run: "lapsed env t0 k m \<Longrightarrow> manager_ok m \<Longrightarrow> sorted (map fst es) \<Longrightarrow>
    \<forall>(t, e) \<in> set es. t0 \<le> t \<and> t \<le> now \<and> \<not> revives env k e \<Longrightarrow> t0 \<le> now \<Longrightarrow>
    lapsed env now k (fold (hm_step env) es m)"
proof (induction es arbitrary: t0 m)
  case (Cons p es)
  obtain t e where p: "p = (t, e)" by (cases p)
  have "lapsed env t k (hm_step env p m)" using Cons.prems lapsed_mono[of env t0 k m t] by (auto simp: p intro: lapsed_step)
  moreover have "manager_ok (hm_step env p m)" using Cons.prems(2) by (rule hm_step_ok_pair)
  ultimately show ?case using Cons.IH[of t "hm_step env p m"] Cons.prems(3,4) by (fastforce simp: p)
qed (simp add: lapsed_mono)

text \<open>
  C32: a lapsed lease is not renewed for the sake of downstream subscribers. Take a contract without a live lease,
  without local clients and without a recent local access, however many downstream subscribers it has. Until the
  node subscribes to it, a local client subscribes to it or a local client accesses it, no sequence of events,
  downstream subscribers that join or renew and accesses by peers included, puts it on the list of
  contracts to renew.
\<close>

theorem lapsed_lease_never_renewed:
  assumes "manager_ok m" "inj (cid env)" "lapsed env start k m" "sorted (map fst es)"
    "\<forall>(t, e) \<in> set es. start \<le> t \<and> t \<le> now \<and> \<not> revives env k e" "start \<le> now"
  shows "k \<notin> set (contracts_needing_renewal env now (fold (hm_step env) es m))"
proof -
  let ?m = "fold (hm_step env) es m"
  have "manager_ok ?m" using managed.fold_inv[of es m env] assms(1) by (simp add: list_all_iff)
  moreover have "lapsed env now k ?m" using lapsed_run[OF assms(3,1,4,5,6)] .
  ultimately show ?thesis
    by (auto simp: renewal_exact[OF _ assms(2)] lapsed_def is_subscribed_def has_client_subscriptions_def clients_of_def
      has_recent_local_client_access_def split: option.splits)
qed

theorem lapsed_lease_never_renewed_witness:
  "has_downstream_subscribers 2 (fold (hm_step plain_env) [(100, PeerAdded 2 6), (150, PeerAdded 2 5)] served_pair) \<and>
   2 \<notin> set (contracts_needing_renewal plain_env 200 (fold (hm_step plain_env) [(100, PeerAdded 2 6), (150, PeerAdded 2 5)] served_pair))"
proof
  show "has_downstream_subscribers 2 (fold (hm_step plain_env) [(100, PeerAdded 2 6), (150, PeerAdded 2 5)] served_pair)"
    by (simp add: has_downstream_subscribers_def peers_of_def add_downstream_subscriber_def served_pair_def hm_new_def
      MAX_DOWNSTREAM_SUBSCRIBERS_PER_CONTRACT_def)
  show "2 \<notin> set (contracts_needing_renewal plain_env 200 (fold (hm_step plain_env) [(100, PeerAdded 2 6), (150, PeerAdded 2 5)] served_pair))"
    by (rule lapsed_lease_never_renewed[OF served_pair_ok, where start = 0])
      (auto simp: lapsed_def served_pair_def hm_new_def plain_env_def new_entry_def)
qed

section \<open>What an eviction leaves behind\<close>

lemma in_use_counts: "contract_in_use env k m \<longleftrightarrow> 0 < fst (local_and_downstream_counts env m k) + snd (local_and_downstream_counts env m k)"
  by (auto simp: contract_in_use_def has_client_subscriptions_def has_downstream_subscribers_def local_and_downstream_counts_def)

lemma teardown_all_fst: "distinct ks \<Longrightarrow> map teardown_key (fst (teardown_all env ks m)) = ks \<and>
    (\<forall>t \<in> set (fst (teardown_all env ks m)). downstream_peers t = map fst (peers_of (teardown_key t) m))"
proof (induction ks arbitrary: m)
  case (Cons k ks)
  let ?m = "snd (teardown_evicted_in_use_contract env k m)"
  have "peers_of k' ?m = peers_of k' m" if "k' \<noteq> k" for k'
    using that by (simp add: peers_of_def teardown_evicted_in_use_contract_def unsubscribe_def)
  moreover have T: "map teardown_key (fst (teardown_all env ks ?m)) = ks"
      "\<forall>t \<in> set (fst (teardown_all env ks ?m)). downstream_peers t = map fst (peers_of (teardown_key t) ?m)"
    using Cons by simp_all
  moreover have "teardown_key t \<noteq> k" if "t \<in> set (fst (teardown_all env ks ?m))" for t
    using that Cons.prems arg_cong[OF T(1), of set] by auto
  ultimately have "\<forall>t \<in> set (fst (teardown_all env ks ?m)). downstream_peers t = map fst (peers_of (teardown_key t) m)" by auto
  moreover have "fst (teardown_all env (k # ks) m) = fst (teardown_evicted_in_use_contract env k m) # fst (teardown_all env ks ?m)"
    by (simp add: Let_def case_prod_beta)
  ultimately show ?case using T(1) by (simp add: teardown_evicted_in_use_contract_def)
qed simp

lemma sweep_victims:
  assumes "hc_exact c" "sweep_expired now cnt AtCapacity c = (vs, c1)"
    "(if axes = [] then ([], c1) else evict_cost_pressure now cnt axes c1) = (ws, c2)"
  shows "set (map victim (vs @ ws)) = keys (contracts c) - keys (contracts c2)" "distinct (map victim vs)"
    "\<forall>v \<in> set (vs @ ws). was_in_use v \<longleftrightarrow> 0 < fst (cnt (victim v)) + snd (cnt (victim v))"
    "filter was_in_use (vs @ ws) = filter was_in_use vs"
proof -
  obtain n where n: "evicts cnt c vs c1" "map victim vs = map fst (take n (eviction_candidates cnt AtCapacity None c))"
    using evict_over_budget_spec[OF assms(1)] assms(2) unfolding sweep_expired_def by metis
  have ok: "map_ok (contracts c)" using assms(1) by (simp add: hc_exact_def)
  have c1: "hc_exact c1" "contracts c1 = without (map victim vs) (contracts c)" using n(1) by (simp_all add: evicts_def)
  show "distinct (map victim vs)"
    using candidates_distinct[OF ok, of cnt AtCapacity None] by (simp add: n(2) take_map[symmetric])
  have vs: "set (map victim vs) \<subseteq> keys (contracts c)" using n(1) map_of_keys[of "contracts c"] by (force simp: evicts_def)
  have ws: "set (map victim ws) = keys (contracts c1) - keys (contracts c2) \<and> list_all (\<lambda>v. \<not> was_in_use v) ws \<and>
      contracts c2 = filter (\<lambda>(k, e). \<not> (sheddable now cnt k e \<and> (\<exists>a \<in> set axes. dominates a k))) (contracts c1)"
  proof (cases "axes = []")
    case False
    then show ?thesis using evict_cost_pressure_spec[OF c1(1), of now cnt axes ws c2] assms(3) by simp
  qed (use assms(3) in simp)
  then have "keys (contracts c2) \<subseteq> keys (contracts c1)" by (auto simp: keys_def)
  then show "set (map victim (vs @ ws)) = keys (contracts c) - keys (contracts c2)"
    using ws c1(2) vs by (auto simp: keys_without)
  show "filter was_in_use (vs @ ws) = filter was_in_use vs" using ws by (auto simp: list_all_iff filter_empty_conv)
  have "cnt (victim v) = (0, 0)" if v: "v \<in> set ws" for v
  proof -
    have "victim v \<in> keys (contracts c1) - keys (contracts c2)" using ws v by auto
    then obtain e where "(victim v, e) \<in> set (contracts c1)" "(victim v, e) \<notin> set (contracts c2)" by (auto simp: keys_def) force
    then show ?thesis using ws by (auto simp: sheddable_def)
  qed
  then show "\<forall>v \<in> set (vs @ ws). was_in_use v \<longleftrightarrow> 0 < fst (cnt (victim v)) + snd (cnt (victim v))"
    using n(1) ws by (auto simp: evicts_def list_all_iff)
qed

text \<open>
  C14: an eviction leaves nothing behind. After the periodic sweep, over the budget and for cost, the contracts
  reported are exactly those that left the cache, and none of them is in use any more, so that their states can
  be reclaimed. Those that were in use have lost their lease and are reported with the downstream peers they
  had; every other contract keeps its lease and its downstream subscribers.
\<close>

theorem sweep_leaves_nothing_behind:
  assumes "manager_ok m" "hc_exact (hosting_cache m)"
    and run: "sweep_expired_hosting_with_cost env now axes m = ((expired, torn), m')"
  shows "fst ` set expired = keys (contracts (hosting_cache m)) - keys (contracts (hosting_cache m')) \<and>
    (\<forall>k \<in> fst ` set expired. \<not> contract_in_use env k m') \<and>
    set (map teardown_key torn) = {k \<in> fst ` set expired. contract_in_use env k m} \<and>
    (\<forall>t \<in> set torn. downstream_peers t = map fst (peers_of (teardown_key t) m) \<and> map_of (active_subscriptions m') (teardown_key t) = None) \<and>
    (\<forall>k. k \<notin> set (map teardown_key torn) \<longrightarrow>
      peers_of k m' = peers_of k m \<and> map_of (active_subscriptions m') k = map_of (active_subscriptions m) k)"
proof -
  let ?cnt = "local_and_downstream_counts env m"
  obtain vs c1 where c1: "sweep_expired now ?cnt AtCapacity (hosting_cache m) = (vs, c1)" by fastforce
  obtain ws c2 where c2: "(if axes = [] then ([], c1) else evict_cost_pressure now ?cnt axes c1) = (ws, c2)" by fastforce
  note V = sweep_victims[OF assms(2) c1 c2]
  let ?ks = "map victim (filter was_in_use (vs @ ws))"
  let ?m = "m\<lparr>hosting_cache := c2\<rparr>"
  have e: "fst ` set expired = victim ` set (vs @ ws)" and t: "torn = fst (teardown_all env ?ks ?m)"
    and m': "active_subscriptions m' = without ?ks (active_subscriptions m)"
      "client_subscriptions m' = without (map (cid env) ?ks) (client_subscriptions m)"
      "downstream_subscribers m' = without ?ks (downstream_subscribers m)" "hosting_cache m' = c2"
    using run by (auto simp: sweep_expired_hosting_with_cost_def c1 c2 Let_def case_prod_beta image_comp comp_def image_Un)
  have ks: "distinct ?ks" unfolding V(4) using V(2) by (simp add: distinct_map inj_on_def)
  have in_use: "set ?ks = {k \<in> victim ` set (vs @ ws). contract_in_use env k m}"
    using V(3) by (auto simp: in_use_counts)
  have ok: "map_ok (active_subscriptions m)" "map_ok (client_subscriptions m)" "map_ok (downstream_subscribers m)"
    using assms(1) by (simp_all add: manager_ok_def)
  have peers: "peers_of k m' = (if k \<in> set ?ks then [] else peers_of k m)" for k
    unfolding peers_of_def m'(3) map_of_without[OF ok(3)] by simp
  have clients: "clients_of i m' = (if i \<in> set (map (cid env) ?ks) then [] else clients_of i m)" for i
    unfolding clients_of_def m'(2) map_of_without[OF ok(2)] by simp
  have "\<not> contract_in_use env k m'" if "k \<in> victim ` set (vs @ ws)" for k
  proof (cases "k \<in> set ?ks")
    case True
    then show ?thesis by (auto simp: contract_in_use_def has_client_subscriptions_def has_downstream_subscribers_def peers clients)
  next
    case False
    then show ?thesis using that in_use
      by (auto simp: contract_in_use_def has_client_subscriptions_def has_downstream_subscribers_def peers clients)
  qed
  moreover have T: "map teardown_key torn = ?ks" "\<forall>t \<in> set torn. downstream_peers t = map fst (peers_of (teardown_key t) m)"
    using teardown_all_fst[OF ks, of env ?m] unfolding t by (simp_all add: peers_of_def)
  moreover have "map_of (active_subscriptions m') k = (if k \<in> set ?ks then None else map_of (active_subscriptions m) k)" for k
    unfolding m'(1) map_of_without[OF ok(1)] ..
  moreover have "teardown_key t \<in> set ?ks" if "t \<in> set torn" for t using that arg_cong[OF T(1), of set] by auto
  moreover have "victim ` set (vs @ ws) = keys (contracts (hosting_cache m)) - keys (contracts (hosting_cache m'))"
    using V(1) by (simp add: m'(4) image_Un)
  ultimately show ?thesis unfolding e using in_use by (intro conjI ballI allI impI) (simp_all only: peers if_False if_True simp_thms)
qed

definition over_budget :: "(nat, nat, nat, nat, unit, unit) manager" where
  "over_budget = (hm_new 10 ())\<lparr>hosting_cache := three_contracts, client_subscriptions := [(1, [7])],
     downstream_subscribers := [(2, [(5, 0)])]\<rparr>"

definition mixed_use :: "nat \<Rightarrow> nat \<times> nat" where
  "mixed_use k = (if k = 1 then 1 else 0, if k = 2 then 1 else 0)"

lemma over_budget_ok: "manager_ok over_budget" "hc_exact (hosting_cache over_budget)"
  using three_contracts_exact
  by (auto simp: manager_ok_def over_budget_def hm_new_def hc_exact_def split: if_splits)

theorem sweep_leaves_nothing_behind_witness:
  "case sweep_expired_hosting_with_cost plain_env 100 [] over_budget of
     ((expired, torn), m') \<Rightarrow> map fst expired = [3, 2] \<and> map teardown_key torn = [2] \<and>
       \<not> contract_in_use plain_env 2 m' \<and> contract_in_use plain_env 2 over_budget"
proof -
  obtain expired torn m' where run: "sweep_expired_hosting_with_cost plain_env 100 [] over_budget = ((expired, torn), m')"
    by (cases "sweep_expired_hosting_with_cost plain_env 100 [] over_budget") auto
  let ?cnt = mixed_use
  have cnt: "local_and_downstream_counts plain_env over_budget = ?cnt"
    by (auto simp: mixed_use_def local_and_downstream_counts_def clients_of_def peers_of_def over_budget_def hm_new_def plain_env_def)
  have "hosting_cache over_budget = three_contracts" by (simp add: over_budget_def)
  moreover have "eviction_candidates ?cnt AtCapacity None three_contracts = [(3, 0, 0, 3), (2, 0, 1, 2), (1, 1, 0, 1)]"
    by (simp add: mixed_use_def eviction_candidates_def three_contracts_def victim_order_def six_bytes_def new_entry_def)
  moreover have "map (\<lambda>v. (victim v, was_in_use v)) (fst (hc_evict_loop 100 AtCapacity [(3, 0, 0, 3), (2, 0, 1, 2), (1, 1, 0, 1)] three_contracts)) =
      [(3, False), (2, True)]"
    by (simp add: three_contracts_def hc_new_def six_bytes_def new_entry_def case_prod_beta)
  moreover obtain vs c1 where c1: "sweep_expired 100 ?cnt AtCapacity three_contracts = (vs, c1)" by fastforce
  ultimately have vs: "map (\<lambda>v. (victim v, was_in_use v)) vs = [(3, False), (2, True)]"
    by (simp add: sweep_expired_def evict_over_budget_def three_contracts_def hc_new_def)
  have "map victim vs = map fst (map (\<lambda>v. (victim v, was_in_use v)) vs)" by simp
  then have victims: "map victim vs = [3, 2]" by (simp only: vs list.map fst_conv)
  have "map victim (filter was_in_use vs) = map fst (filter snd (map (\<lambda>v. (victim v, was_in_use v)) vs))"
    by (simp add: filter_map comp_def)
  then have ks: "map victim (filter was_in_use vs) = [2]" by (simp only: vs) simp
  have "expired = map (\<lambda>v. (victim v, victim_generation v)) vs"
    "torn = fst (teardown_all plain_env (map victim (filter was_in_use vs)) (over_budget\<lparr>hosting_cache := c1\<rparr>))"
    using run by (simp_all add: sweep_expired_hosting_with_cost_def cnt \<open>hosting_cache over_budget = three_contracts\<close> c1 Let_def case_prod_beta)
  then have "map fst expired = [3, 2]" "map teardown_key torn = [2]"
    using victims teardown_all_fst[of "[2]" plain_env "over_budget\<lparr>hosting_cache := c1\<rparr>"] ks by (simp_all add: comp_def)
  moreover from this(1) have "2 \<in> set (map fst expired)" by (simp only: list.set) simp
  then have "2 \<in> fst ` set expired" by (simp only: set_map)
  then have "\<not> contract_in_use plain_env 2 m'" using sweep_leaves_nothing_behind[OF over_budget_ok run] by blast
  moreover have "contract_in_use plain_env 2 over_budget"
    by (simp add: contract_in_use_def has_downstream_subscribers_def peers_of_def over_budget_def)
  ultimately show ?thesis unfolding run by simp
qed

section \<open>Repair of contracts without a state\<close>

fun about :: "'k \<Rightarrow> 'k PhantomRepair \<Rightarrow> bool" where
  "about k (Fetch k') \<longleftrightarrow> k' = k"
| "about k (Drop k') \<longleftrightarrow> k' = k"

text \<open>What a sweep with fetches to spare does about one contract that is in use without a state.\<close>

definition repair_key :: "'k \<Rightarrow> instant \<Rightarrow> PhantomRepairEntry option \<Rightarrow> 'k PhantomRepair list \<times> PhantomRepairEntry option" where
  "repair_key k now oe =
    (case oe of
       None \<Rightarrow> ([Fetch k], Some \<lparr>attempts = 1, last_attempt = now, first_seen = now\<rparr>)
     | Some e \<Rightarrow>
         if attempts e \<ge> MAX_PHANTOM_REPAIR_ATTEMPTS
         then if now - first_seen e \<ge> PHANTOM_ABSOLUTE_MAX_AGE then ([Drop k], None) else ([], Some e)
         else if now - last_attempt e < PHANTOM_REPAIR_COOLDOWN then ([], Some e)
         else ([Fetch k], Some (e\<lparr>attempts := attempts e + 1, last_attempt := now\<rparr>)))"

lemma repair_phantom_other: "repair_phantom env now n k' (as, f, m) = (as', f', m') \<Longrightarrow> k' \<noteq> k \<Longrightarrow>
    filter (about k) as' = filter (about k) as \<and> map_of (phantom_repair m') k = map_of (phantom_repair m) k"
  by (auto simp: repair_phantom_def split: option.splits if_splits)

lemma repair_phantom_count: "repair_phantom env now n k' (as, f, m) = (as', f', m') \<Longrightarrow> f' \<le> f + 1"
  by (auto simp: repair_phantom_def split: option.splits if_splits)

lemma repair_phantom_same:
  assumes "repair_phantom env now n k (as, f, m) = (as', f', m')" "f < n"
    "\<not> contract_state_present env k m" "k \<notin> set (pending_subscription_requests m)"
  shows "(filter (about k) as', map_of (phantom_repair m') k) =
    (filter (about k) as @ fst (repair_key k now (map_of (phantom_repair m) k)), snd (repair_key k now (map_of (phantom_repair m) k)))"
  using assms by (auto simp: repair_phantom_def repair_key_def split: option.splits if_splits)

definition is_phantom :: "('k, 'i, 'd, 's) hosting_env \<Rightarrow> 'k \<Rightarrow> ('k, 'i, 'c, 'p, 'd, 's) manager \<Rightarrow> bool" where
  "is_phantom env k m \<longleftrightarrow> k \<in> keys (downstream_subscribers m) \<and> \<not> contract_state_present env k m \<and> k \<notin> set (pending_subscription_requests m)"

lemma repair_fold:
  assumes "distinct ks" "f + length ks \<le> n" "\<not> contract_state_present env k m" "k \<notin> set (pending_subscription_requests m)"
    "fold (repair_phantom env now n) ks (as, f, m) = (as', f', m')"
  shows "(filter (about k) as', map_of (phantom_repair m') k) =
    (if k \<in> set ks
     then (filter (about k) as @ fst (repair_key k now (map_of (phantom_repair m) k)), snd (repair_key k now (map_of (phantom_repair m) k)))
     else (filter (about k) as, map_of (phantom_repair m) k))"
  using assms
proof (induction ks arbitrary: as f m)
  case (Cons k' ks)
  obtain as1 f1 m1 where 1: "repair_phantom env now n k' (as, f, m) = (as1, f1, m1)" by (cases "repair_phantom env now n k' (as, f, m)")
  have same: "storage m1 = storage m" "pending_subscription_requests m1 = pending_subscription_requests m"
    using repair_fields(5,6)[of env now n k' as f m] 1 by simp_all
  then have present: "contract_state_present env k m1 = contract_state_present env k m" by (simp add: contract_state_present_def)
  have f: "f < n" "f1 \<le> f + 1" using Cons.prems(2) repair_phantom_count[OF 1] by simp_all
  have "(filter (about k) as', map_of (phantom_repair m') k) =
    (if k \<in> set ks
     then (filter (about k) as1 @ fst (repair_key k now (map_of (phantom_repair m1) k)), snd (repair_key k now (map_of (phantom_repair m1) k)))
     else (filter (about k) as1, map_of (phantom_repair m1) k))"
    using Cons.prems f same present 1 by (intro Cons.IH[where f = f1]) auto
  then show ?case
  proof (cases "k' = k")
    case True
    then show ?thesis using \<open>_ = (if k \<in> set ks then _ else _)\<close> repair_phantom_same[OF 1[unfolded True] f(1) Cons.prems(3,4)] Cons.prems(1) by auto
  next
    case False
    then show ?thesis using \<open>_ = (if k \<in> set ks then _ else _)\<close> repair_phantom_other[OF 1 False] by auto
  qed
qed simp

lemma sweep_repairs:
  assumes "manager_ok m" "is_phantom env k m" "length (downstream_subscribers m) \<le> n" "map_ok (phantom_repair m)"
    "reconcile_phantom_in_use env now n m = (as, m')"
  shows "(filter (about k) as, map_of (phantom_repair m') k) = repair_key k now (map_of (phantom_repair m) k)"
proof -
  let ?ks = "map fst (downstream_subscribers m)"
  let ?m = "m\<lparr>phantom_repair := filter (\<lambda>(k, _). k \<in> set ?ks) (phantom_repair m)\<rparr>"
  obtain f where f: "fold (repair_phantom env now n) ?ks ([], 0, ?m) = (as, f, m')"
    using assms(5) by (cases "fold (repair_phantom env now n) ?ks ([], 0, ?m)") (auto simp: reconcile_phantom_in_use_def Let_def)
  have k: "k \<in> set ?ks" "distinct ?ks" using assms(1,2) by (auto simp: is_phantom_def keys_def manager_ok_def map_ok_def)
  moreover have "map_of (phantom_repair ?m) k = map_of (phantom_repair m) k"
    using map_of_filter[OF assms(4), of "\<lambda>k _. k \<in> set ?ks" k] k(1) by (auto split: option.splits)
  ultimately show ?thesis
    using repair_fold[OF k(2) _ _ _ f, of k] assms(2,3) by (auto simp: is_phantom_def contract_state_present_def)
qed

lemma repair_map_ok: "map_ok (phantom_repair m) \<Longrightarrow> map_ok (phantom_repair (snd (snd (repair_phantom env now n k (as, f, m)))))"
  by (auto simp: repair_phantom_def split: option.splits)

lemma repair_fold_map_ok: "map_ok (phantom_repair m) \<Longrightarrow> map_ok (phantom_repair (snd (snd (fold (repair_phantom env now n) ks (as, f, m)))))"
proof (induction ks arbitrary: as f m)
  case (Cons k ks)
  then show ?case using repair_map_ok[of m env now n k as f] by (cases "repair_phantom env now n k (as, f, m)") auto
qed simp

lemma sweep_map_ok: "map_ok (phantom_repair m) \<Longrightarrow> map_ok (phantom_repair (snd (reconcile_phantom_in_use env now n m)))"
  unfolding reconcile_phantom_in_use_def Let_def case_prod_beta snd_conv by (rule repair_fold_map_ok) simp

text \<open>
  A sequence of sweeps, each with its instant, its limit of fetches and the manager it finds, of which only the
  record of repairs is carried over from the sweep before; the result is what each sweep does about \<open>k\<close>.
\<close>

fun repair_sweeps :: "('k, 'i, 'd, 's) hosting_env \<Rightarrow> 'k \<Rightarrow> (instant \<times> nat \<times> ('k, 'i, 'c, 'p, 'd, 's) manager) list \<Rightarrow>
    ('k, PhantomRepairEntry) hash_map \<Rightarrow> 'k PhantomRepair list list" where
  "repair_sweeps env k [] repairs = []"
| "repair_sweeps env k ((now, n, m) # ss) repairs =
    (let (as, m') = reconcile_phantom_in_use env now n (m\<lparr>phantom_repair := repairs\<rparr>)
     in filter (about k) as # repair_sweeps env k ss (phantom_repair m'))"

definition sweepable :: "('k, 'i, 'd, 's) hosting_env \<Rightarrow> 'k \<Rightarrow> instant \<times> nat \<times> ('k, 'i, 'c, 'p, 'd, 's) manager \<Rightarrow> bool" where
  "sweepable env k = (\<lambda>(now, n, m). manager_ok m \<and> is_phantom env k m \<and> length (downstream_subscribers m) \<le> n)"

lemma repair_sweeps_Cons:
  assumes "sweepable env k (now, n, m)" "map_ok repairs"
  obtains repairs' where "repair_sweeps env k ((now, n, m) # ss) repairs = fst (repair_key k now (map_of repairs k)) # repair_sweeps env k ss repairs'"
    "map_of repairs' k = snd (repair_key k now (map_of repairs k))" "map_ok repairs'"
proof -
  let ?m = "m\<lparr>phantom_repair := repairs\<rparr>"
  obtain as m' where r: "reconcile_phantom_in_use env now n ?m = (as, m')" by fastforce
  have "(filter (about k) as, map_of (phantom_repair m') k) = repair_key k now (map_of repairs k)"
    using sweep_repairs[OF _ _ _ _ r, of k] assms by (simp add: sweepable_def manager_ok_def is_phantom_def contract_state_present_def)
  then have "filter (about k) as = fst (repair_key k now (map_of repairs k))" "map_of (phantom_repair m') k = snd (repair_key k now (map_of repairs k))"
    by (simp_all add: prod_eq_iff)
  moreover have "map_ok (phantom_repair m')" using sweep_map_ok[of ?m env now n] assms(2) r by simp
  ultimately show ?thesis using r by (intro that[of "phantom_repair m'"]) simp_all
qed

lemma waiting_sweeps:
  assumes "\<forall>(t, n, m) \<in> set young. t - first_seen e < PHANTOM_ABSOLUTE_MAX_AGE" "\<forall>s \<in> set young. sweepable env k s"
    "map_of repairs k = Some e" "attempts e \<ge> MAX_PHANTOM_REPAIR_ATTEMPTS" "map_ok repairs"
  obtains repairs' where "repair_sweeps env k (young @ ss) repairs = replicate (length young) [] @ repair_sweeps env k ss repairs'"
    "map_of repairs' k = Some e" "map_ok repairs'"
  using assms
proof (induction young arbitrary: repairs thesis)
  case (Cons s young)
  obtain t n m where s: "s = (t, n, m)" by (cases s)
  obtain r where r: "repair_sweeps env k ((t, n, m) # young @ ss) repairs = fst (repair_key k t (map_of repairs k)) # repair_sweeps env k (young @ ss) r"
      "map_of r k = snd (repair_key k t (map_of repairs k))" "map_ok r"
    using repair_sweeps_Cons[of env k t n m repairs "young @ ss"] Cons.prems(3,6) s by auto
  have key: "repair_key k t (map_of repairs k) = ([], Some e)" using Cons.prems(2,4,5) by (simp add: s repair_key_def)
  obtain r' where "repair_sweeps env k (young @ ss) r = replicate (length young) [] @ repair_sweeps env k ss r'" "map_of r' k = Some e" "map_ok r'"
    using Cons.IH[of r] Cons.prems(2-5) r key by auto
  then show ?case using r key by (intro Cons.prems(1)[of r']) (simp_all add: s)
qed simp

lemma sweep_once: "sweepable env k (now, n, m) \<Longrightarrow> map_ok repairs \<Longrightarrow> repair_key k now (map_of repairs k) = (as, oe) \<Longrightarrow>
    \<exists>r. repair_sweeps env k ((now, n, m) # ss) repairs = as # repair_sweeps env k ss r \<and> map_of r k = oe \<and> map_ok r"
  using repair_sweeps_Cons[of env k now n m repairs ss] by (metis fst_conv snd_conv)

text \<open>
  C21: a contract in use without a state is fetched three times and then given up. If it stays without a state while
  sweeps with fetches to spare pass over it, the first three of them, at least the cool-down apart, fetch it once each,
  those that follow do nothing, and the first sweep that is later than the first by the maximal age drops its
  downstream subscribers.
\<close>

theorem phantom_given_up:
  assumes sweeps: "\<forall>s \<in> set ([(a, n1, m1), (b, n2, m2), (c, n3, m3)] @ young @ [(d, n4, m4)]). sweepable env k s"
    and spaced: "a + PHANTOM_REPAIR_COOLDOWN \<le> b" "b + PHANTOM_REPAIR_COOLDOWN \<le> c"
    and young: "\<forall>(t, n, m) \<in> set young. t - a < PHANTOM_ABSOLUTE_MAX_AGE" and old: "PHANTOM_ABSOLUTE_MAX_AGE \<le> d - a"
  shows "repair_sweeps env k ([(a, n1, m1), (b, n2, m2), (c, n3, m3)] @ young @ [(d, n4, m4)]) [] =
    [[Fetch k], [Fetch k], [Fetch k]] @ replicate (length young) [] @ [[Drop k]]"
proof -
  let ?e = "\<lambda>n t. \<lparr>attempts = n, last_attempt = t, first_seen = a\<rparr>"
  let ?s4 = "young @ [(d, n4, m4)]"
  let ?s3 = "(c, n3, m3) # ?s4"
  let ?s2 = "(b, n2, m2) # ?s3"
  have S: "sweepable env k (a, n1, m1)" "sweepable env k (b, n2, m2)" "sweepable env k (c, n3, m3)" "sweepable env k (d, n4, m4)"
    "\<forall>s \<in> set young. sweepable env k s"
    using sweeps by simp_all
  have "repair_key k a (map_of [] k) = ([Fetch k], Some (?e 1 a))" by (simp add: repair_key_def)
  from sweep_once[OF S(1) map_ok_Nil this, of ?s2]
  obtain r1 where 1: "repair_sweeps env k ((a, n1, m1) # ?s2) [] = [Fetch k] # repair_sweeps env k ?s2 r1" "map_of r1 k = Some (?e 1 a)" "map_ok r1" by blast
  have "repair_key k b (map_of r1 k) = ([Fetch k], Some (?e 2 b))" using spaced(1) by (simp add: 1 repair_key_def MAX_PHANTOM_REPAIR_ATTEMPTS_def)
  from sweep_once[OF S(2) 1(3) this, of ?s3]
  obtain r2 where 2: "repair_sweeps env k ?s2 r1 = [Fetch k] # repair_sweeps env k ?s3 r2" "map_of r2 k = Some (?e 2 b)" "map_ok r2" by blast
  have "repair_key k c (map_of r2 k) = ([Fetch k], Some (?e 3 c))" using spaced(2) by (simp add: 2 repair_key_def MAX_PHANTOM_REPAIR_ATTEMPTS_def)
  from sweep_once[OF S(3) 2(3) this, of ?s4]
  obtain r3 where 3: "repair_sweeps env k ?s3 r2 = [Fetch k] # repair_sweeps env k ?s4 r3" "map_of r3 k = Some (?e 3 c)" "map_ok r3" by blast
  have "\<forall>(t, n, m) \<in> set young. t - first_seen (?e 3 c) < PHANTOM_ABSOLUTE_MAX_AGE" "attempts (?e 3 c) \<ge> MAX_PHANTOM_REPAIR_ATTEMPTS"
    using young by (simp_all add: MAX_PHANTOM_REPAIR_ATTEMPTS_def)
  from waiting_sweeps[OF this(1) S(5) 3(2) this(2) 3(3), of "[(d, n4, m4)]"]
  obtain r4 where 4: "repair_sweeps env k ?s4 r3 = replicate (length young) [] @ repair_sweeps env k [(d, n4, m4)] r4"
      "map_of r4 k = Some (?e 3 c)" "map_ok r4" by blast
  have "repair_key k d (map_of r4 k) = ([Drop k], None)" using old by (simp add: 4 repair_key_def MAX_PHANTOM_REPAIR_ATTEMPTS_def)
  from sweep_once[OF S(4) 4(3) this, of "[]"] have "repair_sweeps env k [(d, n4, m4)] r4 = [[Drop k]]" by auto
  then have "repair_sweeps env k ((a, n1, m1) # ?s2) [] = [Fetch k] # [Fetch k] # [Fetch k] # replicate (length young) [] @ [[Drop k]]"
    by (simp only: 1(1) 2(1) 3(1) 4(1))
  then show ?thesis by (simp only: append_Cons append_Nil)
qed

definition phantom_manager :: "(nat, nat, nat, nat, unit, unit) manager" where
  "phantom_manager = (hm_new 1000 ())\<lparr>downstream_subscribers := [(2, [(5, 0)])], storage := Some ()\<rparr>"

theorem phantom_given_up_witness:
  "repair_sweeps plain_env 2 [(0, 1, phantom_manager), (from_secs 60, 1, phantom_manager), (from_secs 120, 1, phantom_manager),
       (from_secs 180, 1, phantom_manager), (from_secs 2000, 1, phantom_manager)] [] =
     [[Fetch 2], [Fetch 2], [Fetch 2], [], [Drop 2]]"
proof -
  have "sweepable plain_env 2 (t, 1, phantom_manager)" for t
    by (auto simp: sweepable_def phantom_manager_def manager_ok_def is_phantom_def hm_new_def hc_new_def
      contract_state_present_def plain_env_def split: if_splits)
  then have "repair_sweeps plain_env 2 ([(0, 1, phantom_manager), (from_secs 60, 1, phantom_manager), (from_secs 120, 1, phantom_manager)] @
       [(from_secs 180, 1, phantom_manager)] @ [(from_secs 2000, 1, phantom_manager)]) [] =
     [[Fetch 2], [Fetch 2], [Fetch 2]] @ replicate (length [(from_secs 180, 1 :: nat, phantom_manager)]) [] @ [[Drop 2]]"
    by (intro phantom_given_up) (auto simp: PHANTOM_REPAIR_COOLDOWN_def PHANTOM_ABSOLUTE_MAX_AGE_def SUBSCRIPTION_LEASE_DURATION_def
      SUBSCRIPTION_RENEWAL_INTERVAL_def LEASE_RENEWAL_MULTIPLIER_def from_secs_def)
  then show ?thesis by simp
qed

section \<open>Removing a client while another one subscribes\<close>

text \<open>
  The removal of a client takes two steps on the concurrent map: the client is taken out of its set under a guard, and
  if the set was empty then, the entry is removed later, without another look. \<open>removing\<close> are the removals
  between the two.
\<close>

datatype ('i, 'c) client_action = AddClient 'i 'c | TakeOut 'i 'c | DropEntry 'i

record ('i, 'c) client_race =
  subscribed_clients :: "('i, 'c list) hash_map"
  removing :: "'i multiset"

fun client_act :: "('i, 'c) client_action \<Rightarrow> ('i, 'c) client_race \<Rightarrow> ('i, 'c) client_race option" where
  "client_act (AddClient i c) s =
    Some (s\<lparr>subscribed_clients := AList.update i
      (List.insert c (case map_of (subscribed_clients s) i of Some cs \<Rightarrow> cs | None \<Rightarrow> [])) (subscribed_clients s)\<rparr>)"
| "client_act (TakeOut i c) s =
    (case map_of (subscribed_clients s) i of
       None \<Rightarrow> Some s
     | Some cs \<Rightarrow> Some (s\<lparr>subscribed_clients := AList.update i (removeAll c cs) (subscribed_clients s),
         removing := (if removeAll c cs = [] then add_mset i (removing s) else removing s)\<rparr>))"
| "client_act (DropEntry i) s =
    (if i \<in># removing s
     then Some (s\<lparr>subscribed_clients := AList.delete i (subscribed_clients s), removing := removing s - {#i#}\<rparr>) else None)"

fun client_acts :: "('i, 'c) client_action list \<Rightarrow> ('i, 'c) client_race \<Rightarrow> ('i, 'c) client_race option" where
  "client_acts [] s = Some s"
| "client_acts (a # as) s = (case client_act a s of Some s' \<Rightarrow> client_acts as s' | None \<Rightarrow> None)"

text \<open>Done without interruption, the two steps are the operation of the manager.\<close>

lemma client_act_atomic:
  assumes "removing s = {#}" "client_subscriptions m = subscribed_clients s" "map_of (subscribed_clients s) i = Some cs"
  shows "map_option subscribed_clients (client_acts (if removeAll c cs = [] then [TakeOut i c, DropEntry i] else [TakeOut i c]) s) =
    Some (client_subscriptions (snd (remove_client_subscription i c m)))"
  using assms by (auto simp: remove_client_subscription_def Let_def)

definition has_client :: "'i \<Rightarrow> 'c \<Rightarrow> ('i, 'c) client_race \<Rightarrow> bool" where
  "has_client i c s \<longleftrightarrow> (case map_of (subscribed_clients s) i of Some cs \<Rightarrow> c \<in> set cs | None \<Rightarrow> False)"

lemma client_act_keeps:
  assumes "has_client i c s" "client_act a s = Some s'" "a \<noteq> TakeOut i c" "a \<noteq> DropEntry i"
  shows "has_client i c s'" "count (removing s') i = count (removing s) i"
proof -
  obtain cs where cs: "map_of (subscribed_clients s) i = Some cs" "c \<in> set cs"
    using assms(1) by (auto simp: has_client_def split: option.splits)
  have "removeAll d cs \<noteq> []" if "d \<noteq> c" for d
  proof -
    have "c \<in> set (removeAll d cs)" using cs(2) that by simp
    then show ?thesis by (metis empty_iff empty_set)
  qed
  then have "has_client i c s' \<and> count (removing s') i = count (removing s) i"
    using assms(2-4) cs
    by (cases a; cases "\<exists>d. a = TakeOut i d") (auto simp: has_client_def split: option.splits if_splits)
  then show "has_client i c s'" "count (removing s') i = count (removing s) i" by simp_all
qed

lemma client_act_lost: "client_act (DropEntry i) s = Some s' \<Longrightarrow> \<not> has_client i c s'"
  by (auto simp: has_client_def split: if_splits)

lemma client_act_stays_lost:
  "\<not> has_client i c s \<Longrightarrow> client_act a s = Some s' \<Longrightarrow> a \<noteq> AddClient i c \<Longrightarrow> \<not> has_client i c s'"
  by (cases a) (auto simp: has_client_def split: option.splits if_splits)

lemma client_acts_stay_lost:
  "\<not> has_client i c s \<Longrightarrow> client_acts as s = Some s' \<Longrightarrow> AddClient i c \<notin> set as \<Longrightarrow> \<not> has_client i c s'"
  by (induction "as" arbitrary: s) (auto split: option.splits dest: client_act_stays_lost)

text \<open>
  C33: a subscription of a local client can be lost, though only to a removal that overlaps it. Take a client that is
  subscribed to a contract and any interleaving of the steps by which clients are added and removed, in which nobody
  adds or removes that client. Its subscription is kept exactly when no second step of a removal for the contract
  is among them, and there is none unless one was already under way. When one is under way its second step is enabled
  and takes the subscription with it, although nobody asked for that.
\<close>

theorem client_subscription_lost:
  assumes "has_client i c s" "client_acts as s = Some s'" "TakeOut i c \<notin> set as" "AddClient i c \<notin> set as"
  shows "(has_client i c s' \<longleftrightarrow> DropEntry i \<notin> set as) \<and> (DropEntry i \<in> set as \<longrightarrow> i \<in># removing s) \<and>
    (i \<in># removing s \<longrightarrow> (\<exists>s1. client_act (DropEntry i) s = Some s1 \<and> \<not> has_client i c s1))"
proof -
  have "(has_client i c s' \<longleftrightarrow> DropEntry i \<notin> set as) \<and> (DropEntry i \<in> set as \<longrightarrow> i \<in># removing s)" using assms
  proof (induction "as" arbitrary: s)
    case (Cons a as)
    obtain s1 where s1: "client_act a s = Some s1" "client_acts as s1 = Some s'"
      using Cons.prems(2) by (auto split: option.splits)
    show ?case
    proof (cases "a = DropEntry i")
      case True
      then have "\<not> has_client i c s1" using s1(1) by (intro client_act_lost) simp
      moreover have "i \<in># removing s" using s1(1) True by (auto split: if_splits)
      ultimately show ?thesis using client_acts_stay_lost[OF _ s1(2)] Cons.prems(4) True by auto
    next
      case False
      have keep: "has_client i c s1" "count (removing s1) i = count (removing s) i"
        using client_act_keeps[OF Cons.prems(1) s1(1) _ False] Cons.prems(3) by auto
      have "(i \<in># removing s1) = (i \<in># removing s)" using keep(2) by (simp add: count_greater_zero_iff[symmetric] del: count_greater_zero_iff)
      then show ?thesis using Cons.IH[OF keep(1) s1(2)] Cons.prems(3,4) False by auto
    qed
  qed simp
  moreover have "\<exists>s1. client_act (DropEntry i) s = Some s1 \<and> \<not> has_client i c s1" if "i \<in># removing s"
    using that client_act_lost[of i s _ c] by auto
  ultimately show ?thesis by blast
qed

text \<open>Client 1 is removed from contract 3 while client 2 subscribes to it.\<close>

theorem client_subscription_lost_witness:
  "\<exists>s s'. client_acts [TakeOut (3 :: nat) (1 :: nat), AddClient 3 2] \<lparr>subscribed_clients = [(3, [1])], removing = {#}\<rparr> = Some s \<and>
     has_client 3 2 s \<and> client_acts [DropEntry 3] s = Some s' \<and> \<not> has_client 3 2 s'"
proof -
  define s :: "(nat, nat) client_race" where "s = \<lparr>subscribed_clients = [(3, [2])], removing = {#3#}\<rparr>"
  define s' :: "(nat, nat) client_race" where "s' = \<lparr>subscribed_clients = [], removing = {#}\<rparr>"
  have "client_acts [TakeOut 3 1, AddClient 3 2] \<lparr>subscribed_clients = [(3, [1])], removing = {#}\<rparr> = Some s"
    "has_client 3 2 s" "client_acts [DropEntry 3] s = Some s'"
    by (simp_all add: s_def s'_def has_client_def)
  with client_subscription_lost[of 3 2 s "[DropEntry 3]" s'] show ?thesis by auto
qed

end
