(* ===== verification/Reconcile.thy ===== *)
theory Reconcile
  imports Hosting_Manager Neighbor_Hosting
begin

text \<open>
  The controller that decides what a node does for a contract (\<open>ring/hosting/reconcile.rs\<close>) and the snapshot it
  decides on (\<open>node/op_state_manager.rs\<close>, \<open>ring.rs\<close>): the upstream computed from the connections and the
  advertisements of the neighbours, the demand, the lease and the node's own advertisement.
\<close>

section \<open>The decision\<close>

datatype Action = Subscribe | Renew | Unsubscribe | Collapse | Announce | Retract | ReRootSearch

text \<open>The address is \<^const>\<open>None\<close> for \<open>PeerAddr::Unknown\<close>.\<close>

record 'p PeerKeyLocation =
  pub_key :: 'p
  peer_addr :: "SocketAddr option"

record 'p ReconcileInputs =
  computed_upstream :: "'p PeerKeyLocation option"
  has_local_client :: bool
  has_farther_downstream :: bool
  has_recent_local_access :: bool
  state_present :: bool
  subscribed :: bool
  advertised :: bool
  is_verified_root :: bool
  actively_acquiring :: bool

definition inputs_in_use :: "'p ReconcileInputs \<Rightarrow> bool" where
  "inputs_in_use inputs \<longleftrightarrow>
    has_local_client inputs \<or> has_farther_downstream inputs \<or> has_recent_local_access inputs"

definition wants_renewal :: "'p ReconcileInputs \<Rightarrow> bool" where
  "wants_renewal inputs = inputs_in_use inputs"

definition wants_collapse :: "'p ReconcileInputs \<Rightarrow> bool" where
  "wants_collapse inputs = (\<not> inputs_in_use inputs)"

definition reconcile :: "'p ReconcileInputs \<Rightarrow> Action list" where
  "reconcile inputs =
    (if \<not> inputs_in_use inputs
     then (if subscribed inputs
           then Collapse # (if computed_upstream inputs \<noteq> None then [Unsubscribe] else [])
           else []) @
          (if advertised inputs then [Retract] else [])
     else if \<not> state_present inputs \<and> \<not> subscribed inputs then []
     else let has_host_role = (computed_upstream inputs \<noteq> None \<or> is_verified_root inputs \<or> actively_acquiring inputs)
          in (if subscribed inputs then [Renew] else []) @
             (if computed_upstream inputs \<noteq> None \<and> \<not> subscribed inputs then [Subscribe] else []) @
             (if computed_upstream inputs = None \<and> \<not> is_verified_root inputs \<and> \<not> actively_acquiring inputs
              then [ReRootSearch] else []) @
             (if state_present inputs \<and> has_host_role \<and> \<not> advertised inputs then [Announce] else []))"

record ReconcileActionDivergence =
  div_subscribe :: bool
  div_renew :: bool
  div_unsubscribe :: bool
  div_collapse :: bool
  div_announce :: bool
  div_retract :: bool
  div_reroot_search :: bool

definition no_divergence :: ReconcileActionDivergence where
  "no_divergence = \<lparr>div_subscribe = False, div_renew = False, div_unsubscribe = False, div_collapse = False,
     div_announce = False, div_retract = False, div_reroot_search = False\<rparr>"

definition divergence_any :: "ReconcileActionDivergence \<Rightarrow> bool" where
  "divergence_any d \<longleftrightarrow> div_subscribe d \<or> div_renew d \<or> div_unsubscribe d \<or> div_collapse d \<or> div_announce d \<or>
     div_retract d \<or> div_reroot_search d"

fun flag_action :: "Action \<Rightarrow> ReconcileActionDivergence \<Rightarrow> ReconcileActionDivergence" where
  "flag_action Subscribe d = d\<lparr>div_subscribe := True\<rparr>"
| "flag_action Renew d = d\<lparr>div_renew := True\<rparr>"
| "flag_action Unsubscribe d = d\<lparr>div_unsubscribe := True\<rparr>"
| "flag_action Collapse d = d\<lparr>div_collapse := True\<rparr>"
| "flag_action Announce d = d\<lparr>div_announce := True\<rparr>"
| "flag_action Retract d = d\<lparr>div_retract := True\<rparr>"
| "flag_action ReRootSearch d = d\<lparr>div_reroot_search := True\<rparr>"

definition action_set_divergence :: "Action list \<Rightarrow> Action list \<Rightarrow> ReconcileActionDivergence" where
  "action_set_divergence reconcile_actions actual_actions =
    fold flag_action (filter (\<lambda>a. a \<notin> set reconcile_actions) actual_actions)
      (fold flag_action (filter (\<lambda>a. a \<notin> set actual_actions) reconcile_actions) no_divergence)"

definition action_set_divergence_focused :: "Action list \<Rightarrow> Action list \<Rightarrow> Action list \<Rightarrow> ReconcileActionDivergence" where
  "action_set_divergence_focused reconcile_actions actual_actions relevant =
    action_set_divergence (filter (\<lambda>a. a \<in> set relevant) reconcile_actions)
      (filter (\<lambda>a. a \<in> set relevant) actual_actions)"

section \<open>The snapshot\<close>

text \<open>
  The connections are listed in the order of \<open>connections_by_location\<close>. Addresses compare by version, bits and
  port; of equal minima \<open>min_by\<close> takes the first.
\<close>

record 'p connection_view =
  own_peer :: "'p PeerKeyLocation"
  connections :: "'p PeerKeyLocation list"
  transient_connections :: "SocketAddr list"

definition peer_location :: "'p PeerKeyLocation \<Rightarrow> Location option" where
  "peer_location p = map_option from_address (peer_addr p)"

definition get_peer_by_pub_key :: "'p \<Rightarrow> 'p connection_view \<Rightarrow> 'p PeerKeyLocation option" where
  "get_peer_by_pub_key pk v = find (\<lambda>c. pub_key c = pk) (connections v)"

fun ip_less :: "IpAddr \<Rightarrow> IpAddr \<Rightarrow> bool" where
  "ip_less (V4 a) (V4 b) = (a < b)"
| "ip_less (V4 a) (V6 b) = True"
| "ip_less (V6 a) (V4 b) = False"
| "ip_less (V6 a) (V6 b) = (a < b)"

fun addr_less :: "SocketAddr option \<Rightarrow> SocketAddr option \<Rightarrow> bool" where
  "addr_less None b = (b \<noteq> None)"
| "addr_less (Some a) None = False"
| "addr_less (Some a) (Some b) = (ip_less (ip a) (ip b) \<or> (ip a = ip b \<and> port a < port b))"

fun no_closer_routable_neighbor :: "Distance \<Rightarrow> Location \<Rightarrow> (Location option \<times> bool) list \<Rightarrow> bool" where
  "no_closer_routable_neighbor my_distance contract_location [] = True"
| "no_closer_routable_neighbor my_distance contract_location ((peer_loc, routable) # rest) =
    (if \<not> routable then no_closer_routable_neighbor my_distance contract_location rest
     else (case peer_loc of
             Some l \<Rightarrow>
               if distance_less (distance l contract_location) my_distance then False
               else no_closer_routable_neighbor my_distance contract_location rest
           | None \<Rightarrow> no_closer_routable_neighbor my_distance contract_location rest))"

definition keyward_less :: "'p PeerKeyLocation \<times> Distance \<Rightarrow> 'p PeerKeyLocation \<times> Distance \<Rightarrow> bool" where
  "keyward_less = (\<lambda>(a, ad) (b, bd).
    distance_less ad bd \<or> (\<not> distance_less bd ad \<and> addr_less (peer_addr a) (peer_addr b)))"

fun min_by :: "('a \<Rightarrow> 'a \<Rightarrow> bool) \<Rightarrow> 'a list \<Rightarrow> 'a option" where
  "min_by lt [] = None"
| "min_by lt (x # xs) = Some (foldl (\<lambda>m y. if lt y m then y else m) x xs)"

definition most_keyward_among :: "Distance \<Rightarrow> ('p PeerKeyLocation \<times> Distance) list \<Rightarrow> 'p PeerKeyLocation option" where
  "most_keyward_among my_distance candidates =
    map_option fst (min_by keyward_less (filter (\<lambda>(_, dist). distance_less dist my_distance) candidates))"

text \<open>A node: its connections, its hosting manager, and what it and its neighbours advertise.\<close>

record ('k, 'i, 'c, 'p, 'd, 's) node =
  view :: "'p connection_view"
  manager :: "('k, 'i, 'c, 'p, 'd, 's) HostingManager"
  neighbor_hosting :: "('i, 'p) NeighborHostingManager"

definition is_routable :: "'p connection_view \<Rightarrow> 'p PeerKeyLocation \<Rightarrow> bool" where
  "is_routable v c = (case peer_addr c of Some a \<Rightarrow> a \<notin> set (transient_connections v) | None \<Rightarrow> True)"

definition is_subscription_root :: "('k, 'i, 'd, 's) hosting_env \<Rightarrow> 'k \<Rightarrow> ('k, 'i, 'c, 'p, 'd, 's) node \<Rightarrow> bool" where
  "is_subscription_root env k n =
    (if \<not> is_hosting_contract k (manager n) then False
     else (case peer_location (own_peer (view n)) of
             None \<Rightarrow> False
           | Some my_location \<Rightarrow>
               no_closer_routable_neighbor (distance my_location (key_location env k)) (key_location env k)
                 (map (\<lambda>c. (peer_location c, is_routable (view n) c)) (connections (view n)))))"

definition keyward_candidate :: "Location \<Rightarrow> 'p connection_view \<Rightarrow> 'p \<Rightarrow> ('p PeerKeyLocation \<times> Distance) option" where
  "keyward_candidate contract_location v pk =
    (case get_peer_by_pub_key pk v of
       None \<Rightarrow> None
     | Some pkl \<Rightarrow> map_option (\<lambda>l. (pkl, distance l contract_location)) (peer_location pkl))"

definition most_keyward_hosting_neighbor :: "Location \<Rightarrow> 'p list \<Rightarrow> 'p connection_view \<Rightarrow> 'p PeerKeyLocation option" where
  "most_keyward_hosting_neighbor contract_location hosting_neighbors v =
    (case peer_location (own_peer v) of
       None \<Rightarrow> None
     | Some my_location \<Rightarrow>
         most_keyward_among (distance my_location contract_location)
           (List.map_filter (keyward_candidate contract_location v) hosting_neighbors))"

definition has_strictly_farther :: "Distance \<Rightarrow> Distance list \<Rightarrow> bool" where
  "has_strictly_farther my_distance subscriber_distances = list_ex (distance_less my_distance) subscriber_distances"

definition has_farther_downstream_subscriber :: "('k, 'i, 'd, 's) hosting_env \<Rightarrow> instant \<Rightarrow> 'k \<Rightarrow> Location \<Rightarrow> ('k, 'i, 'c, 'p, 'd, 's) node \<Rightarrow> bool" where
  "has_farther_downstream_subscriber env now k my_location n =
    (let subscribers = downstream_subscriber_peers now k (manager n); contract_location = key_location env k
     in subscribers \<noteq> [] \<and>
        has_strictly_farther (distance my_location contract_location)
          (map snd (List.map_filter (keyward_candidate contract_location (view n)) subscribers)))"

definition build_reconcile_inputs :: "('k, 'i, 'd, 's) hosting_env \<Rightarrow> ('p \<Rightarrow> bytes) \<Rightarrow> instant \<Rightarrow> 'k \<Rightarrow> ('k, 'i, 'c, 'p, 'd, 's) node \<Rightarrow> 'p ReconcileInputs option" where
  "build_reconcile_inputs env pkb now k n =
    (case peer_location (own_peer (view n)) of
       None \<Rightarrow> None
     | Some my_location \<Rightarrow>
         let hosting_neighbors = neighbors_with_contract_id pkb (cid env k) (neighbor_hosting n)
         in Some \<lparr>computed_upstream = most_keyward_hosting_neighbor (key_location env k) hosting_neighbors (view n),
              has_local_client = has_client_subscriptions (cid env k) (manager n),
              has_farther_downstream = has_farther_downstream_subscriber env now k my_location n,
              has_recent_local_access =
                has_recent_local_client_access now k SUBSCRIPTION_LEASE_DURATION (hosting_cache (manager n)),
              state_present = contract_state_present env k (manager n),
              subscribed = is_subscribed now k (manager n),
              advertised = is_hosted_locally (cid env k) (neighbor_hosting n),
              is_verified_root = is_subscription_root env k n,
              actively_acquiring = False\<rparr>)"

section \<open>The gates\<close>

text \<open>What a gate reports to the counters of the network status is its second result.\<close>

definition reconcile_shadow_event :: "('k, 'i, 'd, 's) hosting_env \<Rightarrow> ('p \<Rightarrow> bytes) \<Rightarrow> instant \<Rightarrow> 'k \<Rightarrow> Action list \<Rightarrow>
    ('p ReconcileInputs \<Rightarrow> Action list) \<Rightarrow> ('k, 'i, 'c, 'p, 'd, 's) node \<Rightarrow> ReconcileActionDivergence option" where
  "reconcile_shadow_event env pkb now k relevant actual_of n =
    map_option (\<lambda>inputs. action_set_divergence_focused (reconcile inputs) (actual_of inputs) relevant)
      (build_reconcile_inputs env pkb now k n)"

definition reconcile_wants_renewal :: "('k, 'i, 'd, 's) hosting_env \<Rightarrow> ('p \<Rightarrow> bytes) \<Rightarrow> instant \<Rightarrow> 'k \<Rightarrow> ('k, 'i, 'c, 'p, 'd, 's) node \<Rightarrow> bool" where
  "reconcile_wants_renewal env pkb now k n =
    (case build_reconcile_inputs env pkb now k n of Some inputs \<Rightarrow> wants_renewal inputs | None \<Rightarrow> True)"

definition reconcile_wants_collapse :: "('k, 'i, 'd, 's) hosting_env \<Rightarrow> ('p \<Rightarrow> bytes) \<Rightarrow> instant \<Rightarrow> 'k \<Rightarrow> ('k, 'i, 'c, 'p, 'd, 's) node \<Rightarrow>
    bool \<times> ReconcileActionDivergence option" where
  "reconcile_wants_collapse env pkb now k n =
    (case build_reconcile_inputs env pkb now k n of
       None \<Rightarrow> (False, None)
     | Some inputs \<Rightarrow>
         let wants = wants_collapse inputs;
             legacy = (should_unsubscribe_upstream env k (manager n) \<and>
               \<not> has_recent_local_client_access now k SUBSCRIPTION_LEASE_DURATION (hosting_cache (manager n)))
         in (wants, Some (if wants \<noteq> legacy then no_divergence\<lparr>div_collapse := True\<rparr> else no_divergence)))"

definition reconcile_wants_reroot :: "('k, 'i, 'd, 's) hosting_env \<Rightarrow> ('p \<Rightarrow> bytes) \<Rightarrow> instant \<Rightarrow> 'k \<Rightarrow> ('k, 'i, 'c, 'p, 'd, 's) node \<Rightarrow>
    bool \<times> ReconcileActionDivergence option" where
  "reconcile_wants_reroot env pkb now k n =
    (case build_reconcile_inputs env pkb now k n of
       None \<Rightarrow> (False, None)
     | Some inputs \<Rightarrow>
         let wants = ReRootSearch \<in> set (reconcile inputs)
         in (wants, Some (if wants then no_divergence\<lparr>div_reroot_search := True\<rparr> else no_divergence)))"

end
