(* ===== verification/Reconcile_Properties.thy ===== *)
theory Reconcile_Properties
  imports Hosting_Manager_Properties Reconcile
begin

text \<open>
  Properties of the controller: which actions a pass can ask for; when a node can be root and have an upstream;
  the computed upstreams of a network form trees; a tree without demand collapses. A network is a function from
  public keys to nodes.
\<close>

section \<open>Comparing action sets\<close>

fun div_flag :: "Action \<Rightarrow> ReconcileActionDivergence \<Rightarrow> bool" where
  "div_flag Subscribe d = div_subscribe d"
| "div_flag Renew d = div_renew d"
| "div_flag Unsubscribe d = div_unsubscribe d"
| "div_flag Collapse d = div_collapse d"
| "div_flag Announce d = div_announce d"
| "div_flag Retract d = div_retract d"
| "div_flag ReRootSearch d = div_reroot_search d"

lemma div_flag_flag [simp]: "div_flag a (flag_action b d) \<longleftrightarrow> a = b \<or> div_flag a d"
  by (cases a; cases b) simp_all

lemma div_flag_none [simp]: "\<not> div_flag a no_divergence"
  by (cases a) (simp_all add: no_divergence_def)

lemma div_flag_fold [simp]: "div_flag a (fold flag_action as d) \<longleftrightarrow> a \<in> set as \<or> div_flag a d"
  by (induction "as" arbitrary: d) auto

lemma divergence_any_iff: "divergence_any d \<longleftrightarrow> (\<exists>a. div_flag a d)"
proof
  show "divergence_any d \<Longrightarrow> \<exists>a. div_flag a d"
    unfolding divergence_any_def by (metis div_flag.simps)
  show "\<exists>a. div_flag a d \<Longrightarrow> divergence_any d"
    by (erule exE, rename_tac a, case_tac a) (simp_all add: divergence_any_def)
qed

text \<open>The comparison is that of the sets, restricted to the relevant actions.\<close>

lemma divergence_exact: "div_flag a (action_set_divergence_focused r s relevant) \<longleftrightarrow>
    a \<in> set relevant \<and> (a \<in> set r) \<noteq> (a \<in> set s)"
  by (auto simp: action_set_divergence_focused_def action_set_divergence_def)

lemma no_divergence_iff: "divergence_any (action_set_divergence_focused r s relevant) \<longleftrightarrow>
    set r \<inter> set relevant \<noteq> set s \<inter> set relevant"
  unfolding divergence_any_iff divergence_exact by blast

section \<open>Demand decides which actions are possible\<close>

text \<open>A pass builds up a contract in use and tears down one that is not, never both.\<close>

lemma reconcile_used: "inputs_in_use i \<Longrightarrow> set (reconcile i) \<subseteq> {Renew, Subscribe, ReRootSearch, Announce}"
  by (auto simp: reconcile_def Let_def split: if_splits)

lemma reconcile_unused: "\<not> inputs_in_use i \<Longrightarrow> set (reconcile i) \<subseteq> {Collapse, Unsubscribe, Retract}"
  by (auto simp: reconcile_def split: if_splits)

text \<open>A stateless contract in use without a lease is left alone, also while it is advertised.\<close>

lemma reconcile_stateless: "inputs_in_use i \<Longrightarrow> \<not> state_present i \<Longrightarrow> \<not> subscribed i \<Longrightarrow> reconcile i = []"
  by (simp add: reconcile_def)

section \<open>The computed upstream\<close>

lemma foldl_min_in: "foldl (\<lambda>m y. if lt y m then y else m) x xs \<in> insert x (set xs)"
  by (induction xs arbitrary: x) (auto split: if_splits)

lemma min_by_in: "min_by lt xs = Some x \<Longrightarrow> x \<in> set xs"
  using foldl_min_in by (cases xs) fastforce+

lemma min_by_None [simp]: "min_by lt xs = None \<longleftrightarrow> xs = []"
  by (cases xs) simp_all

lemma foldl_keyward_min:
  "\<forall>y \<in> insert x (set xs). distance_f64 (snd (foldl (\<lambda>m y. if keyward_less y m then y else m) x xs)) \<le> distance_f64 (snd y)"
proof (induction xs arbitrary: x)
  case (Cons a xs)
  let ?m = "if keyward_less a x then a else x"
  have "distance_f64 (snd ?m) \<le> distance_f64 (snd x) \<and> distance_f64 (snd ?m) \<le> distance_f64 (snd a)"
    by (auto simp: keyward_less_def distance_less_def split: prod.splits)
  with Cons.IH[of ?m] show ?case by auto
qed simp

lemma min_by_keyward:
  "min_by keyward_less xs = Some m \<Longrightarrow> y \<in> set xs \<Longrightarrow> distance_f64 (snd m) \<le> distance_f64 (snd y)"
  using foldl_keyward_min by (cases xs) fastforce+

lemma keyward_candidate_Some: "keyward_candidate K v pk = Some (u, d) \<longleftrightarrow>
    get_peer_by_pub_key pk v = Some u \<and> (\<exists>l. peer_location u = Some l \<and> d = distance l K)"
  by (auto simp: keyward_candidate_def split: option.splits)

lemma most_keyward_Some:
  assumes "most_keyward_hosting_neighbor K hn v = Some u" "peer_location (own_peer v) = Some me"
  obtains pk l where "pk \<in> set hn" "get_peer_by_pub_key pk v = Some u" "peer_location u = Some l"
    "distance_less (distance l K) (distance me K)"
    "\<And>pk' u' l'. pk' \<in> set hn \<Longrightarrow> get_peer_by_pub_key pk' v = Some u' \<Longrightarrow> peer_location u' = Some l' \<Longrightarrow>
       \<not> distance_less (distance l' K) (distance l K)"
proof -
  let ?cs = "filter (\<lambda>(_, d). distance_less d (distance me K)) (List.map_filter (keyward_candidate K v) hn)"
  obtain d where m: "min_by keyward_less ?cs = Some (u, d)"
    using assms by (auto simp: most_keyward_hosting_neighbor_def most_keyward_among_def)
  obtain pk l where *: "pk \<in> set hn" "get_peer_by_pub_key pk v = Some u" "peer_location u = Some l" "d = distance l K"
    "distance_less d (distance me K)"
    using min_by_in[OF m] by (auto simp: in_map_filter keyward_candidate_Some)
  show thesis
  proof (rule that[OF *(1-3)])
    show "distance_less (distance l K) (distance me K)" using * by simp
    fix pk' u' l'
    assume a: "pk' \<in> set hn" "get_peer_by_pub_key pk' v = Some u'" "peer_location u' = Some l'"
    show "\<not> distance_less (distance l' K) (distance l K)"
    proof
      assume less: "distance_less (distance l' K) (distance l K)"
      have "keyward_candidate K v pk' = Some (u', distance l' K)" using a by (simp add: keyward_candidate_Some)
      moreover have "distance_less (distance l' K) (distance me K)" using less * by (simp add: distance_less_def)
      ultimately have "(u', distance l' K) \<in> set ?cs"
        using a(1) by (auto simp: in_map_filter)
      from min_by_keyward[OF m this] less *(4) show False by (simp add: distance_less_def)
    qed
  qed
qed

lemma get_peer_in: "get_peer_by_pub_key pk v = Some u \<Longrightarrow> u \<in> set (connections v) \<and> pub_key u = pk"
  by (auto simp: get_peer_by_pub_key_def find_Some_iff)

lemma no_closer_iff: "no_closer_routable_neighbor d K ns \<longleftrightarrow>
    (\<forall>l. (Some l, True) \<in> set ns \<longrightarrow> \<not> distance_less (distance l K) d)"
  by (induction d K ns rule: no_closer_routable_neighbor.induct) (auto split: option.splits)

lemma most_keyward_closer:
  assumes "most_keyward_hosting_neighbor K hn v = Some u" "peer_location (own_peer v) = Some me"
  obtains pk l where "get_peer_by_pub_key pk v = Some u" "peer_location u = Some l"
    "distance_less (distance l K) (distance me K)"
  by (rule most_keyward_Some[OF assms]) (rule that)

text \<open>
  C34: a node that takes itself for the root of a contract and yet has an upstream for it has that upstream on a
  transient connection. The test for the root passes over transient connections, the computation of the upstream
  does not, so the two exclude each other only while no neighbour that advertises the contract is on a transient
  connection.
\<close>

theorem root_upstream_transient:
  assumes "build_reconcile_inputs env pkb now k n = Some i"
    and "is_verified_root i" and "computed_upstream i = Some u"
  shows "\<exists>a. peer_addr u = Some a \<and> a \<in> set (transient_connections (view n))"
proof -
  let ?K = "key_location env k"
  obtain me where me: "peer_location (own_peer (view n)) = Some me"
    using assms(1) by (auto simp: build_reconcile_inputs_def split: option.splits)
  have root: "is_subscription_root env k n"
    and up: "most_keyward_hosting_neighbor ?K (neighbors_with_contract_id pkb (cid env k) (neighbor_hosting n)) (view n) = Some u"
    using assms me by (auto simp: build_reconcile_inputs_def Let_def)
  obtain pk l where u: "get_peer_by_pub_key pk (view n) = Some u" "peer_location u = Some l"
      "distance_less (distance l ?K) (distance me ?K)"
    by (rule most_keyward_closer[OF up me])
  have "\<not> is_routable (view n) u"
    using root me u get_peer_in[OF u(1)]
    by (force simp: is_subscription_root_def no_closer_iff split: if_splits)
  then show ?thesis by (auto simp: is_routable_def split: option.splits)
qed

section \<open>The trees of the upstreams\<close>

text \<open>
  Nodes know the addresses of the peers they are connected to, and all peers are nodes of the network.
\<close>

definition network_ok :: "'p set \<Rightarrow> ('p \<Rightarrow> SocketAddr option) \<Rightarrow> ('p \<Rightarrow> ('k, 'i, 'c, 'p, 'd, 's) node) \<Rightarrow> bool" where
  "network_ok P addr net \<longleftrightarrow> finite P \<and> (\<forall>p \<in> P. own_peer (view (net p)) = \<lparr>pub_key = p, peer_addr = addr p\<rparr> \<and>
     (\<forall>c \<in> set (connections (view (net p))). pub_key c \<in> P \<and> peer_addr c = addr (pub_key c)))"

definition upstream_of :: "('k, 'i, 'd, 's) hosting_env \<Rightarrow> ('p \<Rightarrow> bytes) \<Rightarrow> instant \<Rightarrow> 'k \<Rightarrow>
    ('p \<Rightarrow> ('k, 'i, 'c, 'p, 'd, 's) node) \<Rightarrow> 'p \<Rightarrow> 'p option" where
  "upstream_of env pkb now k net p =
    (case build_reconcile_inputs env pkb now k (net p) of
       Some i \<Rightarrow> map_option pub_key (computed_upstream i)
     | None \<Rightarrow> None)"

partial_function (option) follow :: "('p \<Rightarrow> 'p option) \<Rightarrow> 'p \<Rightarrow> 'p list option" where
  "follow up p = (case up p of None \<Rightarrow> Some [p] | Some q \<Rightarrow> Option.bind (follow up q) (\<lambda>ps. Some (p # ps)))"

definition key_dist :: "('k, 'i, 'd, 's) hosting_env \<Rightarrow> 'k \<Rightarrow> ('p \<Rightarrow> SocketAddr option) \<Rightarrow> 'p \<Rightarrow> rat" where
  "key_dist env k addr p = distance_f64 (distance (from_address (the (addr p))) (key_location env k))"

lemma upstream_closer:
  assumes "network_ok P addr net" "p \<in> P" "upstream_of env pkb now k net p = Some q"
  shows "q \<in> P" "key_dist env k addr q < key_dist env k addr p"
proof -
  obtain i u where i: "build_reconcile_inputs env pkb now k (net p) = Some i" "computed_upstream i = Some u" "q = pub_key u"
    using assms(3) by (auto simp: upstream_of_def split: option.splits)
  obtain me where me: "peer_location (own_peer (view (net p))) = Some me"
    using i(1) by (auto simp: build_reconcile_inputs_def split: option.splits)
  then obtain hn where up: "most_keyward_hosting_neighbor (key_location env k) hn (view (net p)) = Some u"
    using i by (auto simp: build_reconcile_inputs_def Let_def)
  obtain pk l where u: "get_peer_by_pub_key pk (view (net p)) = Some u" "peer_location u = Some l"
      "distance_less (distance l (key_location env k)) (distance me (key_location env k))"
    by (rule most_keyward_closer[OF up me])
  have "u \<in> set (connections (view (net p)))" using get_peer_in[OF u(1)] by simp
  then have q: "q \<in> P" "peer_addr u = addr q" "own_peer (view (net p)) = \<lparr>pub_key = p, peer_addr = addr p\<rparr>"
    using assms(1,2) i(3) by (auto simp: network_ok_def)
  show "q \<in> P" by (rule q)
  show "key_dist env k addr q < key_dist env k addr p"
    using u q me by (auto simp: key_dist_def peer_location_def distance_less_def)
qed

lemma descent_follow:
  fixes f :: "'p \<Rightarrow> rat"
  assumes P: "finite P" and desc: "\<And>p q. p \<in> P \<Longrightarrow> up p = Some q \<Longrightarrow> q \<in> P \<and> f q < f p"
  shows "p \<in> P \<Longrightarrow> \<exists>ps. follow up p = Some ps \<and> set ps \<subseteq> {q \<in> P. f q \<le> f p} \<and> hd ps = p \<and> ps \<noteq> [] \<and>
    sorted_wrt (\<lambda>a b. f b < f a) ps \<and> up (last ps) = None"
proof (induction "card {q \<in> P. f q < f p}" arbitrary: p rule: less_induct)
  case less
  show ?case
  proof (cases "up p")
    case None
    then show ?thesis using less.prems by (subst follow.simps) simp
  next
    case (Some q)
    have q: "q \<in> P" "f q < f p" using desc[OF less.prems Some] by auto
    have "{r \<in> P. f r < f q} \<subset> {r \<in> P. f r < f p}" using q by force
    then have "card {r \<in> P. f r < f q} < card {r \<in> P. f r < f p}" using P by (intro psubset_card_mono) auto
    from less.hyps[OF this q(1)] obtain ps where ps: "follow up q = Some ps" "set ps \<subseteq> {r \<in> P. f r \<le> f q}" "hd ps = q"
      "ps \<noteq> []" "sorted_wrt (\<lambda>a b. f b < f a) ps" "up (last ps) = None" by blast
    have "follow up p = Some (p # ps)" using Some ps(1) by (subst follow.simps) simp
    then show ?thesis using ps q less.prems by (intro exI[of _ "p # ps"]) force
  qed
qed

text \<open>
  C10: the upstreams form trees. In a network whose nodes know the addresses of their peers, following the computed
  upstream from any node comes to an end: at each hop the distance to the contract is strictly smaller, so no node
  comes twice, there are at most as many hops as nodes, and the last node has no upstream.
\<close>

theorem upstream_chain_ends:
  assumes "network_ok P addr net" and "p \<in> P"
  shows "\<exists>ps. follow (upstream_of env pkb now k net) p = Some ps \<and> hd ps = p \<and> set ps \<subseteq> P \<and> distinct ps \<and>
    length ps \<le> card P \<and> sorted_wrt (\<lambda>a b. key_dist env k addr b < key_dist env k addr a) ps \<and>
    upstream_of env pkb now k net (last ps) = None"
proof -
  have fin: "finite P" using assms(1) by (simp add: network_ok_def)
  have desc: "q \<in> P \<and> key_dist env k addr q < key_dist env k addr p"
    if "p \<in> P" "upstream_of env pkb now k net p = Some q" for p q
    using upstream_closer[OF assms(1) that] by simp
  obtain ps where ps: "follow (upstream_of env pkb now k net) p = Some ps" "set ps \<subseteq> P" "hd ps = p"
      "sorted_wrt (\<lambda>a b. key_dist env k addr b < key_dist env k addr a) ps" "upstream_of env pkb now k net (last ps) = None"
    using descent_follow[OF fin desc assms(2)] by blast
  have "distinct ps" using ps(4) by (induction ps) auto
  then have "length ps \<le> card P" using card_mono[OF fin ps(2)] by (simp add: distinct_card)
  with ps \<open>distinct ps\<close> show ?thesis by blast
qed

section \<open>The collapse of a tree without demand\<close>

text \<open>
  \<open>net t\<close> is the network at time \<open>t\<close>. A subscriber entered or renewed after \<open>T\<close> was a node that wanted the
  contract at that moment: this is the gate in front of every renewal.
\<close>

definition no_local_demand :: "('k, 'i, 'd, 's) hosting_env \<Rightarrow> instant \<Rightarrow> 'k \<Rightarrow> ('k, 'i, 'c, 'p, 'd, 's) node \<Rightarrow> bool" where
  "no_local_demand env now k n \<longleftrightarrow> \<not> has_client_subscriptions (cid env k) (manager n) \<and>
     \<not> has_recent_local_client_access now k SUBSCRIPTION_LEASE_DURATION (hosting_cache (manager n))"

definition entries_gated :: "('k, 'i, 'd, 's) hosting_env \<Rightarrow> ('p \<Rightarrow> bytes) \<Rightarrow> 'k \<Rightarrow> instant \<Rightarrow> 'p set \<Rightarrow>
    (instant \<Rightarrow> 'p \<Rightarrow> ('k, 'i, 'c, 'p, 'd, 's) node) \<Rightarrow> bool" where
  "entries_gated env pkb k T P net \<longleftrightarrow> (\<forall>t. \<forall>p \<in> P. \<forall>(d, ts) \<in> set (peers_of k (manager (net t p))).
     T < ts \<longrightarrow> reconcile_wants_renewal env pkb ts k (net ts d))"

lemma wants_renewal_farther:
  assumes ok: "network_ok P addr net" and p: "p \<in> P" "addr p \<noteq> None"
    and demand: "no_local_demand env now k (net p)" and wants: "reconcile_wants_renewal env pkb now k (net p)"
  obtains d ts where "(d, ts) \<in> set (peers_of k (manager (net p)))" "now - ts < SUBSCRIPTION_LEASE_DURATION" "d \<in> P"
    "addr d \<noteq> None" "key_dist env k addr p < key_dist env k addr d"
proof -
  obtain a where a: "addr p = Some a" using p(2) by auto
  have own: "peer_location (own_peer (view (net p))) = Some (from_address a)"
    using ok p(1) a by (simp add: network_ok_def peer_location_def)
  have "has_farther_downstream_subscriber env now k (from_address a) (net p)"
    using wants demand own
    by (simp add: reconcile_wants_renewal_def build_reconcile_inputs_def Let_def wants_renewal_def inputs_in_use_def
        no_local_demand_def)
  then obtain d u l ts where d: "(d, ts) \<in> set (peers_of k (manager (net p)))" "now - ts < SUBSCRIPTION_LEASE_DURATION"
      "get_peer_by_pub_key d (view (net p)) = Some u" "peer_location u = Some l"
      "distance_less (distance (from_address a) (key_location env k)) (distance l (key_location env k))"
    by (auto simp: has_farther_downstream_subscriber_def Let_def has_strictly_farther_def list_ex_iff in_map_filter
        downstream_subscriber_peers_def keyward_candidate_Some)
  have u: "u \<in> set (connections (view (net p)))" "pub_key u = d" using get_peer_in[OF d(3)] by simp_all
  then have "d \<in> P" "peer_addr u = addr d" using ok p(1) by (auto simp: network_ok_def)
  then show thesis
    using that[OF d(1,2)] d(4,5) a by (auto simp: key_dist_def peer_location_def distance_less_def)
qed

lemma renewal_rank:
  assumes ok: "\<And>t. network_ok P addr (net t)" and addr: "\<And>p. p \<in> P \<Longrightarrow> addr p \<noteq> None"
    and demand: "\<And>t p. T < t \<Longrightarrow> p \<in> P \<Longrightarrow> no_local_demand env t k (net t p)"
    and gated: "entries_gated env pkb k T P net"
  shows "p \<in> P \<Longrightarrow> T + card {d \<in> P. key_dist env k addr p \<le> key_dist env k addr d} * SUBSCRIPTION_LEASE_DURATION \<le> t \<Longrightarrow>
    \<not> reconcile_wants_renewal env pkb t k (net t p)"
proof (induction "card {d \<in> P. key_dist env k addr p \<le> key_dist env k addr d}" arbitrary: p t rule: less_induct)
  case less
  let ?rank = "\<lambda>p. card {d \<in> P. key_dist env k addr p \<le> key_dist env k addr d}"
  let ?L = SUBSCRIPTION_LEASE_DURATION
  have fin: "finite P" using ok[of t] by (simp add: network_ok_def)
  have L: "0 < ?L" by (simp add: SUBSCRIPTION_LEASE_DURATION_def SUBSCRIPTION_RENEWAL_INTERVAL_def LEASE_RENEWAL_MULTIPLIER_def from_secs_def)
  have pos: "0 < ?rank p" using less.prems(1) fin by (auto simp: card_gt_0_iff)
  then have "0 < ?rank p * ?L" using L by (rule mult_pos_pos)
  then have "T < t" using less.prems(2) by linarith
  show ?case
  proof
    assume "reconcile_wants_renewal env pkb t k (net t p)"
    from wants_renewal_farther[OF ok less.prems(1) addr[OF less.prems(1)] demand[OF \<open>T < t\<close> less.prems(1)] this]
    obtain d ts where d: "(d, ts) \<in> set (peers_of k (manager (net t p)))" "t - ts < ?L" "d \<in> P"
      "key_dist env k addr p < key_dist env k addr d" by blast
    have "{c \<in> P. key_dist env k addr d \<le> key_dist env k addr c} \<subset> {c \<in> P. key_dist env k addr p \<le> key_dist env k addr c}"
      using d(4) less.prems(1) by force
    then have rank: "?rank d < ?rank p" using fin by (intro psubset_card_mono) auto
    then have "?rank d * ?L + ?L \<le> ?rank p * ?L" using mult_le_mono1[of "Suc (?rank d)" "?rank p" ?L] by simp
    then have ts: "T + ?rank d * ?L < ts" using less.prems(2) d(2) by linarith
    have "reconcile_wants_renewal env pkb ts k (net ts d)"
      using gated d(1) less.prems(1) ts by (fastforce simp: entries_gated_def)
    with less.hyps[OF rank d(3)] ts show False by simp
  qed
qed

text \<open>
  C11: a tree without demand collapses. Suppose that after time \<open>T\<close> no node has a client for the contract, nor a
  recent access by one, and that a subscriber is entered or renewed only while it wants the contract itself. Then
  after at most as many lease periods as there are nodes every node wants to collapse, whatever the subscriptions
  and connections between the nodes were, cycles among the subscriptions included. The reason is that only
  subscribers strictly farther from the contract count.
\<close>

theorem collapse_terminates:
  assumes "\<And>t. network_ok P addr (net t)" and "\<And>p. p \<in> P \<Longrightarrow> addr p \<noteq> None"
    and "\<And>t p. T < t \<Longrightarrow> p \<in> P \<Longrightarrow> no_local_demand env t k (net t p)"
    and "entries_gated env pkb k T P net"
    and "T + card P * SUBSCRIPTION_LEASE_DURATION \<le> t" and "p \<in> P"
  shows "fst (reconcile_wants_collapse env pkb t k (net t p))"
proof -
  have fin: "finite P" using assms(1)[of t] by (simp add: network_ok_def)
  have "card {d \<in> P. key_dist env k addr p \<le> key_dist env k addr d} \<le> card P" using fin by (intro card_mono) auto
  then have "T + card {d \<in> P. key_dist env k addr p \<le> key_dist env k addr d} * SUBSCRIPTION_LEASE_DURATION \<le> t"
    using assms(5) mult_le_mono1[of _ "card P" SUBSCRIPTION_LEASE_DURATION] by (meson add_le_mono le_refl le_trans)
  from renewal_rank[OF assms(1-4,6) this] show ?thesis
    by (auto simp: reconcile_wants_renewal_def reconcile_wants_collapse_def wants_renewal_def wants_collapse_def Let_def
        split: option.splits)
qed

section \<open>A network of two nodes\<close>

text \<open>
  Both host contract 7, which is at location 0 like node 0, advertise it, and are subscribed to each other. The
  connection to node 0 is transient.
\<close>

lemma far_hash: "unat (distribute_hash 0x500) = 7097606635954819849"
  by (simp add: distribute_hash_def Let_def)

lemma is_f64_dyadic: "is_f64 (1 / 4)" "is_f64 (1 / 8)" "is_f64 (7 / 8)" "is_f64 (2 ^ 62)" "is_f64 (2 ^ 63)" "is_f64 (2 ^ 64)" "is_f64 (7 * 2 ^ 60)"
  using is_f64_scaled[of 1 "- 2"] is_f64_scaled[of 1 "- 3"] is_f64_scaled[of 7 "- 3"] is_f64_scaled[of 1 62]
    is_f64_scaled[of 1 63] is_f64_scaled[of 1 64] is_f64_scaled[of 7 60]
  by (simp_all add: pow2_def)

definition near_addr :: SocketAddr where
  "near_addr = \<lparr>ip = V4 0, port = 0\<rparr>"

definition far_addr :: SocketAddr where
  "far_addr = \<lparr>ip = V4 0x500, port = 0\<rparr>"

lemma near_location: "from_address near_addr = Location 0"
  by (simp add: near_addr_def from_address_def deterministic_loc_def hash_location_def distribute_hash_def nat_f64_def fdiv_def)

lemma far_location: "1 / 4 \<le> as_f64 (from_address far_addr)" "as_f64 (from_address far_addr) \<le> 7 / 8"
proof -
  define n :: nat where "n = 7097606635954819849"
  have loc: "as_f64 (from_address far_addr) = f64_rnd (nat_f64 n / nat_f64 (2 ^ 64 - 1))"
    by (simp add: far_addr_def from_address_def deterministic_loc_def hash_location_def fdiv_def far_hash n_def)
  have n: "2 ^ 62 \<le> nat_f64 n" "nat_f64 n \<le> 7 * 2 ^ 60"
    using f64_rnd_ge[OF _ is_f64_dyadic(4), of "of_nat n"] f64_rnd_le[OF _ is_f64_dyadic(7), of "of_nat n"]
    by (simp_all add: nat_f64_def n_def)
  have d: "2 ^ 63 \<le> nat_f64 (2 ^ 64 - 1)" "nat_f64 (2 ^ 64 - 1) \<le> 2 ^ 64"
    using f64_rnd_ge[OF _ is_f64_dyadic(5), of "of_nat (2 ^ 64 - 1)"] f64_rnd_le[OF _ is_f64_dyadic(6), of "of_nat (2 ^ 64 - 1)"]
    by (simp_all add: nat_f64_def)
  have "1 / 4 \<le> nat_f64 n / nat_f64 (2 ^ 64 - 1)" "nat_f64 n / nat_f64 (2 ^ 64 - 1) \<le> 7 / 8"
    using n d by (simp_all add: field_simps)
  then show "1 / 4 \<le> as_f64 (from_address far_addr)" "as_f64 (from_address far_addr) \<le> 7 / 8"
    unfolding loc using f64_rnd_ge[OF _ is_f64_dyadic(1)] f64_rnd_le[OF _ is_f64_dyadic(3)] by blast+
qed

lemma near_distance: "distance (from_address near_addr) (Location 0) = Distance 0"
  by (simp add: near_location distance_def distance_new_def fsub_def)

lemma far_distance: "0 < distance_f64 (distance (from_address far_addr) (Location 0))"
proof -
  let ?x = "as_f64 (from_address far_addr)"
  have x: "f64_rnd ?x = ?x" "0 \<le> ?x" using from_address_valid[of far_addr] by (auto simp: valid_location_def is_f64_def)
  have "1 / 8 \<le> fsub 1 ?x" unfolding fsub_def by (rule f64_rnd_ge) (use far_location is_f64_dyadic in auto)
  moreover have "fsub 1 ?x \<le> 3 / 4" if "1 / 2 \<le> ?x"
    unfolding fsub_def by (rule order_trans[OF f64_rnd_le[of _ "1 / 2"]]) (use that in auto)
  moreover have "0 < ?x" using far_location by linarith
  moreover have "0 < fsub 1 y" if "y \<le> 3 / 4" for y
    unfolding fsub_def by (rule less_le_trans[OF _ f64_rnd_ge[of "1 / 8"]]) (use that is_f64_dyadic in auto)
  ultimately show ?thesis using x
    by (auto simp: distance_def distance_new_def fsub_def Let_def)
qed

definition pair_addr :: "nat \<Rightarrow> SocketAddr option" where
  "pair_addr p = Some (if p = 0 then near_addr else far_addr)"

definition pair_node :: "nat \<Rightarrow> (nat, nat, nat, nat, unit, unit) node" where
  "pair_node p =
    \<lparr>view = \<lparr>own_peer = \<lparr>pub_key = p, peer_addr = pair_addr p\<rparr>,
       connections = [\<lparr>pub_key = 1 - p, peer_addr = pair_addr (1 - p)\<rparr>], transient_connections = [near_addr]\<rparr>,
     manager = (hm_new 1000 ())\<lparr>hosting_cache := (hc_new 1000)\<lparr>contracts := [(7, new_entry 0 1 10 Get 0 0 0)]\<rparr>,
       downstream_subscribers := [(7, [(1 - p, 0)])]\<rparr>,
     neighbor_hosting = \<lparr>my_contracts = [7], neighbor_contracts = [(1 - p, {7})]\<rparr>\<rparr>"

lemma pair_network: "network_ok {0, 1} pair_addr pair_node"
  by (auto simp: network_ok_def pair_node_def)

lemma pair_distance: "distance_less (distance (from_address near_addr) (Location 0)) (distance (from_address far_addr) (Location 0))"
  using far_distance by (simp add: near_distance distance_less_def)

lemma pair_upstream: "most_keyward_hosting_neighbor (Location 0) [0] (view (pair_node 1)) = Some \<lparr>pub_key = 0, peer_addr = Some near_addr\<rparr>"
  using pair_distance
  by (simp add: most_keyward_hosting_neighbor_def most_keyward_among_def pair_node_def pair_addr_def peer_location_def
    keyward_candidate_def get_peer_by_pub_key_def List.map_filter_def)

lemma pair_root: "is_subscription_root plain_env 7 (pair_node 1)"
  by (simp add: is_subscription_root_def pair_node_def pair_addr_def peer_location_def is_routable_def is_hosting_contract_def
    contains_key_def hm_new_def)

lemma pair_inputs: "\<exists>i. build_reconcile_inputs plain_env (\<lambda>_. []) now 7 (pair_node 1) = Some i \<and> is_verified_root i \<and>
    computed_upstream i = Some \<lparr>pub_key = 0, peer_addr = Some near_addr\<rparr>"
proof -
  have "neighbors_with_contract_id (\<lambda>_. []) 7 (neighbor_hosting (pair_node 1)) = [0]"
    by (simp add: neighbors_with_contract_id_def pair_node_def)
  moreover have "peer_location (own_peer (view (pair_node 1))) = Some (from_address far_addr)"
    by (simp add: pair_node_def pair_addr_def peer_location_def)
  ultimately show ?thesis using pair_upstream pair_root
    by (simp add: build_reconcile_inputs_def plain_env_def Let_def)
qed

lemma pair_demand: "no_local_demand plain_env t 7 (pair_node p)"
  by (simp add: no_local_demand_def pair_node_def hm_new_def has_client_subscriptions_def clients_of_def plain_env_def
    has_recent_local_client_access_def new_entry_def)

theorem root_upstream_transient_witness:
  "\<exists>i u a. build_reconcile_inputs plain_env (\<lambda>_. []) 5 7 (pair_node 1) = Some i \<and> is_verified_root i \<and>
     computed_upstream i = Some u \<and> peer_addr u = Some a \<and> a \<in> set (transient_connections (view (pair_node 1)))"
proof -
  obtain i where i: "build_reconcile_inputs plain_env (\<lambda>_. []) 5 7 (pair_node 1) = Some i" "is_verified_root i"
      "computed_upstream i = Some \<lparr>pub_key = 0, peer_addr = Some near_addr\<rparr>"
    using pair_inputs[of 5] by blast
  from i root_upstream_transient[OF i] show ?thesis by blast
qed

theorem upstream_chain_ends_witness:
  "upstream_of plain_env (\<lambda>_. []) 5 7 pair_node 1 = Some 0 \<and>
   (\<exists>ps. follow (upstream_of plain_env (\<lambda>_. []) 5 7 pair_node) 1 = Some ps \<and> hd ps = 1 \<and> distinct ps \<and> length ps \<le> 2)"
proof
  show "upstream_of plain_env (\<lambda>_. []) 5 7 pair_node 1 = Some 0"
    using pair_inputs[of 5] by (auto simp: upstream_of_def)
  show "\<exists>ps. follow (upstream_of plain_env (\<lambda>_. []) 5 7 pair_node) 1 = Some ps \<and> hd ps = 1 \<and> distinct ps \<and> length ps \<le> 2"
    using upstream_chain_ends[OF pair_network, of 1 plain_env "\<lambda>_. []" 5 7] by auto
qed

theorem collapse_terminates_witness:
  "has_downstream_subscribers 7 (manager (pair_node 0)) \<and> has_downstream_subscribers 7 (manager (pair_node 1)) \<and>
   fst (reconcile_wants_collapse plain_env (\<lambda>_. []) (2 * SUBSCRIPTION_LEASE_DURATION) 7 (pair_node 0)) \<and>
   fst (reconcile_wants_collapse plain_env (\<lambda>_. []) (2 * SUBSCRIPTION_LEASE_DURATION) 7 (pair_node 1))"
proof -
  have gated: "entries_gated plain_env (\<lambda>_. []) 7 0 {0, 1} (\<lambda>_. pair_node)"
    by (simp add: entries_gated_def pair_node_def hm_new_def peers_of_def)
  have "fst (reconcile_wants_collapse plain_env (\<lambda>_. []) (2 * SUBSCRIPTION_LEASE_DURATION) 7 (pair_node p))" if "p \<in> {0, 1}" for p
    by (rule collapse_terminates[OF pair_network _ pair_demand gated _ that]) (simp_all add: pair_addr_def)
  moreover have "has_downstream_subscribers 7 (manager (pair_node p))" for p
    by (simp add: has_downstream_subscribers_def peers_of_def pair_node_def hm_new_def)
  ultimately show ?thesis by simp
qed

end
