(* ===== verification/Spec2Isabelle.thy ===== *)
theory Spec2Isabelle
  imports Connection_Properties Stream_Transfer Rate_Control Fair_Queue_Properties Init_Tracker Ban_List
    Update_Rate_Limit Resync_Rate_Limit Hosting_Properties Merge_Backoff Orphan_Streams Interest_Sync_Properties
    Ring_Location Neighbor_Hosting Hosting_Manager_Properties Reconcile_Properties
begin

text \<open>
  A verification development for the Freenet core crate, \<open>src/crates/core/src\<close> (paths below are relative to it).

  \<^bold>\<open>The program.\<close> A Freenet node talks to its peers over UDP (\<open>transport/\<close>). A peer connection encrypts
  messages into datagrams, tracks the packets it has sent until they are acknowledged, retransmits or abandons
  them, collects the receipts of what it has received, and asks a congestion controller and a token bucket
  whether it may send. Messages above one datagram travel as streams of numbered fragments that the receiver
  reassembles. Above the transport, the contract handler (\<open>contract.rs\<close>, \<open>contract/\<close>) takes events of local
  clients, of relayed operations and of background work from one fair queue and executes them; updates of a
  contract that is being initialised are held back by a tracker. The ring (\<open>ring/\<close>) decides which contracts
  the node hosts within its budget, for which clients and peers, and toward which neighbour it subscribes, and protects it with bounded concurrent tables: bans of contracts, limits
  on updates and on resynchronisation requests, and back-off from merges that keep failing. Nodes tell each
  other which contracts they are interested in and compare summaries of the states they hold (\<open>node.rs\<close>,
  \<open>ring/interest.rs\<close>), so that states that differ are brought together again.

  \<^bold>\<open>Conventions.\<close> Instants and durations are nanoseconds of type \<^typ>\<open>nat\<close>, the clock is an argument \<open>now\<close>;
  a subtraction of instants saturates as in the source. Packet and stream ids are \<open>32 word\<close>, data are lists of
  bytes. Hash maps are association lists with distinct keys. Counters of 64 bits wrap or saturate where the
  source says so (\<open>wrap_add64\<close>, \<open>sat_add64\<close>); amounts the source bounds otherwise are unbounded naturals. An \<open>f64\<close> is
  a rational together with the rounding to 53 bits after every operation (\<open>Float64\<close>): infinities do
  not arise in the modelled code, and a rate that may be NaN is an option. Code outside the repository (the
  wire codec, the socket) is an argument of the definitions that use it. Where a handler calls parts of the
  node that are not modelled (the contract handler, the broadcast queue, the random source), they are functions
  on a state \<open>world\<close> of unknown type that the handler threads through. Log lines and metrics are left out.

  \<^bold>\<open>Theories.\<close>

  \<^item> \<open>Prelude\<close>: durations, saturating arithmetic, hash maps, and the locales \<open>machine\<close> and \<open>timed_machine\<close>, which
    carry an invariant through a sequence of operations, the second with non-decreasing times, and
    \<open>functional_refinement\<close>, a machine whose steps a specification follows through a view of the state.

  \<^item> \<open>Float64\<close>: rounding to the nearest binary64 value, its monotonicity, error bound and exact values.

  \<^item> \<open>Received_Packet_Tracker\<close> (\<open>transport/received_packet_tracker.rs\<close>): duplicates are recognised while they are
    retained, and each accepted packet is acknowledged exactly once.

  \<^item> \<open>Sent_Packet_Tracker\<close>, \<open>Sent_Packet_Properties\<close> (\<open>transport/sent_packet_tracker.rs\<close>): the maps of pending packets
    agree, retransmission timeout and back-off stay in their ranges, retransmissions per packet are bounded,
    \<open>get_resend\<close> reports exact deadlines, and receipts and \<open>drop_stream\<close> release exactly the bytes they remove.
    The loop of \<open>get_resend\<close> is a recursion on the resend queue, so it needs no fuel.

  \<^item> \<open>Fixed_Rate\<close> (\<open>transport/fixed_rate/controller.rs\<close>): the default controller and its pause after a loss.

  \<^item> \<open>Flight_Accounting\<close>: the tracker and the controller together. After any interleaving of sends, receipts,
    retransmissions, abandonments and stream aborts, the handshake packet that is registered without being counted
    and the reuse of its id included, the flight size is the number of bytes pending up to what that packet shifts.

  \<^item> \<open>Peer_Connection\<close>, \<open>Connection_Properties\<close> (\<open>transport/peer_connection.rs\<close>, \<open>packet_data.rs\<close>,
    \<open>symmetric_message.rs\<close>): the handlers for receipts, resends, acknowledgements, short messages and fragments
    keep that balance; what happens on the failure paths.

  \<^item> \<open>Stream_Buffer\<close> (\<open>peer_connection/streaming_buffer.rs\<close>): the lock-free reassembly buffer, first with each
    operation atomic, then with the frontier advanced by threads whose loads and compare-and-swaps interleave.

  \<^item> \<open>Stream_Transfer\<close> (\<open>peer_connection/outbound_stream.rs\<close>, \<open>streaming.rs\<close>): a stream cut into fragments and
    delivered in any order, with duplicates, is read back byte for byte; every fragment fits a datagram.

  \<^item> \<open>Rate_Control\<close> (\<open>token_bucket.rs\<close>, \<open>global_bandwidth.rs\<close>): the bucket with its fractional tokens, reservations
    and the division of the bandwidth.

  \<^item> \<open>Keyed_Fifo\<close>: the locale \<open>keyed_fifo\<close>, a queue made of lanes in which each lane is first in, first out.

  \<^item> \<open>Fair_Queue\<close>, \<open>Fair_Queue_Properties\<close> (\<open>contract/fair_queue.rs\<close> and the push with eviction in \<open>contract.rs\<close>): the
    queue is a \<open>keyed_fifo\<close>, its counters are exact, its bounds hold, local clients are refused only for reasons
    of their own, and relayed work is served after a bounded number of pops.

  \<^item> \<open>Init_Tracker\<close> (\<open>contract/executor/init_tracker.rs\<close>): the tracker is a \<open>keyed_fifo\<close> with bounded lanes.

  \<^item> \<open>Slot_Reservation\<close>: the protocol by which the tables of the ring reserve a slot before they insert a key,
    as interleaved atomic steps, and the locale \<open>slot_client\<close> of tables that follow it.

  \<^item> \<open>Ban_List\<close>, \<open>Update_Rate_Limit\<close>, \<open>Resync_Rate_Limit\<close> (\<open>ring/contract_ban_list.rs\<close>, \<open>update_rate_limit.rs\<close>,
    \<open>resync_rate_limit.rs\<close>): these tables. Automatic bans hold until they expire; allowed updates are spaced;
    the clean-ups cannot be observed; outstanding requests implement a bounded map exactly, and an unbounded one
    that never forgets a request as long as there is room.

  \<^item> \<open>Merge_Backoff\<close> (\<open>ring/merge_backoff.rs\<close>): a merge is skipped only for failures the node has observed, which
    an unbounded history of the run records together with what forgives them.

  \<^item> \<open>Hosting_Cache\<close>, \<open>Hosting_Properties\<close> (\<open>ring/hosting/cache.rs\<close>): the byte count is exact over any run; an
    eviction takes the least wanted contracts, no more than needed; eviction for cost spares every contract
    with a subscriber or a recent access; what was just read goes last.

  \<^item> \<open>Disk_Usage\<close> (\<open>ring/hosting/disk_usage.rs\<close>): the bytes the node has on disk. Seeding a tracker that has already
    seen writes gives the sizes in the store, admitted writes stay within the budget, the walks over directories
    end with the total length of their files; and, with the two steps of a write and of a removal interleaved, the
    counter is never behind the store but can stay ahead of it.

  \<^item> \<open>Backoff\<close> (\<open>util/backoff.rs\<close>): as long as the tracker has room, the failures and the back-off of a key are
    those its own history of failures, throttles and successes gives; without room the oldest entries are forgotten.

  \<^item> \<open>Hosting_Manager\<close>, \<open>Hosting_Manager_Properties\<close> (\<open>ring/hosting.rs\<close>): leases, clients, downstream subscribers,
    the disk budget and the database around the hosting cache, whose operations it composes with those of
    \<open>Disk_Usage\<close> and \<open>Backoff\<close>. Which contracts are renewed exactly, what a sweep leaves behind of the contracts
    it evicts (nothing), that a contract in use without a state is given up after three attempts, that a lapsed
    lease is not renewed for downstream subscribers, and when the subscription of a client can be lost.

  \<^item> \<open>Reconcile\<close>, \<open>Reconcile_Properties\<close> (\<open>ring/hosting/reconcile.rs\<close>, the snapshot in \<open>node/op_state_manager.rs\<close> and
    \<open>ring.rs\<close>): what a node should do for a contract, decided on a snapshot of its hosting manager, of what its
    neighbours advertise and of their locations. A pass never builds up and tears down at once; the upstreams
    computed by the nodes of a network form trees; a tree without demand collapses within one lease per node.

  \<^item> \<open>Orphan_Streams\<close> (\<open>operations/orphan_streams.rs\<close>): the registry where a stream meets its metadata, as whole
    operations and as interleaved atomic steps: no handle is lost or delivered twice, but the two can miss
    each other.

  \<^item> \<open>Delta_Incompat\<close> (\<open>ring/delta_incompat.rs\<close>): deltas of a contract are suppressed only within ten minutes of a
    strike that completes the evidence of own failures or of requests from two peers; the cap of the table can be overshot by concurrent inserts.

  \<^item> \<open>Broken_Invariants\<close> (\<open>ring/broken_invariants.rs\<close>): flags on contracts that misbehave. The clean-up cannot be
    observed, a contract that keeps coming back is flagged for ever longer times, and a restart loses no flag.

  \<^item> \<open>Interest_Manager\<close>, \<open>Interest_Properties\<close> (\<open>ring/interest.rs\<close>): the manager with its reverse and hash indexes
    is the plain map from contracts and peers to entries; the announcements it asks for follow the interest of
    the node.

  \<^item> \<open>Interest_Sync\<close>, \<open>Interest_Sync_Properties\<close> (\<open>handle_interest_sync_message\<close> in \<open>node.rs\<close>, \<open>interest_heartbeat\<close> in
    \<open>ring.rs\<close>): the messages of the protocol over the manager, the ban list, the resync limiters, the merge
    back-off, the delta memo and the flags. What each message changes exactly, that a peer changes no entry but
    its own, that heals and probes are bounded and responses answer requests; and that two nodes can keep interest alive
    that neither has. The locale \<open>sync_frame\<close> says what the messages leave alone.

  \<^item> \<open>Message_Exchange\<close>: two nodes that answer each other's messages until one has no answer, and the locale
    \<open>answering\<close> of handlers whose answers rank below what they answer, so that every exchange ends.

  \<^item> \<open>Neighbor_Hosting\<close> (\<open>node/neighbor_hosting.rs\<close>): what neighbours tell each other of the contracts they host.
    A node's view of a neighbour is what the neighbour's messages say, and the exchange that follows a connection
    ends with both sides knowing the contracts they share.

  \<^item> \<open>Ring_Location\<close> (\<open>ring/location.rs\<close>): locations of addresses and contracts on the ring and their distances in
    floating point: their ranges, how far a distance is from the true arc, and that the equality up to an
    epsilon is not transitive.

  \<^bold>\<open>Bounds.\<close> No definition uses fuel: every loop of the source that is modelled is a recursion on a list that
  gets shorter or a directory tree that gets smaller, and the exchange of messages between two nodes and the path
  along the upstreams are partial functions that are shown to return. Statements about floating-point time assume instants below 2^64 nanoseconds, which the
  source's own counters impose. Sizes summed in 64 bits are assumed not to reach 2^64 where a statement says so.

  \<^bold>\<open>Not modelled.\<close> Input and output, the asynchronous run time and encryption (crates or operating system);
  the select loop of a connection beyond its handlers; the BBR and LEDBAT controllers, which are not the
  default; connection establishment and NAT traversal; the operation drivers (\<open>operations/\<close>), routing and topology;
  of the hosting manager the snapshots for the dashboard and for the topology; of the node's operation manager all
  but the snapshot and the gates of the controller; the caches of computed deltas in the interest manager,
  which rest on an external crate; the WebAssembly run time, the stores and the secrets; the HTTP server, the
  command line, configuration and telemetry. The concurrent tables of the ring are modelled one operation at a
  time, apart from the reservation of slots, the counter of the delta memo, the counter of the disk tracker and the
  removal of a client.
\<close>

end
